(* ===== verification/KPrelude.thy ===== *)
theory KPrelude
  imports Main "HOL-Library.Word"
begin

text \<open>
  Shared vocabulary of the development: the machine integer types of the C sources, the
  result type of code that can return, stop or run forever, loop combinators over it, and
  the generic facts on words, lists and finite sets the component theories use.
\<close>

unbundle bit_operations_syntax

type_synonym u8 = "8 word"
type_synonym u16 = "16 word"
type_synonym u32 = "32 word"
type_synonym u64 = "64 word"

text \<open>Facts that run a computation symbolically, and facts about loop counters.\<close>

named_theorems runK
named_theorems word_loop

section \<open>Code that returns, stops or diverges\<close>

text \<open>
  A C function over a state \<open>'s\<close> is a function from the state to an outcome: \<open>None\<close>
  when it never returns (a spin on a lock that stays held, a loop over a cyclic list),
  \<open>Some (Inl e)\<close> when it stops the machine or the process (a kernel panic, \<open>exit\<close>) or
  does what C leaves undefined (\<open>Fault\<close>: a NULL dereference, an index out of range), and
  \<open>Some (Inr (x, s))\<close> when it returns \<open>x\<close> in state \<open>s\<close>.
\<close>

datatype stop = Panic string | Exit int | Fault string

type_synonym 'a outcome = "(stop + 'a) option"
type_synonym ('s, 'a) km = "'s \<Rightarrow> ('a \<times> 's) outcome"

definition retK :: "'a \<Rightarrow> ('s, 'a) km" where
  "retK x = (\<lambda>s. Some (Inr (x, s)))"

definition stopK :: "stop \<Rightarrow> ('s, 'a) km" where
  "stopK e = (\<lambda>s. Some (Inl e))"

definition bindK :: "('s, 'a) km \<Rightarrow> ('a \<Rightarrow> ('s, 'b) km) \<Rightarrow> ('s, 'b) km" where
  "bindK m f = (\<lambda>s. case m s of
      None \<Rightarrow> None
    | Some (Inl e) \<Rightarrow> Some (Inl e)
    | Some (Inr (x, s')) \<Rightarrow> f x s')"

definition getK :: "('s \<Rightarrow> 'a) \<Rightarrow> ('s, 'a) km" where
  "getK f = (\<lambda>s. Some (Inr (f s, s)))"

definition modK :: "('s \<Rightarrow> 's) \<Rightarrow> ('s, unit) km" where
  "modK f = (\<lambda>s. Some (Inr ((), f s)))"

abbreviation seqK :: "('s, unit) km \<Rightarrow> ('s, 'b) km \<Rightarrow> ('s, 'b) km" where
  "seqK m k \<equiv> bindK m (\<lambda>_. k)"

abbreviation whenK :: "bool \<Rightarrow> ('s, unit) km \<Rightarrow> ('s, unit) km" where
  "whenK c m \<equiv> (if c then m else retK ())"

abbreviation returns :: "('a \<times> 's) outcome \<Rightarrow> 'a \<Rightarrow> 's \<Rightarrow> bool" where
  "returns r x s \<equiv> r = Some (Inr (x, s))"

text \<open>An operation on a part of the state, such as a struct inside another.\<close>

definition zoomK :: "('s \<Rightarrow> 't) \<Rightarrow> ('t \<Rightarrow> 's \<Rightarrow> 's) \<Rightarrow> ('t, 'a) km \<Rightarrow> ('s, 'a) km" where
  "zoomK get put m = (\<lambda>s. case m (get s) of
      None \<Rightarrow> None
    | Some (Inl e) \<Rightarrow> Some (Inl e)
    | Some (Inr (x, t)) \<Rightarrow> Some (Inr (x, put t s)))"

text \<open>An access to an array element: an index out of range is undefined in C.\<close>

definition nthK :: "('s \<Rightarrow> 'e list) \<Rightarrow> nat \<Rightarrow> ('s, 'e) km" where
  "nthK get i = (\<lambda>s. if i < length (get s) then Some (Inr (get s ! i, s)) else Some (Inl (Fault ''index'')))"

definition setnthK :: "('s \<Rightarrow> 'e list) \<Rightarrow> (('e list \<Rightarrow> 'e list) \<Rightarrow> 's \<Rightarrow> 's) \<Rightarrow> nat \<Rightarrow> ('e \<Rightarrow> 'e) \<Rightarrow> ('s, unit) km" where
  "setnthK get upd i f = (\<lambda>s. if i < length (get s) then Some (Inr ((), upd (\<lambda>xs. xs[i := f (xs ! i)]) s))
     else Some (Inl (Fault ''index'')))"

lemma retK_run [simp, runK]: "retK x s = Some (Inr (x, s))"
  by (simp add: retK_def)

lemma stopK_run [simp, runK]: "stopK e s = Some (Inl e)"
  by (simp add: stopK_def)

lemma getK_run [simp, runK]: "getK f s = Some (Inr (f s, s))"
  by (simp add: getK_def)

lemma modK_run [simp, runK]: "modK f s = Some (Inr ((), f s))"
  by (simp add: modK_def)

lemma bindK_returns [simp, runK]: "m s = Some (Inr (x, s')) \<Longrightarrow> bindK m f s = f x s'"
  by (simp add: bindK_def)

lemma bindK_stops [simp, runK]: "m s = Some (Inl e) \<Longrightarrow> bindK m f s = Some (Inl e)"
  by (simp add: bindK_def)

lemma bindK_diverges [simp, runK]: "m s = None \<Longrightarrow> bindK m f s = None"
  by (simp add: bindK_def)

lemma bindK_if [simp]: "bindK (if c then m else m') f s = (if c then bindK m f s else bindK m' f s)"
  by simp

lemma bindK_prim [simp]:
  "bindK (getK g) f s = f (g s) s" "bindK (modK h) f' s = f' () (h s)" "bindK (retK x) f'' s = f'' x s"
  "bindK (stopK e) f3 s = Some (Inl e)"
  by (simp_all add: bindK_def getK_def modK_def retK_def stopK_def)

lemma zoomK_returns [simp]: "m (get s) = Some (Inr (x, t)) \<Longrightarrow> zoomK get put m s = Some (Inr (x, put t s))"
  by (simp add: zoomK_def)

lemma zoomK_stops [simp]: "m (get s) = Some (Inl e) \<Longrightarrow> zoomK get put m s = Some (Inl e)"
  by (simp add: zoomK_def)

lemma nthK_run [simp]: "i < length (get s) \<Longrightarrow> nthK get i s = Some (Inr (get s ! i, s))"
  by (simp add: nthK_def)

lemma setnthK_run [simp]:
  "i < length (get s) \<Longrightarrow> setnthK get upd i f s = Some (Inr ((), upd (\<lambda>xs. xs[i := f (xs ! i)]) s))"
  by (simp add: setnthK_def)

lemma array_out_of_range [simp]:
  "length (get s) \<le> i \<Longrightarrow> nthK get i s = Some (Inl (Fault ''index''))"
  "length (get s) \<le> i \<Longrightarrow> setnthK get upd i f s = Some (Inl (Fault ''index''))"
  by (simp_all add: nthK_def setnthK_def)

lemma bindK_eq_returns:
  "bindK m f s = Some (Inr (y, t)) \<longleftrightarrow>
     (\<exists>x s'. m s = Some (Inr (x, s')) \<and> f x s' = Some (Inr (y, t)))"
  by (auto simp: bindK_def split: option.splits sum.splits)

lemma bindK_returnsE:
  assumes "bindK m f s = Some (Inr (y, t))"
  obtains x s' where "m s = Some (Inr (x, s'))" "f x s' = Some (Inr (y, t))"
  using assms by (auto simp: bindK_eq_returns)

lemma bindK_ret_unit: "seqK m (retK ()) = m"
  by (auto simp: bindK_def retK_def fun_eq_iff split: option.splits sum.splits)

lemma bindK_assoc: "bindK (bindK m f) g = bindK m (\<lambda>x. bindK (f x) g)"
  by (auto simp: bindK_def fun_eq_iff split: option.splits sum.splits)

text \<open>Code that throws: an exception is the left value of a result, and a handler sees the state at the throw.\<close>

definition throwE :: "'e \<Rightarrow> ('s, 'e + 'a) km" where "throwE e = retK (Inl e)"
definition returnE :: "'a \<Rightarrow> ('s, 'e + 'a) km" where "returnE x = retK (Inr x)"

definition bindE :: "('s, 'e + 'a) km \<Rightarrow> ('a \<Rightarrow> ('s, 'e + 'b) km) \<Rightarrow> ('s, 'e + 'b) km" where
  "bindE m f = bindK m (\<lambda>r. case r of Inl e \<Rightarrow> retK (Inl e) | Inr x \<Rightarrow> f x)"

abbreviation seqE :: "('s, 'e + unit) km \<Rightarrow> ('s, 'e + 'b) km \<Rightarrow> ('s, 'e + 'b) km" where
  "seqE m k \<equiv> bindE m (\<lambda>_. k)"

lemma throwE_run [simp, runK]: "throwE e s = Some (Inr (Inl e, s))"
  by (simp add: throwE_def)

lemma returnE_run [simp, runK]: "returnE x s = Some (Inr (Inr x, s))"
  by (simp add: returnE_def)

lemma bindE_returns [simp, runK]: "m s = Some (Inr (Inr x, s')) \<Longrightarrow> bindE m f s = f x s'"
  by (simp add: bindE_def)

lemma bindE_throws [simp, runK]: "m s = Some (Inr (Inl e, s')) \<Longrightarrow> bindE m f s = Some (Inr (Inl e, s'))"
  by (simp add: bindE_def)

text \<open>Boolean results need rules of their own, since the simplifier turns an equation with \<open>False\<close> into a negation.\<close>

lemma bind_bool [simp, runK]:
  "m s = Some (Inr (True, s')) \<Longrightarrow> bindK m f s = f True s'" "m s = Some (Inr (False, s')) \<Longrightarrow> bindK m f s = f False s'"
  "k s = Some (Inr (Inr True, s')) \<Longrightarrow> bindE k g s = g True s'" "k s = Some (Inr (Inr False, s')) \<Longrightarrow> bindE k g s = g False s'"
  by (simp_all add: bindK_def bindE_def)

section \<open>Loops\<close>

text \<open>
  A counting loop \<open>for (i = lo; i < hi; i++)\<close> whose bound does not change, and a general
  \<open>while\<close> loop, which may diverge.
\<close>

function forK :: "nat \<Rightarrow> nat \<Rightarrow> (nat \<Rightarrow> ('s, unit) km) \<Rightarrow> ('s, unit) km" where
  "forK i n body = (if i < n then seqK (body i) (forK (Suc i) n body) else retK ())"
  by pat_completeness auto
termination
  by (relation "measure (\<lambda>(i, n, _). n - i)") auto

declare forK.simps [simp del]

partial_function (option) whileK :: "('s \<Rightarrow> bool) \<Rightarrow> ('s, unit) km \<Rightarrow> 's \<Rightarrow> (unit \<times> 's) outcome" where
  "whileK c body s =
     (if c s
      then Option.bind (body s) (\<lambda>r. case r of Inl e \<Rightarrow> Some (Inl e) | Inr (_, s') \<Rightarrow> whileK c body s')
      else Some (Inr ((), s)))"

text \<open>
  A loop over local variables \<open>'x\<close>: the body either leaves the loop with a result
  (\<open>Inl\<close>, a \<open>break\<close> or \<open>return\<close>) or goes round with new values of the locals (\<open>Inr\<close>).
\<close>

partial_function (option) loopK :: "('x \<Rightarrow> ('s, 'r + 'x) km) \<Rightarrow> 'x \<Rightarrow> 's \<Rightarrow> ('r \<times> 's) outcome" where
  "loopK body x s =
     Option.bind (body x s) (\<lambda>r. case r of
         Inl e \<Rightarrow> Some (Inl e)
       | Inr (Inl y, s') \<Rightarrow> Some (Inr (y, s'))
       | Inr (Inr x', s') \<Rightarrow> loopK body x' s')"

text \<open>A spinlock is a flag of the state; taking a lock that is held spins for ever.\<close>

definition spin_lock :: "('s \<Rightarrow> bool) \<Rightarrow> ((bool \<Rightarrow> bool) \<Rightarrow> 's \<Rightarrow> 's) \<Rightarrow> ('s, unit) km" where
  "spin_lock locked upd = seqK (whileK locked (retK ())) (modK (upd (\<lambda>_. True)))"

definition spin_unlock :: "((bool \<Rightarrow> bool) \<Rightarrow> 's \<Rightarrow> 's) \<Rightarrow> ('s, unit) km" where
  "spin_unlock upd = modK (upd (\<lambda>_. False))"

lemma loopK_leave [runK]: "body x s = Some (Inr (Inl y, s')) \<Longrightarrow> loopK body x s = Some (Inr (y, s'))"
  by (simp add: loopK.simps [of body x s])

lemma loopK_again [runK]: "body x s = Some (Inr (Inr x', s')) \<Longrightarrow> loopK body x s = loopK body x' s'"
  by (simp add: loopK.simps [of body x s])

lemma loopK_stops [runK]: "body x s = Some (Inl e) \<Longrightarrow> loopK body x s = Some (Inl e)"
  by (simp add: loopK.simps [of body x s])

text \<open>A loop whose body changes nothing and goes round again never ends.\<close>

lemma loopK_ends:
  assumes "loopK body x s = Some r" shows "body x s \<noteq> Some (Inr (Inr x, s))"
proof -
  have "(case ((body, x), s) of (p, s) \<Rightarrow> (case p of (b, x) \<Rightarrow> \<lambda>s r. b x s \<noteq> Some (Inr (Inr x, s))) s) r"
    by (rule loopK.raw_induct [where P = "\<lambda>b x s r. b x s \<noteq> Some (Inr (Inr x, s))"])
      (use assms in \<open>auto split: sum.splits prod.splits bind_splits\<close>)
  then show ?thesis by simp
qed

lemma loopK_stuck [runK]: "body x s = Some (Inr (Inr x, s)) \<Longrightarrow> loopK body x s = None"
  using loopK_ends [of body x s] by (cases "loopK body x s") auto

text \<open>Total correctness of a loop: an invariant, a variant and what holds when it is left.\<close>

lemma loopK_rule:
  assumes "I x s"
    and step: "\<And>x s. I x s \<Longrightarrow>
        (\<exists>y s'. body x s = Some (Inr (Inl y, s')) \<and> Q y s') \<or>
        (\<exists>x' s'. body x s = Some (Inr (Inr x', s')) \<and> I x' s' \<and> (V x' s' :: nat) < V x s)"
  shows "\<exists>y s'. loopK body x s = Some (Inr (y, s')) \<and> Q y s'"
  using assms(1)
proof (induction "V x s" arbitrary: x s rule: less_induct)
  case less
  from step [OF less.prems] show ?case
  proof (elim disjE exE conjE)
    fix y s' assume "body x s = Some (Inr (Inl y, s'))" "Q y s'"
    then show ?thesis by (auto simp: loopK_leave)
  next
    fix x' s' assume b: "body x s = Some (Inr (Inr x', s'))" and "I x' s'" "V x' s' < V x s"
    then show ?thesis using less.hyps by (simp add: loopK_again [of body, OF b])
  qed
qed

lemma spin_lock_free [simp, runK]: "\<not> locked s \<Longrightarrow> spin_lock locked upd s = Some (Inr ((), upd (\<lambda>_. True) s))"
  by (simp add: spin_lock_def whileK.simps)

lemma spin_unlock_run [simp, runK]: "spin_unlock upd s = Some (Inr ((), upd (\<lambda>_. False) s))"
  by (simp add: spin_unlock_def)

lemma whileK_spins: "whileK c body s = Some r \<Longrightarrow> body = retK () \<longrightarrow> \<not> c s"
  by (rule whileK.raw_induct [where P = "\<lambda>c body s _. body = retK () \<longrightarrow> \<not> c s", rotated])
    (auto split: if_splits, blast)

lemma spin_lock_held [simp, runK]: "locked s \<Longrightarrow> spin_lock locked upd s = None"
  using whileK_spins [of locked "retK ()" s] by (cases "whileK locked (retK ()) s") (auto simp: spin_lock_def)

text \<open>
  The rule for counting loops: an invariant indexed by the counter that every iteration
  takes to the next index and under which every iteration returns.
\<close>

lemma forK_rule:
  assumes "i \<le> n" and "I i s"
    and step: "\<And>j t. i \<le> j \<Longrightarrow> j < n \<Longrightarrow> I j t \<Longrightarrow> \<exists>t'. body j t = Some (Inr ((), t')) \<and> I (Suc j) t'"
  shows "\<exists>s'. forK i n body s = Some (Inr ((), s')) \<and> I n s'"
  using assms
proof (induction i n body arbitrary: s rule: forK.induct)
  case (1 i n body)
  show ?case
  proof (cases "i < n")
    case True
    with "1.prems" obtain t where t: "body i s = Some (Inr ((), t))" "I (Suc i) t" by blast
    have "\<exists>s'. forK (Suc i) n body t = Some (Inr ((), s')) \<and> I n s'"
      by (rule "1.IH") (use True t(2) "1.prems"(3) in auto)
    with t(1) True show ?thesis by (simp add: forK.simps [of i n body])
  next
    case False
    with "1.prems" have "i = n" "I n s" by auto
    then show ?thesis by (subst forK.simps) simp
  qed
qed

text \<open>A counting loop stops when an iteration does.\<close>

lemma forK_stops:
  assumes "i \<le> k" "k < n" "I i s"
    and step: "\<And>j t. i \<le> j \<Longrightarrow> j < k \<Longrightarrow> I j t \<Longrightarrow> \<exists>t'. body j t = Some (Inr ((), t')) \<and> I (Suc j) t'"
    and stop: "\<And>t. I k t \<Longrightarrow> body k t = Some (Inl e)"
  shows "forK i n body s = Some (Inl e)"
  using assms
proof (induction i n body arbitrary: s rule: forK.induct)
  case (1 i n body)
  show ?case
  proof (cases "i = k")
    case True
    then have "body i s = Some (Inl e)" "i < n" using "1.prems" by simp_all
    then show ?thesis by (simp add: forK.simps [of i n body])
  next
    case False
    then obtain t where t: "body i s = Some (Inr ((), t))" "I (Suc i) t" using "1.prems" by (meson le_neq_implies_less order_refl)
    have "forK (Suc i) n body t = Some (Inl e)"
      by (rule "1.IH") (use False t(2) "1.prems" in auto)
    then show ?thesis using t(1) "1.prems" by (simp add: forK.simps [of i n body])
  qed
qed

lemma whileK_done [simp]: "\<not> c s \<Longrightarrow> whileK c body s = Some (Inr ((), s))"
  by (simp add: whileK.simps)

lemma whileK_rule:
  assumes "I s"
    and step: "\<And>t. I t \<Longrightarrow> c t \<Longrightarrow> \<exists>t'. body t = Some (Inr ((), t')) \<and> I t' \<and> (V t' :: nat) < V t"
  shows "\<exists>s'. whileK c body s = Some (Inr ((), s')) \<and> I s' \<and> \<not> c s'"
  using assms(1)
proof (induction "V s" arbitrary: s rule: less_induct)
  case less
  show ?case
  proof (cases "c s")
    case True
    with less.prems step obtain t where t: "body s = Some (Inr ((), t))" "I t" "V t < V s" by blast
    from less.hyps [OF t(3) t(2)] t(1) True show ?thesis by (simp add: whileK.simps [of c body s])
  next
    case False
    with less.prems show ?thesis by (simp add: whileK.simps [of c body s])
  qed
qed

section \<open>Words\<close>

text \<open>A word-indexed upward loop makes progress: the distance to the bound shrinks.\<close>

lemma unat_lt2p: "unat (x :: 'a::len word) < 2 ^ LENGTH('a)"
  by (rule unsigned_less)

lemma unat_of_nat64: "n < 2 ^ 64 \<Longrightarrow> unat (of_nat n :: u64) = n"
  by (simp add: unat_of_nat)

lemma unat_inc:
  fixes i n :: "'a::len word"
  assumes "i < n"
  shows "unat (i + 1) = Suc (unat i)"
proof -
  have "unat i < unat n" using assms by (simp add: word_less_nat_alt)
  then have "unat i + 1 < 2 ^ LENGTH('a)" using unat_lt2p [of n] by linarith
  then show ?thesis by (simp add: unat_plus_if' split: if_splits)
qed

lemma word_up_measure [word_loop]:
  fixes i n :: "'a::len word"
  assumes "i < n"
  shows "unat (n - (i + 1)) < unat (n - i)"
proof -
  have le: "i + 1 \<le> n" using assms by (rule inc_le)
  have lt: "unat i < unat n" using assms by (simp add: word_less_nat_alt)
  have "unat (n - (i + 1)) = unat n - Suc (unat i)"
    using unat_sub [OF le] unat_inc [OF assms] by simp
  moreover have "unat (n - i) = unat n - unat i"
    using unat_sub [of i n] assms by simp
  ultimately show ?thesis using lt by simp
qed

end
