(* ===== verification/Console.thy ===== *)
theory Console
  imports KPrelude
begin

text \<open>
  The diagnostic output of \<^verbatim>\<open>src/kernel/memory.c\<close>: the COM1 serial port, the formatted
  printer \<open>kprintf\<close> and \<open>kpanic\<close>. The state is the trace of port writes and the value
  the UART returns from its line status register; the later parts of \<^verbatim>\<open>memory.c\<close> extend
  this record with their own globals.
\<close>

record kcons =
  io_out :: "(u16 \<times> u8) list"
  uart_lsr :: u8

abbreviation SERIAL_COM1_PORT :: u16 where "SERIAL_COM1_PORT \<equiv> 0x3F8"

definition outb :: "u16 \<Rightarrow> u8 \<Rightarrow> ('a kcons_scheme, unit) km" where
  "outb port value = modK (\<lambda>s. s\<lparr>io_out := io_out s @ [(port, value)]\<rparr>)"

definition serial_init :: "('a kcons_scheme, unit) km" where
  "serial_init =
     seqK (outb (SERIAL_COM1_PORT + 1) 0x00)
    (seqK (outb (SERIAL_COM1_PORT + 3) 0x80)
    (seqK (outb (SERIAL_COM1_PORT + 0) 0x01)
    (seqK (outb (SERIAL_COM1_PORT + 1) 0x00)
    (seqK (outb (SERIAL_COM1_PORT + 3) 0x03)
    (seqK (outb (SERIAL_COM1_PORT + 2) 0xC7)
    (seqK (outb (SERIAL_COM1_PORT + 4) 0x0B)
          (outb SERIAL_COM1_PORT (of_char CHR ''!''))))))))"

text \<open>The only port the code reads is the line status register at \<open>COM1 + 5\<close>.\<close>

definition serial_is_transmit_empty :: "'a kcons_scheme \<Rightarrow> u8" where
  "serial_is_transmit_empty s = uart_lsr s AND 0x20"

definition serial_putchar :: "char \<Rightarrow> ('a kcons_scheme, unit) km" where
  "serial_putchar a =
     seqK (whileK (\<lambda>s. serial_is_transmit_empty s = 0) (retK ()))
          (outb SERIAL_COM1_PORT (of_char a))"

primrec serial_puts :: "string \<Rightarrow> ('a kcons_scheme, unit) km" where
  "serial_puts [] = retK ()"
| "serial_puts (c # cs) = seqK (serial_putchar c) (serial_puts cs)"

definition hex_chars :: string where
  "hex_chars = ''0123456789abcdef''"

function kprint_hex_recursive :: "u64 \<Rightarrow> ('a kcons_scheme, unit) km" where
  "kprint_hex_recursive n =
     (if n = 0 then retK ()
      else seqK (kprint_hex_recursive (n div 16))
                (serial_putchar (hex_chars ! unat (n mod 16))))"
  by pat_completeness auto
termination
  by (relation "measure unat") (auto simp: unat_div unat_gt_0)

declare kprint_hex_recursive.simps [simp del]

definition kprint_hex :: "u64 \<Rightarrow> ('a kcons_scheme, unit) km" where
  "kprint_hex n = (if n = 0 then serial_putchar CHR ''0'' else kprint_hex_recursive n)"

text \<open>
  \<open>kprintf\<close> walks the format string; \<open>va_arg\<close> takes the next argument of the list. An
  argument that is missing or of the wrong kind, and a format that ends inside a
  conversion (the loop then steps over the terminating NUL), are undefined in C.
\<close>

datatype varg = VInt u64 | VStr "string option"

fun kprintf :: "string \<Rightarrow> varg list \<Rightarrow> ('a kcons_scheme, unit) km" where
  "kprintf [] args = retK ()"
| "kprintf (p # ps) args =
     (if p \<noteq> CHR ''%'' then seqK (serial_putchar p) (kprintf ps args)
      else (case ps of
          [] \<Rightarrow> seqK (serial_putchar CHR ''%'') (seqK (serial_putchar (char_of (0 :: nat)))
                 (stopK (Fault ''format string overrun'')))
        | d # ds \<Rightarrow>
           (if d = CHR ''c'' then
              (case args of
                 VInt v # args' \<Rightarrow> seqK (serial_putchar (char_of (unat v))) (kprintf ds args')
               | _ \<Rightarrow> stopK (Fault ''va_arg''))
            else if d = CHR ''s'' then
              (case args of
                 VStr None # args' \<Rightarrow> seqK (serial_puts ''(null)'') (kprintf ds args')
               | VStr (Some str) # args' \<Rightarrow> seqK (serial_puts str) (kprintf ds args')
               | _ \<Rightarrow> stopK (Fault ''va_arg''))
            else if d = CHR ''l'' then
              (case ds of
                 [] \<Rightarrow> seqK (serial_puts ''%l'') (seqK (serial_putchar (char_of (0 :: nat)))
                         (stopK (Fault ''format string overrun'')))
               | e # es \<Rightarrow>
                  (if e = CHR ''x'' then
                     (case args of
                        VInt v # args' \<Rightarrow>
                          seqK (serial_puts ''0x'') (seqK (kprint_hex v) (kprintf es args'))
                      | _ \<Rightarrow> stopK (Fault ''va_arg''))
                   else seqK (serial_putchar CHR ''%'') (seqK (serial_putchar CHR ''l'')
                          (seqK (serial_putchar e) (kprintf es args)))))
            else if d = CHR ''p'' then
              (case args of
                 VInt v # args' \<Rightarrow>
                   seqK (serial_puts ''0x'') (seqK (kprint_hex v) (kprintf ds args'))
               | _ \<Rightarrow> stopK (Fault ''va_arg''))
            else if d = CHR ''%'' then seqK (serial_putchar CHR ''%'') (kprintf ds args)
            else seqK (serial_putchar CHR ''%'') (seqK (serial_putchar d) (kprintf ds args)))))"

text \<open>
  \<open>kpanic\<close> prints its report and halts for ever. \<open>line\<close> is passed to a \<^verbatim>\<open>%d\<close>
  conversion, which \<open>kprintf\<close> does not have.
\<close>

definition kpanic_report :: "string \<Rightarrow> string \<Rightarrow> u64 \<Rightarrow> ('a kcons_scheme, unit) km" where
  "kpanic_report msg file line =
     seqK (kprintf ''\<newline>*** KERNEL PANIC ***\<newline>'' [])
    (seqK (kprintf ''Reason: %s\<newline>'' [VStr (Some msg)])
    (seqK (kprintf ''At: %s:%d\<newline>'' [VStr (Some file), VInt line])
          (kprintf ''System halted.\<newline>'' [])))"

definition kpanic :: "string \<Rightarrow> string \<Rightarrow> u64 \<Rightarrow> ('a kcons_scheme, 'b) km" where
  "kpanic msg file line = bindK (kpanic_report msg file line) (\<lambda>_. stopK (Panic msg))"

definition ASSERT :: "bool \<Rightarrow> string \<Rightarrow> u64 \<Rightarrow> ('a kcons_scheme, unit) km" where
  "ASSERT cond txt line =
     (if \<not> cond then kpanic (''Assertion failed: '' @ txt) ''memory.c'' line else retK ())"

section \<open>What is printed\<close>

definition uart_ready :: "'a kcons_scheme \<Rightarrow> bool" where
  "uart_ready s \<longleftrightarrow> uart_lsr s AND 0x20 \<noteq> 0"

text \<open>The state after a string has gone out on COM1.\<close>

definition printed :: "string \<Rightarrow> 'a kcons_scheme \<Rightarrow> 'a kcons_scheme" where
  "printed str s = s\<lparr>io_out := io_out s @ map (\<lambda>c. (SERIAL_COM1_PORT, of_char c)) str\<rparr>"

lemma printed_Nil [simp]: "printed [] s = s"
  by (simp add: printed_def)

lemma printed_printed [simp]: "printed b (printed a s) = printed (a @ b) s"
  by (simp add: printed_def)

lemma uart_ready_printed [simp]: "uart_ready (printed str s) = uart_ready s"
  by (simp add: printed_def uart_ready_def)

lemma serial_putchar_ready [simp, runK]:
  "uart_ready s \<Longrightarrow> serial_putchar c s = Some (Inr ((), printed [c] s))"
  by (simp add: serial_putchar_def uart_ready_def serial_is_transmit_empty_def outb_def
      whileK.simps printed_def)

lemma serial_puts_ready [simp, runK]:
  "uart_ready s \<Longrightarrow> serial_puts str s = Some (Inr ((), printed str s))"
  by (induction str arbitrary: s) simp_all

lemma ASSERT_True [simp, runK]: "ASSERT True txt line = retK ()"
  by (simp add: ASSERT_def)

lemma ASSERT_holds [runK]: "c \<Longrightarrow> ASSERT c txt line s = Some (Inr ((), s))"
  by simp

text \<open>The digits \<open>kprint_hex\<close> sends, and the number a string of hex digits denotes.\<close>

function hex_digits :: "u64 \<Rightarrow> string" where
  "hex_digits n = (if n = 0 then [] else hex_digits (n div 16) @ [hex_chars ! unat (n mod 16)])"
  by pat_completeness auto
termination
  by (relation "measure unat") (auto simp: unat_div unat_gt_0)

declare hex_digits.simps [simp del]

definition hex_digit_val :: "char \<Rightarrow> nat" where
  "hex_digit_val c = length (takeWhile (\<lambda>d. d \<noteq> c) hex_chars)"

definition hex_val :: "string \<Rightarrow> nat" where
  "hex_val str = foldl (\<lambda>acc c. 16 * acc + hex_digit_val c) 0 str"

lemma hex_val_snoc [simp]: "hex_val (str @ [c]) = 16 * hex_val str + hex_digit_val c"
  by (simp add: hex_val_def)

lemma hex_digit_val_nth: "d < 16 \<Longrightarrow> hex_digit_val (hex_chars ! d) = d"
proof -
  have "\<forall>d \<in> set [0..<16]. hex_digit_val (hex_chars ! d) = d" by code_simp
  then show "d < 16 \<Longrightarrow> hex_digit_val (hex_chars ! d) = d" by simp
qed

lemma hex_val_digits: "hex_val (hex_digits n) = unat n"
proof (induction n rule: hex_digits.induct)
  case (1 n)
  show ?case
  proof (cases "n = 0")
    case True
    then show ?thesis by (simp add: hex_digits.simps [of 0] hex_val_def)
  next
    case False
    have "hex_val (hex_digits n) = 16 * unat (n div 16) + hex_digit_val (hex_chars ! unat (n mod 16))"
      using False 1 by (subst hex_digits.simps) simp
    also have "\<dots> = 16 * (unat n div 16) + unat n mod 16"
      by (simp add: unat_div unat_mod hex_digit_val_nth)
    finally show ?thesis by simp
  qed
qed

lemma kprint_hex_recursive_ready:
  "uart_ready s \<Longrightarrow> kprint_hex_recursive n s = Some (Inr ((), printed (hex_digits n) s))"
proof (induction n arbitrary: s rule: kprint_hex_recursive.induct)
  case (1 n)
  then show ?case
    by (subst kprint_hex_recursive.simps, subst hex_digits.simps) (cases "n = 0"; simp)
qed

definition hex_string :: "u64 \<Rightarrow> string" where
  "hex_string n = (if n = 0 then ''0'' else hex_digits n)"

lemma kprint_hex_ready [simp, runK]:
  "uart_ready s \<Longrightarrow> kprint_hex n s = Some (Inr ((), printed (hex_string n) s))"
  by (simp add: kprint_hex_def hex_string_def kprint_hex_recursive_ready)

lemma hex_val_hex_string: "hex_val (hex_string n) = unat n"
  by (simp add: hex_string_def hex_val_digits) (simp add: hex_val_def hex_digit_val_def hex_chars_def)

text \<open>
  What a format prints, as a function: \<open>None\<close> when \<open>kprintf\<close> would read an argument that
  is not there or run over the end of the format.
\<close>

fun format :: "string \<Rightarrow> varg list \<Rightarrow> string option" where
  "format [] args = Some []"
| "format (p # ps) args =
     (if p \<noteq> CHR ''%'' then map_option (Cons p) (format ps args)
      else (case ps of
          [] \<Rightarrow> None
        | d # ds \<Rightarrow>
           (if d = CHR ''c'' then
              (case args of VInt v # args' \<Rightarrow> map_option (Cons (char_of (unat v))) (format ds args') | _ \<Rightarrow> None)
            else if d = CHR ''s'' then
              (case args of
                 VStr None # args' \<Rightarrow> map_option (append ''(null)'') (format ds args')
               | VStr (Some str) # args' \<Rightarrow> map_option (append str) (format ds args')
               | _ \<Rightarrow> None)
            else if d = CHR ''l'' then
              (case ds of
                 [] \<Rightarrow> None
               | e # es \<Rightarrow>
                  (if e = CHR ''x'' then
                     (case args of
                        VInt v # args' \<Rightarrow> map_option (append (''0x'' @ hex_string v)) (format es args')
                      | _ \<Rightarrow> None)
                   else map_option (append (''%l'' @ [e])) (format es args)))
            else if d = CHR ''p'' then
              (case args of
                 VInt v # args' \<Rightarrow> map_option (append (''0x'' @ hex_string v)) (format ds args')
               | _ \<Rightarrow> None)
            else if d = CHR ''%'' then map_option (Cons CHR ''%'') (format ds args)
            else map_option (append [CHR ''%'', d]) (format ds args))))"

lemma kprintf_format:
  "uart_ready s \<Longrightarrow> format fmt args = Some str \<Longrightarrow> kprintf fmt args s = Some (Inr ((), printed str s))"
proof (induction fmt args arbitrary: s str rule: kprintf.induct)
  case (2 p ps args)
  show ?case
  proof (cases "p = CHR ''%''")
    case False
    then show ?thesis using "2.IH"(1) [OF False] "2.prems" by auto
  next
    case pct: True
    obtain d ds where ps: "ps = d # ds" using pct "2.prems"(2) by (cases ps) auto
    have nn: "\<not> p \<noteq> CHR ''%''" using pct by simp
    note IH = "2.IH"(2-) [OF nn ps]
    consider (c) "d = CHR ''c''" | (s) "d = CHR ''s''" | (l) "d = CHR ''l''" | (p) "d = CHR ''p''"
      | (pc) "d = CHR ''%''" | (other) "d \<notin> {CHR ''c'', CHR ''s'', CHR ''l'', CHR ''p'', CHR ''%''}" by blast
    then show ?thesis
    proof cases
      case c
      then show ?thesis using IH(1) "2.prems" pct ps by (auto split: list.splits varg.splits)
    next
      case s
      then show ?thesis using IH(2,3) "2.prems" pct ps by (auto split: list.splits varg.splits option.splits)
    next
      case l
      then show ?thesis using IH(4,5) "2.prems" pct ps by (auto split: list.splits varg.splits if_splits)
    next
      case p
      then show ?thesis using IH(6) "2.prems" pct ps by (auto split: list.splits varg.splits)
    next
      case pc
      then show ?thesis using IH(7) "2.prems" pct ps by auto
    next
      case other
      then show ?thesis using IH(8) "2.prems" pct ps by auto
    qed
  qed
qed simp

lemma kprintf_ready:
  assumes "uart_ready s" "format fmt args \<noteq> None"
  obtains str where "kprintf fmt args s = Some (Inr ((), printed str s))"
  using assms kprintf_format by blast

declare kprintf.simps [simp del]

text \<open>\<open>kpanic\<close> never returns; when the UART drains, its report is out and the machine halted.\<close>

lemma kpanic_run: "uart_ready s \<Longrightarrow> kpanic msg file line s = Some (Inl (Panic msg))"
  by (simp add: kpanic_def kpanic_report_def kprintf_format)

lemma kpanic_never_returns: "kpanic msg file line s \<noteq> Some (Inr r)"
  by (cases r) (auto simp: kpanic_def bindK_eq_returns)

end
