(* ===== verification/Contracts.thy ===== *)
theory Contracts
  imports KPrelude
begin

text \<open>
  The interfaces that several components of the kernel provide or rely on, as locales: the
  laws each provider promises, and what follows from the laws alone. Every locale is
  interpreted in the theory of the component that implements it.
\<close>

section \<open>Allocators of physical frames\<close>

text \<open>Calling an operation \<open>n\<close> times and collecting the results.\<close>

primrec repeatK :: "nat \<Rightarrow> ('s, 'a) km \<Rightarrow> ('s, 'a list) km" where
  "repeatK 0 m = retK []"
| "repeatK (Suc n) m = bindK m (\<lambda>x. bindK (repeatK n m) (\<lambda>xs. retK (x # xs)))"

text \<open>
  A source of frames. \<open>ok\<close> tells a frame from the value that reports failure; the frames in
  \<open>reserved\<close> belong to the allocator and must not be given back.
\<close>

locale frame_source =
  fixes inv :: "'s \<Rightarrow> bool"
    and frames :: "'s \<Rightarrow> 'f set"
    and used :: "'s \<Rightarrow> 'f set"
    and reserved :: "'s \<Rightarrow> 'f set"
    and ok :: "'f \<Rightarrow> bool"
    and alloc :: "('s, 'f) km"
    and free :: "'f \<Rightarrow> ('s, unit) km"
  assumes alloc_sound:
      "inv s \<Longrightarrow> alloc s = Some (Inr (f, s')) \<Longrightarrow> ok f \<Longrightarrow>
         f \<in> frames s \<and> f \<notin> used s \<and> used s' = insert f (used s) \<and> frames s' = frames s \<and>
         reserved s' = reserved s \<and> inv s'"
    and free_ok:
      "inv s \<Longrightarrow> f \<in> used s \<Longrightarrow> f \<notin> reserved s \<Longrightarrow>
         \<exists>s'. free f s = Some (Inr ((), s')) \<and> used s' = used s - {f} \<and> frames s' = frames s \<and>
              reserved s' = reserved s \<and> inv s'"
    and reserved_used: "inv s \<Longrightarrow> reserved s \<subseteq> used s"
begin

text \<open>Frames handed out by successive calls are pairwise different and were all free.\<close>

lemma allocs_distinct:
  assumes "inv s" "repeatK n alloc s = Some (Inr (fs, s'))" "list_all ok fs"
  shows "distinct fs \<and> length fs = n \<and> set fs \<subseteq> frames s - used s \<and> used s' = set fs \<union> used s \<and>
         frames s' = frames s \<and> reserved s' = reserved s \<and> inv s'"
  using assms
proof (induction n arbitrary: s fs)
  case (Suc n)
  from Suc.prems(2) obtain f t gs where
    f: "alloc s = Some (Inr (f, t))" and gs: "repeatK n alloc t = Some (Inr (gs, s'))" "fs = f # gs"
    by (auto simp: bindK_eq_returns)
  have ft: "f \<in> frames s" "f \<notin> used s" "used t = insert f (used s)" "frames t = frames s"
    "reserved t = reserved s" "inv t"
    using alloc_sound [OF Suc.prems(1) f] Suc.prems(3) gs(2) by auto
  have "distinct gs \<and> length gs = n \<and> set gs \<subseteq> frames t - used t \<and> used s' = set gs \<union> used t \<and>
         frames s' = frames t \<and> reserved s' = reserved t \<and> inv s'"
    using Suc.IH [OF ft(6) gs(1)] Suc.prems(3) gs(2) by simp
  then show ?case using ft gs(2) by auto
qed simp

text \<open>A frame that has just been handed out can be given back, and then nothing has changed.\<close>

lemma alloc_free:
  assumes "inv s" "alloc s = Some (Inr (f, t))" "ok f"
  shows "\<exists>s'. free f t = Some (Inr ((), s')) \<and> used s' = used s \<and> frames s' = frames s \<and> inv s'"
proof -
  note a = alloc_sound [OF assms]
  moreover have "f \<notin> reserved t" using a reserved_used [OF assms(1)] by auto
  ultimately show ?thesis using free_ok [of t f] by auto
qed

end

text \<open>A source that never refuses while a frame is free.\<close>

locale total_frame_source = frame_source +
  assumes alloc_total:
      "inv s \<Longrightarrow> \<not> frames s \<subseteq> used s \<Longrightarrow> \<exists>f s'. alloc s = Some (Inr (f, s')) \<and> ok f"
    and frames_finite: "finite (frames s)"
begin

lemma allocs_total:
  assumes "inv s" "n \<le> card (frames s - used s)"
  shows "\<exists>fs s'. repeatK n alloc s = Some (Inr (fs, s')) \<and> list_all ok fs"
  using assms
proof (induction n arbitrary: s)
  case (Suc n)
  then have "frames s - used s \<noteq> {}" by (metis card.empty not_less_eq_eq zero_le)
  then obtain f t where f: "alloc s = Some (Inr (f, t))" "ok f"
    using alloc_total [OF Suc.prems(1)] by blast
  note a = alloc_sound [OF Suc.prems(1) f]
  have "frames t - used t = (frames s - used s) - {f}" using a by auto
  moreover have "card ((frames s - used s) - {f}) = card (frames s - used s) - 1"
    using a frames_finite by (intro card_Diff_singleton) auto
  ultimately have "n \<le> card (frames t - used t)" using Suc.prems(2) by simp
  with Suc.IH a obtain gs s' where "repeatK n alloc t = Some (Inr (gs, s'))" "list_all ok gs" by blast
  with f show ?case by auto
qed simp

end

section \<open>Address spaces\<close>

text \<open>
  An address space maps pages to entries. \<open>room\<close> says that a mapping can be made; a
  request \<open>'r\<close> is stored as the entry \<open>enc\<close> gives for it.
\<close>

locale page_map =
  fixes inv :: "'s \<Rightarrow> bool"
    and room :: "'s \<Rightarrow> bool"
    and page_no :: "'v \<Rightarrow> 'n"
    and aligned :: "'v \<Rightarrow> bool"
    and enc :: "'r \<Rightarrow> 'e"
    and valid :: "'r \<Rightarrow> bool"
    and lookup :: "'s \<Rightarrow> 'v \<Rightarrow> 'e option"
    and map_page :: "'v \<Rightarrow> 'r \<Rightarrow> ('s, bool) km"
    and unmap_page :: "'v \<Rightarrow> ('s, 'x) km"
  assumes map_ok:
      "inv s \<Longrightarrow> room s \<Longrightarrow> aligned v \<Longrightarrow> valid r \<Longrightarrow>
         \<exists>s'. map_page v r s = Some (Inr (True, s')) \<and> inv s' \<and> lookup s' v = Some (enc r) \<and>
              (\<forall>w. page_no w \<noteq> page_no v \<longrightarrow> lookup s' w = lookup s w)"
    and unmap_ok:
      "inv s \<Longrightarrow> aligned v \<Longrightarrow>
         \<exists>x s'. unmap_page v s = Some (Inr (x, s')) \<and> inv s' \<and> lookup s' v = None \<and>
              (\<forall>w. page_no w \<noteq> page_no v \<longrightarrow> lookup s' w = lookup s w)"
    and lookup_page: "page_no v = page_no w \<Longrightarrow> lookup s v = lookup s w"
begin

text \<open>Mapping a page that was not mapped and unmapping it again restores every translation.\<close>

lemma map_unmap:
  assumes "inv s" "room s" "aligned v" "valid r" "lookup s v = None"
  shows "\<exists>s1 x s2. map_page v r s = Some (Inr (True, s1)) \<and> unmap_page v s1 = Some (Inr (x, s2)) \<and>
           inv s2 \<and> lookup s2 = lookup s"
proof -
  obtain s1 where s1: "map_page v r s = Some (Inr (True, s1))" "inv s1"
    and m: "\<And>w. page_no w \<noteq> page_no v \<Longrightarrow> lookup s1 w = lookup s w"
    using map_ok [OF assms(1-4)] by blast
  obtain x s2 where s2: "unmap_page v s1 = Some (Inr (x, s2))" "inv s2" "lookup s2 v = None"
    and u: "\<And>w. page_no w \<noteq> page_no v \<Longrightarrow> lookup s2 w = lookup s1 w"
    using unmap_ok [OF s1(2) assms(3)] by blast
  have "lookup s2 w = lookup s w" for w
    using m [of w] u [of w] s2(3) assms(5) lookup_page [of w v] by (cases "page_no w = page_no v") auto
  then show ?thesis using s1 s2 by blast
qed

text \<open>Of two mappings of the same page the last one counts.\<close>

lemma map_map:
  assumes "inv s" "room s" "aligned v" "valid r" "valid r'"
    and "\<And>s'. map_page v r s = Some (Inr (True, s')) \<Longrightarrow> room s'"
  shows "\<exists>s1 s2. map_page v r s = Some (Inr (True, s1)) \<and> map_page v r' s1 = Some (Inr (True, s2)) \<and>
           inv s2 \<and> lookup s2 v = Some (enc r')"
  using map_ok [OF assms(1-4)] map_ok assms by meson

end

section \<open>Queues\<close>

text \<open>
  A first-in first-out queue. \<open>put\<close> may store an element with further data; \<open>key\<close> is the part
  of an element that identifies it, and \<open>contents\<close> lists the keys in the order in which
  \<open>get\<close> will return them.
\<close>

locale fifo_queue =
  fixes inv :: "'s \<Rightarrow> bool"
    and contents :: "'s \<Rightarrow> 'k list"
    and room :: "'s \<Rightarrow> bool"
    and put :: "'a \<Rightarrow> ('s, 'r) km"
    and get :: "('s, 'b option) km"
    and put_key :: "'a \<Rightarrow> 'k"
    and get_key :: "'b \<Rightarrow> 'k"
  assumes put_ok:
      "inv s \<Longrightarrow> room s \<Longrightarrow>
         \<exists>r s'. put x s = Some (Inr (r, s')) \<and> inv s' \<and> contents s' = contents s @ [put_key x]"
    and get_ok:
      "inv s \<Longrightarrow> contents s = k # ks \<Longrightarrow>
         \<exists>y s'. get s = Some (Inr (Some y, s')) \<and> inv s' \<and> get_key y = k \<and> contents s' = ks"
    and get_empty: "inv s \<Longrightarrow> contents s = [] \<Longrightarrow> \<exists>s'. get s = Some (Inr (None, s')) \<and> inv s' \<and> contents s' = []"
begin

text \<open>Elements come out in the order in which they went in.\<close>

lemma gets_in_order:
  assumes "inv s" "n \<le> length (contents s)"
  shows "\<exists>ys s'. repeatK n get s = Some (Inr (map Some ys, s')) \<and> map get_key ys = take n (contents s) \<and>
           contents s' = drop n (contents s) \<and> inv s'"
  using assms
proof (induction n arbitrary: s)
  case (Suc n)
  then obtain k ks where c: "contents s = k # ks" by (cases "contents s") auto
  obtain y t where t: "get s = Some (Inr (Some y, t))" "inv t" "get_key y = k" "contents t = ks"
    using get_ok [OF Suc.prems(1) c] by blast
  obtain ys s' where "repeatK n get t = Some (Inr (map Some ys, s'))" "map get_key ys = take n ks"
    "contents s' = drop n ks" "inv s'"
    using Suc.IH [OF t(2)] Suc.prems(2) t(4) c by auto
  then show ?case using t c by (intro exI [of _ "y # ys"] exI [of _ s']) simp
qed simp

text \<open>An element put into the queue comes out after all that were there, whatever it is.\<close>

lemma put_then_gets:
  assumes "inv s" "room s"
  shows "\<exists>r t ys y s'. put x s = Some (Inr (r, t)) \<and>
           repeatK (Suc (length (contents s))) get t = Some (Inr (map Some (ys @ [y]), s')) \<and>
           map get_key ys = contents s \<and> get_key y = put_key x \<and> contents s' = [] \<and> inv s'"
proof -
  obtain r t where t: "put x s = Some (Inr (r, t))" "inv t" "contents t = contents s @ [put_key x]"
    using put_ok [OF assms] by blast
  obtain zs s' where z: "repeatK (Suc (length (contents s))) get t = Some (Inr (map Some zs, s'))"
    "map get_key zs = take (Suc (length (contents s))) (contents t)" "contents s' = drop (Suc (length (contents s))) (contents t)" "inv s'"
    using gets_in_order [OF t(2), of "Suc (length (contents s))"] t(3) by auto
  then have k: "map get_key zs = contents s @ [put_key x]" using t(3) by simp
  then obtain ys y where "zs = ys @ [y]" by (metis append_is_Nil_conv list.map_disc_iff list.distinct(1) rev_exhaust)
  then show ?thesis using z t k by auto
qed

end

end
