(* ===== verification/Pmm.thy ===== *)
theory Pmm
  imports Console Contracts
begin

text \<open>
  The physical memory manager of \<^verbatim>\<open>src/kernel/memory.c\<close>: a bitmap allocator of 4 KiB
  frames. The bitmap is a region of the physical memory it manages, reached through the
  higher-half direct map; physical memory is a function from qword addresses to qwords.
  The theory proves the allocator against an abstract set of used frames, including that
  zeroing a fresh frame can never hit the bitmap itself.
\<close>

abbreviation PAGE_SIZE :: u64 where "PAGE_SIZE \<equiv> 0x1000"

definition align_down :: "u64 \<Rightarrow> u64 \<Rightarrow> u64" where
  "align_down val align = val AND NOT (align - 1)"

definition align_up :: "u64 \<Rightarrow> u64 \<Rightarrow> u64" where
  "align_up val align = align_down (val + align - 1) align"

record pmm = kcons +
  phys_mem :: "u64 \<Rightarrow> u64"
  hhdm_phys_offset :: u64
  pmm_bitmap :: u64
  pmm_bitmap_size_qwords :: u64
  pmm_total_frames :: u64
  pmm_used_frames :: u64
  pmm_highest_frame :: u64
  pmm_lock :: bool
  pmm_last_allocated_index :: u64

definition phys_to_virt :: "u64 \<Rightarrow> ('a pmm_scheme, u64) km" where
  "phys_to_virt phys_addr =
     bindK (getK hhdm_phys_offset) (\<lambda>h.
     seqK (ASSERT (h \<noteq> 0) ''hhdm_phys_offset != 0'' 249)
          (retK (phys_addr + h)))"

definition virt_to_phys :: "u64 \<Rightarrow> ('a pmm_scheme, u64) km" where
  "virt_to_phys virt_addr =
     bindK (getK hhdm_phys_offset) (\<lambda>h.
     seqK (ASSERT (h \<noteq> 0) ''hhdm_phys_offset != 0'' 256)
    (seqK (ASSERT (h \<le> virt_addr) ''(uint64_t)virt_addr >= hhdm_phys_offset'' 257)
          (retK (virt_addr - h))))"

text \<open>
  \<open>memset\<close> through the direct map. Every call in the file has a qword-aligned
  destination and a size that is a multiple of eight, which is what this memory model can
  express; \<open>value\<close> is the byte that is stored.
\<close>

definition memset :: "u64 \<Rightarrow> u8 \<Rightarrow> u64 \<Rightarrow> ('a pmm_scheme, unit) km" where
  "memset dest value count =
     bindK (getK (\<lambda>s. dest - hhdm_phys_offset s)) (\<lambda>start.
     if start AND 7 = 0 \<and> count AND 7 = 0 then
       modK (\<lambda>s. s\<lparr>phys_mem := (\<lambda>a. if a - start < count
                                     then ucast value * 0x0101010101010101 else phys_mem s a)\<rparr>)
     else stopK (Fault ''memset: unaligned''))"

text \<open>The qword \<open>pmm_bitmap[i]\<close>.\<close>

definition bm_addr :: "'a pmm_scheme \<Rightarrow> u64 \<Rightarrow> u64" where
  "bm_addr s i = pmm_bitmap s + 8 * i - hhdm_phys_offset s"

definition bm_qword :: "'a pmm_scheme \<Rightarrow> u64 \<Rightarrow> u64" where
  "bm_qword s i = phys_mem s (bm_addr s i)"

definition bm_store :: "u64 \<Rightarrow> u64 \<Rightarrow> 'a pmm_scheme \<Rightarrow> 'a pmm_scheme" where
  "bm_store i q s = s\<lparr>phys_mem := (phys_mem s)(bm_addr s i := q)\<rparr>"

definition pmm_bitmap_set :: "u64 \<Rightarrow> ('a pmm_scheme, unit) km" where
  "pmm_bitmap_set frame_index =
     (let idx = frame_index div 64; b = frame_index mod 64 in
      bindK (getK pmm_bitmap_size_qwords) (\<lambda>n.
      seqK (ASSERT (idx < n) ''idx < pmm_bitmap_size_qwords'' 266)
           (modK (\<lambda>s. bm_store idx (bm_qword s idx OR push_bit (unat b) 1) s))))"

definition pmm_bitmap_clear :: "u64 \<Rightarrow> ('a pmm_scheme, unit) km" where
  "pmm_bitmap_clear frame_index =
     (let idx = frame_index div 64; b = frame_index mod 64 in
      bindK (getK pmm_bitmap_size_qwords) (\<lambda>n.
      seqK (ASSERT (idx < n) ''idx < pmm_bitmap_size_qwords'' 274)
           (modK (\<lambda>s. bm_store idx (bm_qword s idx AND NOT (push_bit (unat b) 1)) s))))"

definition pmm_bitmap_test :: "u64 \<Rightarrow> ('a pmm_scheme, bool) km" where
  "pmm_bitmap_test frame_index =
     (let idx = frame_index div 64; b = frame_index mod 64 in
      bindK (getK pmm_bitmap_size_qwords) (\<lambda>n.
      seqK (ASSERT (idx < n) ''idx < pmm_bitmap_size_qwords'' 282)
           (getK (\<lambda>s. bm_qword s idx AND push_bit (unat b) 1 \<noteq> 0))))"

text \<open>\<open>__builtin_ctzll\<close>: the position of the lowest bit that is set.\<close>

definition ctzll :: "u64 \<Rightarrow> nat" where
  "ctzll w = length (takeWhile (\<lambda>n. \<not> bit w n) [0..<64])"

text \<open>
  The search for one frame: the loop of the \<open>count == 1\<close> branch, from loop counter \<open>i\<close>
  on. The \<^verbatim>\<open>int64_t\<close> result is kept as its bit pattern, so \<open>-1\<close> is the all-ones word.
\<close>

function pmm_find_single :: "'a pmm_scheme \<Rightarrow> u64 \<Rightarrow> u64 \<Rightarrow> u64" where
  "pmm_find_single s start_qword i =
     (if i < pmm_bitmap_size_qwords s then
        (let current_qword_idx = (start_qword + i) mod pmm_bitmap_size_qwords s;
             qword = bm_qword s current_qword_idx;
             frame_index = current_qword_idx * 64 + of_nat (ctzll (NOT qword)) in
         if qword \<noteq> -1 \<and> frame_index \<le> pmm_highest_frame s then frame_index
         else pmm_find_single s start_qword (i + 1))
      else -1)"
  by pat_completeness auto
termination
  by (relation "measure (\<lambda>(s, start, i). unat (pmm_bitmap_size_qwords s - i))")
    (simp_all add: word_up_measure)

declare pmm_find_single.simps [simp del]

text \<open>One round of the loop of the contiguous search; the locals are the offset and the run length.\<close>

definition pmm_find_run :: "u64 \<Rightarrow> u64 \<Rightarrow> u64 \<times> u64 \<Rightarrow> ('a pmm_scheme, u64 + u64 \<times> u64) km" where
  "pmm_find_run count start_index = (\<lambda>(current_offset, consecutive_free).
     bindK (getK pmm_highest_frame) (\<lambda>highest.
     if current_offset \<le> highest then
       (let search_index = (start_index + current_offset) mod (highest + 1) in
        bindK (pmm_bitmap_test search_index) (\<lambda>b.
        if \<not> b then
          if consecutive_free + 1 = count then retK (Inl (search_index - count + 1))
          else retK (Inr (current_offset + 1, consecutive_free + 1))
        else retK (Inr (current_offset + 1, 0))))
     else retK (Inl (-1))))"

definition pmm_find_first_free_contiguous :: "u64 \<Rightarrow> ('a pmm_scheme, u64) km" where
  "pmm_find_first_free_contiguous count =
     (if count = 0 then retK (-1)
      else if count = 1 then
        getK (\<lambda>s. pmm_find_single s (pmm_last_allocated_index s div 64) 0)
      else
        bindK (getK (\<lambda>s. if pmm_highest_frame s < pmm_last_allocated_index s + 1 then 0
                         else pmm_last_allocated_index s + 1)) (\<lambda>start_index.
        loopK (pmm_find_run count start_index) (0, 0)))"

definition pmm_alloc_frame :: "('a pmm_scheme, u64) km" where
  "pmm_alloc_frame =
     seqK (spin_lock pmm_lock pmm_lock_update)
    (bindK (pmm_find_first_free_contiguous 1) (\<lambda>frame_index.
     if frame_index = -1 then
       seqK (spin_unlock pmm_lock_update)
            (kpanic ''PMM: Out of physical memory!'' ''memory.c'' 343)
     else
       bindK (pmm_bitmap_test frame_index) (\<lambda>b.
       seqK (ASSERT (\<not> b) ''!pmm_bitmap_test(frame_index)'' 350)
      (seqK (pmm_bitmap_set frame_index)
      (seqK (modK (\<lambda>s. s\<lparr>pmm_used_frames := pmm_used_frames s + 1\<rparr>))
      (seqK (modK (\<lambda>s. s\<lparr>pmm_last_allocated_index := frame_index\<rparr>))
      (bindK (phys_to_virt (frame_index * PAGE_SIZE)) (\<lambda>virt_addr.
       seqK (memset virt_addr 0 PAGE_SIZE)
      (seqK (spin_unlock pmm_lock_update)
            (retK (frame_index * PAGE_SIZE)))))))))))"

definition pmm_free_frame :: "u64 \<Rightarrow> ('a pmm_scheme, unit) km" where
  "pmm_free_frame phys_addr =
     seqK (ASSERT (phys_addr mod PAGE_SIZE = 0) ''(phys_addr % PAGE_SIZE) == 0'' 370)
    (bindK (getK pmm_highest_frame) (\<lambda>highest.
     let frame_index = phys_addr div PAGE_SIZE in
     seqK (ASSERT (frame_index \<le> highest) ''frame_index <= pmm_highest_frame'' 372)
    (seqK (spin_lock pmm_lock pmm_lock_update)
    (bindK (pmm_bitmap_test frame_index) (\<lambda>b.
     if \<not> b then
       seqK (spin_unlock pmm_lock_update)
            (kpanic ''PMM: Attempted to free already free frame!'' ''memory.c'' 378)
     else
       seqK (pmm_bitmap_clear frame_index)
      (seqK (modK (\<lambda>s. s\<lparr>pmm_used_frames := pmm_used_frames s - 1\<rparr>))
            (spin_unlock pmm_lock_update)))))))"

section \<open>The allocator's invariant\<close>

definition frame_used :: "'a pmm_scheme \<Rightarrow> u64 \<Rightarrow> bool" where
  "frame_used s f \<longleftrightarrow> bit (bm_qword s (f div 64)) (unat (f mod 64))"

definition all_frames :: "'a pmm_scheme \<Rightarrow> u64 list" where
  "all_frames s = map of_nat [0..<Suc (unat (pmm_highest_frame s))]"

text \<open>The frames that hold the bitmap.\<close>

definition bitmap_frames :: "'a pmm_scheme \<Rightarrow> u64 list" where
  "bitmap_frames s = map (\<lambda>i. bm_addr s (of_nat i) div PAGE_SIZE) [0..<unat (pmm_bitmap_size_qwords s)]"

text \<open>
  The bitmap covers exactly the frames up to the highest one, lies in the memory it
  manages, has its own frames marked used, and the counter of used frames is right.
\<close>

definition pmm_inv :: "'a pmm_scheme \<Rightarrow> bool" where
  "pmm_inv s \<longleftrightarrow>
     hhdm_phys_offset s \<noteq> 0 \<and>
     pmm_highest_frame s < 2 ^ 52 \<and>
     pmm_total_frames s = pmm_highest_frame s + 1 \<and>
     pmm_bitmap_size_qwords s = pmm_highest_frame s div 64 + 1 \<and>
     pmm_last_allocated_index s \<le> pmm_highest_frame s \<and>
     unat (bm_addr s 0) + 8 * unat (pmm_bitmap_size_qwords s) \<le> (unat (pmm_highest_frame s) + 1) * 4096 \<and>
     list_all (frame_used s) (bitmap_frames s) \<and>
     unat (pmm_used_frames s) = length (filter (frame_used s) (all_frames s))"

text \<open>The state after frame \<open>f\<close> has been taken, and after it has been given back.\<close>

definition pmm_take :: "u64 \<Rightarrow> 'a pmm_scheme \<Rightarrow> 'a pmm_scheme" where
  "pmm_take f s =
     s\<lparr>phys_mem := (\<lambda>a. if a div PAGE_SIZE = f then 0
          else ((phys_mem s)(bm_addr s (f div 64) := bm_qword s (f div 64) OR push_bit (unat (f mod 64)) 1)) a),
       pmm_used_frames := pmm_used_frames s + 1,
       pmm_last_allocated_index := f\<rparr>"

definition pmm_give :: "u64 \<Rightarrow> 'a pmm_scheme \<Rightarrow> 'a pmm_scheme" where
  "pmm_give f s =
     (bm_store (f div 64) (bm_qword s (f div 64) AND NOT (push_bit (unat (f mod 64)) 1)) s)
       \<lparr>pmm_used_frames := pmm_used_frames s - 1\<rparr>"

subsection \<open>Bits and addresses\<close>

lemma align_down_pow: "align_down v (2 ^ k) = push_bit k (drop_bit k v)"
proof -
  have "align_down v (2 ^ k) = v AND NOT (mask k)" by (simp add: align_down_def mask_eq_exp_minus_1)
  also have "\<dots> = push_bit k (drop_bit k v)"
    by (rule bit_eqI) (auto simp: bit_and_iff bit_not_iff bit_mask_iff bit_push_bit_iff bit_drop_bit_eq)
  finally show ?thesis .
qed

lemma unat_exp_64: "k < 64 \<Longrightarrow> unat (2 ^ k :: u64) = 2 ^ k"
  using unat_of_nat64 [of "2 ^ k"] power_strict_increasing [of k 64 "2 :: nat"] by simp

lemma unat_align_down:
  assumes "k < 64" shows "unat (align_down v (2 ^ k)) = unat v div 2 ^ k * 2 ^ k"
proof -
  have "unat v div 2 ^ k * 2 ^ k \<le> unat v" by simp
  then have "unat v div 2 ^ k * 2 ^ k < 2 ^ LENGTH(64)" using unat_lt2p [of v] by (rule le_less_trans)
  moreover have "unat (drop_bit k v) = unat v div 2 ^ k" by (simp add: drop_bit_eq_div unat_div unat_exp_64 [OF assms])
  ultimately show ?thesis
    using assms unat_mult_lem [of "drop_bit k v" "2 ^ k"]
    by (simp add: align_down_pow push_bit_eq_mult unat_exp_64 [OF assms])
qed

lemma unat_align_up:
  assumes "k < 64" "unat v + 2 ^ k \<le> 2 ^ 64"
  shows "unat (align_up v (2 ^ k)) = (unat v + (2 ^ k - 1)) div 2 ^ k * 2 ^ k"
proof -
  have "v + 2 ^ k - 1 = v + (2 ^ k - 1)" by simp
  moreover have "(2 :: nat) ^ k < 2 ^ 64" using assms(1) by (rule power_strict_increasing) simp
  then have "unat (2 ^ k - 1 :: u64) = 2 ^ k - 1"
    using unat_sub_if' [of "2 ^ k :: u64" 1] by (simp add: unat_exp_64 [OF assms(1)])
  moreover have "0 < (2 :: nat) ^ k" by simp
  then have "unat v + (2 ^ k - 1) < 2 ^ 64" using assms(2) by linarith
  ultimately have "unat (v + 2 ^ k - 1) = unat v + (2 ^ k - 1)"
    using unat_add_lem [of v "2 ^ k - 1"] by (simp add: add_diff_eq)
  then show ?thesis using unat_align_down [OF assms(1), of "v + 2 ^ k - 1"] by (simp add: align_up_def)
qed
lemmas page_align = unat_align_up [of 12, simplified] unat_align_down [of 12, simplified]
  unat_align_up [of 4, simplified]

lemma unat_frame_addr:
  fixes f :: u64 assumes "f < 2 ^ 52" shows "unat (f * PAGE_SIZE) = unat f * 4096"
proof -
  have "unat f < 2 ^ 52" using assms by (simp add: word_less_nat_alt)
  then have "unat f * unat (0x1000 :: u64) < 2 ^ LENGTH(64)" by simp
  then show ?thesis using unat_mult_lem [of f "0x1000 :: u64"] by simp
qed

lemma in_page_iff:
  fixes a f :: u64 assumes "f < 2 ^ 52"
  shows "a - f * PAGE_SIZE < PAGE_SIZE \<longleftrightarrow> a div PAGE_SIZE = f"
proof -
  have f: "unat f < 2 ^ 52" using assms by (simp add: word_less_nat_alt)
  have a: "unat a < 2 ^ 64" using unat_lt2p [of a] by simp
  have "a div PAGE_SIZE = f \<longleftrightarrow> unat a div 4096 = unat f"
    by (simp add: word_unat_eq_iff unat_div)
  moreover have "a - f * PAGE_SIZE < PAGE_SIZE \<longleftrightarrow> unat (a - f * PAGE_SIZE) < 4096"
    by (simp add: word_less_nat_alt)
  ultimately show ?thesis
    using f a by (auto simp: unat_sub_if' unat_frame_addr [OF assms] split: if_splits)
qed

lemma ctzll_bit:
  assumes "w \<noteq> 0"
  shows "ctzll w < 64" and "bit w (ctzll w)" and "\<And>n. n < ctzll w \<Longrightarrow> \<not> bit w n"
proof -
  obtain n where n: "bit w n" using assms by (auto simp: bit_eq_iff)
  then have "n < 64" using bit_imp_le_length [OF n] by simp
  have "takeWhile (\<lambda>n. \<not> bit w n) [0..<64] \<noteq> [0..<64]"
    using n \<open>n < 64\<close> by (auto simp: takeWhile_eq_all_conv)
  then show lt: "ctzll w < 64"
    unfolding ctzll_def
    by (metis diff_zero length_takeWhile_le length_upt less_le takeWhile_eq_take take_all_iff)
  have "\<not> \<not> bit w ([0..<64] ! ctzll w)"
    unfolding ctzll_def by (rule nth_length_takeWhile) (use lt in \<open>simp add: ctzll_def\<close>)
  then show "bit w (ctzll w)" using lt by simp
  show "\<not> bit w n" if "n < ctzll w" for n
  proof -
    have "takeWhile (\<lambda>n. \<not> bit w n) [0..<64] ! n = n"
      using that lt by (simp add: takeWhile_nth ctzll_def)
    then show ?thesis
      using nth_mem [of n "takeWhile (\<lambda>n. \<not> bit w n) [0..<64]"] that set_takeWhileD
      unfolding ctzll_def by metis
  qed
qed

text \<open>A qword index and a bit index make a frame index, and come back out of it.\<close>

lemma frame_index_split:
  fixes q :: u64 assumes "q < 2 ^ 58" "k < 64"
  shows "(q * 64 + of_nat k) div 64 = q" and "unat ((q * 64 + of_nat k) mod 64) = k"
    and "unat (q * 64 + of_nat k) = unat q * 64 + k"
proof -
  have q: "unat q < 2 ^ 58" using assms(1) by (simp add: word_less_nat_alt)
  have k: "unat (of_nat k :: u64) = k" using assms(2) by (simp add: unat_of_nat)
  have "unat (q * 64) = unat q * 64"
    using q unat_mult_lem [of q 64] by simp
  then show u: "unat (q * 64 + of_nat k) = unat q * 64 + k"
    using q k assms(2) by (subst unat_plus_if') simp
  show "(q * 64 + of_nat k) div 64 = q"
    using assms(2) by (simp add: word_unat_eq_iff unat_div u)
  show "unat ((q * 64 + of_nat k) mod 64) = k"
    using assms(2) by (simp add: unat_mod u)
qed

lemma frame_index_eqI:
  fixes f g :: u64 assumes "f div 64 = g div 64" "unat (f mod 64) = unat (g mod 64)" shows "f = g"
  using assms by (metis word_mod_div_equality word_unat_eq_iff)

lemma unat_mod_64: "unat (f mod 64 :: u64) < 64"
  by (simp add: unat_mod)

lemma bm_addr_0: "bm_addr s i = bm_addr s 0 + 8 * i"
  by (simp add: bm_addr_def)

lemma set_all_frames: "f \<in> set (all_frames s) \<longleftrightarrow> f \<le> pmm_highest_frame s"
proof
  assume "f \<in> set (all_frames s)"
  then obtain n where n: "n \<le> unat (pmm_highest_frame s)" "f = of_nat n"
    by (auto simp: all_frames_def less_Suc_eq_le simp del: upt_Suc)
  then have "unat f = n" using unat_lt2p [of "pmm_highest_frame s"] by (simp add: unat_of_nat)
  then show "f \<le> pmm_highest_frame s" using n by (simp add: word_le_nat_alt)
next
  assume "f \<le> pmm_highest_frame s"
  then have "unat f < Suc (unat (pmm_highest_frame s))" by (simp add: word_le_nat_alt less_Suc_eq_le)
  then have "of_nat (unat f) \<in> set (all_frames s)"
    unfolding all_frames_def by (metis atLeast0LessThan image_eqI lessThan_iff set_map set_upt)
  then show "f \<in> set (all_frames s)" by simp
qed

lemma distinct_all_frames: "distinct (all_frames s)"
proof -
  have "inj_on (of_nat :: nat \<Rightarrow> u64) {0..<Suc (unat (pmm_highest_frame s))}"
    using unat_lt2p [of "pmm_highest_frame s"]
    by (intro inj_on_inverseI [where g = unat]) (simp add: unat_of_nat)
  then show ?thesis by (simp add: all_frames_def distinct_map del: upt_Suc)
qed

subsection \<open>Consequences of the invariant\<close>

lemma pmm_inv_frame_qword:
  assumes "pmm_inv s" "f \<le> pmm_highest_frame s"
  shows "f div 64 < pmm_bitmap_size_qwords s" and "f < 2 ^ 52"
proof -
  show "f < 2 ^ 52" using assms by (auto simp: pmm_inv_def)
  have "unat (pmm_highest_frame s) < 2 ^ 52" "unat f \<le> unat (pmm_highest_frame s)"
    using assms by (auto simp: pmm_inv_def word_less_nat_alt word_le_nat_alt)
  then have "unat f div 64 \<le> unat (pmm_highest_frame s) div 64"
    "unat (pmm_highest_frame s div 64 + 1) = unat (pmm_highest_frame s) div 64 + 1"
    by (simp_all add: div_le_mono unat_plus_if' unat_div)
  then show "f div 64 < pmm_bitmap_size_qwords s"
    using assms by (simp add: pmm_inv_def word_less_nat_alt unat_div)
qed

lemma pmm_inv_bm_addr:
  assumes "pmm_inv s" "i < pmm_bitmap_size_qwords s"
  shows "unat (bm_addr s i) = unat (bm_addr s 0) + 8 * unat i"
    and "frame_used s (bm_addr s i div PAGE_SIZE)"
    and "bm_addr s i div PAGE_SIZE \<le> pmm_highest_frame s"
proof -
  have h: "unat (pmm_highest_frame s) < 2 ^ 52"
    using assms by (auto simp: pmm_inv_def word_less_nat_alt)
  have i: "unat i < unat (pmm_bitmap_size_qwords s)" using assms(2) by (simp add: word_less_nat_alt)
  have b: "unat (bm_addr s 0) + 8 * unat (pmm_bitmap_size_qwords s) \<le> (unat (pmm_highest_frame s) + 1) * 4096"
    using assms unfolding pmm_inv_def by blast
  have "unat (8 * i) = 8 * unat i"
    using unat_mult_lem [of 8 i] b h i by simp
  then show u: "unat (bm_addr s i) = unat (bm_addr s 0) + 8 * unat i"
    using b h i by (subst bm_addr_0, subst unat_plus_if') simp
  show "bm_addr s i div PAGE_SIZE \<le> pmm_highest_frame s"
    using u b i by (simp add: word_le_nat_alt unat_div)
  have "bm_addr s (of_nat (unat i)) div PAGE_SIZE \<in> set (bitmap_frames s)"
    unfolding bitmap_frames_def set_map by (rule image_eqI [of _ _ "unat i"]) (use i in auto)
  then show "frame_used s (bm_addr s i div PAGE_SIZE)"
    using assms by (auto simp: pmm_inv_def list_all_iff)
qed

lemma pmm_inv_bm_addr_inj:
  assumes "pmm_inv s" "i < pmm_bitmap_size_qwords s" "j < pmm_bitmap_size_qwords s"
  shows "bm_addr s i = bm_addr s j \<longleftrightarrow> i = j"
  using pmm_inv_bm_addr(1) [OF assms(1,2)] pmm_inv_bm_addr(1) [OF assms(1,3)]
  by (auto simp: word_unat_eq_iff)

lemma pmm_inv_bitmap_frames:
  assumes "pmm_inv s" "f \<in> set (bitmap_frames s)"
  shows "f \<le> pmm_highest_frame s" and "frame_used s f"
proof -
  obtain n where n: "n < unat (pmm_bitmap_size_qwords s)" "f = bm_addr s (of_nat n) div PAGE_SIZE"
    using assms(2) by (auto simp: bitmap_frames_def)
  then have "(of_nat n :: u64) < pmm_bitmap_size_qwords s"
    using unat_lt2p [of "pmm_bitmap_size_qwords s"] by (simp add: word_less_nat_alt unat_of_nat)
  then show "f \<le> pmm_highest_frame s" and "frame_used s f"
    using pmm_inv_bm_addr [OF assms(1)] n(2) by auto
qed

lemma pmm_inv_size:
  assumes "pmm_inv s"
  shows "unat (pmm_bitmap_size_qwords s) = unat (pmm_highest_frame s) div 64 + 1"
    and "unat (pmm_highest_frame s) < 2 ^ 52" and "pmm_bitmap_size_qwords s < 2 ^ 58"
proof -
  show h: "unat (pmm_highest_frame s) < 2 ^ 52"
    using assms by (auto simp: pmm_inv_def word_less_nat_alt)
  have "pmm_bitmap_size_qwords s = pmm_highest_frame s div 64 + 1"
    using assms by (simp add: pmm_inv_def)
  then show u: "unat (pmm_bitmap_size_qwords s) = unat (pmm_highest_frame s) div 64 + 1"
    using h by (simp add: unat_plus_if' unat_div)
  show "pmm_bitmap_size_qwords s < 2 ^ 58"
    using u h by (simp add: word_less_nat_alt)
qed

lemma pmm_inv_not_minus1:
  assumes "pmm_inv s" "f \<le> pmm_highest_frame s" shows "f \<noteq> -1"
  using pmm_inv_frame_qword(2) [OF assms] by auto

subsection \<open>The search for a free frame\<close>

lemma bm_qword_lock [simp]: "bm_qword (s\<lparr>pmm_lock := b\<rparr>) = bm_qword s"
  by (simp add: bm_qword_def bm_addr_def fun_eq_iff)

lemma pmm_find_single_lock [simp]: "pmm_find_single (s\<lparr>pmm_lock := b\<rparr>) start i = pmm_find_single s start i"
proof (induction s start i rule: pmm_find_single.induct)
  case (1 s start i)
  then show ?case
    by (subst (1 2) pmm_find_single.simps) (simp add: Let_def)
qed

lemma pmm_find_single_sound:
  assumes "pmm_inv s"
  shows "pmm_find_single s start i = -1 \<or>
         pmm_find_single s start i \<le> pmm_highest_frame s \<and> \<not> frame_used s (pmm_find_single s start i)"
  using assms
proof (induction s start i rule: pmm_find_single.induct)
  case (1 s start i)
  let ?cur = "(start + i) mod pmm_bitmap_size_qwords s"
  let ?q = "bm_qword s ?cur"
  let ?f = "?cur * 64 + of_nat (ctzll (NOT ?q))"
  show ?case
  proof (cases "i < pmm_bitmap_size_qwords s \<and> ?q \<noteq> -1 \<and> ?f \<le> pmm_highest_frame s")
    case True
    have cur: "?cur < 2 ^ 58"
      using pmm_inv_size(3) [OF "1.prems"] True
      by (metis order.strict_trans word_mod_less_divisor word_gt_0 word_not_simps(1))
    have "NOT ?q \<noteq> 0" using True by (metis bit.double_compl bit.compl_zero)
    note ctz = ctzll_bit [OF this]
    have "\<not> frame_used s ?f"
      using frame_index_split [OF cur ctz(1)] ctz(1,2) by (simp add: frame_used_def bit_not_iff)
    moreover have "pmm_find_single s start i = ?f"
      using True by (subst pmm_find_single.simps) (simp add: Let_def)
    ultimately show ?thesis using True by simp
  next
    case False
    then show ?thesis
      using 1 by (subst (1 2 3) pmm_find_single.simps) (auto simp: Let_def)
  qed
qed

lemma pmm_find_single_complete:
  assumes "pmm_inv s" "f \<le> pmm_highest_frame s" "\<not> frame_used s f"
    and "pmm_find_single s start i = -1" and "i \<le> j" "j < pmm_bitmap_size_qwords s"
  shows "(start + j) mod pmm_bitmap_size_qwords s \<noteq> f div 64"
  using assms
proof (induction s start i rule: pmm_find_single.induct)
  case (1 s start i)
  let ?cur = "(start + i) mod pmm_bitmap_size_qwords s"
  let ?q = "bm_qword s ?cur"
  let ?g = "?cur * 64 + of_nat (ctzll (NOT ?q))"
  have i: "i < pmm_bitmap_size_qwords s" using "1.prems"(5,6) by simp
  have neq: "?cur \<noteq> f div 64"
  proof
    assume cur: "?cur = f div 64"
    then have b: "bit (NOT ?q) (unat (f mod 64))"
      using "1.prems"(3) unat_mod_64 [of f] by (simp add: frame_used_def bit_not_iff)
    then have "NOT ?q \<noteq> 0" by auto
    note ctz = ctzll_bit [OF this]
    have le: "ctzll (NOT ?q) \<le> unat (f mod 64)" using ctz(3) b not_less by blast
    have "f div 64 < 2 ^ 58" using pmm_inv_frame_qword [OF "1.prems"(1,2)] pmm_inv_size(3) [OF "1.prems"(1)]
      by simp
    then have "unat ?g = unat f div 64 * 64 + ctzll (NOT ?q)"
      using frame_index_split(3) [OF _ ctz(1)] by (simp add: cur unat_div)
    then have "unat ?g \<le> unat f" using le by (simp add: unat_mod) (metis add_le_cancel_left div_mult_mod_eq)
    then have "?g \<le> pmm_highest_frame s"
      using "1.prems"(2) by (auto simp: word_le_nat_alt)
    moreover from this have "?g \<noteq> -1" by (rule pmm_inv_not_minus1 [OF "1.prems"(1)])
    moreover have "?q \<noteq> -1" using \<open>NOT ?q \<noteq> 0\<close> by auto
    ultimately show False
      using "1.prems"(4) i by (subst (asm) pmm_find_single.simps) (simp add: Let_def)
  qed
  show ?case
  proof (cases "i = j")
    case False
    then have "i + 1 \<le> j" using "1.prems"(5) by (simp add: inc_le less_le)
    then show ?thesis
      using "1.IH" [OF i refl refl refl] "1.prems" i pmm_inv_not_minus1 [OF "1.prems"(1), of "-1"]
      by (subst (asm) (2) pmm_find_single.simps) (auto simp: Let_def split: if_splits)
  qed (use neq in simp)
qed

text \<open>Starting at the qword of the last allocation, the search goes through the whole bitmap.\<close>

lemma pmm_find_single_finds:
  assumes inv: "pmm_inv s" and f: "f \<le> pmm_highest_frame s" "\<not> frame_used s f"
  shows "pmm_find_single s (pmm_last_allocated_index s div 64) 0 \<noteq> -1"
proof
  let ?n = "pmm_bitmap_size_qwords s" and ?st = "pmm_last_allocated_index s div 64"
  assume none: "pmm_find_single s ?st 0 = -1"
  have n: "unat ?n < 2 ^ 58" using pmm_inv_size(3) [OF inv] by (simp add: word_less_nat_alt)
  have st: "unat ?st < unat ?n"
    using pmm_inv_frame_qword(1) [OF inv, of "pmm_last_allocated_index s"] inv
    by (simp add: pmm_inv_def word_less_nat_alt)
  have q: "unat (f div 64) < unat ?n"
    using pmm_inv_frame_qword(1) [OF inv f(1)] by (simp add: word_less_nat_alt)
  define k where "k = (if unat ?st \<le> unat (f div 64) then unat (f div 64) - unat ?st
                       else unat (f div 64) + unat ?n - unat ?st)"
  have k: "k < unat ?n" using st q by (auto simp: k_def)
  define j where "j = (of_nat k :: u64)"
  have j: "unat j = k" using k n by (simp add: j_def unat_of_nat)
  have "unat (?st + j) = unat ?st + k" using st k n j by (subst unat_plus_if') simp
  then have "unat ((?st + j) mod ?n) = unat (f div 64)"
    using st q by (auto simp: unat_mod k_def)
  then have "(?st + j) mod ?n = f div 64" by (simp add: word_unat_eq_iff)
  moreover have "j < ?n" using j k by (simp add: word_less_nat_alt)
  ultimately show False
    using pmm_find_single_complete [OF inv f none, of j] by simp
qed

subsection \<open>Taking and giving back a frame\<close>

lemma bm_addr_take [simp]: "bm_addr (pmm_take f s) = bm_addr s"
  and bm_addr_give [simp]: "bm_addr (pmm_give f s) = bm_addr s"
  by (simp_all add: fun_eq_iff bm_addr_def pmm_take_def pmm_give_def bm_store_def)

lemma pmm_take_fields [simp]:
  "hhdm_phys_offset (pmm_take f s) = hhdm_phys_offset s"
  "pmm_bitmap_size_qwords (pmm_take f s) = pmm_bitmap_size_qwords s"
  "pmm_total_frames (pmm_take f s) = pmm_total_frames s"
  "pmm_highest_frame (pmm_take f s) = pmm_highest_frame s"
  "pmm_lock (pmm_take f s) = pmm_lock s"
  "uart_lsr (pmm_take f s) = uart_lsr s"
  "pmm_used_frames (pmm_take f s) = pmm_used_frames s + 1"
  "pmm_last_allocated_index (pmm_take f s) = f"
  "pmm.more (pmm_take f s) = pmm.more s"
  by (simp_all add: pmm_take_def)

lemma pmm_give_fields [simp]:
  "hhdm_phys_offset (pmm_give f s) = hhdm_phys_offset s"
  "pmm_bitmap_size_qwords (pmm_give f s) = pmm_bitmap_size_qwords s"
  "pmm_total_frames (pmm_give f s) = pmm_total_frames s"
  "pmm_highest_frame (pmm_give f s) = pmm_highest_frame s"
  "pmm_lock (pmm_give f s) = pmm_lock s"
  "uart_lsr (pmm_give f s) = uart_lsr s"
  "pmm_used_frames (pmm_give f s) = pmm_used_frames s - 1"
  "pmm_last_allocated_index (pmm_give f s) = pmm_last_allocated_index s"
  "pmm.more (pmm_give f s) = pmm.more s"
  by (simp_all add: pmm_give_def bm_store_def)

lemma all_frames_take [simp]: "all_frames (pmm_take f s) = all_frames s"
  and all_frames_give [simp]: "all_frames (pmm_give f s) = all_frames s"
  and bitmap_frames_take [simp]: "bitmap_frames (pmm_take f s) = bitmap_frames s"
  and bitmap_frames_give [simp]: "bitmap_frames (pmm_give f s) = bitmap_frames s"
  by (simp_all add: all_frames_def bitmap_frames_def)

lemma frame_used_take:
  assumes inv: "pmm_inv s" and f: "f \<le> pmm_highest_frame s" "\<not> frame_used s f"
    and g: "g \<le> pmm_highest_frame s"
  shows "frame_used (pmm_take f s) g \<longleftrightarrow> g = f \<or> frame_used s g"
proof -
  note fq = pmm_inv_frame_qword(1) [OF inv f(1)] and gq = pmm_inv_frame_qword(1) [OF inv g]
  have "bm_addr s (g div 64) div PAGE_SIZE \<noteq> f" "bm_addr s (f div 64) div PAGE_SIZE \<noteq> f"
    using pmm_inv_bm_addr(2) [OF inv gq] pmm_inv_bm_addr(2) [OF inv fq] f(2) by auto
  then have "bm_qword (pmm_take f s) (g div 64) =
      (if g div 64 = f div 64 then bm_qword s (g div 64) OR push_bit (unat (f mod 64)) 1
       else bm_qword s (g div 64))"
    using pmm_inv_bm_addr_inj [OF inv gq fq] by (simp add: bm_qword_def) (simp add: pmm_take_def bm_qword_def)
  then show ?thesis
    using frame_index_eqI [of g f] unat_mod_64 [of g]
    by (auto simp: frame_used_def bit_simps le_less)
qed

lemma frame_used_give:
  assumes inv: "pmm_inv s" and f: "f \<le> pmm_highest_frame s" and g: "g \<le> pmm_highest_frame s"
  shows "frame_used (pmm_give f s) g \<longleftrightarrow> g \<noteq> f \<and> frame_used s g"
proof -
  note fq = pmm_inv_frame_qword(1) [OF inv f] and gq = pmm_inv_frame_qword(1) [OF inv g]
  have "bm_qword (pmm_give f s) (g div 64) =
      (if g div 64 = f div 64 then bm_qword s (g div 64) AND NOT (push_bit (unat (f mod 64)) 1)
       else bm_qword s (g div 64))"
    using pmm_inv_bm_addr_inj [OF inv gq fq]
    by (simp add: bm_qword_def) (simp add: pmm_give_def bm_store_def bm_qword_def)
  then show ?thesis
    using frame_index_eqI [of g f] unat_mod_64 [of g]
    by (auto simp: frame_used_def bit_simps le_less)
qed

lemma length_filter_take:
  assumes "distinct xs" "x \<in> set xs" "\<not> P x"
  shows "length (filter (\<lambda>y. y = x \<or> P y) xs) = Suc (length (filter P xs))"
  using assms
proof (induction xs)
  case (Cons y ys)
  show ?case
  proof (cases "y = x")
    case True
    with Cons.prems have "filter (\<lambda>y. y = x \<or> P y) ys = filter P ys" by (auto intro: filter_cong)
    with True Cons.prems show ?thesis by simp
  qed (use Cons in auto)
qed simp

lemma length_filter_give:
  assumes "distinct xs" "x \<in> set xs" "P x"
  shows "Suc (length (filter (\<lambda>y. y \<noteq> x \<and> P y) xs)) = length (filter P xs)"
proof -
  have "filter P xs = filter (\<lambda>y. y = x \<or> (y \<noteq> x \<and> P y)) xs"
    using assms(3) by (intro filter_cong) auto
  then show ?thesis using length_filter_take [OF assms(1,2), of "\<lambda>y. y \<noteq> x \<and> P y"] by simp
qed

lemma used_frames_less:
  assumes "pmm_inv s" "f \<le> pmm_highest_frame s" "\<not> frame_used s f"
  shows "unat (pmm_used_frames s) \<le> unat (pmm_highest_frame s)"
proof -
  have "length (filter (frame_used s) (all_frames s)) < length (all_frames s)"
    using assms by (intro length_filter_less [of f]) (simp_all add: set_all_frames)
  then show ?thesis using assms(1) by (simp add: pmm_inv_def all_frames_def)
qed

lemma pmm_inv_take:
  assumes inv: "pmm_inv s" and f: "f \<le> pmm_highest_frame s" "\<not> frame_used s f"
  shows "pmm_inv (pmm_take f s)"
proof -
  have "list_all (frame_used (pmm_take f s)) (bitmap_frames s)"
    using pmm_inv_bitmap_frames [OF inv] frame_used_take [OF inv f] by (auto simp: list_all_iff)
  moreover have "filter (frame_used (pmm_take f s)) (all_frames s) =
      filter (\<lambda>g. g = f \<or> frame_used s g) (all_frames s)"
    using frame_used_take [OF inv f] by (intro filter_cong) (auto simp: set_all_frames)
  moreover have "length (filter (\<lambda>g. g = f \<or> frame_used s g) (all_frames s)) =
      Suc (length (filter (frame_used s) (all_frames s)))"
    using f by (intro length_filter_take) (auto simp: distinct_all_frames set_all_frames)
  moreover have "unat (pmm_used_frames s + 1) = Suc (unat (pmm_used_frames s))"
    using used_frames_less [OF inv f] pmm_inv_size(2) [OF inv] by (subst unat_plus_if') simp
  ultimately show ?thesis using inv f(1) by (auto simp: pmm_inv_def)
qed

lemma pmm_inv_give:
  assumes inv: "pmm_inv s" and f: "f \<le> pmm_highest_frame s" "frame_used s f"
    and nb: "f \<notin> set (bitmap_frames s)"
  shows "pmm_inv (pmm_give f s)"
proof -
  have "list_all (frame_used (pmm_give f s)) (bitmap_frames s)"
    using pmm_inv_bitmap_frames [OF inv] frame_used_give [OF inv f(1)] nb by (auto simp: list_all_iff)
  moreover have "filter (frame_used (pmm_give f s)) (all_frames s) =
      filter (\<lambda>g. g \<noteq> f \<and> frame_used s g) (all_frames s)"
    using frame_used_give [OF inv f(1)] by (intro filter_cong) (auto simp: set_all_frames)
  moreover have c: "Suc (length (filter (\<lambda>g. g \<noteq> f \<and> frame_used s g) (all_frames s))) =
      unat (pmm_used_frames s)"
    using f length_filter_give [of "all_frames s" f "frame_used s"] inv
    by (simp add: distinct_all_frames set_all_frames pmm_inv_def)
  moreover have "unat (pmm_used_frames s - 1) = unat (pmm_used_frames s) - 1"
    using c by (subst unat_sub_if') simp
  ultimately show ?thesis using inv f(1) by (auto simp: pmm_inv_def)
qed

subsection \<open>The operations\<close>

lemma phys_to_virt_run [simp, runK]:
  "hhdm_phys_offset s \<noteq> 0 \<Longrightarrow> phys_to_virt p s = Some (Inr (p + hhdm_phys_offset s, s))"
  by (simp add: phys_to_virt_def)

lemma pmm_bitmap_test_run [runK]:
  "f div 64 < pmm_bitmap_size_qwords s \<Longrightarrow> pmm_bitmap_test f s = Some (Inr (frame_used s f, s))"
  by (simp add: pmm_bitmap_test_def Let_def frame_used_def and_exp_eq_0_iff_not_bit)

lemma pmm_bitmap_set_run [runK]:
  "f div 64 < pmm_bitmap_size_qwords s \<Longrightarrow>
   pmm_bitmap_set f s = Some (Inr ((), bm_store (f div 64) (bm_qword s (f div 64) OR push_bit (unat (f mod 64)) 1) s))"
  by (simp add: pmm_bitmap_set_def Let_def)

lemma pmm_bitmap_clear_run [runK]:
  "f div 64 < pmm_bitmap_size_qwords s \<Longrightarrow>
   pmm_bitmap_clear f s = Some (Inr ((), bm_store (f div 64) (bm_qword s (f div 64) AND NOT (push_bit (unat (f mod 64)) 1)) s))"
  by (simp add: pmm_bitmap_clear_def Let_def)

lemma frame_used_lock [simp]: "frame_used (s\<lparr>pmm_lock := b\<rparr>) = frame_used s"
  by (simp add: frame_used_def fun_eq_iff)

lemma page_aligned_qword: "(f * PAGE_SIZE :: u64) AND 7 = 0"
proof -
  have "take_bit 3 (push_bit 12 f) = 0" by (simp add: take_bit_push_bit)
  then show ?thesis by (simp add: take_bit_eq_mask push_bit_eq_mult mask_eq_exp_minus_1)
qed

lemma memset_page [runK]:
  assumes "f < 2 ^ 52" "hhdm_phys_offset s = h"
  shows "memset (f * PAGE_SIZE + h) 0 PAGE_SIZE s =
    Some (Inr ((), s\<lparr>phys_mem := (\<lambda>a. if a div PAGE_SIZE = f then 0 else phys_mem s a)\<rparr>))"
  by (simp add: memset_def page_aligned_qword in_page_iff [OF assms(1)] assms(2) cong: if_cong)

lemma frame_addr_div_mod:
  fixes f :: u64 assumes "f < 2 ^ 52"
  shows "f * PAGE_SIZE div PAGE_SIZE = f" and "f * PAGE_SIZE mod PAGE_SIZE = 0"
  using unat_frame_addr [OF assms] by (simp_all add: word_unat_eq_iff unat_div unat_mod)

text \<open>
  \<open>pmm_alloc_frame\<close>: with the lock free and a free frame it returns; the frame was free,
  and the state is the one with that frame taken.
\<close>

lemma pmm_alloc_frame_run:
  assumes inv: "pmm_inv s" and lock: "\<not> pmm_lock s"
    and ex: "g \<le> pmm_highest_frame s" "\<not> frame_used s g"
  shows "\<exists>f. f \<le> pmm_highest_frame s \<and> \<not> frame_used s f \<and>
             pmm_alloc_frame s = Some (Inr (f * PAGE_SIZE, pmm_take f s))"
proof -
  define f where "f = pmm_find_single s (pmm_last_allocated_index s div 64) 0"
  have f: "f \<noteq> -1" "f \<le> pmm_highest_frame s" "\<not> frame_used s f"
    using pmm_find_single_finds [OF inv ex] pmm_find_single_sound [OF inv]
    by (auto simp: f_def)
  have q: "f div 64 < pmm_bitmap_size_qwords s" "f < 2 ^ 52"
    using pmm_inv_frame_qword [OF inv f(2)] by auto
  have h: "hhdm_phys_offset s \<noteq> 0" using inv by (simp add: pmm_inv_def)
  have "pmm_alloc_frame s = Some (Inr (f * PAGE_SIZE, pmm_take f s))"
    unfolding pmm_alloc_frame_def pmm_find_first_free_contiguous_def
    using f q h lock
    by (simp flip: f_def add: runK bm_store_def) (cases s, simp add: pmm_take_def bm_addr_def push_bit_eq_mult cong: if_cong)
  with f show ?thesis by blast
qed

lemma pmm_alloc_frame_none:
  assumes inv: "pmm_inv s" and lock: "\<not> pmm_lock s" and uart: "uart_ready s"
    and full: "\<And>g. g \<le> pmm_highest_frame s \<Longrightarrow> frame_used s g"
  shows "pmm_alloc_frame s = Some (Inl (Panic ''PMM: Out of physical memory!''))"
proof -
  have "pmm_find_single s (pmm_last_allocated_index s div 64) 0 = -1"
    using pmm_find_single_sound [OF inv] full by blast
  then show ?thesis
    using lock uart kpanic_run [of "s\<lparr>pmm_lock := False\<rparr>"]
    by (simp add: pmm_alloc_frame_def pmm_find_first_free_contiguous_def uart_ready_def)
qed

lemma pmm_free_frame_run:
  assumes inv: "pmm_inv s" and lock: "\<not> pmm_lock s"
    and f: "f \<le> pmm_highest_frame s" "frame_used s f"
  shows "pmm_free_frame (f * PAGE_SIZE) s = Some (Inr ((), pmm_give f s))"
proof -
  note q = pmm_inv_frame_qword [OF inv f(1)]
  note fa = frame_addr_div_mod [OF q(2)]
  show ?thesis
    unfolding pmm_free_frame_def
    using f q(1) lock fa
    by (simp add: runK Let_def) (cases s, simp add: pmm_give_def bm_store_def bm_addr_def)
qed

lemma pmm_free_frame_twice:
  assumes inv: "pmm_inv s" and lock: "\<not> pmm_lock s" and uart: "uart_ready s"
    and f: "f \<le> pmm_highest_frame s" "\<not> frame_used s f"
  shows "pmm_free_frame (f * PAGE_SIZE) s = Some (Inl (Panic ''PMM: Attempted to free already free frame!''))"
proof -
  note q = pmm_inv_frame_qword [OF inv f(1)]
  note fa = frame_addr_div_mod [OF q(2)]
  show ?thesis
    unfolding pmm_free_frame_def
    using f q(1) lock fa uart kpanic_run [of "s\<lparr>pmm_lock := False\<rparr>"] by (simp add: runK Let_def uart_ready_def)
qed

section \<open>The frame allocator contract\<close>

definition pmm_ready :: "'a pmm_scheme \<Rightarrow> bool" where
  "pmm_ready s \<longleftrightarrow> pmm_inv s \<and> \<not> pmm_lock s"

definition managed_pages :: "'a pmm_scheme \<Rightarrow> u64 set" where
  "managed_pages s = (\<lambda>f. f * PAGE_SIZE) ` {f. f \<le> pmm_highest_frame s}"

definition used_pages :: "'a pmm_scheme \<Rightarrow> u64 set" where
  "used_pages s = (\<lambda>f. f * PAGE_SIZE) ` {f. f \<le> pmm_highest_frame s \<and> frame_used s f}"

definition bitmap_pages :: "'a pmm_scheme \<Rightarrow> u64 set" where
  "bitmap_pages s = (\<lambda>f. f * PAGE_SIZE) ` set (bitmap_frames s)"

lemma frame_addr_inj: "pmm_inv s \<Longrightarrow> inj_on (\<lambda>f. f * PAGE_SIZE) {f. f \<le> pmm_highest_frame s}"
  using frame_addr_div_mod(1) pmm_inv_frame_qword(2) [of s]
  by (intro inj_on_inverseI [where g = "\<lambda>p. p div PAGE_SIZE"]) blast

lemma used_pages_iff:
  "pmm_inv s \<Longrightarrow> f \<le> pmm_highest_frame s \<Longrightarrow> f * PAGE_SIZE \<in> used_pages s \<longleftrightarrow> frame_used s f"
  using frame_addr_inj [of s] by (auto simp: used_pages_def inj_on_def)

lemma used_pages_take:
  assumes "pmm_inv s" "f \<le> pmm_highest_frame s" "\<not> frame_used s f"
  shows "used_pages (pmm_take f s) = insert (f * PAGE_SIZE) (used_pages s)"
  using frame_used_take [OF assms] assms(2) by (auto simp: used_pages_def)

lemma used_pages_give:
  assumes "pmm_inv s" "f \<le> pmm_highest_frame s"
  shows "used_pages (pmm_give f s) = used_pages s - {f * PAGE_SIZE}"
  using frame_used_give [OF assms] assms frame_addr_inj [OF assms(1)]
  by (auto simp: used_pages_def inj_on_def)

lemma pmm_alloc_frame_cases:
  assumes "pmm_ready s" "pmm_alloc_frame s = Some (Inr (p, s'))"
  obtains f where "f \<le> pmm_highest_frame s" "\<not> frame_used s f" "p = f * PAGE_SIZE" "s' = pmm_take f s"
proof -
  have inv: "pmm_inv s" "\<not> pmm_lock s" using assms(1) by (auto simp: pmm_ready_def)
  have "\<exists>g \<le> pmm_highest_frame s. \<not> frame_used s g"
  proof (rule ccontr)
    assume "\<not> ?thesis"
    then have "pmm_find_single s (pmm_last_allocated_index s div 64) 0 = -1"
      using pmm_find_single_sound [OF inv(1)] by blast
    then show False
      using assms(2) inv(2)
      by (simp add: pmm_alloc_frame_def pmm_find_first_free_contiguous_def kpanic_never_returns)
  qed
  then show thesis
    using pmm_alloc_frame_run [OF inv] that assms(2) by fastforce
qed

interpretation pmmf: total_frame_source
  pmm_ready managed_pages used_pages bitmap_pages "\<lambda>_. True" pmm_alloc_frame pmm_free_frame
proof unfold_locales
  fix s :: "'a pmm_scheme" and p s'
  assume r: "pmm_ready s" and "pmm_alloc_frame s = Some (Inr (p, s'))"
  then obtain f where f: "f \<le> pmm_highest_frame s" "\<not> frame_used s f" and
    p: "p = f * PAGE_SIZE" "s' = pmm_take f s"
    by (rule pmm_alloc_frame_cases)
  have inv: "pmm_inv s" using r by (simp add: pmm_ready_def)
  show "p \<in> managed_pages s \<and> p \<notin> used_pages s \<and> used_pages s' = insert p (used_pages s) \<and>
    managed_pages s' = managed_pages s \<and> bitmap_pages s' = bitmap_pages s \<and> pmm_ready s'"
    using f p r used_pages_take [OF inv f] used_pages_iff [OF inv f(1)] pmm_inv_take [OF inv f]
    by (auto simp: managed_pages_def bitmap_pages_def pmm_ready_def)
next
  fix s :: "'a pmm_scheme" and p
  assume r: "pmm_ready s" and "p \<in> used_pages s" and nb: "p \<notin> bitmap_pages s"
  then obtain f where f: "f \<le> pmm_highest_frame s" "frame_used s f" and p: "p = f * PAGE_SIZE"
    by (auto simp: used_pages_def)
  have inv: "pmm_inv s" "\<not> pmm_lock s" using r by (auto simp: pmm_ready_def)
  have "f \<notin> set (bitmap_frames s)" using nb p by (auto simp: bitmap_pages_def)
  then show "\<exists>s'. pmm_free_frame p s = Some (Inr ((), s')) \<and> used_pages s' = used_pages s - {p} \<and>
    managed_pages s' = managed_pages s \<and> bitmap_pages s' = bitmap_pages s \<and> pmm_ready s'"
    using pmm_free_frame_run [OF inv f] used_pages_give [OF inv(1) f(1)] pmm_inv_give [OF inv(1) f] inv p
    by (auto simp: managed_pages_def bitmap_pages_def pmm_ready_def)
next
  fix s :: "'a pmm_scheme"
  show "pmm_ready s \<Longrightarrow> bitmap_pages s \<subseteq> used_pages s"
    using pmm_inv_bitmap_frames [of s] by (auto simp: bitmap_pages_def used_pages_def pmm_ready_def)
  show "finite (managed_pages s)" by (simp add: managed_pages_def)
next
  fix s :: "'a pmm_scheme"
  assume "pmm_ready s" "\<not> managed_pages s \<subseteq> used_pages s"
  then show "\<exists>p s'. pmm_alloc_frame s = Some (Inr (p, s')) \<and> True"
    using pmm_alloc_frame_run [of s] by (fastforce simp: pmm_ready_def managed_pages_def used_pages_def)
qed

subsection \<open>The contiguous search\<close>

lemma mod_sub_within:
  fixes a k m :: nat assumes "k \<le> a mod m" shows "(a - k) mod m = a mod m - k"
proof -
  have "a - k = (a div m) * m + (a mod m - k)"
    using assms by (metis add_diff_assoc div_mult_mod_eq)
  moreover have "a mod m - k < m \<or> m = 0"
    by (metis less_imp_diff_less mod_less_divisor neq0_conv)
  ultimately show ?thesis by (metis mod_less mod_mult_self3 mod_by_0 add.commute mod_mult_self1 diff_self_eq_0)
qed

text \<open>
  The frames at the last \<open>run\<close> positions of the cyclic walk from \<open>start\<close> that has made
  \<open>off\<close> steps are free.
\<close>

definition free_run :: "'a pmm_scheme \<Rightarrow> nat \<Rightarrow> nat \<Rightarrow> nat \<Rightarrow> bool" where
  "free_run s start off run \<longleftrightarrow>
     (\<forall>k < run. \<not> frame_used s (of_nat ((start + off - 1 - k) mod (unat (pmm_highest_frame s) + 1))))"

lemma free_run_Suc:
  assumes "free_run s start off run"
    and "\<not> frame_used s (of_nat ((start + off) mod (unat (pmm_highest_frame s) + 1)))"
  shows "free_run s start (Suc off) (Suc run)"
  unfolding free_run_def
proof (intro allI impI)
  fix k assume "k < Suc run"
  then show "\<not> frame_used s (of_nat ((start + Suc off - 1 - k) mod (unat (pmm_highest_frame s) + 1)))"
    using assms by (cases k) (auto simp: free_run_def)
qed

lemma free_run_block:
  fixes r count :: u64
  assumes inv: "pmm_inv s" and run: "free_run s start (Suc off) (unat count)" and pos: "count \<noteq> 0"
    and c: "unat count \<le> unat (pmm_highest_frame s) + 1"
    and i: "i = (start + off) mod (unat (pmm_highest_frame s) + 1)"
    and r: "r = of_nat i - count + 1" "r \<le> pmm_highest_frame s"
  shows "unat r + unat count \<le> unat (pmm_highest_frame s) + 1"
    and "\<And>f. r \<le> f \<Longrightarrow> unat f < unat r + unat count \<Longrightarrow> \<not> frame_used s f"
proof -
  let ?h = "unat (pmm_highest_frame s)"
  have h: "?h < 2 ^ 52" by (rule pmm_inv_size(2) [OF inv])
  have i_le: "i \<le> ?h" using i by (simp add: less_Suc_eq_le)
  have ui: "unat (of_nat i :: u64) = i" using i_le h by (simp add: unat_of_nat)
  have c0: "unat count > 0" using pos by (simp add: unat_gt_0)
  have rc: "r = of_nat i - (count - 1)" using r(1) by simp
  have uc: "unat (count - 1) = unat count - 1" using c0 by (subst unat_sub_if') simp
  have big: "unat count - 1 \<le> i"
  proof (rule ccontr)
    assume "\<not> ?thesis"
    then have "unat r = i + 2 ^ 64 - (unat count - 1)"
      unfolding rc by (subst unat_sub_if') (simp add: ui uc)
    then show False using r(2) c h by (simp add: word_le_nat_alt)
  qed
  have ur: "unat r = i - (unat count - 1)"
    using big unfolding rc by (subst unat_sub_if') (simp add: ui uc)
  show "unat r + unat count \<le> ?h + 1" using ur big i_le c0 by simp
  fix f :: u64 assume f: "r \<le> f" "unat f < unat r + unat count"
  have fi: "unat f \<le> i" "i - unat f < unat count"
    using f ur big c0 by (auto simp: word_le_nat_alt)
  then have "\<not> frame_used s (of_nat ((start + Suc off - 1 - (i - unat f)) mod (?h + 1)))"
    using run unfolding free_run_def by blast
  moreover have "(start + Suc off - 1 - (i - unat f)) mod (?h + 1) = unat f"
    using mod_sub_within [of "i - unat f" "start + off" "?h + 1"] fi(1) i by simp
  ultimately show "\<not> frame_used s f" by simp
qed

lemma pmm_find_run_step:
  assumes inv: "pmm_inv s" and st: "start \<le> pmm_highest_frame s" and off: "off \<le> pmm_highest_frame s"
  shows "pmm_find_run count start (off, run) s =
    (let i = of_nat ((unat start + unat off) mod (unat (pmm_highest_frame s) + 1)) in
     Some (Inr (if frame_used s i then Inr (off + 1, 0)
                else if run + 1 = count then Inl (i - count + 1) else Inr (off + 1, run + 1), s)))"
proof -
  let ?h = "unat (pmm_highest_frame s)"
  have h: "?h < 2 ^ 52" by (rule pmm_inv_size(2) [OF inv])
  have "unat start \<le> ?h" "unat off \<le> ?h" using st off by (simp_all add: word_le_nat_alt)
  then have u: "unat (start + off) = unat start + unat off" "unat (pmm_highest_frame s + 1) = ?h + 1"
    using h by (subst unat_plus_if', simp)+
  define i :: u64 where "i = of_nat ((unat start + unat off) mod (?h + 1))"
  have "(unat start + unat off) mod (?h + 1) < ?h + 1" by simp
  then have "(unat start + unat off) mod (?h + 1) < 2 ^ 64"
    by (rule less_le_trans) (use h in simp)
  then have "unat i = (unat start + unat off) mod (?h + 1)"
    unfolding i_def by (rule unat_of_nat64)
  then have m: "(start + off) mod (pmm_highest_frame s + 1) = i"
    by (simp add: word_unat_eq_iff unat_mod u)
  have "unat i \<le> ?h" unfolding m [symmetric] unat_mod u by (simp add: less_Suc_eq_le)
  then have "i div 64 < pmm_bitmap_size_qwords s"
    by (intro pmm_inv_frame_qword(1) [OF inv]) (simp add: word_le_nat_alt)
  then show ?thesis
    unfolding pmm_find_run_def i_def [symmetric] using off by (simp add: m runK Let_def)
qed

text \<open>A result in range is the start of a block of \<open>count\<close> free frames.\<close>

definition free_block :: "'a pmm_scheme \<Rightarrow> u64 \<Rightarrow> u64 \<Rightarrow> bool" where
  "free_block s count r \<longleftrightarrow>
     unat r + unat count \<le> unat (pmm_highest_frame s) + 1 \<and>
     (\<forall>f. r \<le> f \<and> unat f < unat r + unat count \<longrightarrow> \<not> frame_used s f)"

definition run_inv :: "'a pmm_scheme \<Rightarrow> u64 \<Rightarrow> u64 \<Rightarrow> u64 \<times> u64 \<Rightarrow> bool" where
  "run_inv s count start = (\<lambda>(off, run).
     unat off \<le> unat (pmm_highest_frame s) + 1 \<and> unat run \<le> unat off \<and>
     unat run < unat count \<and> free_run s (unat start) (unat off) (unat run))"

lemma pmm_find_run_inv:
  assumes inv: "pmm_inv s" and st: "start \<le> pmm_highest_frame s" and I: "run_inv s count start (off, run)"
  shows "(\<exists>r. pmm_find_run count start (off, run) s = Some (Inr (Inl r, s)) \<and>
            (r \<le> pmm_highest_frame s \<longrightarrow> free_block s count r)) \<or>
         (\<exists>run'. pmm_find_run count start (off, run) s = Some (Inr (Inr (off + 1, run'), s)) \<and>
            run_inv s count start (off + 1, run') \<and> off \<le> pmm_highest_frame s \<and>
            unat (off + 1) = Suc (unat off))"
proof (cases "off \<le> pmm_highest_frame s")
  case False
  then show ?thesis using pmm_inv_not_minus1 [OF inv, of "-1"] by (auto simp: pmm_find_run_def)
next
  case True
  let ?h = "unat (pmm_highest_frame s)"
  have h: "?h < 2 ^ 52" by (rule pmm_inv_size(2) [OF inv])
  have o: "unat off \<le> ?h" using True by (simp add: word_le_nat_alt)
  then have o1: "unat (off + 1) = Suc (unat off)" using h by (subst unat_plus_if') simp
  have r1: "unat (run + 1) = Suc (unat run)"
    using I o h by (subst unat_plus_if') (simp add: run_inv_def)
  define i where "i = (unat start + unat off) mod (?h + 1)"
  note step = pmm_find_run_step [OF inv st True, of count run, folded i_def]
  have suc: "free_run s (unat start) (Suc (unat off)) (Suc (unat run))" if "\<not> frame_used s (of_nat i)"
    using free_run_Suc [of s "unat start" "unat off" "unat run"] I that by (auto simp: i_def run_inv_def)
  consider "frame_used s (of_nat i)" | "\<not> frame_used s (of_nat i)" "run + 1 = count"
    | "\<not> frame_used s (of_nat i)" "run + 1 \<noteq> count" by blast
  then show ?thesis
  proof cases
    case 1
    then show ?thesis using I o o1 True step by (simp add: run_inv_def free_run_def)
  next
    case 2
    have "unat count = Suc (unat run)" "count \<noteq> 0" using 2 r1 by auto
    then have "free_block s count (of_nat i - count + 1)"
      if "of_nat i - count + 1 \<le> pmm_highest_frame s"
      using free_run_block [OF inv _ _ _ i_def refl that] suc 2 I o by (auto simp: free_block_def run_inv_def)
    then show ?thesis using 2 step by (simp add: Let_def)
  next
    case 3
    have "unat count \<noteq> Suc (unat run)" using 3(2) r1 by (metis word_unat_eq_iff)
    then show ?thesis using suc 3 I o o1 r1 True step by (simp add: Let_def run_inv_def)
  qed
qed

lemma pmm_find_first_free_contiguous_run:
  assumes inv: "pmm_inv s" and count: "1 < count"
  shows "\<exists>r. pmm_find_first_free_contiguous count s = Some (Inr (r, s)) \<and>
             (r \<le> pmm_highest_frame s \<longrightarrow> free_block s count r)"
proof -
  define start where "start = (if pmm_highest_frame s < pmm_last_allocated_index s + 1 then 0
                               else pmm_last_allocated_index s + 1)"
  have st: "start \<le> pmm_highest_frame s" by (auto simp: start_def not_less)
  have "\<exists>r s'. loopK (pmm_find_run count start) (0, 0) s = Some (Inr (r, s')) \<and>
          s' = s \<and> (r \<le> pmm_highest_frame s \<longrightarrow> free_block s count r)"
  proof (rule loopK_rule [where I = "\<lambda>x s'. s' = s \<and> run_inv s count start x"
                            and V = "\<lambda>(off, run) _. unat (pmm_highest_frame s) + 1 - unat off"], goal_cases)
    case 1
    then show ?case using count by (simp add: run_inv_def free_run_def word_less_nat_alt)
  next
    case (2 x s')
    then show ?case
      using pmm_find_run_inv [OF inv st, of count "fst x" "snd x"]
      by (cases x) (auto simp: word_le_nat_alt)
  qed
  then show ?thesis
    using count by (auto simp: pmm_find_first_free_contiguous_def start_def)
qed

section \<open>A concrete machine\<close>

text \<open>
  Four frames of memory; frame 1 holds the one-qword bitmap, the others are free. It is
  the input of the witnesses.
\<close>

definition pmm_demo :: pmm where
  "pmm_demo = \<lparr>io_out = [], uart_lsr = 0x20,
     phys_mem = (\<lambda>a. if a = 0x1000 then 0x02 else 0),
     hhdm_phys_offset = 0xFFFF800000000000, pmm_bitmap = 0xFFFF800000001000,
     pmm_bitmap_size_qwords = 1, pmm_total_frames = 4, pmm_used_frames = 1,
     pmm_highest_frame = 3, pmm_lock = False, pmm_last_allocated_index = 0\<rparr>"

definition pmm_full :: pmm where
  "pmm_full = pmm_demo\<lparr>phys_mem := (\<lambda>_. -1), pmm_used_frames := 4\<rparr>"

lemma pmm_demo_inv: "pmm_inv pmm_demo"
  by code_simp

lemma pmm_demo_ready: "pmm_ready pmm_demo"
  using pmm_demo_inv by (simp add: pmm_ready_def pmm_demo_def)

lemma pmm_demo_frames: "frame_used pmm_demo f \<longleftrightarrow> f = 1" if "f \<le> 3"
proof -
  have "f \<in> set (all_frames pmm_demo)" using that by (simp add: set_all_frames pmm_demo_def)
  moreover have "list_all (\<lambda>f. frame_used pmm_demo f \<longleftrightarrow> f = 1) (all_frames pmm_demo)" by code_simp
  ultimately show ?thesis by (auto simp: list_all_iff)
qed

section \<open>Properties\<close>

text \<open>
  C1: \<open>pmm_alloc_frame\<close> is correct. With the lock free and some frame free it returns
  the address of a frame that was free; exactly that frame becomes used, its page reads as
  zero, no other memory changes except the bitmap, the counter goes up by one, the lock is
  free again and the invariant holds.
\<close>

theorem pmm_alloc_frame_correct:
  assumes "pmm_inv s" and "\<not> pmm_lock s" and "\<exists>g \<le> pmm_highest_frame s. \<not> frame_used s g"
  shows "\<exists>f s'. pmm_alloc_frame s = Some (Inr (f * PAGE_SIZE, s')) \<and>
     f \<le> pmm_highest_frame s \<and> \<not> frame_used s f \<and>
     (\<forall>g \<le> pmm_highest_frame s. frame_used s' g \<longleftrightarrow> g = f \<or> frame_used s g) \<and>
     (\<forall>a. a div PAGE_SIZE = f \<longrightarrow> phys_mem s' a = 0) \<and>
     (\<forall>a. a div PAGE_SIZE \<noteq> f \<and> (\<forall>i < pmm_bitmap_size_qwords s. a \<noteq> bm_addr s i) \<longrightarrow>
          phys_mem s' a = phys_mem s a) \<and>
     pmm_used_frames s' = pmm_used_frames s + 1 \<and> \<not> pmm_lock s' \<and> pmm_inv s'"
proof -
  obtain f where f: "f \<le> pmm_highest_frame s" "\<not> frame_used s f"
    "pmm_alloc_frame s = Some (Inr (f * PAGE_SIZE, pmm_take f s))"
    using pmm_alloc_frame_run [OF assms(1,2)] assms(3) by blast
  have "\<forall>a. a div PAGE_SIZE \<noteq> f \<and> (\<forall>i < pmm_bitmap_size_qwords s. a \<noteq> bm_addr s i) \<longrightarrow>
          phys_mem (pmm_take f s) a = phys_mem s a"
    using pmm_inv_frame_qword(1) [OF assms(1) f(1)] by (auto simp: pmm_take_def)
  moreover have "\<forall>a. a div PAGE_SIZE = f \<longrightarrow> phys_mem (pmm_take f s) a = 0"
    by (simp add: pmm_take_def)
  ultimately show ?thesis
    using f assms(2) frame_used_take [OF assms(1) f(1,2)] pmm_inv_take [OF assms(1) f(1,2)]
    by (intro exI [of _ f] exI [of _ "pmm_take f s"]) simp
qed

theorem pmm_alloc_frame_correct_witness:
  "\<exists>f s'. pmm_alloc_frame pmm_demo = Some (Inr (f * PAGE_SIZE, s')) \<and> f \<noteq> 1 \<and> pmm_inv s'"
proof -
  have "\<exists>g \<le> pmm_highest_frame pmm_demo. \<not> frame_used pmm_demo g"
    using pmm_demo_frames [of 0] by (intro exI [of _ 0]) simp
  then show ?thesis
    using pmm_alloc_frame_correct [OF pmm_demo_inv] pmm_demo_frames [of 1]
    by (force simp: pmm_demo_def)
qed

text \<open>
  C2: as long as enough frames are free, any number of consecutive allocations succeeds,
  and the frames they return are pairwise different and were all free before.
\<close>

theorem pmm_allocs_distinct:
  assumes "pmm_ready s" and "n \<le> card (managed_pages s - used_pages s)"
  shows "\<exists>fs s'. repeatK n pmm_alloc_frame s = Some (Inr (fs, s')) \<and> distinct fs \<and> length fs = n \<and>
     set fs \<subseteq> managed_pages s - used_pages s \<and> used_pages s' = set fs \<union> used_pages s \<and> pmm_ready s'"
  using pmmf.allocs_total [OF assms] pmmf.allocs_distinct [OF assms(1)] by blast

theorem pmm_allocs_distinct_witness:
  "\<exists>fs s'. repeatK 2 pmm_alloc_frame pmm_demo = Some (Inr (fs, s')) \<and> distinct fs \<and> length fs = 2"
proof -
  have "{0, 0x2000} \<subseteq> managed_pages pmm_demo - used_pages pmm_demo"
    using used_pages_iff [OF pmm_demo_inv, of 0] used_pages_iff [OF pmm_demo_inv, of 2]
      pmm_demo_frames [of 0] pmm_demo_frames [of 2]
    by (auto simp: managed_pages_def pmm_demo_def image_iff intro: exI [of _ "0 :: u64"] exI [of _ "2 :: u64"])
  then have "card {0 :: u64, 0x2000} \<le> card (managed_pages pmm_demo - used_pages pmm_demo)"
    by (intro card_mono) (simp_all add: pmmf.frames_finite)
  then show ?thesis using pmm_allocs_distinct [OF pmm_demo_ready, of 2] by auto
qed

text \<open>
  when no frame is free, \<open>pmm_alloc_frame\<close> panics with its out-of-memory message.
\<close>

theorem pmm_alloc_frame_exhausted:
  assumes "pmm_inv s" and "\<not> pmm_lock s" and "uart_ready s"
    and "\<And>g. g \<le> pmm_highest_frame s \<Longrightarrow> frame_used s g"
  shows "pmm_alloc_frame s = Some (Inl (Panic ''PMM: Out of physical memory!''))"
  by (rule pmm_alloc_frame_none [OF assms])

theorem pmm_alloc_frame_exhausted_witness:
  "pmm_alloc_frame pmm_full = Some (Inl (Panic ''PMM: Out of physical memory!''))"
proof (rule pmm_alloc_frame_exhausted)
  show "pmm_inv pmm_full" by code_simp
  show "\<not> pmm_lock pmm_full" "uart_ready pmm_full"
    by (simp_all add: pmm_full_def pmm_demo_def uart_ready_def)
  show "frame_used pmm_full g" for g
    using unat_mod_64 [of g] by (simp add: frame_used_def bm_qword_def pmm_full_def)
qed

text \<open>
  C3: \<open>pmm_free_frame\<close> of a frame in range that does not hold the bitmap either gives
  the frame back (exactly that frame becomes free, the counter goes down by one, memory
  outside the bitmap is untouched, the lock is released, the invariant kept) or, when the
  frame is already free, panics: a double free is always caught.
\<close>

theorem pmm_free_frame_correct:
  assumes "pmm_inv s" and "\<not> pmm_lock s" and "f \<le> pmm_highest_frame s"
    and "f \<notin> set (bitmap_frames s)" and "uart_ready s"
  shows "if frame_used s f then
       (\<exists>s'. pmm_free_frame (f * PAGE_SIZE) s = Some (Inr ((), s')) \<and>
          (\<forall>g \<le> pmm_highest_frame s. frame_used s' g \<longleftrightarrow> g \<noteq> f \<and> frame_used s g) \<and>
          (\<forall>a. (\<forall>i < pmm_bitmap_size_qwords s. a \<noteq> bm_addr s i) \<longrightarrow> phys_mem s' a = phys_mem s a) \<and>
          pmm_used_frames s' = pmm_used_frames s - 1 \<and> \<not> pmm_lock s' \<and> pmm_inv s')
     else pmm_free_frame (f * PAGE_SIZE) s = Some (Inl (Panic ''PMM: Attempted to free already free frame!''))"
proof (cases "frame_used s f")
  case True
  have "\<forall>a. (\<forall>i < pmm_bitmap_size_qwords s. a \<noteq> bm_addr s i) \<longrightarrow> phys_mem (pmm_give f s) a = phys_mem s a"
    using pmm_inv_frame_qword(1) [OF assms(1,3)] by (auto simp: pmm_give_def bm_store_def)
  then show ?thesis
    using True assms(2) pmm_free_frame_run [OF assms(1,2,3) True] frame_used_give [OF assms(1,3)]
      pmm_inv_give [OF assms(1,3) True assms(4)]
    by simp
next
  case False
  then show ?thesis using pmm_free_frame_twice [OF assms(1,2,5,3)] by simp
qed

theorem pmm_free_frame_correct_witness:
  "pmm_free_frame (2 * PAGE_SIZE) pmm_demo = Some (Inl (Panic ''PMM: Attempted to free already free frame!''))"
proof -
  have "2 \<notin> set (bitmap_frames pmm_demo)" by code_simp
  then show ?thesis
    using pmm_free_frame_correct [OF pmm_demo_inv, of 2] pmm_demo_frames [of 2]
    by (simp add: pmm_demo_def uart_ready_def)
qed

text \<open>
  the search for \<open>count > 1\<close> contiguous frames ends, changes nothing, and a result
  within the managed range is the start of a block of \<open>count\<close> free frames in range.
\<close>

theorem pmm_find_contiguous_sound:
  assumes "pmm_inv s" and "1 < count"
  shows "\<exists>r. pmm_find_first_free_contiguous count s = Some (Inr (r, s)) \<and>
     (r \<le> pmm_highest_frame s \<longrightarrow>
        unat r + unat count \<le> unat (pmm_highest_frame s) + 1 \<and>
        (\<forall>f. r \<le> f \<and> unat f < unat r + unat count \<longrightarrow> \<not> frame_used s f))"
  using pmm_find_first_free_contiguous_run [OF assms] by (auto simp: free_block_def)

theorem pmm_find_contiguous_sound_witness:
  "\<exists>r. pmm_find_first_free_contiguous 2 pmm_demo = Some (Inr (r, pmm_demo)) \<and>
     (r \<le> 3 \<longrightarrow> unat r + 2 \<le> 4)"
  using pmm_find_contiguous_sound [OF pmm_demo_inv, of 2] by (auto simp: pmm_demo_def)

text \<open>
  The run counter is not reset when the walk passes the last frame, so a run that wraps
  around is reported as \<open>start - count + 1\<close>, here \<open>-1\<close> (not found), although frames 2 and 3
  are free and contiguous.
\<close>

lemma pmm_find_contiguous_misses_block:
  defines "s \<equiv> pmm_demo\<lparr>pmm_last_allocated_index := 2\<rparr>"
  shows "pmm_inv s" and "free_block s 2 2"
    and "pmm_find_first_free_contiguous 2 s = Some (Inr (-1, s))"
proof -
  show "pmm_inv s" unfolding s_def by code_simp
  have u: "frame_used s f \<longleftrightarrow> f = 1" if "f \<le> 3" for f
    using pmm_demo_frames [OF that] by (simp add: s_def frame_used_def bm_qword_def bm_addr_def)
  have h: "pmm_highest_frame s = 3" "pmm_bitmap_size_qwords s = 1" "pmm_last_allocated_index s = 2"
    by (simp_all add: s_def pmm_demo_def)
  show "free_block s 2 2"
    using u unfolding free_block_def h
    by (auto simp: word_le_nat_alt)
  show "pmm_find_first_free_contiguous 2 s = Some (Inr (-1, s))"
    using u [of 3] u [of 0] h
    by (simp add: pmm_find_first_free_contiguous_def pmm_find_run_def runK)
qed

end
