(* ===== verification/PageTree.thy ===== *)
theory PageTree
  imports KPrelude
begin

text \<open>
  Trees of x86-64 page tables in a memory of qwords: the walk the hardware makes, what
  it means for the tables reachable from a root to form a tree, and how the walk changes
  when one entry is written. Nothing here depends on how the kernel edits the tables.
\<close>

abbreviation PTE_PRESENT :: u64 where "PTE_PRESENT \<equiv> 0x1"
abbreviation PTE_ADDR_MASK :: u64 where "PTE_ADDR_MASK \<equiv> 0x000FFFFFFFFFF000"

definition pte_target :: "u64 \<Rightarrow> u64 option" where
  "pte_target e = (if e AND PTE_PRESENT = 0 then None else Some (e AND PTE_ADDR_MASK))"

definition table_entry :: "(u64 \<Rightarrow> u64) \<Rightarrow> u64 \<Rightarrow> u64 \<Rightarrow> u64 option" where
  "table_entry m t i = pte_target (m (t + 8 * i))"

primrec table_at :: "(u64 \<Rightarrow> u64) \<Rightarrow> u64 \<Rightarrow> u64 list \<Rightarrow> u64 option" where
  "table_at m t [] = Some t"
| "table_at m t (i # p) = Option.bind (table_entry m t i) (\<lambda>t'. table_at m t' p)"

definition page_aligned :: "u64 \<Rightarrow> bool" where
  "page_aligned t \<longleftrightarrow> t mod 0x1000 = 0"

text \<open>A path of indices to a table (at most three of them) in a four-level tree.\<close>

definition table_path :: "u64 list \<Rightarrow> bool" where
  "table_path p \<longleftrightarrow> list_all (\<lambda>i. i < 512) p \<and> length p \<le> 3"

text \<open>
  Every table reachable from the root satisfies \<open>ok\<close>, and different paths lead to
  different tables.
\<close>

definition pt_tree :: "(u64 \<Rightarrow> u64) \<Rightarrow> u64 \<Rightarrow> (u64 \<Rightarrow> bool) \<Rightarrow> bool" where
  "pt_tree m root ok \<longleftrightarrow> page_aligned root \<and>
     (\<forall>p t. table_path p \<longrightarrow> table_at m root p = Some t \<longrightarrow> ok t) \<and>
     (\<forall>p q t. table_path p \<longrightarrow> table_path q \<longrightarrow> table_at m root p = Some t \<longrightarrow>
        table_at m root q = Some t \<longrightarrow> p = q)"

definition table_empty :: "(u64 \<Rightarrow> u64) \<Rightarrow> u64 \<Rightarrow> bool" where
  "table_empty m t \<longleftrightarrow> (\<forall>j < 512. table_entry m t j = None)"

text \<open>The translation of a page by its four indices: the present leaf entry.\<close>

definition leaf_entry :: "(u64 \<Rightarrow> u64) \<Rightarrow> u64 \<Rightarrow> u64 list \<Rightarrow> u64 \<Rightarrow> u64 option" where
  "leaf_entry m root p i = Option.bind (table_at m root p) (\<lambda>t.
     if m (t + 8 * i) AND PTE_PRESENT = 0 then None else Some (m (t + 8 * i)))"

lemma page_aligned_target [simp]: "page_aligned (e AND PTE_ADDR_MASK)"
proof -
  have "take_bit 12 (e AND PTE_ADDR_MASK) = 0" by (simp add: take_bit_and)
  then show ?thesis by (simp add: page_aligned_def take_bit_eq_mod)
qed

lemma pte_target_aligned: "pte_target e = Some t \<Longrightarrow> page_aligned t"
  by (auto simp: pte_target_def split: if_splits)

lemma table_at_append: "table_at m t (p @ q) = Option.bind (table_at m t p) (\<lambda>t'. table_at m t' q)"
  by (induction p arbitrary: t) (auto split: bind_split)

lemma table_at_snoc: "table_at m t (p @ [i]) = Option.bind (table_at m t p) (\<lambda>t'. table_entry m t' i)"
  by (simp add: table_at_append)

lemma table_at_aligned: "page_aligned t \<Longrightarrow> table_at m t p = Some t' \<Longrightarrow> page_aligned t'"
  by (induction p arbitrary: t) (auto simp: table_entry_def bind_eq_Some_conv dest: pte_target_aligned)

lemma table_path_snoc [simp]: "table_path (p @ [i]) \<longleftrightarrow> table_path p \<and> length p < 3 \<and> i < 512"
  by (auto simp: table_path_def)

lemma table_path_Nil [simp]: "table_path []"
  by (simp add: table_path_def)

lemma pt_tree_aligned: "pt_tree m root ok \<Longrightarrow> page_aligned root"
  by (simp add: pt_tree_def)

lemma pt_tree_ok: "pt_tree m root ok \<Longrightarrow> table_path p \<Longrightarrow> table_at m root p = Some t \<Longrightarrow> ok t"
  by (auto simp: pt_tree_def)

lemma pt_tree_inj:
  "pt_tree m root ok \<Longrightarrow> table_path p \<Longrightarrow> table_path q \<Longrightarrow> table_at m root p = Some t \<Longrightarrow>
   table_at m root q = Some t \<Longrightarrow> p = q"
  by (auto simp: pt_tree_def)

lemma pt_tree_table_aligned:
  "pt_tree m root ok \<Longrightarrow> table_at m root p = Some t \<Longrightarrow> page_aligned t"
  using pt_tree_aligned table_at_aligned by blast

section \<open>Addresses of entries\<close>

lemma unat_entry_addr:
  assumes "page_aligned t" "i < 512" shows "unat (t + 8 * i) = unat t + 8 * unat i"
proof -
  have i: "unat i < 512" using assms(2) by (simp add: word_less_nat_alt)
  have "unat t mod 4096 = 0" using assms(1) by (simp add: page_aligned_def word_unat_eq_iff unat_mod)
  moreover have "unat t < 2 ^ 64" using unat_lt2p [of t] by simp
  ultimately have t: "unat t + 4096 \<le> 2 ^ 64" by (auto simp: mod_eq_0_iff_dvd elim!: dvdE)
  have "unat (8 * i) = 8 * unat i" using i unat_mult_lem [of 8 i] by simp
  then show ?thesis using i t by (subst unat_plus_if') simp
qed

lemma entry_addr_page:
  assumes "page_aligned t" "i < 512" shows "(t + 8 * i) div 0x1000 = t div 0x1000"
proof -
  have i: "unat i < 512" using assms(2) by (simp add: word_less_nat_alt)
  have "unat t mod 4096 = 0" using assms(1) by (simp add: page_aligned_def word_unat_eq_iff unat_mod)
  then obtain k where k: "unat t = 4096 * k" by (auto simp: mod_eq_0_iff_dvd elim: dvdE)
  have "unat ((t + 8 * i) div 0x1000) = unat (t div 0x1000)"
    unfolding unat_div unat_entry_addr [OF assms] k using i by simp
  then show ?thesis by (simp only: word_unat_eq_iff)
qed

lemma page_aligned_eqI:
  assumes "page_aligned t" "page_aligned t'" "t div 0x1000 = t' div 0x1000" shows "t = t'"
  using assms word_mod_div_equality [of t "0x1000"] word_mod_div_equality [of t' "0x1000"]
  by (simp add: page_aligned_def)

lemma entry_addr_eq:
  assumes "page_aligned t" "i < 512" "page_aligned t'" "j < 512"
  shows "t + 8 * i = t' + 8 * j \<longleftrightarrow> t = t' \<and> i = j"
proof
  assume eq: "t + 8 * i = t' + 8 * j"
  have "t div 0x1000 = t' div 0x1000"
    using entry_addr_page [OF assms(1,2)] entry_addr_page [OF assms(3,4)] eq by metis
  then have t: "t = t'" by (rule page_aligned_eqI [OF assms(1,3)])
  have "unat t + 8 * unat i = unat t' + 8 * unat j"
    using unat_entry_addr [OF assms(1,2)] unat_entry_addr [OF assms(3,4)] eq by metis
  then have "unat i = unat j" using t by simp
  then show "t = t' \<and> i = j" using t by (simp only: word_unat_eq_iff)
qed simp

section \<open>Writing one entry\<close>

text \<open>
  Memory that agrees on the pages of all tables has the same walk.
\<close>

lemma table_at_cong:
  assumes tree: "pt_tree m root ok" and p: "table_path p"
    and agree: "\<And>q t i. table_path q \<Longrightarrow> table_at m root q = Some t \<Longrightarrow> length q < 3 \<Longrightarrow> i < 512 \<Longrightarrow>
       m' (t + 8 * i) = m (t + 8 * i)"
  shows "table_at m' root p = table_at m root p"
  using p
proof (induction p rule: rev_induct)
  case (snoc i p)
  then show ?case
    using agree [of p] by (cases "table_at m root p") (auto simp: table_at_snoc table_entry_def)
qed simp

text \<open>
  Writing an entry of a table that is not a leaf table, when neither the table the entry
  pointed to nor the one it points to now has a present entry: only that path changes.
\<close>

lemma table_at_write:
  assumes tree: "pt_tree m root ok" and p: "table_path p" "length p < 3" "table_at m root p = Some t"
    and i: "i < 512"
    and old: "\<forall>f. table_entry m t i = Some f \<longrightarrow> table_empty m f"
    and new: "\<forall>f. pte_target e = Some f \<longrightarrow> f \<noteq> t \<and> table_empty m f"
    and q: "table_path q"
  shows "table_at (m(t + 8 * i := e)) root q = (if q = p @ [i] then pte_target e else table_at m root q)"
  using q
proof (induction q rule: rev_induct)
  case (snoc j q)
  then have q: "table_path q" and j: "j < 512" and
    IH: "table_at (m(t + 8 * i := e)) root q = (if q = p @ [i] then pte_target e else table_at m root q)"
    by (simp_all del: fun_upd_apply)
  have t: "page_aligned t" using pt_tree_table_aligned [OF tree p(3)] .
  have upd: "table_entry (m(t + 8 * i := e)) x j = (if x = t \<and> j = i then pte_target e else table_entry m x j)"
    if "page_aligned x" for x
    using entry_addr_eq [OF that j t i] by (simp add: table_entry_def)
  show ?case
  proof (cases "q = p @ [i]")
    case True
    have "table_at m root (q @ [j]) = None"
      using True old j p(3) by (cases "table_entry m t i") (simp_all add: table_at_append table_empty_def)
    moreover have "Option.bind (pte_target e) (\<lambda>x. table_entry (m(t + 8 * i := e)) x j) = None"
      using new j upd pte_target_aligned by (cases "pte_target e") (simp_all add: table_empty_def)
    ultimately show ?thesis
      unfolding table_at_snoc [of "m(t + 8 * i := e)" root q j] IH using True by simp
  next
    case False
    show ?thesis
    proof (cases "table_at m root q")
      case None
      then show ?thesis
        unfolding table_at_snoc [of "m(t + 8 * i := e)" root q j] IH
        using False p(3) by (auto simp: table_at_snoc)
    next
      case (Some x)
      have "x = t \<longleftrightarrow> q = p" using pt_tree_inj [OF tree q p(1)] Some p(3) by auto
      then show ?thesis
        unfolding table_at_snoc [of "m(t + 8 * i := e)" root q j] IH
        using False Some upd [OF pt_tree_table_aligned [OF tree Some]] by (auto simp: table_at_snoc)
    qed
  qed
qed simp

lemma pt_tree_write:
  assumes tree: "pt_tree m root ok" and p: "table_path p" "length p < 3" "table_at m root p = Some t"
    and i: "i < 512"
    and old: "\<forall>f. table_entry m t i = Some f \<longrightarrow> table_empty m f"
    and new: "\<forall>f. pte_target e = Some f \<longrightarrow> f \<noteq> t \<and> table_empty m f"
    and fresh: "\<And>f q. pte_target e = Some f \<Longrightarrow> ok' f \<and> (table_path q \<longrightarrow> table_at m root q \<noteq> Some f)"
    and keep: "\<And>q x. table_path q \<Longrightarrow> q \<noteq> p @ [i] \<Longrightarrow> table_at m root q = Some x \<Longrightarrow> ok x \<Longrightarrow> ok' x"
  shows "pt_tree (m(t + 8 * i := e)) root ok'"
  unfolding pt_tree_def
proof (intro conjI allI impI)
  note at = table_at_write [OF tree p i old new]
  show "page_aligned root" by (rule pt_tree_aligned [OF tree])
  show "ok' x" if "table_path q" "table_at (m(t + 8 * i := e)) root q = Some x" for q x
    using that(2) fresh keep [OF that(1)] pt_tree_ok [OF tree that(1)]
    unfolding at [OF that(1)] by (auto split: if_splits)
  show "q = q'" if "table_path q" "table_path q'" "table_at (m(t + 8 * i := e)) root q = Some x"
    "table_at (m(t + 8 * i := e)) root q' = Some x" for q q' x
    using that(3,4) fresh pt_tree_inj [OF tree that(1,2)] that(1,2)
    unfolding at [OF that(1)] at [OF that(2)] by (auto split: if_splits)
qed

lemma leaf_entry_write:
  assumes tree: "pt_tree m root ok" and p: "table_path p" "length p < 3" "table_at m root p = Some t"
    and i: "i < 512"
    and old: "\<forall>f. table_entry m t i = Some f \<longrightarrow> table_empty m f"
    and new: "\<forall>f. pte_target e = Some f \<longrightarrow> f \<noteq> t \<and> table_empty m f"
    and q: "table_path q" "length q = 3" and k: "k < 512"
  shows "leaf_entry (m(t + 8 * i := e)) root q k = leaf_entry m root q k"
proof -
  have t: "page_aligned t" using pt_tree_table_aligned [OF tree p(3)] .
  define m' where "m' = m(t + 8 * i := e)"
  note at = table_at_write [OF tree p i old new q(1), folded m'_def]
  have none: "m (f + 8 * k) AND PTE_PRESENT = 0" if "table_empty m f" for f
    using that k by (auto simp: table_empty_def table_entry_def pte_target_def split: if_splits)
  have keep: "m' (x + 8 * k) = m (x + 8 * k)" if "page_aligned x" "x \<noteq> t" for x
    unfolding m'_def
    using entry_addr_eq [OF that(1) k t i] that(2) by auto
  have "leaf_entry m' root q k = leaf_entry m root q k"
  proof (cases "q = p @ [i]")
    case True
    have "leaf_entry m root q k = None"
      using True old p(3) none by (cases "table_entry m t i") (auto simp: leaf_entry_def table_at_snoc)
    moreover have "leaf_entry m' root q k = None"
      unfolding leaf_entry_def at using True new none keep pte_target_aligned
      by (cases "pte_target e") auto
    ultimately show ?thesis by simp
  next
    case False
    have "x \<noteq> t" if "table_at m root q = Some x" for x
      using pt_tree_inj [OF tree q(1) p(1) that] p(2,3) q(2) by auto
    then show ?thesis
      using False keep pt_tree_table_aligned [OF tree]
      by (cases "table_at m root q") (auto simp: leaf_entry_def at)
  qed
  then show ?thesis by (simp only: m'_def)
qed

text \<open>Writing an entry of a leaf table changes the translation of that page only.\<close>

lemma leaf_write:
  assumes tree: "pt_tree m root ok" and p: "table_path p" "length p = 3" "table_at m root p = Some t"
    and i: "i < 512"
  shows "table_path q \<Longrightarrow> table_at (m(t + 8 * i := e)) root q = table_at m root q"
    and "pt_tree (m(t + 8 * i := e)) root ok"
    and "table_path q \<Longrightarrow> length q = 3 \<Longrightarrow> k < 512 \<Longrightarrow>
         leaf_entry (m(t + 8 * i := e)) root q k =
         (if q = p \<and> k = i then (if e AND PTE_PRESENT = 0 then None else Some e)
          else leaf_entry m root q k)"
proof -
  have t: "page_aligned t" using pt_tree_table_aligned [OF tree p(3)] .
  show at: "table_at (m(t + 8 * i := e)) root q = table_at m root q" if "table_path q" for q
  proof (rule table_at_cong [OF tree that])
    fix q x j assume q: "table_path q" "table_at m root q = Some x" "length q < 3" "(j :: u64) < 512"
    have "x \<noteq> t" using pt_tree_inj [OF tree q(1) p(1) q(2)] p(2,3) q(3) by auto
    then show "(m(t + 8 * i := e)) (x + 8 * j) = m (x + 8 * j)"
      using entry_addr_eq [OF pt_tree_table_aligned [OF tree q(2)] q(4) t i] by auto
  qed
  show "pt_tree (m(t + 8 * i := e)) root ok"
    using tree at unfolding pt_tree_def by (metis (no_types, lifting))
  show "leaf_entry (m(t + 8 * i := e)) root q k =
         (if q = p \<and> k = i then (if e AND PTE_PRESENT = 0 then None else Some e)
          else leaf_entry m root q k)" if q: "table_path q" "length q = 3" and k: "k < 512"
  proof (cases "table_at m root q")
    case None
    then show ?thesis unfolding leaf_entry_def at [OF q(1)] using p(3) by auto
  next
    case (Some x)
    have "x = t \<longleftrightarrow> q = p" using pt_tree_inj [OF tree q(1) p(1)] Some p(3) by auto
    then show ?thesis
      unfolding leaf_entry_def at [OF q(1)]
      using entry_addr_eq [OF pt_tree_table_aligned [OF tree Some] k t i] Some by auto
  qed
qed

text \<open>Memory that agrees on every page of a table gives the same tree and translations.\<close>

lemma pt_tree_agree:
  assumes tree: "pt_tree m root ok"
    and agree: "\<And>q t i. table_path q \<Longrightarrow> table_at m root q = Some t \<Longrightarrow> i < 512 \<Longrightarrow>
       m' (t + 8 * i) = m (t + 8 * i)"
    and keep: "\<And>q t. table_path q \<Longrightarrow> table_at m root q = Some t \<Longrightarrow> ok t \<Longrightarrow> ok' t"
  shows "table_path q \<Longrightarrow> table_at m' root q = table_at m root q"
    and "pt_tree m' root ok'"
    and "table_path q \<Longrightarrow> k < 512 \<Longrightarrow> leaf_entry m' root q k = leaf_entry m root q k"
proof -
  show at: "table_at m' root q = table_at m root q" if "table_path q" for q
    by (rule table_at_cong [OF tree that]) (use agree in blast)
  show "pt_tree m' root ok'"
    using tree at keep unfolding pt_tree_def by (metis (no_types, lifting))
  show "leaf_entry m' root q k = leaf_entry m root q k" if "table_path q" "k < 512"
    unfolding leaf_entry_def at [OF that(1)]
    using agree [OF that(1) _ that(2)] by (cases "table_at m root q") auto
qed

end
