(* ===== verification/Vmm.thy ===== *)
theory Vmm
  imports Pmm PageTree
begin

text \<open>
  The virtual memory manager of \<^verbatim>\<open>src/kernel/memory.c\<close>: four-level x86-64 page tables in
  physical memory, reached through the direct map. The theory relates mapping and
  unmapping a page to the translation the hardware walk computes.
\<close>

abbreviation PTE_WRITE :: u64 where "PTE_WRITE \<equiv> 0x2"
abbreviation PTE_PWT :: u64 where "PTE_PWT \<equiv> 0x8"
abbreviation PTE_PCD :: u64 where "PTE_PCD \<equiv> 0x10"
abbreviation PTE_NX :: u64 where "PTE_NX \<equiv> 0x8000000000000000"
abbreviation PTE_FLAGS_MASK :: u64 where "PTE_FLAGS_MASK \<equiv> 0xFFF0000000000FFF"

record address_space_t =
  pml4_phys :: u64
  as_lock :: bool

text \<open>
  An \<open>address_space_t *\<close> is the number of an address space; number 0 is
  \<open>kernel_address_space\<close>. \<open>tlb\<close> holds the cached translations of the CPU.
\<close>

record vmm = pmm +
  spaces :: "nat \<Rightarrow> address_space_t"
  cr3 :: u64
  tlb :: "u64 \<Rightarrow> u64 option"

definition kernel_address_space :: nat where
  "kernel_address_space = 0"

definition space_lock_update :: "nat \<Rightarrow> (bool \<Rightarrow> bool) \<Rightarrow> 'a vmm_scheme \<Rightarrow> 'a vmm_scheme" where
  "space_lock_update k f s =
     s\<lparr>spaces := (spaces s)(k := (spaces s k)\<lparr>as_lock := f (as_lock (spaces s k))\<rparr>)\<rparr>"

definition read_cr3 :: "('a vmm_scheme, u64) km" where
  "read_cr3 = getK cr3"

text \<open>Loading CR3 drops every cached translation.\<close>

definition load_cr3 :: "u64 \<Rightarrow> ('a vmm_scheme, unit) km" where
  "load_cr3 v = modK (\<lambda>s. s\<lparr>cr3 := v, tlb := (\<lambda>_. None)\<rparr>)"

definition invlpg :: "u64 \<Rightarrow> ('a vmm_scheme, unit) km" where
  "invlpg v = modK (\<lambda>s. s\<lparr>tlb := (tlb s)(v := None)\<rparr>)"

text \<open>A \<open>pt_entry_t *\<close> is an address in the direct map.\<close>

definition load_entry :: "u64 \<Rightarrow> ('a pmm_scheme, u64) km" where
  "load_entry p = getK (\<lambda>s. phys_mem s (p - hhdm_phys_offset s))"

definition store_entry :: "u64 \<Rightarrow> u64 \<Rightarrow> ('a pmm_scheme, unit) km" where
  "store_entry p e = modK (\<lambda>s. s\<lparr>phys_mem := (phys_mem s)(p - hhdm_phys_offset s := e)\<rparr>)"

definition vmm_get_next_level :: "u64 \<Rightarrow> bool \<Rightarrow> ('a pmm_scheme, u64) km" where
  "vmm_get_next_level entry allocate_if_needed =
     bindK (load_entry entry) (\<lambda>e.
     if e AND PTE_PRESENT = 0 then
       if \<not> allocate_if_needed then retK 0
       else
         bindK pmm_alloc_frame (\<lambda>frame.
         if frame = 0 then
           seqK (kprintf ''VMM: Failed to allocate frame for page table!\<newline>'' []) (retK 0)
         else
           seqK (store_entry entry (frame OR PTE_PRESENT OR PTE_WRITE)) (phys_to_virt frame))
     else phys_to_virt (e AND PTE_ADDR_MASK))"

definition pml4_index :: "u64 \<Rightarrow> u64" where "pml4_index v = drop_bit 39 v AND 0x1FF"
definition pdpt_index :: "u64 \<Rightarrow> u64" where "pdpt_index v = drop_bit 30 v AND 0x1FF"
definition pd_index :: "u64 \<Rightarrow> u64" where "pd_index v = drop_bit 21 v AND 0x1FF"
definition pt_index :: "u64 \<Rightarrow> u64" where "pt_index v = drop_bit 12 v AND 0x1FF"

definition vmm_warn_remap :: "u64 \<Rightarrow> u64 \<Rightarrow> u64 \<Rightarrow> ('a kcons_scheme, unit) km" where
  "vmm_warn_remap virt_addr pte phys_addr =
     whenK (pte AND PTE_PRESENT \<noteq> 0)
       (kprintf ''VMM: Warning - Remapping page at 0x%lx (old phys 0x%lx, new phys 0x%lx)\<newline>''
          [VInt virt_addr, VInt (pte AND PTE_ADDR_MASK), VInt phys_addr])"

definition vmm_map_page :: "nat \<Rightarrow> u64 \<Rightarrow> u64 \<Rightarrow> u64 \<Rightarrow> ('a vmm_scheme, bool) km" where
  "vmm_map_page space virt_addr phys_addr flags =
     seqK (ASSERT (phys_addr mod PAGE_SIZE = 0) ''(phys_addr % PAGE_SIZE) == 0'' 448)
    (seqK (ASSERT (virt_addr mod PAGE_SIZE = 0) ''(virt_addr % PAGE_SIZE) == 0'' 450)
    (seqK (spin_lock (\<lambda>s. as_lock (spaces s space)) (space_lock_update space))
    (bindK (bindK (getK (\<lambda>s. pml4_phys (spaces s space))) phys_to_virt) (\<lambda>pml4.
     bindK (vmm_get_next_level (pml4 + 8 * pml4_index virt_addr) True) (\<lambda>pdpt.
     if pdpt = 0 then seqK (spin_unlock (space_lock_update space)) (retK False) else
     bindK (vmm_get_next_level (pdpt + 8 * pdpt_index virt_addr) True) (\<lambda>pd.
     if pd = 0 then seqK (spin_unlock (space_lock_update space)) (retK False) else
     bindK (vmm_get_next_level (pd + 8 * pd_index virt_addr) True) (\<lambda>pt.
     if pt = 0 then seqK (spin_unlock (space_lock_update space)) (retK False) else
     bindK (load_entry (pt + 8 * pt_index virt_addr)) (\<lambda>pte.
     seqK (vmm_warn_remap virt_addr pte phys_addr)
    (seqK (store_entry (pt + 8 * pt_index virt_addr)
             ((phys_addr AND PTE_ADDR_MASK) OR (flags AND PTE_FLAGS_MASK) OR PTE_PRESENT))
    (seqK (spin_unlock (space_lock_update space))
    (seqK (invlpg virt_addr)
          (retK True))))))))))))"

definition vmm_is_table_empty :: "u64 \<Rightarrow> ('a pmm_scheme, bool) km" where
  "vmm_is_table_empty table_virt =
     getK (\<lambda>s. list_all (\<lambda>i. phys_mem s (table_virt + 8 * of_nat i - hhdm_phys_offset s) AND PTE_PRESENT = 0)
                        [0..<512])"

text \<open>
  The part of \<open>vmm_unmap_page\<close> after the entry is cleared: tables that have become empty
  are unlinked and their frames freed, from the page table upwards.
\<close>

definition vmm_free_empty_tables :: "u64 \<Rightarrow> u64 \<Rightarrow> u64 \<Rightarrow> u64 \<Rightarrow> u64 \<Rightarrow> u64 \<Rightarrow> ('a pmm_scheme, unit) km" where
  "vmm_free_empty_tables pml4e pdpt pdpte pd pde pt =
     bindK (vmm_is_table_empty pt) (\<lambda>pt_empty. whenK pt_empty (
       bindK (load_entry pde) (\<lambda>e.
       seqK (store_entry pde 0)
      (seqK (pmm_free_frame (e AND PTE_ADDR_MASK))
      (bindK (vmm_is_table_empty pd) (\<lambda>pd_empty. whenK pd_empty (
         bindK (load_entry pdpte) (\<lambda>e.
         seqK (store_entry pdpte 0)
        (seqK (pmm_free_frame (e AND PTE_ADDR_MASK))
        (bindK (vmm_is_table_empty pdpt) (\<lambda>pdpt_empty. whenK pdpt_empty (
           bindK (load_entry pml4e) (\<lambda>e.
           seqK (store_entry pml4e 0)
                (pmm_free_frame (e AND PTE_ADDR_MASK)))))))))))))))"

definition vmm_unmap_page :: "nat \<Rightarrow> u64 \<Rightarrow> ('a vmm_scheme, u64) km" where
  "vmm_unmap_page space virt_addr =
    (let leave = seqK (spin_unlock (space_lock_update space)) (retK 0) in
     seqK (ASSERT (virt_addr mod PAGE_SIZE = 0) ''(virt_addr % PAGE_SIZE) == 0'' 509)
    (seqK (spin_lock (\<lambda>s. as_lock (spaces s space)) (space_lock_update space))
    (bindK (bindK (getK (\<lambda>s. pml4_phys (spaces s space))) phys_to_virt) (\<lambda>pml4.
     let pml4e = pml4 + 8 * pml4_index virt_addr in
     bindK (load_entry pml4e) (\<lambda>e4. if e4 AND PTE_PRESENT = 0 then leave else
     bindK (phys_to_virt (e4 AND PTE_ADDR_MASK)) (\<lambda>pdpt.
     let pdpte = pdpt + 8 * pdpt_index virt_addr in
     bindK (load_entry pdpte) (\<lambda>e3. if e3 AND PTE_PRESENT = 0 then leave else
     bindK (phys_to_virt (e3 AND PTE_ADDR_MASK)) (\<lambda>pd.
     let pde = pd + 8 * pd_index virt_addr in
     bindK (load_entry pde) (\<lambda>e2. if e2 AND PTE_PRESENT = 0 then leave else
     bindK (phys_to_virt (e2 AND PTE_ADDR_MASK)) (\<lambda>pt.
     let pte = pt + 8 * pt_index virt_addr in
     bindK (load_entry pte) (\<lambda>e1. if e1 AND PTE_PRESENT = 0 then leave else
     seqK (store_entry pte 0)
    (seqK (invlpg virt_addr)
    (seqK (vmm_free_empty_tables pml4e pdpt pdpte pd pde pt)
    (seqK (spin_unlock (space_lock_update space))
          (retK (e1 AND PTE_ADDR_MASK))))))))))))))))"

definition vmm_switch_address_space :: "nat \<Rightarrow> ('a vmm_scheme, unit) km" where
  "vmm_switch_address_space space = bindK (getK (\<lambda>s. pml4_phys (spaces s space))) load_cr3"

section \<open>Address spaces as trees of tables\<close>

text \<open>A table lies in a managed frame that is in use and is not part of the frame bitmap.\<close>

definition table_ok :: "'a pmm_scheme \<Rightarrow> u64 \<Rightarrow> bool" where
  "table_ok s t \<longleftrightarrow> page_aligned t \<and> t div PAGE_SIZE \<le> pmm_highest_frame s \<and>
     frame_used s (t div PAGE_SIZE) \<and> t div PAGE_SIZE \<notin> set (bitmap_frames s)"

text \<open>
  The direct map does not wrap around, physical addresses have at most 52 bits, and the
  tables below \<open>root\<close> form a tree.
\<close>

definition space_inv :: "'a pmm_scheme \<Rightarrow> u64 \<Rightarrow> bool" where
  "space_inv s root \<longleftrightarrow> pmm_inv s \<and> \<not> pmm_lock s \<and> pmm_highest_frame s < 2 ^ 40 \<and>
     unat (hhdm_phys_offset s) + (unat (pmm_highest_frame s) + 1) * 4096 \<le> 2 ^ 64 \<and>
     pt_tree (phys_mem s) root (table_ok s)"

text \<open>The leaf entry the hardware walk finds for a page.\<close>

definition mmu_entry :: "'a pmm_scheme \<Rightarrow> u64 \<Rightarrow> u64 \<Rightarrow> u64 option" where
  "mmu_entry s root v =
     leaf_entry (phys_mem s) root [pml4_index v, pdpt_index v, pd_index v] (pt_index v)"

text \<open>Two states that agree on everything the PMM and the tables depend on.\<close>

definition pmm_same :: "'a pmm_scheme \<Rightarrow> 'a pmm_scheme \<Rightarrow> bool" where
  "pmm_same s s' \<longleftrightarrow> phys_mem s' = phys_mem s \<and> hhdm_phys_offset s' = hhdm_phys_offset s \<and>
     pmm_bitmap s' = pmm_bitmap s \<and> pmm_bitmap_size_qwords s' = pmm_bitmap_size_qwords s \<and>
     pmm_total_frames s' = pmm_total_frames s \<and> pmm_used_frames s' = pmm_used_frames s \<and>
     pmm_highest_frame s' = pmm_highest_frame s \<and> pmm_lock s' = pmm_lock s \<and>
     pmm_last_allocated_index s' = pmm_last_allocated_index s"

lemma pmm_same_D:
  assumes "pmm_same s s'"
  shows "frame_used s' = frame_used s" "bitmap_frames s' = bitmap_frames s" "pmm_inv s' = pmm_inv s"
    "table_ok s' = table_ok s" "space_inv s' root = space_inv s root" "mmu_entry s' root v = mmu_entry s root v"
proof -
  show u: "frame_used s' = frame_used s" and b: "bitmap_frames s' = bitmap_frames s"
    using assms by (simp_all add: pmm_same_def fun_eq_iff frame_used_def bm_qword_def bm_addr_def bitmap_frames_def)
  show t: "table_ok s' = table_ok s" using u b assms by (simp add: pmm_same_def fun_eq_iff table_ok_def)
  have "all_frames s' = all_frames s" "bm_addr s' = bm_addr s"
    using assms by (simp_all add: pmm_same_def all_frames_def bm_addr_def fun_eq_iff)
  then show i: "pmm_inv s' = pmm_inv s" using u b assms by (simp add: pmm_same_def pmm_inv_def)
  show "space_inv s' root = space_inv s root" using assms t i by (simp add: space_inv_def pmm_same_def)
  show "mmu_entry s' root v = mmu_entry s root v" using assms by (simp add: mmu_entry_def pmm_same_def)
qed

lemma pmm_same_updates [simp]:
  "pmm_same s (printed str s)"
  "pmm_same s' (s'\<lparr>spaces := x\<rparr>)" "pmm_same s' (s'\<lparr>tlb := y\<rparr>)" "pmm_same s' (s'\<lparr>cr3 := z\<rparr>)"
  "pmm_same s' (space_lock_update k f s')"
  by (simp_all add: pmm_same_def printed_def space_lock_update_def)

subsection \<open>Writing to a table\<close>

definition put_qword :: "u64 \<Rightarrow> u64 \<Rightarrow> 'a pmm_scheme \<Rightarrow> 'a pmm_scheme" where
  "put_qword a e s = s\<lparr>phys_mem := (phys_mem s)(a := e)\<rparr>"

lemma put_qword_fields [simp]:
  "phys_mem (put_qword a e s) = (phys_mem s)(a := e)"
  "hhdm_phys_offset (put_qword a e s) = hhdm_phys_offset s"
  "pmm_bitmap (put_qword a e s) = pmm_bitmap s"
  "pmm_bitmap_size_qwords (put_qword a e s) = pmm_bitmap_size_qwords s"
  "pmm_total_frames (put_qword a e s) = pmm_total_frames s"
  "pmm_used_frames (put_qword a e s) = pmm_used_frames s"
  "pmm_highest_frame (put_qword a e s) = pmm_highest_frame s"
  "pmm_lock (put_qword a e s) = pmm_lock s"
  "pmm_last_allocated_index (put_qword a e s) = pmm_last_allocated_index s"
  "uart_lsr (put_qword a e s) = uart_lsr s"
  "pmm.more (put_qword a e s) = pmm.more s"
  by (simp_all add: put_qword_def)

lemma put_qword_vmm [simp]:
  "spaces (put_qword a e s) = spaces s" "tlb (put_qword a e s) = tlb s" "cr3 (put_qword a e s) = cr3 s"
  by (simp_all add: put_qword_def)

lemma store_entry_run [runK]: "store_entry p e s = Some (Inr ((), put_qword (p - hhdm_phys_offset s) e s))"
  by (simp add: store_entry_def put_qword_def)

lemma load_entry_run [runK]: "load_entry p s = Some (Inr (phys_mem s (p - hhdm_phys_offset s), s))"
  by (simp add: load_entry_def)

lemma put_qword_table:
  assumes inv: "pmm_inv s" and t: "table_ok s t" and i: "i < 512"
  shows "g \<le> pmm_highest_frame s \<Longrightarrow> frame_used (put_qword (t + 8 * i) e s) g = frame_used s g"
    and "bitmap_frames (put_qword (t + 8 * i) e s) = bitmap_frames s"
    and "table_ok (put_qword (t + 8 * i) e s) = table_ok s"
    and "pmm_inv (put_qword (t + 8 * i) e s)"
proof -
  let ?s = "put_qword (t + 8 * i) e s"
  have ba: "bm_addr ?s = bm_addr s" by (simp add: bm_addr_def fun_eq_iff)
  have q: "bm_qword ?s j = bm_qword s j" if "j < pmm_bitmap_size_qwords s" for j
  proof -
    have "bm_addr s (of_nat (unat j)) div PAGE_SIZE \<in> set (bitmap_frames s)"
      unfolding bitmap_frames_def set_map
      by (rule image_eqI [of _ _ "unat j"]) (use that in \<open>simp_all add: word_less_nat_alt\<close>)
    then have "bm_addr s j \<noteq> t + 8 * i"
      using t entry_addr_page [of t i] i by (auto simp: table_ok_def)
    then show ?thesis by (simp add: bm_qword_def ba)
  qed
  show u: "frame_used ?s g = frame_used s g" if "g \<le> pmm_highest_frame s" for g
    using q pmm_inv_frame_qword(1) [OF inv that] by (simp add: frame_used_def)
  show b: "bitmap_frames ?s = bitmap_frames s" by (simp add: bitmap_frames_def ba)
  show "table_ok ?s = table_ok s" using u by (auto simp: fun_eq_iff table_ok_def b)
  have "all_frames ?s = all_frames s" by (simp add: all_frames_def)
  moreover have "filter (frame_used ?s) (all_frames s) = filter (frame_used s) (all_frames s)"
    using u by (intro filter_cong) (auto simp: set_all_frames)
  moreover have "list_all (frame_used ?s) (bitmap_frames s)"
    using u pmm_inv_bitmap_frames [OF inv] by (auto simp: list_all_iff)
  ultimately show "pmm_inv ?s" using inv by (auto simp: pmm_inv_def ba b)
qed

lemma take_other_mem:
  assumes inv: "pmm_inv s" and f: "f \<le> pmm_highest_frame s" "\<not> frame_used s f"
    and a: "frame_used s (a div PAGE_SIZE)" "a div PAGE_SIZE \<notin> set (bitmap_frames s)"
  shows "phys_mem (pmm_take f s) a = phys_mem s a"
proof -
  have "f div 64 < pmm_bitmap_size_qwords s" by (rule pmm_inv_frame_qword(1) [OF inv f(1)])
  then have "bm_addr s (of_nat (unat (f div 64))) div PAGE_SIZE \<in> set (bitmap_frames s)"
    unfolding bitmap_frames_def set_map
    by (intro image_eqI [of _ _ "unat (f div 64)"]) (simp_all add: word_less_nat_alt)
  then show ?thesis using a f(2) by (auto simp: pmm_take_def)
qed

text \<open>Taking a free frame leaves every table as it is; the new page is an empty table.\<close>

lemma take_keeps_tables:
  assumes inv: "pmm_inv s" and f: "f \<le> pmm_highest_frame s" "\<not> frame_used s f"
    and t: "table_ok s t" and i: "i < 512"
  shows "phys_mem (pmm_take f s) (t + 8 * i) = phys_mem s (t + 8 * i)" and "table_ok (pmm_take f s) t"
proof -
  show "phys_mem (pmm_take f s) (t + 8 * i) = phys_mem s (t + 8 * i)"
    by (rule take_other_mem [OF inv f]) (use entry_addr_page [of t i] t i in \<open>simp_all add: table_ok_def\<close>)
  show "table_ok (pmm_take f s) t"
    using t frame_used_take [OF inv f] by (simp add: table_ok_def)
qed

subsection \<open>Growing the tree\<close>

definition is_table :: "'a pmm_scheme \<Rightarrow> u64 \<Rightarrow> u64 \<Rightarrow> bool" where
  "is_table s root t \<longleftrightarrow> (\<exists>q. table_path q \<and> table_at (phys_mem s) root q = Some t)"

text \<open>
  \<open>s'\<close> comes from \<open>s\<close> by adding at most \<open>n\<close> empty tables in frames that were free: no
  translation changes, and neither does the content of any other frame in use.
\<close>

definition tables_grown :: "u64 \<Rightarrow> nat \<Rightarrow> 'a pmm_scheme \<Rightarrow> 'a pmm_scheme \<Rightarrow> bool" where
  "tables_grown root n s s' \<longleftrightarrow>
     space_inv s' root \<and> hhdm_phys_offset s' = hhdm_phys_offset s \<and>
     pmm_highest_frame s' = pmm_highest_frame s \<and> pmm_total_frames s' = pmm_total_frames s \<and>
     uart_lsr s' = uart_lsr s \<and> pmm.more s' = pmm.more s \<and> bitmap_frames s' = bitmap_frames s \<and>
     unat (pmm_used_frames s') \<le> unat (pmm_used_frames s) + n \<and>
     (\<forall>g \<le> pmm_highest_frame s. frame_used s g \<longrightarrow> frame_used s' g) \<and>
     (\<forall>q k. table_path q \<and> length q = 3 \<and> k < 512 \<longrightarrow>
        leaf_entry (phys_mem s') root q k = leaf_entry (phys_mem s) root q k) \<and>
     (\<forall>t. is_table s' root t \<longrightarrow> is_table s root t \<or> \<not> frame_used s (t div PAGE_SIZE)) \<and>
     (\<forall>a. a div PAGE_SIZE \<le> pmm_highest_frame s \<and> frame_used s (a div PAGE_SIZE) \<and>
        a div PAGE_SIZE \<notin> set (bitmap_frames s) \<and> \<not> is_table s root (a div PAGE_SIZE * PAGE_SIZE) \<longrightarrow>
        phys_mem s' a = phys_mem s a)"

lemma entry_page_table:
  assumes "pt_tree (phys_mem s) root ok" "table_path p" "table_at (phys_mem s) root p = Some t" "i < 512"
  shows "is_table s root ((t + 8 * i) div PAGE_SIZE * PAGE_SIZE)"
proof -
  have t: "page_aligned t" by (rule pt_tree_table_aligned [OF assms(1,3)])
  then have "t div PAGE_SIZE * PAGE_SIZE = t"
    using word_mod_div_equality [of t PAGE_SIZE] by (simp add: page_aligned_def)
  then show ?thesis using assms(2,3) entry_addr_page [OF t assms(4)] by (auto simp: is_table_def)
qed

lemma tables_grown_refl: "space_inv s root \<Longrightarrow> tables_grown root n s s"
  by (simp add: tables_grown_def)

lemma page_div_mult: "(a div PAGE_SIZE * PAGE_SIZE) div PAGE_SIZE = (a div PAGE_SIZE :: u64)"
  by (rule frame_addr_div_mod) (simp add: word_less_nat_alt unat_div, use unat_lt2p [of a] in simp)

lemma tables_grown_trans:
  assumes "tables_grown root n s s'" "tables_grown root m s' s''"
  shows "tables_grown root (n + m) s s''"
proof -
  have keep: "\<not> is_table s' root (a div PAGE_SIZE * PAGE_SIZE)"
    if "frame_used s (a div PAGE_SIZE)" "\<not> is_table s root (a div PAGE_SIZE * PAGE_SIZE)" for a
    using assms(1) that page_div_mult [of a] by (auto simp: tables_grown_def)
  have tab: "\<forall>t. is_table s'' root t \<longrightarrow> is_table s root t \<or> \<not> frame_used s (t div PAGE_SIZE)"
  proof (intro allI impI)
    fix t assume t: "is_table s'' root t"
    then have ok: "t div PAGE_SIZE \<le> pmm_highest_frame s"
      using assms pt_tree_ok [of "phys_mem s''" root "table_ok s''"]
      by (auto simp: tables_grown_def is_table_def space_inv_def table_ok_def)
    show "is_table s root t \<or> \<not> frame_used s (t div PAGE_SIZE)"
      using assms t ok unfolding tables_grown_def by metis
  qed
  have mem: "\<forall>a. a div PAGE_SIZE \<le> pmm_highest_frame s \<and> frame_used s (a div PAGE_SIZE) \<and>
        a div PAGE_SIZE \<notin> set (bitmap_frames s) \<and> \<not> is_table s root (a div PAGE_SIZE * PAGE_SIZE) \<longrightarrow>
        phys_mem s'' a = phys_mem s a"
    using assms keep unfolding tables_grown_def by metis
  show ?thesis
    using assms tab mem by (auto simp: tables_grown_def)
qed

lemma present_iff: "(e :: u64) AND PTE_PRESENT = 0 \<longleftrightarrow> \<not> bit e 0"
  using and_exp_eq_0_iff_not_bit [of e 0] by simp

lemma pte_frame_target:
  fixes f :: u64 assumes "f < 2 ^ 40"
  shows "pte_target (f * PAGE_SIZE OR PTE_PRESENT OR PTE_WRITE) = Some (f * PAGE_SIZE)"
proof -
  have f: "take_bit 40 f = f"
    using assms by (simp add: take_bit_eq_mod word_unat_eq_iff unat_mod word_less_nat_alt)
  have m: "PTE_ADDR_MASK = push_bit 12 (mask 40)" by (simp add: mask_eq_exp_minus_1)
  have p: "f * PAGE_SIZE = push_bit 12 f" by (simp add: push_bit_eq_mult)
  have a: "f * PAGE_SIZE AND PTE_ADDR_MASK = f * PAGE_SIZE"
    unfolding m p push_bit_and [symmetric] take_bit_eq_mask [symmetric] f ..
  have "(f * PAGE_SIZE OR PTE_PRESENT OR PTE_WRITE) AND PTE_ADDR_MASK = f * PAGE_SIZE"
    by (simp add: bit.conj_disj_distrib2 a)
  moreover have "(f * PAGE_SIZE OR PTE_PRESENT OR PTE_WRITE) AND PTE_PRESENT \<noteq> 0"
    by (simp add: present_iff bit_or_iff)
  ultimately show ?thesis by (simp add: pte_target_def)
qed

lemma free_frame_exists:
  assumes "pmm_inv s" "unat (pmm_used_frames s) < unat (pmm_total_frames s)"
  shows "\<exists>g \<le> pmm_highest_frame s. \<not> frame_used s g"
proof (rule ccontr)
  assume "\<not> ?thesis"
  then have "filter (frame_used s) (all_frames s) = all_frames s"
    by (auto simp: filter_id_conv set_all_frames)
  moreover have "unat (pmm_highest_frame s + 1) = unat (pmm_highest_frame s) + 1"
    using pmm_inv_size(2) [OF assms(1)] by (subst unat_plus_if') simp
  ultimately show False using assms by (simp add: pmm_inv_def all_frames_def)
qed

lemma table_ptr_nonzero:
  assumes "space_inv s root" "table_ok s t"
  shows "t + hhdm_phys_offset s \<noteq> 0"
proof -
  have "unat t div 4096 \<le> unat (pmm_highest_frame s)"
    using assms(2) by (simp add: table_ok_def word_le_nat_alt unat_div)
  then have "unat t < (unat (pmm_highest_frame s) + 1) * 4096" by (simp add: less_mult_imp_div_less div_less_iff_less_mult flip: less_Suc_eq_le)
  then have "unat t + unat (hhdm_phys_offset s) < 2 ^ 64" using assms(1) by (auto simp: space_inv_def)
  then have "unat (t + hhdm_phys_offset s) = unat t + unat (hhdm_phys_offset s)"
    by (subst unat_plus_if') simp
  moreover have "hhdm_phys_offset s \<noteq> 0" using assms(1) by (simp add: space_inv_def pmm_inv_def)
  ultimately show ?thesis by (auto simp: word_unat_eq_iff)
qed

text \<open>After a free frame is taken, the tree is as before and the frame is an empty table outside it.\<close>

lemma take_tree:
  assumes inv: "space_inv s root" and f: "f \<le> pmm_highest_frame s" "\<not> frame_used s f"
  shows "table_path q \<Longrightarrow> table_at (phys_mem (pmm_take f s)) root q = table_at (phys_mem s) root q"
    and "pt_tree (phys_mem (pmm_take f s)) root (table_ok (pmm_take f s))"
    and "table_path q \<Longrightarrow> k < 512 \<Longrightarrow>
         leaf_entry (phys_mem (pmm_take f s)) root q k = leaf_entry (phys_mem s) root q k"
proof -
  have pinv: "pmm_inv s" and tree: "pt_tree (phys_mem s) root (table_ok s)"
    using inv by (auto simp: space_inv_def)
  note tk = take_keeps_tables [OF pinv f]
  have "phys_mem (pmm_take f s) (x + 8 * j) = phys_mem s (x + 8 * j)" if "table_path q"
    "table_at (phys_mem s) root q = Some x" "j < 512" for q x j
    using tk(1) [OF pt_tree_ok [OF tree that(1,2)] that(3)] .
  moreover have "table_ok (pmm_take f s) x" if "table_ok s x" for x using tk(2) [OF that, of 0] by simp
  ultimately show "table_path q \<Longrightarrow> table_at (phys_mem (pmm_take f s)) root q = table_at (phys_mem s) root q"
    and "pt_tree (phys_mem (pmm_take f s)) root (table_ok (pmm_take f s))"
    and "table_path q \<Longrightarrow> k < 512 \<Longrightarrow>
         leaf_entry (phys_mem (pmm_take f s)) root q k = leaf_entry (phys_mem s) root q k"
    using pt_tree_agree [OF tree, of "phys_mem (pmm_take f s)" "table_ok (pmm_take f s)"] by blast+
qed

lemma fresh_table:
  assumes inv: "space_inv s root" and f: "f \<le> pmm_highest_frame s" "\<not> frame_used s f"
  shows "f * PAGE_SIZE div PAGE_SIZE = f" and "table_ok (pmm_take f s) (f * PAGE_SIZE)"
    and "table_empty (phys_mem (pmm_take f s)) (f * PAGE_SIZE)"
    and "table_path q \<Longrightarrow> table_at (phys_mem s) root q \<noteq> Some (f * PAGE_SIZE)"
proof -
  have pinv: "pmm_inv s" and tree: "pt_tree (phys_mem s) root (table_ok s)"
    using inv by (auto simp: space_inv_def)
  show pg: "f * PAGE_SIZE div PAGE_SIZE = f"
    using frame_addr_div_mod(1) [OF pmm_inv_frame_qword(2) [OF pinv f(1)]] .
  have al: "page_aligned (f * PAGE_SIZE)"
    using frame_addr_div_mod(2) [OF pmm_inv_frame_qword(2) [OF pinv f(1)]] by (simp add: page_aligned_def)
  show "table_ok (pmm_take f s) (f * PAGE_SIZE)"
    using f pmm_inv_bitmap_frames(2) [OF pinv] frame_used_take [OF pinv f f(1)]
    by (auto simp: table_ok_def pg al)
  show "table_empty (phys_mem (pmm_take f s)) (f * PAGE_SIZE)"
    using entry_addr_page [OF al] pg
    by (auto simp: table_empty_def table_entry_def pmm_take_def pte_target_def)
  show "table_path q \<Longrightarrow> table_at (phys_mem s) root q \<noteq> Some (f * PAGE_SIZE)"
    using pt_tree_ok [OF tree, of q "f * PAGE_SIZE"] f(2) pg by (auto simp: table_ok_def)
qed

lemma next_level_absent:
  assumes inv: "space_inv s root" and p: "table_path p" "length p < 3" "table_at (phys_mem s) root p = Some t"
    and i: "i < 512" and absent: "table_entry (phys_mem s) t i = None"
    and f: "f \<le> pmm_highest_frame s" "\<not> frame_used s f"
  defines "s' \<equiv> put_qword (t + 8 * i) (f * PAGE_SIZE OR PTE_PRESENT OR PTE_WRITE) (pmm_take f s)"
  shows "tables_grown root 1 s s'" and "table_at (phys_mem s') root (p @ [i]) = Some (f * PAGE_SIZE)"
proof -
  let ?s1 = "pmm_take f s" and ?e = "f * PAGE_SIZE OR PTE_PRESENT OR PTE_WRITE"
  have pinv: "pmm_inv s" and tree: "pt_tree (phys_mem s) root (table_ok s)" and f40: "f < 2 ^ 40"
    using inv f(1) by (auto simp: space_inv_def)
  note T1 = take_tree [OF inv f] and F = fresh_table [OF inv f] and tgt = pte_frame_target [OF f40]
  have t: "table_ok s t" "table_ok ?s1 t"
    using pt_tree_ok [OF tree p(1,3)] take_keeps_tables(2) [OF pinv f, of t 0] by auto
  have p1: "table_at (phys_mem ?s1) root p = Some t" using T1(1) [OF p(1)] p(3) by simp
  have old: "\<forall>x. table_entry (phys_mem ?s1) t i = Some x \<longrightarrow> table_empty (phys_mem ?s1) x"
    using absent take_keeps_tables(1) [OF pinv f t(1) i] by (simp add: table_entry_def)
  have new: "\<forall>x. pte_target ?e = Some x \<longrightarrow> x \<noteq> t \<and> table_empty (phys_mem ?s1) x"
    using tgt F(3,4) p(1,3) by auto
  note w = put_qword_table [OF pmm_inv_take [OF pinv f] t(2) i, where e = ?e, folded s'_def]
  have mem: "phys_mem s' = (phys_mem ?s1)(t + 8 * i := ?e)" by (simp add: s'_def)
  note at2 = table_at_write [OF T1(2) p(1,2) p1 i old new, folded mem]
  show "table_at (phys_mem s') root (p @ [i]) = Some (f * PAGE_SIZE)"
    using at2 [of "p @ [i]"] p i tgt by simp
  have tree2: "pt_tree (phys_mem s') root (table_ok s')"
    unfolding mem
    by (rule pt_tree_write [OF T1(2) p(1,2) p1 i old new]) (use tgt F T1(1) in \<open>auto simp: w(3)\<close>)
  show "tables_grown root 1 s s'"
    unfolding tables_grown_def
  proof (intro conjI)
    show "space_inv s' root" using inv tree2 w(4) by (simp add: space_inv_def s'_def)
    show "unat (pmm_used_frames s') \<le> unat (pmm_used_frames s) + 1"
      by (simp add: s'_def unat_plus_if') arith
    show "\<forall>g \<le> pmm_highest_frame s. frame_used s g \<longrightarrow> frame_used s' g"
      using w(1) frame_used_take [OF pinv f] by simp
    show "\<forall>q k. table_path q \<and> length q = 3 \<and> k < 512 \<longrightarrow>
        leaf_entry (phys_mem s') root q k = leaf_entry (phys_mem s) root q k"
      using leaf_entry_write [OF T1(2) p(1,2) p1 i old new, folded mem] T1(3) by simp
    show "\<forall>t. is_table s' root t \<longrightarrow> is_table s root t \<or> \<not> frame_used s (t div PAGE_SIZE)"
      using at2 T1(1) tgt f(2) F(1) by (auto simp: is_table_def split: if_splits)
    show "\<forall>a. a div PAGE_SIZE \<le> pmm_highest_frame s \<and> frame_used s (a div PAGE_SIZE) \<and>
        a div PAGE_SIZE \<notin> set (bitmap_frames s) \<and> \<not> is_table s root (a div PAGE_SIZE * PAGE_SIZE) \<longrightarrow>
        phys_mem s' a = phys_mem s a"
      using take_other_mem [OF pinv f] entry_page_table [OF tree p(1,3) i] by (auto simp: mem)
  qed (simp_all add: s'_def put_qword_def bitmap_frames_def bm_addr_def pmm_take_def)
qed

text \<open>
  \<open>vmm_get_next_level\<close> with allocation: it returns the next table, new or old. Frame 0
  must be in use, since the code takes the address 0 for a failure.
\<close>

lemma vmm_get_next_level_run:
  assumes inv: "space_inv s root" and p: "table_path p" "length p < 3" "table_at (phys_mem s) root p = Some t"
    and i: "i < 512" and zero: "frame_used s 0"
    and room: "unat (pmm_used_frames s) < unat (pmm_total_frames s)"
    and ptr: "ptr = t + hhdm_phys_offset s + 8 * i"
  shows "\<exists>t' s'. vmm_get_next_level ptr True s = Some (Inr (t' + hhdm_phys_offset s, s')) \<and>
     t' + hhdm_phys_offset s \<noteq> 0 \<and> tables_grown root 1 s s' \<and> table_at (phys_mem s') root (p @ [i]) = Some t'"
proof (cases "table_entry (phys_mem s) t i")
  case (Some t')
  have h: "hhdm_phys_offset s \<noteq> 0" using inv by (simp add: space_inv_def pmm_inv_def)
  have at: "table_at (phys_mem s) root (p @ [i]) = Some t'" using Some p(3) by (simp add: table_at_snoc)
  then have "table_ok s t'"
    using inv p i pt_tree_ok [of "phys_mem s" root "table_ok s" "p @ [i]"] by (simp add: space_inv_def)
  then have "t' + hhdm_phys_offset s \<noteq> 0" by (rule table_ptr_nonzero [OF inv])
  moreover have "vmm_get_next_level ptr True s = Some (Inr (t' + hhdm_phys_offset s, s))"
    using Some h unfolding vmm_get_next_level_def ptr
    by (simp add: runK table_entry_def pte_target_def split: if_splits)
  ultimately show ?thesis using at tables_grown_refl [OF inv] by blast
next
  case None
  have pinv: "pmm_inv s" "\<not> pmm_lock s" using inv by (auto simp: space_inv_def)
  then have h: "hhdm_phys_offset s \<noteq> 0" by (simp add: pmm_inv_def)
  obtain f where f: "f \<le> pmm_highest_frame s" "\<not> frame_used s f"
    "pmm_alloc_frame s = Some (Inr (f * PAGE_SIZE, pmm_take f s))"
    using free_frame_exists [OF pinv(1) room] pmm_alloc_frame_run [OF pinv] by blast
  note F = fresh_table [OF inv f(1,2)] and A = next_level_absent [OF inv p i None f(1,2)]
  have f0: "f * PAGE_SIZE \<noteq> 0" using F(1) zero f(2) by auto
  let ?s' = "put_qword (t + 8 * i) (f * PAGE_SIZE OR PTE_PRESENT OR PTE_WRITE) (pmm_take f s)"
  have "table_ok ?s' (f * PAGE_SIZE)"
    using A p i pt_tree_ok [of "phys_mem ?s'" root "table_ok ?s'" "p @ [i]"]
    by (simp add: tables_grown_def space_inv_def)
  then have "f * PAGE_SIZE + hhdm_phys_offset s \<noteq> 0"
    using table_ptr_nonzero [of ?s' root] A(1) by (simp add: tables_grown_def)
  moreover have "vmm_get_next_level ptr True s = Some (Inr (f * PAGE_SIZE + hhdm_phys_offset s, ?s'))"
    using None h f(3) f0 unfolding vmm_get_next_level_def ptr
    by (simp add: runK table_entry_def pte_target_def split: if_splits)
  ultimately show ?thesis using A by blast
qed

subsection \<open>Indices\<close>

lemma index_mask: "(x :: u64) AND 0x1FF = take_bit 9 x"
proof -
  have "(0x1FF :: u64) = mask 9" by (simp add: mask_eq_exp_minus_1)
  then show ?thesis by (simp only: take_bit_eq_mask)
qed

lemma index_less [simp]:
  "pml4_index v < 512" "pdpt_index v < 512" "pd_index v < 512" "pt_index v < 512"
proof -
  have "take_bit 9 x < (512 :: u64)" for x by (simp add: take_bit_eq_mod word_mod_less_divisor)
  then show "pml4_index v < 512" "pdpt_index v < 512" "pd_index v < 512" "pt_index v < 512"
    by (simp_all add: pml4_index_def pdpt_index_def pd_index_def pt_index_def index_mask)
qed

text \<open>The part of a virtual address that the walk looks at: bits 12 to 47.\<close>

definition page_number :: "u64 \<Rightarrow> u64" where
  "page_number v = take_bit 36 (drop_bit 12 v)"

lemma page_number_indices:
  assumes "pml4_index v = pml4_index w" "pdpt_index v = pdpt_index w" "pd_index v = pd_index w"
    "pt_index v = pt_index w"
  shows "page_number v = page_number w"
proof (rule bit_eqI)
  fix n
  have ix: "bit v (k + m) = bit w (k + m)" if "m < 9" "k \<in> {12, 21, 30, 39}" for k m
  proof -
    have "take_bit 9 (drop_bit k v) = take_bit 9 (drop_bit k w)"
      using assms that by (auto simp: pml4_index_def pdpt_index_def pd_index_def pt_index_def index_mask)
    then have "bit (take_bit 9 (drop_bit k v)) m = bit (take_bit 9 (drop_bit k w)) m" by simp
    then show ?thesis using that(1) by (simp add: bit_take_bit_iff bit_drop_bit_eq)
  qed
  show "bit (page_number v) n = bit (page_number w) n"
  proof (cases "n < 36")
    case True
    then consider "n < 9" | "9 \<le> n" "n - 9 < 9" | "18 \<le> n" "n - 18 < 9" | "27 \<le> n" "n - 27 < 9" by linarith
    then have "bit v (12 + n) = bit w (12 + n)"
    proof cases
      case 1 then show ?thesis using ix [of n 12] by simp
    next
      case 2 then show ?thesis using ix [of "n - 9" 21] by simp
    next
      case 3 then show ?thesis using ix [of "n - 18" 30] by simp
    next
      case 4 then show ?thesis using ix [of "n - 27" 39] by simp
    qed
    then show ?thesis by (simp add: page_number_def bit_take_bit_iff bit_drop_bit_eq)
  qed (simp add: page_number_def bit_take_bit_iff)
qed

subsection \<open>Mapping a page\<close>

lemma vmm_more_eq:
  "pmm.more s' = pmm.more s \<Longrightarrow> spaces s' = spaces s \<and> tlb s' = tlb s \<and> cr3 s' = cr3 s \<and> vmm.more s' = vmm.more s"
  by (cases s, cases s') simp

text \<open>The three levels of the walk in \<open>vmm_map_page\<close>.\<close>

lemma three_levels:
  assumes inv: "space_inv s root" and zero: "frame_used s 0"
    and room: "unat (pmm_used_frames s) + 3 \<le> unat (pmm_total_frames s)"
  obtains t3 t2 t1 s1 s2 s3 where
    "vmm_get_next_level (root + hhdm_phys_offset s + 8 * pml4_index v) True s = Some (Inr (t3 + hhdm_phys_offset s, s1))"
    "vmm_get_next_level (t3 + hhdm_phys_offset s + 8 * pdpt_index v) True s1 = Some (Inr (t2 + hhdm_phys_offset s, s2))"
    "vmm_get_next_level (t2 + hhdm_phys_offset s + 8 * pd_index v) True s2 = Some (Inr (t1 + hhdm_phys_offset s, s3))"
    "t3 + hhdm_phys_offset s \<noteq> 0" "t2 + hhdm_phys_offset s \<noteq> 0" "t1 + hhdm_phys_offset s \<noteq> 0"
    "tables_grown root 3 s s3" "table_at (phys_mem s3) root [pml4_index v, pdpt_index v, pd_index v] = Some t1"
proof -
  obtain t3 s1 where a: "vmm_get_next_level (root + hhdm_phys_offset s + 8 * pml4_index v) True s =
      Some (Inr (t3 + hhdm_phys_offset s, s1))" "t3 + hhdm_phys_offset s \<noteq> 0"
    and g1: "tables_grown root 1 s s1" and p1: "table_at (phys_mem s1) root ([] @ [pml4_index v]) = Some t3"
    using vmm_get_next_level_run [OF inv _ _ _ index_less(1) zero _ refl, of "[]" root v] room by auto
  have s1: "space_inv s1 root" "frame_used s1 0" "hhdm_phys_offset s1 = hhdm_phys_offset s"
    "unat (pmm_used_frames s1) + 2 \<le> unat (pmm_total_frames s1)"
    using g1 zero room by (auto simp: tables_grown_def)
  obtain t2 s2 where b: "vmm_get_next_level (t3 + hhdm_phys_offset s + 8 * pdpt_index v) True s1 =
      Some (Inr (t2 + hhdm_phys_offset s, s2))" "t2 + hhdm_phys_offset s \<noteq> 0"
    and g2: "tables_grown root 1 s1 s2" and p2: "table_at (phys_mem s2) root ([pml4_index v] @ [pdpt_index v]) = Some t2"
    using vmm_get_next_level_run [OF s1(1) _ _ _ index_less(2) s1(2) _ refl, of "[pml4_index v]" t3 v] s1(3,4) p1
    by (auto simp: table_path_def)
  have s2: "space_inv s2 root" "frame_used s2 0" "hhdm_phys_offset s2 = hhdm_phys_offset s"
    "unat (pmm_used_frames s2) + 1 \<le> unat (pmm_total_frames s2)"
    using g2 s1 by (auto simp: tables_grown_def)
  obtain t1 s3 where c: "vmm_get_next_level (t2 + hhdm_phys_offset s + 8 * pd_index v) True s2 =
      Some (Inr (t1 + hhdm_phys_offset s, s3))" "t1 + hhdm_phys_offset s \<noteq> 0"
    and g3: "tables_grown root 1 s2 s3"
    and p3: "table_at (phys_mem s3) root ([pml4_index v, pdpt_index v] @ [pd_index v]) = Some t1"
    using vmm_get_next_level_run [OF s2(1) _ _ _ index_less(3) s2(2) _ refl, of "[pml4_index v, pdpt_index v]" t2 v]
      s2(3,4) p2
    by (auto simp: table_path_def)
  have g: "tables_grown root 3 s s3"
    using tables_grown_trans [OF tables_grown_trans [OF g1 g2] g3] by (simp add: numeral_3_eq_3)
  show thesis by (rule that [OF a(1) b(1) c(1) a(2) b(2) c(2) g]) (use p3 in simp)
qed

lemma space_lock_update_fields [simp]:
  "phys_mem (space_lock_update k f s) = phys_mem s"
  "hhdm_phys_offset (space_lock_update k f s) = hhdm_phys_offset s"
  "pmm_used_frames (space_lock_update k f s) = pmm_used_frames s"
  "pmm_total_frames (space_lock_update k f s) = pmm_total_frames s"
  "pmm_highest_frame (space_lock_update k f s) = pmm_highest_frame s"
  "uart_lsr (space_lock_update k f s) = uart_lsr s"
  "tlb (space_lock_update k f s) = tlb s"
  "pml4_phys (spaces (space_lock_update k f s) j) = pml4_phys (spaces s j)"
  "as_lock (spaces (space_lock_update k f s) j) = (if j = k then f (as_lock (spaces s j)) else as_lock (spaces s j))"
  by (simp_all add: space_lock_update_def)

lemmas same_lock [simp] = pmm_same_D [OF pmm_same_updates(5)]
lemmas same_tlb [simp] = pmm_same_D [OF pmm_same_updates(3)]
lemmas same_printed [simp] = pmm_same_D [OF pmm_same_updates(1)]

lemma is_table_same [simp]:
  "is_table (space_lock_update k f s) = is_table s" "is_table (s\<lparr>tlb := x\<rparr>) = is_table s"
  "is_table (printed str s) = is_table s"
  by (simp_all add: fun_eq_iff is_table_def printed_def)

text \<open>The remapping warning only prints.\<close>

lemma remap_warning:
  assumes "uart_ready s"
  shows "\<exists>str. vmm_warn_remap v pte p s = Some (Inr ((), printed str s))"
  using assms by (auto simp: vmm_warn_remap_def kprintf_format intro: exI [of _ "[]"])

text \<open>Setting the final entry in a leaf table of the tree.\<close>

lemma set_leaf:
  assumes inv: "space_inv s root" and p: "table_path p" "length p = 3" "table_at (phys_mem s) root p = Some t"
    and i: "i < 512"
  shows "space_inv (put_qword (t + 8 * i) e s) root"
    and "g \<le> pmm_highest_frame s \<Longrightarrow> frame_used (put_qword (t + 8 * i) e s) g = frame_used s g"
    and "bitmap_frames (put_qword (t + 8 * i) e s) = bitmap_frames s"
    and "table_path q \<Longrightarrow> length q = 3 \<Longrightarrow> j < 512 \<Longrightarrow>
         leaf_entry (phys_mem (put_qword (t + 8 * i) e s)) root q j =
         (if q = p \<and> j = i then (if e AND PTE_PRESENT = 0 then None else Some e)
          else leaf_entry (phys_mem s) root q j)"
    and "is_table (put_qword (t + 8 * i) e s) root = is_table s root"
    and "\<not> is_table s root (a div PAGE_SIZE * PAGE_SIZE) \<Longrightarrow> phys_mem (put_qword (t + 8 * i) e s) a = phys_mem s a"
proof -
  have tree: "pt_tree (phys_mem s) root (table_ok s)" and pinv: "pmm_inv s" using inv by (auto simp: space_inv_def)
  note w = put_qword_table [OF pinv pt_tree_ok [OF tree p(1,3)] i, where e = e]
  note L = leaf_write [OF tree p i, where e = e]
  show "space_inv (put_qword (t + 8 * i) e s) root"
    using inv L(2) w(3,4) by (simp add: space_inv_def)
  show "g \<le> pmm_highest_frame s \<Longrightarrow> frame_used (put_qword (t + 8 * i) e s) g = frame_used s g" by (rule w(1))
  show "bitmap_frames (put_qword (t + 8 * i) e s) = bitmap_frames s" by (rule w(2))
  show "table_path q \<Longrightarrow> length q = 3 \<Longrightarrow> j < 512 \<Longrightarrow>
         leaf_entry (phys_mem (put_qword (t + 8 * i) e s)) root q j =
         (if q = p \<and> j = i then (if e AND PTE_PRESENT = 0 then None else Some e)
          else leaf_entry (phys_mem s) root q j)"
    using L(3) by simp
  show "is_table (put_qword (t + 8 * i) e s) root = is_table s root"
    using L(1) by (auto simp: is_table_def fun_eq_iff simp del: fun_upd_apply)
  show "\<not> is_table s root (a div PAGE_SIZE * PAGE_SIZE) \<Longrightarrow> phys_mem (put_qword (t + 8 * i) e s) a = phys_mem s a"
    using entry_page_table [OF tree p(1,3) i] by auto
qed

text \<open>What mapping page \<open>v\<close> with entry \<open>e\<close> does to the state.\<close>

definition page_mapped :: "u64 \<Rightarrow> u64 \<Rightarrow> u64 \<Rightarrow> 'a vmm_scheme \<Rightarrow> 'a vmm_scheme \<Rightarrow> bool" where
  "page_mapped root v e s s' \<longleftrightarrow>
     mmu_entry s' root v = Some e \<and>
     (\<forall>w. page_number w \<noteq> page_number v \<longrightarrow> mmu_entry s' root w = mmu_entry s root w) \<and>
     tlb s' = (tlb s)(v := None) \<and> spaces s' = spaces s \<and> cr3 s' = cr3 s \<and> vmm.more s' = vmm.more s \<and>
     space_inv s' root \<and>
     uart_lsr s' = uart_lsr s \<and> hhdm_phys_offset s' = hhdm_phys_offset s \<and>
     pmm_highest_frame s' = pmm_highest_frame s \<and> pmm_total_frames s' = pmm_total_frames s \<and>
     bitmap_frames s' = bitmap_frames s \<and>
     unat (pmm_used_frames s') \<le> unat (pmm_used_frames s) + 3 \<and>
     (\<forall>g \<le> pmm_highest_frame s. frame_used s g \<longrightarrow> frame_used s' g) \<and>
     (\<forall>t. is_table s' root t \<longrightarrow> is_table s root t \<or> \<not> frame_used s (t div PAGE_SIZE)) \<and>
     (\<forall>a. a div PAGE_SIZE \<le> pmm_highest_frame s \<and> frame_used s (a div PAGE_SIZE) \<and>
        a div PAGE_SIZE \<notin> set (bitmap_frames s) \<and> \<not> is_table s root (a div PAGE_SIZE * PAGE_SIZE) \<longrightarrow>
        phys_mem s' a = phys_mem s a)"

lemma set_leaf_mapped:
  assumes g: "tables_grown root 3 s s1" and more: "spaces s1 = spaces s" "tlb s1 = tlb s"
    and p: "table_at (phys_mem s1) root [pml4_index v, pdpt_index v, pd_index v] = Some t"
    and e: "e AND PTE_PRESENT \<noteq> 0"
  shows "page_mapped root v e s ((put_qword (t + 8 * pt_index v) e s1)\<lparr>tlb := (tlb s)(v := None)\<rparr>)"
proof -
  let ?p = "[pml4_index v, pdpt_index v, pd_index v]"
  let ?s2 = "put_qword (t + 8 * pt_index v) e s1"
  have path: "table_path [pml4_index w, pdpt_index w, pd_index w]" for w by (simp add: table_path_def)
  have inv1: "space_inv s1 root" using g by (simp add: tables_grown_def)
  have len: "length [pml4_index w, pdpt_index w, pd_index w] = 3" for w by simp
  note L = set_leaf [OF inv1 path len p index_less(4) [of v], where e = e]
  have more2: "cr3 s1 = cr3 s \<and> vmm.more s1 = vmm.more s" using g vmm_more_eq [of s1 s] by (simp add: tables_grown_def)
  have sp: "spaces ?s2 = spaces s" "cr3 ?s2 = cr3 s" "vmm.more ?s2 = vmm.more s"
    using vmm_more_eq [of ?s2 s1] more more2 by auto
  have m1: "mmu_entry ?s2 root v = Some e"
    using L(4) [OF path len index_less(4) [of v], of v] e by (simp add: mmu_entry_def)
  have m2: "mmu_entry ?s2 root w = mmu_entry s root w" if "page_number w \<noteq> page_number v" for w
  proof -
    have "\<not> ([pml4_index w, pdpt_index w, pd_index w] = ?p \<and> pt_index w = pt_index v)"
      using page_number_indices [of w v] that by auto
    then have "mmu_entry ?s2 root w = mmu_entry s1 root w"
      using L(4) [OF path len index_less(4) [of w], of w] by (auto simp: mmu_entry_def)
    then show ?thesis using g path by (simp add: tables_grown_def mmu_entry_def)
  qed
  have tb: "\<forall>t. is_table ?s2 root t \<longrightarrow> is_table s root t \<or> \<not> frame_used s (t div PAGE_SIZE)"
    using g by (simp add: L(5) tables_grown_def)
  have mem: "\<forall>a. a div PAGE_SIZE \<le> pmm_highest_frame s \<and> frame_used s (a div PAGE_SIZE) \<and>
        a div PAGE_SIZE \<notin> set (bitmap_frames s) \<and> \<not> is_table s root (a div PAGE_SIZE * PAGE_SIZE) \<longrightarrow>
        phys_mem ?s2 a = phys_mem s a"
  proof (intro allI impI, elim conjE)
    fix a assume a: "a div PAGE_SIZE \<le> pmm_highest_frame s" "frame_used s (a div PAGE_SIZE)"
      "a div PAGE_SIZE \<notin> set (bitmap_frames s)" "\<not> is_table s root (a div PAGE_SIZE * PAGE_SIZE)"
    then have "\<not> is_table s1 root (a div PAGE_SIZE * PAGE_SIZE)"
      using g page_div_mult [of a] by (auto simp: tables_grown_def)
    then have "phys_mem ?s2 a = phys_mem s1 a" by (rule L(6))
    then show "phys_mem ?s2 a = phys_mem s a" using a g by (simp add: tables_grown_def)
  qed
  have "\<forall>g \<le> pmm_highest_frame s. frame_used s g \<longrightarrow> frame_used ?s2 g"
    using g L(2) by (simp add: tables_grown_def)
  then show ?thesis
    using m1 m2 L(1,3) g tb mem sp unfolding page_mapped_def by (simp add: tables_grown_def del: put_qword_fields(1))
qed

lemma space_lock_tlb: "space_lock_update k f (s\<lparr>tlb := x\<rparr>) = (space_lock_update k f s)\<lparr>tlb := x\<rparr>"
  by (cases s) (simp add: space_lock_update_def)

lemma page_mapped_lock:
  assumes "page_mapped root v e (space_lock_update k (\<lambda>_. True) s) s'" "\<not> as_lock (spaces s k)"
  shows "page_mapped root v e s (space_lock_update k (\<lambda>_. False) s')"
proof -
  have "vmm.more (space_lock_update k f t) = vmm.more t" "cr3 (space_lock_update k f t) = cr3 t"
    for f and t :: "'a vmm_scheme" by (simp_all add: space_lock_update_def)
  moreover have "spaces (space_lock_update k (\<lambda>_. False) s') = spaces s"
    using assms by (simp add: page_mapped_def space_lock_update_def fun_upd_idem)
  ultimately show ?thesis using assms(1) by (simp add: page_mapped_def)
qed

abbreviation pte_for :: "u64 \<Rightarrow> u64 \<Rightarrow> u64" where
  "pte_for phys_addr flags \<equiv> (phys_addr AND PTE_ADDR_MASK) OR (flags AND PTE_FLAGS_MASK) OR PTE_PRESENT"

lemma vmm_map_page_run:
  assumes inv: "space_inv s (pml4_phys (spaces s k))" and lock: "\<not> as_lock (spaces s k)"
    and zero: "frame_used s 0" and uart: "uart_ready s"
    and room: "unat (pmm_used_frames s) + 3 \<le> unat (pmm_total_frames s)"
    and al: "virt_addr mod PAGE_SIZE = 0" "phys_addr mod PAGE_SIZE = 0"
  shows "\<exists>s'. vmm_map_page k virt_addr phys_addr flags s = Some (Inr (True, s')) \<and>
     page_mapped (pml4_phys (spaces s k)) virt_addr (pte_for phys_addr flags) s s'"
proof -
  let ?root = "pml4_phys (spaces s k)" and ?h = "hhdm_phys_offset s" and ?v = virt_addr
  let ?e = "pte_for phys_addr flags" and ?i = "pt_index virt_addr"
  define s0 where "s0 = space_lock_update k (\<lambda>_. True) s"
  have h: "?h \<noteq> 0" using inv by (simp add: space_inv_def pmm_inv_def)
  have s0: "space_inv s0 ?root" "frame_used s0 0" "hhdm_phys_offset s0 = ?h"
    "unat (pmm_used_frames s0) + 3 \<le> unat (pmm_total_frames s0)"
    using inv zero room by (simp_all add: s0_def)
  obtain t3 t2 t1 s1 s2 s3 where
    w: "vmm_get_next_level (?root + ?h + 8 * pml4_index ?v) True s0 = Some (Inr (t3 + ?h, s1))"
    "vmm_get_next_level (t3 + ?h + 8 * pdpt_index ?v) True s1 = Some (Inr (t2 + ?h, s2))"
    "vmm_get_next_level (t2 + ?h + 8 * pd_index ?v) True s2 = Some (Inr (t1 + ?h, s3))"
    "t3 + ?h \<noteq> 0" "t2 + ?h \<noteq> 0" "t1 + ?h \<noteq> 0"
    and g: "tables_grown ?root 3 s0 s3"
    and at: "table_at (phys_mem s3) ?root [pml4_index ?v, pdpt_index ?v, pd_index ?v] = Some t1"
    by (rule three_levels [OF s0(1,2,4), unfolded s0(3)])
  have h3: "hhdm_phys_offset s3 = ?h" "uart_ready s3"
    using g uart s0(3) by (simp_all add: tables_grown_def s0_def uart_ready_def)
  obtain str where str: "vmm_warn_remap ?v (phys_mem s3 (t1 + 8 * ?i)) phys_addr s3 = Some (Inr ((), printed str s3))"
    using remap_warning [OF h3(2)] by blast
  let ?s4 = "put_qword (t1 + 8 * ?i) ?e (printed str s3)"
  have run: "vmm_map_page k ?v phys_addr flags s =
      Some (Inr (True, (space_lock_update k (\<lambda>_. False) ?s4)\<lparr>tlb := (tlb ?s4)(?v := None)\<rparr>))"
    unfolding vmm_map_page_def
    using al lock h w h3 str by (simp add: runK ASSERT_holds s0_def invlpg_def printed_def)
  have "tables_grown ?root 3 s0 (printed str s3)"
    using g unfolding tables_grown_def by (simp add: printed_def [of str s3] is_table_def) (simp flip: printed_def)
  then have "page_mapped ?root ?v ?e s0 (?s4\<lparr>tlb := (tlb s0)(?v := None)\<rparr>)"
    using at g vmm_more_eq [of s3 s0]
    by (intro set_leaf_mapped) (auto simp: tables_grown_def printed_def bit_or_iff present_iff)
  then have "page_mapped ?root ?v ?e s (space_lock_update k (\<lambda>_. False) (?s4\<lparr>tlb := (tlb s0)(?v := None)\<rparr>))"
    unfolding s0_def using lock by (rule page_mapped_lock)
  moreover have "tlb ?s4 = tlb s0"
    using g vmm_more_eq [of s3 s0] by (simp add: tables_grown_def printed_def put_qword_def)
  ultimately show ?thesis using run by (simp only: space_lock_tlb) blast
qed

subsection \<open>Unmapping a page\<close>

lemma give_other_mem:
  assumes "pmm_inv s" "f \<le> pmm_highest_frame s" "a div PAGE_SIZE \<notin> set (bitmap_frames s)"
  shows "phys_mem (pmm_give f s) a = phys_mem s a"
proof -
  have "f div 64 < pmm_bitmap_size_qwords s" by (rule pmm_inv_frame_qword(1) [OF assms(1,2)])
  then have "bm_addr s (of_nat (unat (f div 64))) div PAGE_SIZE \<in> set (bitmap_frames s)"
    unfolding bitmap_frames_def set_map
    by (intro image_eqI [of _ _ "unat (f div 64)"]) (simp_all add: word_less_nat_alt)
  then show ?thesis using assms(3) by (auto simp: pmm_give_def bm_store_def)
qed

text \<open>
  \<open>s'\<close> comes from \<open>s\<close> by unlinking empty tables and freeing their frames.
\<close>

definition tables_shrunk :: "u64 \<Rightarrow> 'a pmm_scheme \<Rightarrow> 'a pmm_scheme \<Rightarrow> bool" where
  "tables_shrunk root s s' \<longleftrightarrow>
     space_inv s' root \<and> hhdm_phys_offset s' = hhdm_phys_offset s \<and>
     pmm_highest_frame s' = pmm_highest_frame s \<and> pmm_total_frames s' = pmm_total_frames s \<and>
     uart_lsr s' = uart_lsr s \<and> pmm.more s' = pmm.more s \<and> bitmap_frames s' = bitmap_frames s \<and>
     (\<forall>t. is_table s' root t \<longrightarrow> is_table s root t) \<and>
     (\<forall>g \<le> pmm_highest_frame s. frame_used s g \<and> \<not> is_table s root (g * PAGE_SIZE) \<longrightarrow> frame_used s' g) \<and>
     (\<forall>q k. table_path q \<and> length q = 3 \<and> k < 512 \<longrightarrow>
        leaf_entry (phys_mem s') root q k = leaf_entry (phys_mem s) root q k) \<and>
     (\<forall>a. a div PAGE_SIZE \<notin> set (bitmap_frames s) \<and> \<not> is_table s root (a div PAGE_SIZE * PAGE_SIZE) \<longrightarrow>
        phys_mem s' a = phys_mem s a)"

lemma tables_shrunk_refl: "space_inv s root \<Longrightarrow> tables_shrunk root s s"
  by (simp add: tables_shrunk_def)

lemma tables_shrunk_trans:
  assumes "tables_shrunk root s s'" "tables_shrunk root s' s''" shows "tables_shrunk root s s''"
proof -
  have a: "\<forall>g \<le> pmm_highest_frame s. frame_used s g \<and> \<not> is_table s root (g * PAGE_SIZE) \<longrightarrow> frame_used s'' g"
    and b: "\<forall>a. a div PAGE_SIZE \<notin> set (bitmap_frames s) \<and> \<not> is_table s root (a div PAGE_SIZE * PAGE_SIZE) \<longrightarrow>
        phys_mem s'' a = phys_mem s a"
    using assms unfolding tables_shrunk_def by metis+
  show ?thesis using assms a b by (auto simp: tables_shrunk_def)
qed

text \<open>Clearing the entry that leads to an empty table and giving its frame back.\<close>

lemma give_table:
  assumes pinv: "pmm_inv s" and lock: "\<not> pmm_lock s" and tree: "pt_tree (phys_mem s) root ok"
    and ok: "\<forall>q y. table_path q \<longrightarrow> table_at (phys_mem s) root q = Some y \<longrightarrow> table_ok s y \<and> y \<noteq> x"
    and x: "table_ok s x"
  defines "s' \<equiv> pmm_give (x div PAGE_SIZE) s"
  shows "pmm_free_frame x s = Some (Inr ((), s'))" and "pmm_inv s'"
    and "table_path q \<Longrightarrow> table_at (phys_mem s') root q = table_at (phys_mem s) root q"
    and "pt_tree (phys_mem s') root (table_ok s')"
    and "table_path q \<Longrightarrow> k < 512 \<Longrightarrow> leaf_entry (phys_mem s') root q k = leaf_entry (phys_mem s) root q k"
proof -
  have al: "page_aligned x" and hi: "x div PAGE_SIZE \<le> pmm_highest_frame s"
    and us: "frame_used s (x div PAGE_SIZE)" and nb: "x div PAGE_SIZE \<notin> set (bitmap_frames s)"
    using x by (auto simp: table_ok_def)
  have "x div PAGE_SIZE * PAGE_SIZE = x"
    using al word_mod_div_equality [of x PAGE_SIZE] by (simp add: page_aligned_def)
  then show "pmm_free_frame x s = Some (Inr ((), s'))"
    using pmm_free_frame_run [OF pinv lock hi us] by (simp add: s'_def)
  show "pmm_inv s'" unfolding s'_def by (rule pmm_inv_give [OF pinv hi us nb])
  have agree: "phys_mem s' (y + 8 * i) = phys_mem s (y + 8 * i)"
    if "table_path q" "table_at (phys_mem s) root q = Some y" "i < 512" for q y i
    unfolding s'_def
    using ok [rule_format, OF that(1,2)] entry_addr_page [of y i] that(3)
    by (intro give_other_mem [OF pinv hi]) (simp add: table_ok_def)
  have keep: "table_ok s' y" if "table_path q" "table_at (phys_mem s) root q = Some y" "ok y" for q y
    using ok [rule_format, OF that(1,2)] frame_used_give [OF pinv hi, of "y div PAGE_SIZE"] page_aligned_eqI [OF _ al, of y]
    by (auto simp: table_ok_def s'_def)
  show "table_path q \<Longrightarrow> table_at (phys_mem s') root q = table_at (phys_mem s) root q"
    and "pt_tree (phys_mem s') root (table_ok s')"
    and "table_path q \<Longrightarrow> k < 512 \<Longrightarrow> leaf_entry (phys_mem s') root q k = leaf_entry (phys_mem s) root q k"
    using pt_tree_agree [OF tree, of "phys_mem s'" "table_ok s'"] agree keep by blast+
qed

lemma unlink_table:
  assumes inv: "space_inv s root" and p: "table_path p" "length p < 3" "table_at (phys_mem s) root p = Some t"
    and i: "i < 512" and x: "table_entry (phys_mem s) t i = Some x" and empty: "table_empty (phys_mem s) x"
  defines "s1 \<equiv> put_qword (t + 8 * i) 0 s"
  defines "s2 \<equiv> pmm_give (x div PAGE_SIZE) s1"
  shows "pmm_free_frame x s1 = Some (Inr ((), s2))" and "tables_shrunk root s s2"
    and "table_path q \<Longrightarrow> q \<noteq> p @ [i] \<Longrightarrow> table_at (phys_mem s2) root q = table_at (phys_mem s) root q"
proof -
  have tree: "pt_tree (phys_mem s) root (table_ok s)" and pinv: "pmm_inv s" and lock: "\<not> pmm_lock s"
    using inv by (auto simp: space_inv_def)
  have px: "table_path (p @ [i])" "table_at (phys_mem s) root (p @ [i]) = Some x"
    using p i x by (auto simp: table_at_snoc)
  note okx = pt_tree_ok [OF tree px] and okt = pt_tree_ok [OF tree p(1,3)]
  note w = put_qword_table [OF pinv okt i, where e = 0, folded s1_def]
  have old: "\<forall>f. table_entry (phys_mem s) t i = Some f \<longrightarrow> table_empty (phys_mem s) f" using x empty by simp
  have new: "\<forall>f. pte_target 0 = Some f \<longrightarrow> f \<noteq> t \<and> table_empty (phys_mem s) f" by (simp add: pte_target_def)
  have mem1: "phys_mem s1 = (phys_mem s)(t + 8 * i := 0)" by (simp add: s1_def)
  note at1 = table_at_write [OF tree p i old new, folded mem1, simplified pte_target_def, simplified]
  have tree1: "pt_tree (phys_mem s1) root (table_ok s1)"
    unfolding mem1 by (rule pt_tree_write [OF tree p i old new]) (auto simp: pte_target_def w(3))
  have ok1: "\<forall>q y. table_path q \<longrightarrow> table_at (phys_mem s1) root q = Some y \<longrightarrow> table_ok s1 y \<and> y \<noteq> x"
    using at1 pt_tree_ok [OF tree] pt_tree_inj [OF tree _ px(1) _ px(2)] by (auto simp: w(3) split: if_splits)
  have lock1: "\<not> pmm_lock s1" and okx1: "table_ok s1 x" using lock okx w(3) by (simp_all add: s1_def)
  note G = give_table [OF w(4) lock1 tree1 ok1 okx1, folded s2_def]
  show "pmm_free_frame x s1 = Some (Inr ((), s2))" by (rule G(1))
  show at2: "table_at (phys_mem s2) root q = table_at (phys_mem s) root q" if "table_path q" "q \<noteq> p @ [i]" for q
    using G(3) [OF that(1)] at1 [OF that(1)] that(2) by simp
  have hi: "x div PAGE_SIZE \<le> pmm_highest_frame s1" using okx1 by (simp add: table_ok_def)
  show "tables_shrunk root s s2"
    unfolding tables_shrunk_def
  proof (intro conjI)
    show "space_inv s2 root" using inv G(2,4) by (simp add: space_inv_def s2_def s1_def)
    show "\<forall>y. is_table s2 root y \<longrightarrow> is_table s root y"
      using G(3) at1 by (auto simp: is_table_def split: if_splits)
    show "\<forall>q k. table_path q \<and> length q = 3 \<and> k < 512 \<longrightarrow>
        leaf_entry (phys_mem s2) root q k = leaf_entry (phys_mem s) root q k"
      using G(5) leaf_entry_write [OF tree p i old new, folded mem1] by simp
    show "\<forall>g \<le> pmm_highest_frame s. frame_used s g \<and> \<not> is_table s root (g * PAGE_SIZE) \<longrightarrow> frame_used s2 g"
    proof (intro allI impI, elim conjE)
      fix g assume g: "g \<le> pmm_highest_frame s" "frame_used s g" "\<not> is_table s root (g * PAGE_SIZE)"
      have "x div PAGE_SIZE * PAGE_SIZE = x"
        using okx word_mod_div_equality [of x PAGE_SIZE] by (simp add: table_ok_def page_aligned_def)
      then have "g \<noteq> x div PAGE_SIZE" using g(3) px by (auto simp: is_table_def)
      then show "frame_used s2 g"
        using frame_used_give [OF w(4) hi, of g] w(1) g by (simp add: s2_def s1_def)
    qed
    show "\<forall>a. a div PAGE_SIZE \<notin> set (bitmap_frames s) \<and> \<not> is_table s root (a div PAGE_SIZE * PAGE_SIZE) \<longrightarrow>
        phys_mem s2 a = phys_mem s a"
      using give_other_mem [OF w(4) hi] entry_page_table [OF tree p(1,3) i]
      by (auto simp: s2_def mem1 w(2))
  qed (simp_all add: s2_def s1_def w(2) [unfolded s1_def])
qed

lemma vmm_is_table_empty_run [runK]:
  assumes "hhdm_phys_offset s = h"
  shows "vmm_is_table_empty (t + h) s = Some (Inr (table_empty (phys_mem s) t, s))"
proof -
  have "list_all (\<lambda>i. phys_mem s (t + 8 * of_nat i) AND PTE_PRESENT = 0) [0..<512] = table_empty (phys_mem s) t"
  proof
    assume l: "list_all (\<lambda>i. phys_mem s (t + 8 * of_nat i) AND PTE_PRESENT = 0) [0..<512]"
    have "table_entry (phys_mem s) t j = None" if "j < 512" for j
    proof -
      have "unat j \<in> set [0..<512]" using that by (simp add: word_less_nat_alt)
      then have "phys_mem s (t + 8 * of_nat (unat j)) AND PTE_PRESENT = 0"
        using l unfolding list_all_iff by blast
      then show ?thesis by (simp add: table_entry_def pte_target_def)
    qed
    then show "table_empty (phys_mem s) t" by (simp add: table_empty_def)
  next
    assume e: "table_empty (phys_mem s) t"
    have "(of_nat i :: u64) < 512" if "i < 512" for i using that by (simp add: word_less_nat_alt unat_of_nat)
    then show "list_all (\<lambda>i. phys_mem s (t + 8 * of_nat i) AND PTE_PRESENT = 0) [0..<512]"
      using e by (auto simp: list_all_iff table_empty_def table_entry_def pte_target_def split: if_splits)
  qed
  then show ?thesis using assms by (simp add: vmm_is_table_empty_def del: upt_Suc upt_conv_Cons)
qed

text \<open>One level: if the table below entry \<open>i\<close> of \<open>t\<close> is empty, it is unlinked and freed, then \<open>k\<close> runs.\<close>

lemma unlink_level:
  assumes inv: "space_inv s root" and p: "table_path p" "length p < 3" "table_at (phys_mem s) root p = Some t"
    and i: "i < 512" and at: "table_at (phys_mem s) root (p @ [i]) = Some x"
    and h: "hhdm_phys_offset s = h" and ptr: "ptr = t + h + 8 * i"
    and cont: "\<And>s2. tables_shrunk root s s2 \<Longrightarrow>
        (\<And>q. table_path q \<Longrightarrow> q \<noteq> p @ [i] \<Longrightarrow> table_at (phys_mem s2) root q = table_at (phys_mem s) root q) \<Longrightarrow>
        \<exists>s'. k s2 = Some (Inr ((), s')) \<and> tables_shrunk root s2 s'"
  shows "\<exists>s'. bindK (vmm_is_table_empty (x + h)) (\<lambda>empty. whenK empty (
       bindK (load_entry ptr) (\<lambda>e. seqK (store_entry ptr 0) (seqK (pmm_free_frame (e AND PTE_ADDR_MASK)) k)))) s =
       Some (Inr ((), s')) \<and> tables_shrunk root s s'"
proof (cases "table_empty (phys_mem s) x")
  case False
  then show ?thesis using tables_shrunk_refl [OF inv] by (simp add: vmm_is_table_empty_run [OF h])
next
  case True
  have x: "table_entry (phys_mem s) t i = Some x" using at p(3) by (simp add: table_at_snoc)
  then have e: "phys_mem s (t + 8 * i) AND PTE_ADDR_MASK = x"
    by (auto simp: table_entry_def pte_target_def split: if_splits)
  note U = unlink_table [OF inv p i x True]
  obtain s' where s': "k (pmm_give (x div PAGE_SIZE) (put_qword (t + 8 * i) 0 s)) = Some (Inr ((), s'))"
    "tables_shrunk root (pmm_give (x div PAGE_SIZE) (put_qword (t + 8 * i) 0 s)) s'"
    using cont [OF U(2,3)] by blast
  have "tables_shrunk root s s'" by (rule tables_shrunk_trans [OF U(2) s'(2)])
  then show ?thesis using True U(1) s'(1) e h by (simp add: vmm_is_table_empty_run [OF h] runK ptr)
qed

lemma vmm_free_empty_tables_run:
  assumes inv: "space_inv s root" and ix: "i4 < 512" "i3 < 512" "i2 < 512"
    and t3: "table_at (phys_mem s) root [i4] = Some t3" and t2: "table_at (phys_mem s) root [i4, i3] = Some t2"
    and t1: "table_at (phys_mem s) root [i4, i3, i2] = Some t1" and h: "hhdm_phys_offset s = h"
  shows "\<exists>s'. vmm_free_empty_tables (root + h + 8 * i4) (t3 + h) (t3 + h + 8 * i3) (t2 + h) (t2 + h + 8 * i2) (t1 + h) s =
       Some (Inr ((), s')) \<and> tables_shrunk root s s'"
  unfolding vmm_free_empty_tables_def
proof (rule unlink_level [OF inv, of "[i4, i3]" t2 i2 t1])
  fix s2 assume s2: "tables_shrunk root s s2"
    and at2: "\<And>q. table_path q \<Longrightarrow> q \<noteq> [i4, i3] @ [i2] \<Longrightarrow> table_at (phys_mem s2) root q = table_at (phys_mem s) root q"
  have inv2: "space_inv s2 root" and h2: "hhdm_phys_offset s2 = h" using s2 h by (auto simp: tables_shrunk_def)
  show "\<exists>s'. bindK (vmm_is_table_empty (t2 + h)) (\<lambda>pd_empty. whenK pd_empty (
         bindK (load_entry (t3 + h + 8 * i3)) (\<lambda>e. seqK (store_entry (t3 + h + 8 * i3) 0)
        (seqK (pmm_free_frame (e AND PTE_ADDR_MASK))
        (bindK (vmm_is_table_empty (t3 + h)) (\<lambda>pdpt_empty. whenK pdpt_empty (
           bindK (load_entry (root + h + 8 * i4)) (\<lambda>e. seqK (store_entry (root + h + 8 * i4) 0)
                (pmm_free_frame (e AND PTE_ADDR_MASK)))))))))) s2 = Some (Inr ((), s')) \<and> tables_shrunk root s2 s'"
  proof (rule unlink_level [OF inv2, of "[i4]" t3 i3 t2])
    fix s3 assume s3: "tables_shrunk root s2 s3"
      and at3: "\<And>q. table_path q \<Longrightarrow> q \<noteq> [i4] @ [i3] \<Longrightarrow> table_at (phys_mem s3) root q = table_at (phys_mem s2) root q"
    have inv3: "space_inv s3 root" and h3: "hhdm_phys_offset s3 = h" using s3 h2 by (auto simp: tables_shrunk_def)
    have "\<exists>s'. bindK (vmm_is_table_empty (t3 + h)) (\<lambda>pdpt_empty. whenK pdpt_empty (
           bindK (load_entry (root + h + 8 * i4)) (\<lambda>e. seqK (store_entry (root + h + 8 * i4) 0)
                (seqK (pmm_free_frame (e AND PTE_ADDR_MASK)) (retK ()))))) s3 = Some (Inr ((), s')) \<and> tables_shrunk root s3 s'"
    proof (rule unlink_level [OF inv3, of "[]" root i4 t3])
      show "table_at (phys_mem s3) root ([] @ [i4]) = Some t3"
        using at3 [of "[i4]"] at2 [of "[i4]"] t3 ix by (simp add: table_path_def)
    qed (use ix h3 in \<open>auto dest: tables_shrunk_refl simp: tables_shrunk_def\<close>)
    then show "\<exists>s'. bindK (vmm_is_table_empty (t3 + h)) (\<lambda>pdpt_empty. whenK pdpt_empty (
           bindK (load_entry (root + h + 8 * i4)) (\<lambda>e. seqK (store_entry (root + h + 8 * i4) 0)
                (pmm_free_frame (e AND PTE_ADDR_MASK))))) s3 = Some (Inr ((), s')) \<and> tables_shrunk root s3 s'"
      unfolding bindK_ret_unit .
  next
    show "table_at (phys_mem s2) root [i4] = Some t3" "table_at (phys_mem s2) root ([i4] @ [i3]) = Some t2"
      using at2 [of "[i4]"] at2 [of "[i4, i3]"] t3 t2 ix by (simp_all add: table_path_def)
  qed (use ix h2 in \<open>auto simp: table_path_def\<close>)
qed (use ix t1 t2 h in \<open>auto simp: table_path_def\<close>)

text \<open>What unmapping page \<open>v\<close> does to the state.\<close>

definition page_unmapped :: "u64 \<Rightarrow> u64 \<Rightarrow> 'a vmm_scheme \<Rightarrow> 'a vmm_scheme \<Rightarrow> bool" where
  "page_unmapped root v s s' \<longleftrightarrow>
     mmu_entry s' root v = None \<and>
     (\<forall>w. page_number w \<noteq> page_number v \<longrightarrow> mmu_entry s' root w = mmu_entry s root w) \<and>
     tlb s' = (tlb s)(v := None) \<and> spaces s' = spaces s \<and> space_inv s' root \<and>
     uart_lsr s' = uart_lsr s \<and> (\<forall>t. is_table s' root t \<longrightarrow> is_table s root t) \<and>
     (\<forall>g \<le> pmm_highest_frame s. frame_used s g \<and> \<not> is_table s root (g * PAGE_SIZE) \<longrightarrow> frame_used s' g) \<and>
     (\<forall>a. a div PAGE_SIZE \<notin> set (bitmap_frames s) \<and> \<not> is_table s root (a div PAGE_SIZE * PAGE_SIZE) \<longrightarrow>
        phys_mem s' a = phys_mem s a)"

lemma page_unmapped_lock:
  assumes "page_unmapped root v (space_lock_update k (\<lambda>_. True) s) s'" "\<not> as_lock (spaces s k)"
  shows "page_unmapped root v s (space_lock_update k (\<lambda>_. False) s')"
proof -
  have "spaces (space_lock_update k (\<lambda>_. False) s') = spaces s"
    using assms by (simp add: page_unmapped_def space_lock_update_def fun_upd_idem)
  then show ?thesis using assms(1) by (simp add: page_unmapped_def)
qed

lemma clear_leaf_unmapped:
  assumes inv: "space_inv s root"
    and p: "table_at (phys_mem s) root [pml4_index v, pdpt_index v, pd_index v] = Some t"
    and sh: "tables_shrunk root ((put_qword (t + 8 * pt_index v) 0 s)\<lparr>tlb := (tlb s)(v := None)\<rparr>) s'"
  shows "page_unmapped root v s s'"
proof -
  let ?p = "[pml4_index v, pdpt_index v, pd_index v]"
  let ?s1 = "put_qword (t + 8 * pt_index v) 0 s"
  have path: "table_path [pml4_index w, pdpt_index w, pd_index w]" for w by (simp add: table_path_def)
  have len: "length [pml4_index w, pdpt_index w, pd_index w] = 3" for w by simp
  note L = set_leaf [OF inv path len p index_less(4) [of v], where e = 0]
  have leaf: "mmu_entry s' root w = mmu_entry ?s1 root w" for w
    using sh path [of w] by (simp add: tables_shrunk_def mmu_entry_def)
  have more: "tlb s' = (tlb s)(v := None)" "spaces s' = spaces s"
    using vmm_more_eq [of s' "?s1\<lparr>tlb := (tlb s)(v := None)\<rparr>"] vmm_more_eq [of ?s1 s] sh
    by (auto simp: tables_shrunk_def)
  have "mmu_entry ?s1 root v = None"
    using L(4) [OF path len index_less(4) [of v], of v] by (simp add: mmu_entry_def)
  moreover have "mmu_entry ?s1 root w = mmu_entry s root w" if "page_number w \<noteq> page_number v" for w
    using L(4) [OF path len index_less(4) [of w], of w] page_number_indices [of w v] that
    by (auto simp: mmu_entry_def)
  moreover have "\<forall>g \<le> pmm_highest_frame s. frame_used s g \<and> \<not> is_table s root (g * PAGE_SIZE) \<longrightarrow> frame_used s' g"
    using sh L(2,5) by (simp add: tables_shrunk_def)
  moreover have "\<forall>a. a div PAGE_SIZE \<notin> set (bitmap_frames s) \<and> \<not> is_table s root (a div PAGE_SIZE * PAGE_SIZE) \<longrightarrow>
        phys_mem s' a = phys_mem s a"
    using sh L(3,5,6) by (auto simp: tables_shrunk_def)
  ultimately show ?thesis
    using sh leaf more L(5) by (simp add: page_unmapped_def tables_shrunk_def)
qed

lemma lock_roundtrip:
  assumes "\<not> as_lock (spaces s k)"
  shows "space_lock_update k (\<lambda>_. False) (space_lock_update k (\<lambda>_. True) s) = s"
proof -
  have "(spaces s k)\<lparr>as_lock := False\<rparr> = spaces s k" using assms by (cases "spaces s k") simp
  then show ?thesis by (cases s) (simp add: space_lock_update_def fun_upd_idem)
qed

text \<open>The levels of the walk that are present.\<close>

lemma mmu_entry_levels:
  "mmu_entry s root v =
    (case table_entry (phys_mem s) root (pml4_index v) of None \<Rightarrow> None | Some t3 \<Rightarrow>
     case table_entry (phys_mem s) t3 (pdpt_index v) of None \<Rightarrow> None | Some t2 \<Rightarrow>
     case table_entry (phys_mem s) t2 (pd_index v) of None \<Rightarrow> None | Some t1 \<Rightarrow>
     let e = phys_mem s (t1 + 8 * pt_index v) in if e AND PTE_PRESENT = 0 then None else Some e)"
  by (simp add: mmu_entry_def leaf_entry_def Let_def split: option.split)

lemma vmm_unmap_page_absent:
  assumes inv: "space_inv s (pml4_phys (spaces s k))" and lock: "\<not> as_lock (spaces s k)"
    and al: "v mod PAGE_SIZE = 0" and none: "mmu_entry s (pml4_phys (spaces s k)) v = None"
  shows "vmm_unmap_page k v s = Some (Inr (0, s))"
proof -
  have h: "hhdm_phys_offset s \<noteq> 0" using inv by (simp add: space_inv_def pmm_inv_def)
  show ?thesis
    using none lock al h lock_roundtrip [OF lock]
    unfolding vmm_unmap_page_def mmu_entry_levels
    by (auto simp: runK ASSERT_holds Let_def table_entry_def pte_target_def split: if_splits)
qed

lemma vmm_unmap_page_present:
  assumes inv: "space_inv s (pml4_phys (spaces s k))" and lock: "\<not> as_lock (spaces s k)"
    and al: "v mod PAGE_SIZE = 0" and some: "mmu_entry s (pml4_phys (spaces s k)) v = Some e"
  shows "\<exists>s'. vmm_unmap_page k v s = Some (Inr (e AND PTE_ADDR_MASK, s')) \<and>
              page_unmapped (pml4_phys (spaces s k)) v s s'"
proof -
  let ?root = "pml4_phys (spaces s k)" and ?h = "hhdm_phys_offset s" and ?m = "phys_mem s"
  have h: "?h \<noteq> 0" using inv by (simp add: space_inv_def pmm_inv_def)
  obtain t3 t2 t1 where t: "table_entry ?m ?root (pml4_index v) = Some t3" "table_entry ?m t3 (pdpt_index v) = Some t2"
    "table_entry ?m t2 (pd_index v) = Some t1" and e: "?m (t1 + 8 * pt_index v) = e" "e AND PTE_PRESENT \<noteq> 0"
    using some by (auto simp: mmu_entry_levels Let_def split: option.splits if_splits)
  define s1 where "s1 = (put_qword (t1 + 8 * pt_index v) 0 (space_lock_update k (\<lambda>_. True) s))\<lparr>tlb := (tlb s)(v := None)\<rparr>"
  have at: "table_at ?m ?root [pml4_index v] = Some t3" "table_at ?m ?root [pml4_index v, pdpt_index v] = Some t2"
    "table_at ?m ?root [pml4_index v, pdpt_index v, pd_index v] = Some t1"
    using t by simp_all
  have path: "table_path [pml4_index v, pdpt_index v, pd_index v]" "table_path [pml4_index v, pdpt_index v]"
    "table_path [pml4_index v]" by (simp_all add: table_path_def)
  have inv0: "space_inv (space_lock_update k (\<lambda>_. True) s) ?root" using inv by simp
  have tree: "pt_tree ?m ?root (table_ok s)" using inv by (simp add: space_inv_def)
  have inv1: "space_inv s1 ?root" and at1: "table_path q \<Longrightarrow> table_at (phys_mem s1) ?root q = table_at ?m ?root q" for q
    using set_leaf(1) [OF inv0 path(1), of t1 "pt_index v" 0] leaf_write(1) [OF tree path(1) _ at(3), of "pt_index v" q 0] at
    by (simp_all add: s1_def)
  have h1: "hhdm_phys_offset s1 = ?h" by (simp add: s1_def)
  obtain s2 where s2: "vmm_free_empty_tables (?root + ?h + 8 * pml4_index v) (t3 + ?h) (t3 + ?h + 8 * pdpt_index v)
      (t2 + ?h) (t2 + ?h + 8 * pd_index v) (t1 + ?h) s1 = Some (Inr ((), s2))" "tables_shrunk ?root s1 s2"
    using vmm_free_empty_tables_run [OF inv1 index_less(1) [of v] index_less(2) [of v] index_less(3) [of v]
        at [folded at1 [OF path(3)] at1 [OF path(2)] at1 [OF path(1)]] h1]
    by blast
  have run: "vmm_unmap_page k v s = Some (Inr (e AND PTE_ADDR_MASK, space_lock_update k (\<lambda>_. False) s2))"
    unfolding vmm_unmap_page_def
    using al lock h t e s2(1)
    by (simp add: runK ASSERT_holds Let_def table_entry_def pte_target_def invlpg_def s1_def split: if_splits)
  have "page_unmapped ?root v (space_lock_update k (\<lambda>_. True) s) s2"
    using s2(2) at(3) unfolding s1_def
    by (intro clear_leaf_unmapped [OF inv0, of v t1]) (simp_all del: table_at.simps)
  then have "page_unmapped ?root v s (space_lock_update k (\<lambda>_. False) s2)"
    using lock by (rule page_unmapped_lock)
  then show ?thesis using run by blast
qed

section \<open>The address space contract\<close>

definition vmm_ready :: "nat \<Rightarrow> 'a vmm_scheme \<Rightarrow> bool" where
  "vmm_ready k s \<longleftrightarrow> space_inv s (pml4_phys (spaces s k)) \<and> \<not> as_lock (spaces s k) \<and> frame_used s 0 \<and>
     \<not> is_table s (pml4_phys (spaces s k)) 0 \<and> uart_ready s"

definition vmm_room :: "'a vmm_scheme \<Rightarrow> bool" where
  "vmm_room s \<longleftrightarrow> unat (pmm_used_frames s) + 3 \<le> unat (pmm_total_frames s)"

definition vmm_lookup :: "nat \<Rightarrow> 'a vmm_scheme \<Rightarrow> u64 \<Rightarrow> u64 option" where
  "vmm_lookup k s v = mmu_entry s (pml4_phys (spaces s k)) v"

lemma page_number_eqD:
  assumes "page_number v = page_number w"
  shows "pml4_index v = pml4_index w" "pdpt_index v = pdpt_index w" "pd_index v = pd_index w"
    "pt_index v = pt_index w"
proof -
  have b: "bit v (12 + n) = bit w (12 + n)" if "n < 36" for n
  proof -
    have "bit (page_number v) n = bit (page_number w) n" using assms by simp
    then show ?thesis using that by (simp add: page_number_def bit_take_bit_iff bit_drop_bit_eq)
  qed
  have ix: "take_bit 9 (drop_bit k v) = take_bit 9 (drop_bit k w)" if "k \<in> {12, 21, 30, 39}" for k
  proof (rule bit_eqI)
    fix n show "bit (take_bit 9 (drop_bit k v)) n = bit (take_bit 9 (drop_bit k w)) n"
      using that b [of "k - 12 + n"] by (auto simp: bit_take_bit_iff bit_drop_bit_eq)
  qed
  show "pml4_index v = pml4_index w" "pdpt_index v = pdpt_index w" "pd_index v = pd_index w"
    "pt_index v = pt_index w"
    by (simp_all add: pml4_index_def pdpt_index_def pd_index_def pt_index_def index_mask ix)
qed

lemma page_mapped_ready:
  assumes "page_mapped (pml4_phys (spaces s k)) v e s s'" "vmm_ready k s"
  shows "vmm_ready k s'"
  using assms by (auto simp: page_mapped_def vmm_ready_def uart_ready_def)

lemma page_unmapped_ready:
  assumes "page_unmapped (pml4_phys (spaces s k)) v s s'" "vmm_ready k s"
  shows "vmm_ready k s'"
  using assms by (auto simp: page_unmapped_def vmm_ready_def uart_ready_def)

interpretation kvmm: page_map "vmm_ready k" vmm_room page_number "\<lambda>v. v mod PAGE_SIZE = 0"
  "\<lambda>(phys_addr, flags). pte_for phys_addr flags" "\<lambda>(phys_addr, flags). phys_addr mod PAGE_SIZE = 0" "vmm_lookup k"
  "\<lambda>v (phys_addr, flags). vmm_map_page k v phys_addr flags" "vmm_unmap_page k" for k
proof unfold_locales
  fix s :: "'a vmm_scheme" and v and r :: "u64 \<times> u64"
  assume a: "vmm_ready k s" "vmm_room s" "v mod PAGE_SIZE = 0"
    "case r of (phys_addr, flags) \<Rightarrow> phys_addr mod PAGE_SIZE = 0"
  obtain pa fl where r: "r = (pa, fl)" by (cases r)
  obtain s' where s': "vmm_map_page k v pa fl s = Some (Inr (True, s'))"
    "page_mapped (pml4_phys (spaces s k)) v (pte_for pa fl) s s'"
    using vmm_map_page_run [of s k v pa fl] a r by (auto simp: vmm_ready_def vmm_room_def)
  show "\<exists>s'. (case r of (phys_addr, flags) \<Rightarrow> vmm_map_page k v phys_addr flags) s = Some (Inr (True, s')) \<and>
    vmm_ready k s' \<and> vmm_lookup k s' v = Some (case r of (phys_addr, flags) \<Rightarrow> pte_for phys_addr flags) \<and>
    (\<forall>w. page_number w \<noteq> page_number v \<longrightarrow> vmm_lookup k s' w = vmm_lookup k s w)"
    using s' page_mapped_ready [OF s'(2) a(1)] by (simp add: r vmm_lookup_def page_mapped_def)
next
  fix s :: "'a vmm_scheme" and v
  assume a: "vmm_ready k s" "v mod PAGE_SIZE = 0"
  then have i: "space_inv s (pml4_phys (spaces s k))" "\<not> as_lock (spaces s k)" by (auto simp: vmm_ready_def)
  show "\<exists>x s'. vmm_unmap_page k v s = Some (Inr (x, s')) \<and> vmm_ready k s' \<and> vmm_lookup k s' v = None \<and>
    (\<forall>w. page_number w \<noteq> page_number v \<longrightarrow> vmm_lookup k s' w = vmm_lookup k s w)"
  proof (cases "mmu_entry s (pml4_phys (spaces s k)) v")
    case None
    then show ?thesis using vmm_unmap_page_absent [OF i a(2)] a(1) by (simp add: vmm_lookup_def)
  next
    case (Some e)
    then obtain s' where s': "vmm_unmap_page k v s = Some (Inr (e AND PTE_ADDR_MASK, s'))"
      "page_unmapped (pml4_phys (spaces s k)) v s s'"
      using vmm_unmap_page_present [OF i a(2)] by blast
    then show ?thesis using page_unmapped_ready [OF s'(2) a(1)] by (simp add: vmm_lookup_def page_unmapped_def)
  qed
next
  fix v w and s :: "'a vmm_scheme"
  show "page_number v = page_number w \<Longrightarrow> vmm_lookup k s v = vmm_lookup k s w"
    using page_number_eqD [of v w] by (simp add: vmm_lookup_def mmu_entry_def)
qed

section \<open>A concrete machine\<close>

text \<open>
  Eight frames: frame 0 is reserved, frame 1 holds the bitmap, frame 2 an empty PML4; the
  rest are free.
\<close>

definition vmm_demo :: vmm where
  "vmm_demo = \<lparr>io_out = [], uart_lsr = 0x20,
     phys_mem = (\<lambda>a. if a = 0x1000 then 0x07 else 0),
     hhdm_phys_offset = 0xFFFF800000000000, pmm_bitmap = 0xFFFF800000001000,
     pmm_bitmap_size_qwords = 1, pmm_total_frames = 8, pmm_used_frames = 3,
     pmm_highest_frame = 7, pmm_lock = False, pmm_last_allocated_index = 0,
     spaces = (\<lambda>_. \<lparr>pml4_phys = 0x2000, as_lock = False\<rparr>), cr3 = 0x2000, tlb = (\<lambda>_. Some 7)\<rparr>"

lemmas vmm_demo_eval = vmm_demo_def frame_used_def bm_qword_def bm_addr_def all_frames_def
  bitmap_frames_def upt_rec

lemma vmm_demo_pmm: "pmm_inv vmm_demo"
  by (simp add: pmm_inv_def vmm_demo_eval)

lemma vmm_demo_root: "page_aligned 0x2000" and vmm_demo_entry:
  "i < 512 \<Longrightarrow> table_entry (phys_mem vmm_demo) 0x2000 i = None"
proof -
  show pg: "page_aligned 0x2000" by (simp add: page_aligned_def)
  show "table_entry (phys_mem vmm_demo) 0x2000 i = None" if "i < 512"
  proof -
    have d: "(0x2000 + 8 * i) div 0x1000 = 0x2000 div 0x1000" by (rule entry_addr_page [OF pg that])
    have "0x2000 + 8 * i \<noteq> 0x1000"
    proof
      assume "0x2000 + 8 * i = 0x1000"
      with d have "(0x1000 :: u64) div 0x1000 = 0x2000 div 0x1000" by (simp only:)
      then show False by simp
    qed
    then show ?thesis by (simp add: table_entry_def vmm_demo_def pte_target_def)
  qed
qed

lemma vmm_demo_inv: "space_inv vmm_demo 0x2000"
proof -
  have only_root: "p = [] \<and> t = 0x2000" if "table_path p" "table_at (phys_mem vmm_demo) 0x2000 p = Some t" for p t
    using that vmm_demo_entry by (cases p) (auto simp: table_path_def)
  have "table_ok vmm_demo 0x2000" by (simp add: table_ok_def page_aligned_def vmm_demo_eval)
  then have "pt_tree (phys_mem vmm_demo) 0x2000 (table_ok vmm_demo)"
    using vmm_demo_root only_root unfolding pt_tree_def by metis
  then show ?thesis using vmm_demo_pmm by (simp add: space_inv_def vmm_demo_def)
qed

lemma vmm_demo_frame0: "frame_used vmm_demo 0"
  by (simp add: vmm_demo_eval)

lemma vmm_demo_ready: "vmm_ready 0 vmm_demo"
proof -
  have d: "pml4_phys (spaces vmm_demo 0) = 0x2000" "\<not> as_lock (spaces vmm_demo 0)" "uart_ready vmm_demo"
    by (simp_all add: vmm_demo_def uart_ready_def)
  have "\<not> is_table vmm_demo 0x2000 0"
    unfolding is_table_def
  proof (intro notI, elim exE conjE)
    fix q assume "table_path q" "table_at (phys_mem vmm_demo) 0x2000 q = Some 0"
    then show False using vmm_demo_entry by (cases q) (auto simp: table_path_def)
  qed
  then show ?thesis using d vmm_demo_inv vmm_demo_frame0 by (simp add: vmm_ready_def)
qed

section \<open>Properties\<close>

text \<open>
  C4: \<open>vmm_map_page\<close> is correct. In an address space whose tables form a tree, with
  frame 0 reserved and three frames free, it returns true; afterwards the hardware walk
  finds exactly the requested entry for the page and the same entry as before for every
  other page, the stale TLB entry of the page is gone, both locks are free, the tables form a
  tree again, and no frame in use other than a table or the frame bitmap has changed.
\<close>

theorem vmm_map_page_correct:
  assumes "space_inv s (pml4_phys (spaces s k))" and "\<not> as_lock (spaces s k)"
    and "frame_used s 0" and "uart_ready s"
    and "unat (pmm_used_frames s) + 3 \<le> unat (pmm_total_frames s)"
    and "virt_addr mod PAGE_SIZE = 0" and "phys_addr mod PAGE_SIZE = 0"
  shows "\<exists>s'. vmm_map_page k virt_addr phys_addr flags s = Some (Inr (True, s')) \<and>
     mmu_entry s' (pml4_phys (spaces s k)) virt_addr = Some (pte_for phys_addr flags) \<and>
     (\<forall>w. page_number w \<noteq> page_number virt_addr \<longrightarrow>
        mmu_entry s' (pml4_phys (spaces s k)) w = mmu_entry s (pml4_phys (spaces s k)) w) \<and>
     tlb s' = (tlb s)(virt_addr := None) \<and> \<not> as_lock (spaces s' k) \<and>
     space_inv s' (pml4_phys (spaces s' k)) \<and>
     (\<forall>a. a div PAGE_SIZE \<le> pmm_highest_frame s \<and> frame_used s (a div PAGE_SIZE) \<and>
        a div PAGE_SIZE \<notin> set (bitmap_frames s) \<and>
        \<not> is_table s (pml4_phys (spaces s k)) (a div PAGE_SIZE * PAGE_SIZE) \<longrightarrow>
        phys_mem s' a = phys_mem s a)"
  using vmm_map_page_run [OF assms, of flags] assms(2) by (auto simp: page_mapped_def)

theorem vmm_map_page_correct_witness:
  "\<exists>s'. vmm_map_page 0 0x400000 0x3000 PTE_WRITE vmm_demo = Some (Inr (True, s')) \<and>
     mmu_entry s' 0x2000 0x400000 = Some 0x3003 \<and> mmu_entry s' 0x2000 0x401000 = mmu_entry vmm_demo 0x2000 0x401000"
proof -
  have "page_number 0x401000 \<noteq> page_number 0x400000" by (simp add: page_number_def)
  moreover have "pml4_phys (spaces vmm_demo 0) = 0x2000" "\<not> as_lock (spaces vmm_demo 0)" "uart_ready vmm_demo"
    "unat (pmm_used_frames vmm_demo) + 3 \<le> unat (pmm_total_frames vmm_demo)"
    by (simp_all add: vmm_demo_def uart_ready_def)
  ultimately show ?thesis
    using vmm_map_page_correct [of vmm_demo 0 "0x400000" "0x3000" PTE_WRITE] vmm_demo_inv vmm_demo_frame0 by auto
qed



text \<open>
  mapping a page that is not mapped and unmapping it again restores the translation of
  every page of the address space, whatever tables were created and freed in between.
\<close>

theorem vmm_map_unmap:
  assumes "vmm_ready k s" and "vmm_room s" and "v mod PAGE_SIZE = 0" and "phys_addr mod PAGE_SIZE = 0"
    and "vmm_lookup k s v = None"
  shows "\<exists>s1 x s2. vmm_map_page k v phys_addr flags s = Some (Inr (True, s1)) \<and>
     vmm_unmap_page k v s1 = Some (Inr (x, s2)) \<and> vmm_ready k s2 \<and> vmm_lookup k s2 = vmm_lookup k s"
  using kvmm.map_unmap [OF assms(1-3), of "(phys_addr, flags)"] assms(4,5) by simp

theorem vmm_map_unmap_witness:
  "\<exists>s1 x s2. vmm_map_page 0 0x400000 0x3000 PTE_WRITE vmm_demo = Some (Inr (True, s1)) \<and>
     vmm_unmap_page 0 0x400000 s1 = Some (Inr (x, s2)) \<and> vmm_lookup 0 s2 = vmm_lookup 0 vmm_demo"
proof -
  have d: "pml4_phys (spaces vmm_demo 0) = 0x2000" "\<not> as_lock (spaces vmm_demo 0)" "uart_ready vmm_demo"
    "vmm_room vmm_demo" by (simp_all add: vmm_demo_def uart_ready_def vmm_room_def)
  have "vmm_lookup 0 vmm_demo 0x400000 = None"
    using vmm_demo_entry [OF index_less(1)] d by (simp add: vmm_lookup_def mmu_entry_levels)
  then show ?thesis using vmm_map_unmap [OF vmm_demo_ready, of "0x400000" "0x3000" PTE_WRITE] d(4) by auto
qed

end
