(* ===== verification/KHeap.thy ===== *)
theory KHeap
  imports Vmm
begin

text \<open>
  The kernel heap of \<^verbatim>\<open>src/kernel/memory.c\<close>: a first-fit block allocator with an
  address-ordered free list, splitting, coalescing and growth by mapping pages. Heap memory
  is a function from virtual qword addresses to qwords, so headers and links can alias; the
  proofs show they do not, by keeping the blocks a tiling of the heap.
\<close>

abbreviation KERNEL_HEAP_START :: u64 where "KERNEL_HEAP_START \<equiv> 0xFFFF800040000000"
abbreviation KERNEL_HEAP_MAX_SIZE :: u64 where "KERNEL_HEAP_MAX_SIZE \<equiv> 0x4000000"
abbreviation KHEAP_MIN_ALIGNMENT :: u64 where "KHEAP_MIN_ALIGNMENT \<equiv> 16"
abbreviation KHEAP_MAGIC :: u64 where "KHEAP_MAGIC \<equiv> 0xDEADBEEFCAFEBABE"
abbreviation KHEAP_HEADER_SIZE :: u64 where "KHEAP_HEADER_SIZE \<equiv> 32"

text \<open>
  \<open>kheap_mem\<close> is the content of the kernel heap's virtual memory. A header at address
  \<open>b\<close> has its size at \<open>b\<close>, its link at \<open>b + 8\<close> and its magic number at \<open>b + 16\<close>.
\<close>

record kheap = vmm +
  kheap_mem :: "u64 \<Rightarrow> u64"
  kheap_free_list :: u64
  kheap_current_break :: u64
  kheap_max_break :: u64
  kheap_lock :: bool

definition hdr_size :: "'a kheap_scheme \<Rightarrow> u64 \<Rightarrow> u64" where
  "hdr_size s b = kheap_mem s b"

definition hdr_next :: "'a kheap_scheme \<Rightarrow> u64 \<Rightarrow> u64" where
  "hdr_next s b = kheap_mem s (b + 8)"

definition hdr_magic :: "'a kheap_scheme \<Rightarrow> u64 \<Rightarrow> u64" where
  "hdr_magic s b = kheap_mem s (b + 16)"

definition heap_put :: "u64 \<Rightarrow> u64 \<Rightarrow> 'a kheap_scheme \<Rightarrow> 'a kheap_scheme" where
  "heap_put a v s = s\<lparr>kheap_mem := (kheap_mem s)(a := v)\<rparr>"

definition set_size :: "u64 \<Rightarrow> u64 \<Rightarrow> ('a kheap_scheme, unit) km" where
  "set_size b v = modK (heap_put b v)"

definition set_next :: "u64 \<Rightarrow> u64 \<Rightarrow> ('a kheap_scheme, unit) km" where
  "set_next b v = modK (heap_put (b + 8) v)"

definition set_magic :: "u64 \<Rightarrow> u64 \<Rightarrow> ('a kheap_scheme, unit) km" where
  "set_magic b v = modK (heap_put (b + 16) v)"

text \<open>One round of the walk to the place of \<open>block\<close> in the free list.\<close>

definition free_list_walk :: "u64 \<Rightarrow> u64 \<Rightarrow> ('a kheap_scheme, u64 + u64) km" where
  "free_list_walk block current =
     getK (\<lambda>s. if hdr_next s current \<noteq> 0 \<and> hdr_next s current < block
               then Inr (hdr_next s current) else Inl current)"

definition kheap_add_to_free_list :: "u64 \<Rightarrow> ('a kheap_scheme, unit) km" where
  "kheap_add_to_free_list block =
     seqK (set_magic block KHEAP_MAGIC)
    (seqK (set_next block 0)
    (seqK (ASSERT (block mod KHEAP_MIN_ALIGNMENT = 0) ''((uintptr_t)block % KHEAP_MIN_ALIGNMENT) == 0'' 610)
    (bindK (getK kheap_free_list) (\<lambda>head.
     if head = 0 \<or> block < head then
       seqK (set_next block head)
            (modK (\<lambda>s. s\<lparr>kheap_free_list := block\<rparr>))
     else
       bindK (loopK (free_list_walk block) head) (\<lambda>current.
       bindK (getK (\<lambda>s. hdr_next s current)) (\<lambda>nxt.
       seqK (set_next block nxt)
            (set_next current block)))))))"

text \<open>One round of the loop that maps the pages of an expansion; \<open>Inl False\<close> leaves with failure.\<close>

definition kheap_expand_page :: "u64 \<Rightarrow> u64 \<Rightarrow> ('a kheap_scheme, bool + u64) km" where
  "kheap_expand_page new_break addr =
     (if addr < new_break then
        bindK pmm_alloc_frame (\<lambda>phys_frame.
        if phys_frame = 0 then
          seqK (kprintf ''KHeap: Expansion failed - PMM out of memory during expansion\<newline>'' [])
         (seqK (modK (\<lambda>s. s\<lparr>kheap_current_break := addr\<rparr>))
               (retK (Inl False)))
        else
          bindK (vmm_map_page kernel_address_space addr phys_frame (PTE_WRITE OR PTE_NX)) (\<lambda>ok.
          if \<not> ok then
            seqK (kprintf ''KHeap: Expansion failed - VMM mapping error for virt 0x%lx -> phys 0x%lx\<newline>''
                    [VInt addr, VInt phys_frame])
           (seqK (pmm_free_frame phys_frame)
           (seqK (modK (\<lambda>s. s\<lparr>kheap_current_break := addr\<rparr>))
                 (retK (Inl False))))
          else retK (Inr (addr + PAGE_SIZE))))
      else
        seqK (modK (\<lambda>s. s\<lparr>kheap_current_break := new_break\<rparr>))
             (retK (Inl True)))"

definition kheap_expand :: "u64 \<Rightarrow> ('a kheap_scheme, bool) km" where
  "kheap_expand bytes_needed =
     bindK (getK (\<lambda>s. (kheap_current_break s, kheap_max_break s))) (\<lambda>(old_break, max_break).
     let expansion_size = align_up bytes_needed PAGE_SIZE;
         new_break = old_break + expansion_size in
     if max_break < new_break then
       seqK (kprintf ''KHeap: Expansion failed - exceeds max heap size (req 0x%lx, current 0x%lx, new 0x%lx > max 0x%lx)\<newline>''
               [VInt bytes_needed, VInt old_break, VInt new_break, VInt max_break])
            (retK False)
     else loopK (kheap_expand_page new_break) old_break)"

definition kheap_coalesce_step :: "u64 \<Rightarrow> ('a kheap_scheme, unit + u64) km" where
  "kheap_coalesce_step current =
     bindK (getK (\<lambda>s. hdr_next s current)) (\<lambda>nxt.
     if current \<noteq> 0 \<and> nxt \<noteq> 0 then
       bindK (getK id) (\<lambda>s.
       seqK (ASSERT (hdr_magic s current = KHEAP_MAGIC) ''current->magic == KHEAP_MAGIC'' 667)
      (seqK (ASSERT (hdr_magic s nxt = KHEAP_MAGIC) ''current->next_free->magic == KHEAP_MAGIC'' 668)
      (if current + KHEAP_HEADER_SIZE + hdr_size s current = nxt then
         seqK (set_size current (hdr_size s current + (KHEAP_HEADER_SIZE + hdr_size s nxt)))
        (bindK (getK (\<lambda>s. hdr_next s (hdr_next s current))) (\<lambda>nn.
         seqK (set_next current nn)
              (retK (Inr current))))
       else retK (Inr nxt))))
     else retK (Inl ()))"

definition kheap_coalesce_free_list :: "('a kheap_scheme, unit) km" where
  "kheap_coalesce_free_list = bindK (getK kheap_free_list) (\<lambda>head. loopK kheap_coalesce_step head)"

text \<open>The first-fit search: it leaves with the block found and its predecessor (0 for none), or with 0.\<close>

definition kmalloc_search :: "u64 \<Rightarrow> u64 \<times> u64 \<Rightarrow> ('a kheap_scheme, u64 \<times> u64 + u64 \<times> u64) km" where
  "kmalloc_search aligned_data_size = (\<lambda>(current, prev).
     if current = 0 then retK (Inl (0, prev))
     else
       bindK (getK id) (\<lambda>s.
       seqK (ASSERT (hdr_magic s current = KHEAP_MAGIC) ''current->magic == KHEAP_MAGIC'' 701)
      (if aligned_data_size \<le> hdr_size s current then retK (Inl (current, prev))
       else retK (Inr (hdr_next s current, current)))))"

text \<open>Taking a block off the free list and splitting it.\<close>

definition kmalloc_unlink :: "u64 \<Rightarrow> u64 \<Rightarrow> ('a kheap_scheme, unit) km" where
  "kmalloc_unlink current prev =
     bindK (getK (\<lambda>s. hdr_next s current)) (\<lambda>nxt.
     if prev \<noteq> 0 then set_next prev nxt
     else modK (\<lambda>s. s\<lparr>kheap_free_list := nxt\<rparr>))"

definition kmalloc_split :: "u64 \<Rightarrow> u64 \<Rightarrow> ('a kheap_scheme, unit) km" where
  "kmalloc_split aligned_data_size current =
     bindK (getK (\<lambda>s. hdr_size s current - aligned_data_size)) (\<lambda>remaining_size.
     whenK (KHEAP_HEADER_SIZE + KHEAP_MIN_ALIGNMENT \<le> remaining_size)
       (let split_free = current + KHEAP_HEADER_SIZE + aligned_data_size in
        seqK (set_size split_free (remaining_size - KHEAP_HEADER_SIZE))
       (seqK (set_size current aligned_data_size)
             (kheap_add_to_free_list split_free))))"

definition kmalloc_take :: "u64 \<Rightarrow> u64 \<Rightarrow> u64 \<Rightarrow> ('a kheap_scheme, u64) km" where
  "kmalloc_take aligned_data_size current prev =
     seqK (kmalloc_unlink current prev)
    (seqK (kmalloc_split aligned_data_size current)
    (seqK (set_magic current (NOT KHEAP_MAGIC))
    (seqK (spin_unlock kheap_lock_update)
    (seqK (ASSERT ((current + KHEAP_HEADER_SIZE) mod KHEAP_MIN_ALIGNMENT = 0)
             ''((uintptr_t)data_ptr % KHEAP_MIN_ALIGNMENT) == 0'' 735)
          (retK (current + KHEAP_HEADER_SIZE))))))"

text \<open>One call of \<open>kmalloc\<close> up to its recursive call, which is the result \<open>Inr ()\<close>.\<close>

definition kmalloc_attempt :: "u64 \<Rightarrow> unit \<Rightarrow> ('a kheap_scheme, u64 + unit) km" where
  "kmalloc_attempt sz _ =
     (if sz = 0 then retK (Inl 0)
      else
       let aligned_data_size = align_up sz KHEAP_MIN_ALIGNMENT;
           total_block_size_needed = KHEAP_HEADER_SIZE + aligned_data_size in
       seqK (spin_lock kheap_lock kheap_lock_update)
      (bindK (getK kheap_free_list) (\<lambda>head.
       bindK (loopK (kmalloc_search aligned_data_size) (head, 0)) (\<lambda>(current, prev).
       if current \<noteq> 0 then
         bindK (kmalloc_take aligned_data_size current prev) (\<lambda>ptr. retK (Inl ptr))
       else
         bindK (getK kheap_current_break) (\<lambda>expansion_start.
         bindK (kheap_expand total_block_size_needed) (\<lambda>ok.
         if \<not> ok then
           seqK (spin_unlock kheap_lock_update)
          (seqK (kprintf ''KHeap: Allocation failed - cannot expand heap for %zu bytes\<newline>'' [VInt sz])
                (retK (Inl 0)))
         else
           bindK (getK (\<lambda>s. kheap_current_break s - expansion_start)) (\<lambda>new_region_size.
           seqK (ASSERT (total_block_size_needed \<le> new_region_size)
                   ''new_region_size >= total_block_size_needed'' 756)
          (seqK (set_size expansion_start (new_region_size - KHEAP_HEADER_SIZE))
          (seqK (kheap_add_to_free_list expansion_start)
          (seqK kheap_coalesce_free_list
          (seqK (spin_unlock kheap_lock_update)
                (retK (Inr ())))))))))))))"

definition kmalloc :: "u64 \<Rightarrow> ('a kheap_scheme, u64) km" where
  "kmalloc sz = loopK (kmalloc_attempt sz) ()"

definition kfree :: "u64 \<Rightarrow> ('a kheap_scheme, unit) km" where
  "kfree ptr =
     (if ptr = 0 then retK ()
      else
       let block = ptr - KHEAP_HEADER_SIZE in
       seqK (spin_lock kheap_lock kheap_lock_update)
      (bindK (getK (\<lambda>s. hdr_magic s block)) (\<lambda>m.
       seqK (ASSERT (m = NOT KHEAP_MAGIC) ''block->magic == ~KHEAP_MAGIC'' 788)
      (seqK (kheap_add_to_free_list block)
      (seqK kheap_coalesce_free_list
            (spin_unlock kheap_lock_update))))))"

end
