(* ===== verification/KHeapTiling.thy ===== *)
theory KHeapTiling
  imports KHeap
begin

text \<open>
  Heap memory as a sequence of adjacent blocks. A tiling lists the blocks of the heap from
  its start to its break; the free list of the code is the list of its free blocks. The
  lemmas here are about memory functions; the operations of the heap are in the theory
  that follows.
\<close>

type_synonym blk = "u64 \<times> u64 \<times> bool"

abbreviation blk_addr :: "blk \<Rightarrow> u64" where "blk_addr \<equiv> fst"
abbreviation blk_size :: "blk \<Rightarrow> u64" where "blk_size x \<equiv> fst (snd x)"
abbreviation blk_free :: "blk \<Rightarrow> bool" where "blk_free x \<equiv> snd (snd x)"

fun tiling :: "(u64 \<Rightarrow> u64) \<Rightarrow> nat \<Rightarrow> nat \<Rightarrow> blk list \<Rightarrow> bool" where
  "tiling m a e [] \<longleftrightarrow> a = e"
| "tiling m a e ((b, n, f) # bs) \<longleftrightarrow>
     unat b = a \<and> m b = n \<and> unat n mod 16 = 0 \<and> 16 \<le> unat n \<and> tiling m (a + 32 + unat n) e bs"

definition marks :: "(u64 \<Rightarrow> u64) \<Rightarrow> blk list \<Rightarrow> bool" where
  "marks m bs \<longleftrightarrow> (\<forall>x \<in> set bs. m (blk_addr x + 16) = (if blk_free x then KHEAP_MAGIC else NOT KHEAP_MAGIC))"

text \<open>The links lead from \<open>p\<close> through the listed blocks to \<open>q\<close>.\<close>

primrec linked :: "(u64 \<Rightarrow> u64) \<Rightarrow> u64 \<Rightarrow> u64 list \<Rightarrow> u64 \<Rightarrow> bool" where
  "linked m p [] q \<longleftrightarrow> p = q"
| "linked m p (b # bs) q \<longleftrightarrow> p = b \<and> b \<noteq> 0 \<and> linked m (m (b + 8)) bs q"

definition frees :: "blk list \<Rightarrow> u64 list" where
  "frees bs = map blk_addr (filter blk_free bs)"

definition allocs :: "blk list \<Rightarrow> (u64 \<times> u64) set" where
  "allocs bs = {(b, n). (b, n, False) \<in> set bs}"

lemma frees_simps [simp]:
  "frees [] = []" "frees (x # xs) = (if blk_free x then [blk_addr x] else []) @ frees xs"
  "frees (xs @ ys) = frees xs @ frees ys"
  by (simp_all add: frees_def)

lemma allocs_simps [simp]:
  "allocs [] = {}" "allocs (x # xs) = (if blk_free x then {} else {(blk_addr x, blk_size x)}) \<union> allocs xs"
  "allocs (xs @ ys) = allocs xs \<union> allocs ys"
  by (auto simp: allocs_def prod_eq_iff)

lemma marks_simps [simp]:
  "marks m []" "marks m ((b, n, f) # xs) \<longleftrightarrow> m (b + 16) = (if f then KHEAP_MAGIC else NOT KHEAP_MAGIC) \<and> marks m xs"
  "marks m (xs @ ys) \<longleftrightarrow> marks m xs \<and> marks m ys"
  by (auto simp: marks_def)

lemma tiling_append: "tiling m a e (xs @ ys) \<longleftrightarrow> (\<exists>c. tiling m a c xs \<and> tiling m c e ys)"
  by (induction m a e xs rule: tiling.induct) auto

lemma tiling_le: "tiling m a e bs \<Longrightarrow> a \<le> e"
  by (induction m a e bs rule: tiling.induct) auto

lemma tiling_bounds:
  "tiling m a e bs \<Longrightarrow> x \<in> set bs \<Longrightarrow> a \<le> unat (blk_addr x) \<and> unat (blk_addr x) + 48 \<le> e"
  by (induction m a e bs rule: tiling.induct) (auto dest: tiling_le)

lemma tiling_size:
  "tiling m a e bs \<Longrightarrow> x \<in> set bs \<Longrightarrow>
   m (blk_addr x) = blk_size x \<and> unat (blk_addr x) + 32 + unat (blk_size x) \<le> e"
  by (induction m a e bs rule: tiling.induct) (auto dest: tiling_le)

lemma tiling_aligned:
  "tiling m a e bs \<Longrightarrow> a mod 16 = 0 \<Longrightarrow> x \<in> set bs \<Longrightarrow> unat (blk_addr x) mod 16 = 0"
proof (induction m a e bs rule: tiling.induct)
  case (2 m a e b n f bs)
  have "(a + 32 + unat n) mod 16 = 0" using 2 by (simp add: mod_add_eq [symmetric] mod_add_left_eq)
  then show ?case using 2 by auto
qed simp

text \<open>Different blocks are at least 48 bytes apart, so the fields of their headers do not overlap.\<close>

lemma tiling_apart:
  "tiling m a e bs \<Longrightarrow> x \<in> set bs \<Longrightarrow> y \<in> set bs \<Longrightarrow>
   x = y \<or> unat (blk_addr x) + 48 \<le> unat (blk_addr y) \<or> unat (blk_addr y) + 48 \<le> unat (blk_addr x)"
proof (induction m a e bs rule: tiling.induct)
  case (2 m a e b n f bs)
  have "unat (blk_addr z) \<ge> a + 48" if "z \<in> set bs" for z
    using tiling_bounds [of m "a + 32 + unat n" e bs z] 2 that by auto
  from this [of x] this [of y] show ?case using 2 by auto
qed simp

lemma unat_add_field:
  fixes b :: u64 assumes "unat b + 48 \<le> 2 ^ 64" "unat k \<le> 32" shows "unat (b + k) = unat b + unat k"
  using assms by (subst unat_plus_if') simp

lemma field_apart:
  assumes t: "tiling m a e bs" "e \<le> 2 ^ 64" and x: "x \<in> set bs" "y \<in> set bs"
    and k: "unat i \<le> 16" "unat j \<le> 16"
  shows "blk_addr x + i = blk_addr y + j \<longleftrightarrow> x = y \<and> i = j"
proof
  assume eq: "blk_addr x + i = blk_addr y + j"
  have "unat (blk_addr x + i) = unat (blk_addr x) + unat i" "unat (blk_addr y + j) = unat (blk_addr y) + unat j"
    using tiling_bounds [OF t(1) x(1)] tiling_bounds [OF t(1) x(2)] t(2) k by (auto intro!: unat_add_field)
  then have s: "unat (blk_addr x) + unat i = unat (blk_addr y) + unat j" using eq by simp
  then have "x = y" using tiling_apart [OF t(1) x] k by auto
  then show "x = y \<and> i = j" using s by (simp add: word_unat_eq_iff)
qed simp

lemma tiling_cong:
  "\<forall>b \<in> blk_addr ` set bs. m' b = m b \<Longrightarrow> tiling m' a e bs = tiling m a e bs"
  by (induction m a e bs rule: tiling.induct) auto

lemma marks_cong:
  "\<forall>b \<in> blk_addr ` set bs. m' (b + 16) = m (b + 16) \<Longrightarrow> marks m' bs = marks m bs"
  by (simp add: marks_def)

lemma linked_cong:
  "(\<And>b. b \<in> set l \<Longrightarrow> m' (b + 8) = m (b + 8)) \<Longrightarrow> linked m' p l q = linked m p l q"
  by (induction l arbitrary: p) auto

lemma linked_append: "linked m p (xs @ ys) q \<longleftrightarrow> (\<exists>r. linked m p xs r \<and> linked m r ys q)"
  by (induction xs arbitrary: p) auto

lemma linked_nonzero: "linked m p l q \<Longrightarrow> l \<noteq> [] \<Longrightarrow> p = hd l \<and> p \<noteq> 0"
  by (cases l) auto

text \<open>Redirecting the last link of a path.\<close>

lemma linked_redirect:
  assumes "linked m p (xs @ [b]) r" "\<And>x. x \<in> set xs \<Longrightarrow> x + 8 \<noteq> b + 8"
  shows "linked (m(b + 8 := q)) p (xs @ [b]) q"
proof -
  have "linked m p xs b" "b \<noteq> 0" using assms(1) by (auto simp: linked_append)
  moreover have "linked (m(b + 8 := q)) p xs b = linked m p xs b"
    using assms(2) by (intro linked_cong) auto
  ultimately show ?thesis by (simp add: linked_append)
qed

text \<open>The blocks before a block of a tiling lie below it, the ones after it above it.\<close>

lemma tiling_split:
  assumes "tiling m a e (xs @ (b, n, f) # ys)"
  shows "tiling m a (unat b) xs" "tiling m (unat b + 32 + unat n) e ys" "m b = n" "unat n mod 16 = 0" "16 \<le> unat n"
    "a \<le> unat b" "unat b + 32 + unat n \<le> e"
  using assms by (auto simp: tiling_append dest: tiling_le)

lemma frees_below: "tiling m a c xs \<Longrightarrow> p \<in> set (frees xs) \<Longrightarrow> unat p + 48 \<le> c \<and> a \<le> unat p"
  by (auto simp: frees_def dest: tiling_bounds)

lemma frees_mem: "p \<in> set (frees bs) \<longleftrightarrow> (\<exists>n. (p, n, True) \<in> set bs)"
  by (force simp: frees_def)

lemma addr_field:
  assumes "tiling m a e bs" "e \<le> 2 ^ 64" "b \<in> blk_addr ` set bs" "b' \<in> blk_addr ` set bs"
    and "unat i \<le> 16" "unat j \<le> 16"
  shows "b + i = b' + j \<longleftrightarrow> b = b' \<and> i = j"
proof
  obtain x y where x: "x \<in> set bs" "b = blk_addr x" and y: "y \<in> set bs" "b' = blk_addr y" using assms by auto
  show "b + i = b' + j \<Longrightarrow> b = b' \<and> i = j"
    using field_apart [OF assms(1,2) x(1) y(1) assms(5,6)] x y by auto
qed simp

text \<open>The form in which the proofs use it: the three fields of the headers.\<close>

lemma header_fields:
  assumes "tiling m a e bs" "e \<le> 2 ^ 64" "b \<in> blk_addr ` set bs" "b' \<in> blk_addr ` set bs"
  shows "b + 8 = b' + 8 \<longleftrightarrow> b = b'" "b + 16 = b' + 16 \<longleftrightarrow> b = b'" "b + 8 \<noteq> b' + 16" "b + 16 \<noteq> b' + 8"
    "b \<noteq> b' + 8" "b \<noteq> b' + 16" "b + 8 \<noteq> b'" "b + 16 \<noteq> b'"
  using addr_field [OF assms, of 8 16] addr_field [OF assms, of 16 8] addr_field [OF assms, of 0 8]
    addr_field [OF assms, of 0 16] addr_field [OF assms, of 8 0] addr_field [OF assms, of 16 0]
  by auto

lemma frees_addr: "p \<in> set (frees bs) \<Longrightarrow> p \<in> blk_addr ` set bs"
  by (auto simp: frees_def)

lemma tiling_distinct: "tiling m a e bs \<Longrightarrow> distinct (map blk_addr bs)"
proof (induction m a e bs rule: tiling.induct)
  case (2 m a e b n f bs)
  have "b \<noteq> blk_addr x" if "x \<in> set bs" for x
    using tiling_bounds [of m "a + 32 + unat n" e bs x] that 2 by auto
  then show ?case using 2 by force
qed simp

lemma frees_distinct: "tiling m a e bs \<Longrightarrow> distinct (frees bs)"
  unfolding frees_def by (rule distinct_map_filter [OF tiling_distinct])

section \<open>Memory of allocated blocks\<close>

text \<open>\<open>owned\<close>: the address lies in an allocated block, header or data; \<open>keeps\<close>: no such address changes.\<close>

definition owned :: "blk list \<Rightarrow> u64 \<Rightarrow> bool" where
  "owned bs x \<longleftrightarrow> (\<exists>(b, n) \<in> allocs bs. unat b \<le> unat x \<and> unat x < unat b + 32 + unat n)"

definition keeps :: "blk list \<Rightarrow> (u64 \<Rightarrow> u64) \<Rightarrow> (u64 \<Rightarrow> u64) \<Rightarrow> bool" where
  "keeps bs m m' \<longleftrightarrow> (\<forall>x. owned bs x \<longrightarrow> m' x = m x)"

lemma owned_cong: "allocs bs = allocs cs \<Longrightarrow> owned bs = owned cs"
  by (simp add: owned_def fun_eq_iff)

lemma owned_mono: "allocs bs \<subseteq> allocs cs \<Longrightarrow> owned bs x \<Longrightarrow> owned cs x"
  by (auto simp: owned_def)

lemma keeps_refl [simp]: "keeps bs m m"
  by (simp add: keeps_def)

lemma keeps_trans: "keeps bs m m1 \<Longrightarrow> keeps bs m1 m2 \<Longrightarrow> keeps bs m m2"
  by (simp add: keeps_def)

lemma keeps_mono: "keeps cs m m' \<Longrightarrow> allocs bs \<subseteq> allocs cs \<Longrightarrow> keeps bs m m'"
  by (auto simp: keeps_def dest: owned_mono)

lemma keeps_upd: "keeps bs m m' \<Longrightarrow> \<not> owned bs a \<Longrightarrow> keeps bs m (m'(a := v))"
  by (auto simp: keeps_def)

text \<open>Blocks do not overlap.\<close>

lemma tiling_disjoint:
  "tiling m a e bs \<Longrightarrow> x \<in> set bs \<Longrightarrow> y \<in> set bs \<Longrightarrow>
   x = y \<or> unat (blk_addr x) + 32 + unat (blk_size x) \<le> unat (blk_addr y) \<or>
   unat (blk_addr y) + 32 + unat (blk_size y) \<le> unat (blk_addr x)"
proof (induction m a e bs rule: tiling.induct)
  case (2 m a e b n f bs)
  have "unat (blk_addr z) \<ge> a + 32 + unat n" if "z \<in> set bs" for z
    using tiling_bounds [of m "a + 32 + unat n" e bs z] 2 that by auto
  from this [of x] this [of y] show ?case using 2 by auto
qed simp

text \<open>No address inside a block that is not allocated is owned; so its header fields are not.\<close>

lemma inside_not_owned:
  assumes t: "tiling m a e (xs @ (c, k, f) # ys)"
    and u: "unat c \<le> unat u" "unat u < unat c + 32 + unat k"
  shows "\<not> owned (xs @ ys) u"
proof
  assume "owned (xs @ ys) u"
  then obtain b n where b: "(b, n, False) \<in> set xs \<union> set ys" "unat b \<le> unat u" "unat u < unat b + 32 + unat n"
    by (auto simp: owned_def allocs_def)
  have "b \<noteq> c" using tiling_distinct [OF t] b(1) by force
  then show False
    using tiling_disjoint [OF t, of "(b, n, False)" "(c, k, f)"] b u by auto
qed

lemma field_not_owned:
  assumes t: "tiling m a e (xs @ (c, k, f) # ys)" and e: "e \<le> 2 ^ 64" and i: "unat i \<le> 16"
  shows "\<not> owned (xs @ ys) (c + i)"
proof (rule inside_not_owned [OF t])
  note T = tiling_split [OF t]
  have "unat (c + i) = unat c + unat i" using T(5,7) e i by (intro unat_add_field) auto
  then show "unat c \<le> unat (c + i)" "unat (c + i) < unat c + 32 + unat k" using i by auto
qed

text \<open>The same for a free block of the tiling.\<close>

lemma free_field_not_owned:
  assumes t: "tiling m a e bs" and e: "e \<le> 2 ^ 64" and c: "c \<in> set (frees bs)" and i: "unat i \<le> 16"
  shows "\<not> owned bs (c + i)"
proof -
  obtain k where "(c, k, True) \<in> set bs" using c by (auto simp: frees_mem)
  then obtain xs ys where bs: "bs = xs @ (c, k, True) # ys" by (auto simp: in_set_conv_decomp)
  have "allocs bs = allocs (xs @ ys)" by (simp add: bs)
  then show ?thesis using field_not_owned [OF t [unfolded bs] e i] owned_cong by metis
qed

end
