(* ===== verification/KHeapOps.thy ===== *)
theory KHeapOps
  imports KHeapTiling
begin

text \<open>
  The operations of the kernel heap on a tiling: inserting into the free list, coalescing,
  the first-fit search, taking and splitting a block, and expansion.
\<close>

lemma heap_put_run [simp, runK]:
  "set_size b v s = Some (Inr ((), heap_put b v s))"
  "set_next b v s = Some (Inr ((), heap_put (b + 8) v s))"
  "set_magic b v s = Some (Inr ((), heap_put (b + 16) v s))"
  by (simp_all add: set_size_def set_next_def set_magic_def)

lemma heap_put_fields [simp]:
  "kheap_mem (heap_put a v s) = (kheap_mem s)(a := v)"
  "kheap_free_list (heap_put a v s) = kheap_free_list s"
  "kheap_current_break (heap_put a v s) = kheap_current_break s"
  "kheap_max_break (heap_put a v s) = kheap_max_break s"
  "kheap_lock (heap_put a v s) = kheap_lock s"
  by (simp_all add: heap_put_def)

lemma word_mod16: "unat (b :: u64) mod 16 = 0 \<Longrightarrow> b mod 16 = 0"
  by (simp add: word_unat_eq_iff unat_mod)

section \<open>The free list\<close>

lemma free_list_walk_run:
  assumes "linked (kheap_mem s) c (c # cs) r" "\<forall>x \<in> set cs. x < b" "r = 0 \<or> \<not> r < b"
  shows "loopK (free_list_walk b) c s = Some (Inr (last (c # cs), s))"
  using assms
proof (induction cs arbitrary: c)
  case Nil
  then show ?case by (intro loopK_leave) (auto simp: free_list_walk_def hdr_next_def)
next
  case (Cons d ds)
  have "free_list_walk b c s = Some (Inr (Inr d, s))"
    using Cons.prems by (auto simp: free_list_walk_def hdr_next_def)
  then have "loopK (free_list_walk b) c s = loopK (free_list_walk b) d s" by (rule loopK_again)
  also have "\<dots> = Some (Inr (last (d # ds), s))" using Cons by (intro Cons.IH) auto
  finally show ?case by simp
qed

text \<open>Linking \<open>b\<close> in after the last block of a path.\<close>

lemma linked_insert_after:
  assumes l: "linked m h (us @ [p]) r" "linked m r vs 0" and b: "b \<noteq> 0" "b + 8 \<noteq> b + 16"
    and f: "\<And>x. x \<in> set us \<or> x = p \<or> x \<in> set vs \<Longrightarrow> x + 8 \<noteq> b + 8 \<and> x + 8 \<noteq> b + 16"
    and g: "\<And>x. x \<in> set us \<or> x \<in> set vs \<Longrightarrow> x + 8 \<noteq> p + 8"
  shows "linked (m(b + 16 := v, b + 8 := r, p + 8 := b)) h ((us @ [p]) @ b # vs) 0"
proof -
  let ?m1 = "m(b + 16 := v, b + 8 := r)" and ?m' = "m(b + 16 := v, b + 8 := r, p + 8 := b)"
  have "linked ?m1 h (us @ [p]) r = linked m h (us @ [p]) r" by (rule linked_cong) (use f in auto)
  then have "linked ?m1 h (us @ [p]) r" using l(1) by simp
  then have "linked ?m' h (us @ [p]) b" using g by (intro linked_redirect) auto
  moreover have "linked ?m' r vs 0 = linked m r vs 0" by (rule linked_cong) (use f g in auto)
  moreover have "?m' (b + 8) = r" using f [of p] by auto
  ultimately show ?thesis using b l(2) by (auto simp: linked_append simp del: append_assoc)
qed

text \<open>
  Inserting block \<open>b\<close> of the tiling: it gets its mark and its place by address; apart from
  its mark only links change.
\<close>

lemma kheap_add_to_free_list_run:
  fixes s :: "'a kheap_scheme"
  defines "m \<equiv> kheap_mem s"
  assumes t: "tiling m a e (xs @ (b, n, f) # ys)" and e: "e \<le> 2 ^ 64" and a: "0 < a" "a mod 16 = 0"
    and l: "linked m (kheap_free_list s) (frees xs @ frees ys) 0"
  shows "\<exists>m' h'. kheap_add_to_free_list b s = Some (Inr ((), s\<lparr>kheap_mem := m', kheap_free_list := h'\<rparr>)) \<and>
     linked m' h' (frees xs @ b # frees ys) 0 \<and> m' (b + 16) = KHEAP_MAGIC \<and>
     (\<forall>x. x \<noteq> b + 16 \<and> x \<notin> (\<lambda>p. p + 8) ` set (frees xs @ b # frees ys) \<longrightarrow> m' x = m x)"
proof -
  let ?bs = "xs @ (b, n, f) # ys" and ?h = "kheap_free_list s"
  note T = tiling_split [OF t]
  have bin: "b \<in> blk_addr ` set ?bs" by force
  have xin: "p \<in> blk_addr ` set ?bs" if "p \<in> set (frees xs) \<or> p \<in> set (frees ys)" for p
    using that by (auto dest!: frees_addr)
  have lo: "p < b" if "p \<in> set (frees xs)" for p
    using frees_below [OF T(1) that] by (simp add: word_less_nat_alt)
  have hi: "b < p" if "p \<in> set (frees ys)" for p
    using frees_below [OF T(2) that] by (simp add: word_less_nat_alt)
  have hf: "p + 8 \<noteq> b + 8 \<and> p + 8 \<noteq> b + 16" if "p \<in> set (frees xs) \<or> p \<in> set (frees ys)" for p
    using header_fields [OF t e xin [OF that] bin] lo hi that by auto
  have b0: "b \<noteq> 0" using T(6) a by (auto simp: unat_gt_0 [symmetric])
  have bm: "b mod 16 = 0" using tiling_aligned [OF t a(2), of "(b, n, f)"] by (intro word_mod16) simp
  have b8: "b + 8 \<noteq> b + 16" by (rule header_fields(3) [OF t e bin bin])
  obtain r where r: "linked m ?h (frees xs) r" "linked m r (frees ys) 0"
    using l by (auto simp: linked_append)
  have rb: "r = 0 \<or> b < r" using r(2) hi [of r] by (cases "frees ys") auto
  show ?thesis
  proof (cases "frees xs" rule: rev_cases)
    case Nil
    let ?m' = "m(b + 16 := KHEAP_MAGIC, b + 8 := r)"
    have "kheap_add_to_free_list b s = Some (Inr ((), s\<lparr>kheap_mem := ?m', kheap_free_list := b\<rparr>))"
      using rb bm r(1) Nil by (auto simp: kheap_add_to_free_list_def heap_put_def m_def ASSERT_holds)
    moreover have "linked ?m' r (frees ys) 0 = linked m r (frees ys) 0" by (rule linked_cong) (use hf in auto)
    ultimately show ?thesis
      using Nil b0 b8 bin r(2) by (intro exI [of _ ?m'] exI [of _ b]) auto
  next
    case (snoc us p)
    let ?m' = "m(b + 16 := KHEAP_MAGIC, b + 8 := r, p + 8 := b)"
    let ?s1 = "heap_put (b + 8) 0 (heap_put (b + 16) KHEAP_MAGIC s)"
    have m1: "kheap_mem ?s1 = m(b + 16 := KHEAP_MAGIC, b + 8 := 0)" by (simp add: m_def)
    obtain cs where cs: "frees xs = ?h # cs" using linked_nonzero [OF r(1)] snoc by (metis Nil_is_append_conv list.collapse not_Cons_self2)
    have "linked (kheap_mem ?s1) ?h (frees xs) r = linked m ?h (frees xs) r"
      unfolding m1 by (rule linked_cong) (use hf in auto)
    then have c1: "linked (kheap_mem ?s1) ?h (frees xs) r" using r(1) by simp
    then have walk: "loopK (free_list_walk b) ?h ?s1 = Some (Inr (p, ?s1))"
      using free_list_walk_run [of ?s1 ?h cs r b] cs lo rb snoc less_asym [of r b] by (metis last_snoc list.set_intros(2))
    have nx: "kheap_mem ?s1 (p + 8) = r" using c1 snoc by (simp add: linked_append)
    have pin: "p \<in> blk_addr ` set ?bs" using xin snoc by auto
    have "?h \<noteq> 0" "\<not> b < ?h" using r(1) cs lo [of ?h] by auto
    then have run: "kheap_add_to_free_list b s = Some (Inr ((), s\<lparr>kheap_mem := ?m'\<rparr>))"
      using bm walk nx by (simp add: kheap_add_to_free_list_def ASSERT_holds hdr_next_def) (simp add: heap_put_def m_def)
    have "x + 8 \<noteq> p + 8" if "x \<in> set us \<or> x \<in> set (frees ys)" for x
      using header_fields(1) [OF t e _ pin, of x] xin that snoc frees_distinct [OF T(1)] hi [of x] lo [of p] by force
    then have "linked ?m' ?h ((us @ [p]) @ b # frees ys) 0"
      using r snoc b0 b8 hf by (intro linked_insert_after) auto
    moreover have "?m' (b + 16) = KHEAP_MAGIC" using hf [of p] snoc b8 by auto
    ultimately show ?thesis
      using run pin bin snoc by (intro exI [of _ ?m'] exI [of _ ?h]) auto
  qed
qed

section \<open>Coalescing\<close>

text \<open>Merging every free block with the free blocks right after it.\<close>

fun coal :: "blk list \<Rightarrow> blk list" where
  "coal ((b, n, True) # (c, k, True) # bs) = coal ((b, n + (32 + k), True) # bs)"
| "coal (x # bs) = x # coal bs"
| "coal [] = []"

lemma coal_allocated: "\<not> f \<Longrightarrow> coal ((b, n, f) # bs) = (b, n, f) # coal bs"
  by (cases bs) auto

lemma coal_free_allocated: "\<not> g \<Longrightarrow> coal ((b, n, f) # (c, k, g) # bs) = (b, n, f) # (c, k, g) # coal bs"
  by (cases f) (auto simp: coal_allocated)

lemma coal_no_free: "frees zs = [] \<Longrightarrow> coal (zs @ bs) = zs @ coal bs"
proof (induction zs)
  case (Cons z zs)
  then show ?case by (cases z) (auto simp: coal_allocated split: if_splits)
qed simp

lemma coal_allocs: "allocs (coal bs) = allocs bs"
  by (induction bs rule: coal.induct) auto

text \<open>A merge of two adjacent free blocks.\<close>

lemma merge_blocks:
  assumes t: "tiling m a e (xs @ (c, n, True) # (d, k, True) # ys)" and e: "e \<le> 2 ^ 64"
    and mk: "marks m (xs @ (c, n, True) # (d, k, True) # ys)"
    and l: "linked m h (frees (xs @ (c, n, True) # (d, k, True) # ys)) 0"
  defines "m' \<equiv> m(c := n + (32 + k), c + 8 := m (d + 8))"
  shows "tiling m' a e (xs @ (c, n + (32 + k), True) # ys)" "marks m' (xs @ (c, n + (32 + k), True) # ys)"
    "linked m' h (frees (xs @ (c, n + (32 + k), True) # ys)) 0"
proof -
  let ?bs = "xs @ (c, n, True) # (d, k, True) # ys"
  have cin: "c \<in> blk_addr ` set ?bs" by force
  have rest: "b \<noteq> c" if "b \<in> blk_addr ` set xs \<or> b \<in> blk_addr ` set ys" for b
    using tiling_distinct [OF t] that by auto
  have inn: "b \<in> blk_addr ` set ?bs" if "b \<in> blk_addr ` set xs \<or> b \<in> blk_addr ` set ys" for b using that by auto
  have m'c: "m' c = n + (32 + k)" "m' (c + 8) = m (d + 8)" "m' (c + 16) = m (c + 16)"
    using header_fields [OF t e cin cin] by (auto simp: m'_def)
  have m'b: "m' b = m b" "m' (b + 16) = m (b + 16)" "m' (b + 8) = m (b + 8)"
    if "b \<in> blk_addr ` set xs \<or> b \<in> blk_addr ` set ys" for b
    using header_fields [OF t e inn [OF that] cin] rest [OF that] by (auto simp: m'_def)
  note T = tiling_split [OF t]
  have T2: "unat d = unat c + 32 + unat n" "m d = k" "unat k mod 16 = 0" "16 \<le> unat k"
    "tiling m (unat d + 32 + unat k) e ys" using T(2) by auto
  have "unat d + 32 + unat k \<le> 2 ^ 64" using tiling_le [OF T2(5)] e by simp
  then have un: "unat (n + (32 + k)) = unat n + 32 + unat k"
    using T2(1) T(6) by (simp add: unat_plus_if')
  have "tiling m' a (unat c) xs = tiling m a (unat c) xs" by (intro tiling_cong ballI m'b) simp
  moreover have "tiling m' (unat d + 32 + unat k) e ys = tiling m (unat d + 32 + unat k) e ys"
    by (intro tiling_cong ballI m'b) simp
  ultimately show "tiling m' a e (xs @ (c, n + (32 + k), True) # ys)"
    using T T2 un m'c by (auto simp: tiling_append ac_simps mod_add_eq intro!: exI [of _ "unat c"])
  have "marks m' xs = marks m xs" by (intro marks_cong ballI m'b) simp
  moreover have "marks m' ys = marks m ys" by (intro marks_cong ballI m'b) simp
  ultimately show "marks m' (xs @ (c, n + (32 + k), True) # ys)" using mk m'c by simp
  obtain r where r: "linked m h (frees xs) c" "c \<noteq> 0" "m (c + 8) = d" "linked m (m (d + 8)) (frees ys) 0"
    using l by (auto simp: linked_append)
  have "linked m' h (frees xs) c = linked m h (frees xs) c" "linked m' (m (d + 8)) (frees ys) 0 = linked m (m (d + 8)) (frees ys) 0"
    by (intro linked_cong m'b, simp add: frees_addr)+
  then show "linked m' h (frees (xs @ (c, n + (32 + k), True) # ys)) 0"
    using r m'c by (auto simp: linked_append)
qed

lemma coal_last_free: "frees ys = [] \<Longrightarrow> coal ((c, n, True) # ys) = (c, n, True) # ys"
proof (cases ys)
  case (Cons y zs)
  assume "frees ys = []"
  then show ?thesis using Cons coal_no_free [of zs "[]"] by (cases y) (auto simp: coal_free_allocated split: if_splits)
qed simp

lemma first_free:
  assumes "frees ys \<noteq> []"
  obtains zs f j ws where "ys = zs @ (f, j, True) # ws" "frees zs = []" "frees ys = f # frees ws"
  using assms
proof (induction ys arbitrary: thesis)
  case (Cons y ys)
  obtain b n g where y: "y = (b, n, g)" by (cases y)
  show ?case
  proof (cases g)
    case True
    then show ?thesis using Cons.prems(1) [of "[]" b n ys] y by simp
  next
    case False
    then have ne: "frees ys \<noteq> []" using Cons.prems(2) y by simp
    show ?thesis
    proof (rule Cons.IH [OF _ ne])
      fix zs f j ws assume "ys = zs @ (f, j, True) # ws" "frees zs = []" "frees ys = f # frees ws"
      then show thesis using Cons.prems(1) [of "y # zs" f j ws] y False by simp
    qed
  qed
qed simp

lemma kheap_coalesce_step_merge:
  assumes t: "tiling (kheap_mem s) a e (xs @ (c, n, True) # (d, k, True) # ys)" and e: "e \<le> 2 ^ 64" and a: "0 < a"
    and mk: "marks (kheap_mem s) (xs @ (c, n, True) # (d, k, True) # ys)"
    and l: "linked (kheap_mem s) h (frees (xs @ (c, n, True) # (d, k, True) # ys)) 0"
  shows "kheap_coalesce_step c s = Some (Inr (Inr c,
     s\<lparr>kheap_mem := (kheap_mem s)(c := n + (32 + k), c + 8 := kheap_mem s (d + 8))\<rparr>))"
proof -
  let ?bs = "xs @ (c, n, True) # (d, k, True) # ys"
  have cin: "c \<in> blk_addr ` set ?bs" and din: "d \<in> blk_addr ` set ?bs" by force+
  have l': "c \<noteq> 0" "kheap_mem s (c + 8) = d" "d \<noteq> 0" using l by (auto simp: linked_append)
  note T = tiling_split [OF t]
  have T2: "unat d = unat c + 32 + unat n" "kheap_mem s d = k" using T(2) by auto
  have "unat d < 2 ^ 64" using unat_lt2p [of d] by simp
  then have "unat (c + 32 + n) = unat c + 32 + unat n" using T2(1) by (simp add: unat_plus_if')
  then have adj: "c + 32 + n = d" using T2(1) by (simp add: word_unat_eq_iff)
  have "c \<noteq> c + 8" "c \<noteq> d + 8"
    using header_fields(5) [OF t e cin cin] header_fields(5) [OF t e cin din] by auto
  then show ?thesis
    using l' adj mk T(3) T2(2)
    by (simp add: kheap_coalesce_step_def hdr_next_def hdr_size_def hdr_magic_def ASSERT_holds)
      (simp add: heap_put_def)
qed

lemma kheap_coalesce_loop:
  assumes "tiling (kheap_mem s) a e (xs @ (c, n, True) # ys)" "e \<le> 2 ^ 64" "0 < a"
    and "marks (kheap_mem s) (xs @ (c, n, True) # ys)"
    and "linked (kheap_mem s) h (frees (xs @ (c, n, True) # ys)) 0"
  shows "\<exists>m'. loopK kheap_coalesce_step c s = Some (Inr ((), s\<lparr>kheap_mem := m'\<rparr>)) \<and>
     tiling m' a e (xs @ coal ((c, n, True) # ys)) \<and> marks m' (xs @ coal ((c, n, True) # ys)) \<and>
     linked m' h (frees (xs @ coal ((c, n, True) # ys))) 0 \<and> keeps (xs @ ys) (kheap_mem s) m'"
  using assms
proof (induction "length ys" arbitrary: xs c n ys s rule: less_induct)
  case less
  note t = less.prems(1) and mk = less.prems(4) and l = less.prems(5)
  have lc: "c \<noteq> 0" "linked (kheap_mem s) (kheap_mem s (c + 8)) (frees ys) 0" using l by (auto simp: linked_append)
  show ?case
  proof (cases "frees ys = []")
    case True
    then have "kheap_coalesce_step c s = Some (Inr (Inl (), s))"
      using lc by (simp add: kheap_coalesce_step_def hdr_next_def)
    then have "loopK kheap_coalesce_step c s = Some (Inr ((), s))" by (rule loopK_leave)
    then show ?thesis using less.prems coal_last_free [OF True] by (intro exI [of _ "kheap_mem s"]) simp
  next
    case False
    then obtain d k g zs where ys: "ys = (d, k, g) # zs" by (cases ys) auto
    show ?thesis
    proof (cases g)
      case True
      let ?s' = "s\<lparr>kheap_mem := (kheap_mem s)(c := n + (32 + k), c + 8 := kheap_mem s (d + 8))\<rparr>"
      have "kheap_coalesce_step c s = Some (Inr (Inr c, ?s'))"
        using kheap_coalesce_step_merge [of s a e xs c n d k zs h] less.prems ys True by simp
      then have "loopK kheap_coalesce_step c s = loopK kheap_coalesce_step c ?s'" by (rule loopK_again)
      moreover have "length zs < length ys" using ys by simp
      note IH = less.hyps [OF this, of ?s' xs c "n + (32 + k)"]
      moreover have "\<not> owned (xs @ ys) c" "\<not> owned (xs @ ys) (c + 8)"
        using field_not_owned [OF t less.prems(2), of 0] field_not_owned [OF t less.prems(2), of 8] by simp_all
      then have "keeps (xs @ ys) (kheap_mem s) (kheap_mem ?s')" by (simp add: keeps_upd)
      moreover have "owned (xs @ ys) = owned (xs @ zs)" by (rule owned_cong) (simp add: ys True)
      ultimately show ?thesis
        using IH merge_blocks [of "kheap_mem s" a e xs c n d k zs h] less.prems ys True by (auto simp: keeps_def)
    next
      case False
      then have "frees zs \<noteq> []" using \<open>frees ys \<noteq> []\<close> ys by simp
      then obtain us f j ws where us: "zs = us @ (f, j, True) # ws" "frees us = []" "frees zs = f # frees ws"
        by (rule first_free)
      have nx: "kheap_mem s (c + 8) = f" "f \<noteq> 0" using lc us(3) ys False by auto
      let ?xs = "xs @ (c, n, True) # (d, k, False) # us"
      have bs: "xs @ (c, n, True) # ys = ?xs @ (f, j, True) # ws" using ys us False by simp
      have T: "unat d = unat c + 32 + unat n" "unat d < unat f"
        using tiling_split(2) [OF t] tiling_split(6) [of "kheap_mem s" "unat c + 32 + unat n + 32 + unat k" e us f j True ws] ys us
        by auto
      have "unat (c + 32 + n) = unat c + 32 + unat n" using T(1) unat_lt2p [of d] by (simp add: unat_plus_if')
      then have "c + 32 + n \<noteq> f" using T by auto
      then have "kheap_coalesce_step c s = Some (Inr (Inr f, s))"
        using lc nx mk us ys tiling_split(3) [OF t]
        by (simp add: kheap_coalesce_step_def hdr_next_def hdr_size_def hdr_magic_def ASSERT_holds)
      then have "loopK kheap_coalesce_step c s = loopK kheap_coalesce_step f s" by (rule loopK_again)
      moreover have "length ws < length ys" using ys us by simp
      note IH = less.hyps [OF this, of s ?xs f j]
      moreover have "xs @ coal ((c, n, True) # ys) = ?xs @ coal ((f, j, True) # ws)"
        using ys us False coal_no_free [OF us(2)] by (simp add: coal_free_allocated)
      moreover have "owned (xs @ ys) = owned (?xs @ ws)" by (rule owned_cong) (simp add: ys us False)
      ultimately show ?thesis using IH less.prems bs by (simp add: keeps_def)
    qed
  qed
qed

section \<open>The state of the heap\<close>

definition heap_blocks :: "'a kheap_scheme \<Rightarrow> blk list \<Rightarrow> bool" where
  "heap_blocks s bs \<longleftrightarrow>
     tiling (kheap_mem s) (unat KERNEL_HEAP_START) (unat (kheap_current_break s)) bs \<and>
     marks (kheap_mem s) bs \<and> linked (kheap_mem s) (kheap_free_list s) (frees bs) 0"

lemma heap_start: "0 < unat KERNEL_HEAP_START" "unat KERNEL_HEAP_START mod 16 = 0"
  by simp_all

lemma break_bound: "unat (x :: u64) \<le> 2 ^ 64"
  using unat_lt2p [of x] by simp

lemma kheap_coalesce_free_list_run:
  assumes "heap_blocks s bs"
  shows "\<exists>m'. kheap_coalesce_free_list s = Some (Inr ((), s\<lparr>kheap_mem := m'\<rparr>)) \<and>
              heap_blocks (s\<lparr>kheap_mem := m'\<rparr>) (coal bs) \<and> keeps bs (kheap_mem s) m'"
proof (cases "frees bs = []")
  case True
  then have "kheap_free_list s = 0" using assms by (simp add: heap_blocks_def)
  moreover have "loopK kheap_coalesce_step 0 s = Some (Inr ((), s))"
    by (rule loopK_leave) (simp add: kheap_coalesce_step_def)
  ultimately have "kheap_coalesce_free_list s = Some (Inr ((), s))" by (simp add: kheap_coalesce_free_list_def)
  then show ?thesis using assms coal_no_free [OF True, of "[]"] by (intro exI [of _ "kheap_mem s"]) simp
next
  case False
  then obtain zs f j ws where bs: "bs = zs @ (f, j, True) # ws" "frees zs = []" "frees bs = f # frees ws"
    by (rule first_free)
  have h: "kheap_free_list s = f" using assms bs(3) by (simp add: heap_blocks_def)
  have "coal bs = zs @ coal ((f, j, True) # ws)" using bs coal_no_free by simp
  moreover have "owned bs = owned (zs @ ws)" by (rule owned_cong) (simp add: bs)
  ultimately show ?thesis
    using kheap_coalesce_loop [of s "unat KERNEL_HEAP_START" "unat (kheap_current_break s)" zs f j ws "kheap_free_list s"]
      assms bs(1) break_bound [of "kheap_current_break s"] h
    by (auto simp: heap_blocks_def kheap_coalesce_free_list_def keeps_def)
qed

text \<open>Inserting a block, in terms of the tiling.\<close>

lemma add_block:
  fixes s :: "'a kheap_scheme"
  defines "m \<equiv> kheap_mem s"
  assumes t: "tiling m a e (xs @ (b, n, f) # ys)" and e: "e \<le> 2 ^ 64" and a: "0 < a" "a mod 16 = 0"
    and l: "linked m (kheap_free_list s) (frees xs @ frees ys) 0"
  shows "\<exists>m' h'. kheap_add_to_free_list b s = Some (Inr ((), s\<lparr>kheap_mem := m', kheap_free_list := h'\<rparr>)) \<and>
     linked m' h' (frees (xs @ (b, n, True) # ys)) 0 \<and> tiling m' a e (xs @ (b, n, True) # ys) \<and>
     m' (b + 16) = KHEAP_MAGIC \<and> (\<forall>x \<in> set xs \<union> set ys. m' (blk_addr x + 16) = m (blk_addr x + 16)) \<and>
     keeps (xs @ ys) m m'"
proof -
  let ?bs = "xs @ (b, n, f) # ys"
  obtain m' h' where run: "kheap_add_to_free_list b s = Some (Inr ((), s\<lparr>kheap_mem := m', kheap_free_list := h'\<rparr>))"
    and l': "linked m' h' (frees xs @ b # frees ys) 0" and mg: "m' (b + 16) = KHEAP_MAGIC"
    and other: "\<And>x. x \<noteq> b + 16 \<Longrightarrow> x \<notin> (\<lambda>p. p + 8) ` set (frees xs @ b # frees ys) \<Longrightarrow> m' x = m x"
    using kheap_add_to_free_list_run [OF t [unfolded m_def] e a l [unfolded m_def]] unfolding m_def by auto
  have bin: "b \<in> blk_addr ` set ?bs" by force
  have lin: "p \<in> blk_addr ` set ?bs" if "p \<in> set (frees xs @ b # frees ys)" for p
    using that frees_addr [of p xs] frees_addr [of p ys] by auto
  have sz: "m' c = m c" if "c \<in> blk_addr ` set ?bs" for c
    using header_fields [OF t e that bin] header_fields(5) [OF t e that lin] by (intro other) auto
  have "tiling m' a e ?bs = tiling m a e ?bs" by (intro tiling_cong ballI sz)
  then have t': "tiling m' a e (xs @ (b, n, True) # ys)" using t by (simp add: tiling_append)
  have mk: "m' (blk_addr x + 16) = m (blk_addr x + 16)" if "x \<in> set xs \<union> set ys" for x
  proof (rule other)
    have xin: "blk_addr x \<in> blk_addr ` set ?bs" using that by auto
    have "blk_addr x \<noteq> b" using tiling_distinct [OF t] that by auto
    then show "blk_addr x + 16 \<noteq> b + 16" using header_fields(2) [OF t e xin bin] by simp
    show "blk_addr x + 16 \<notin> (\<lambda>p. p + 8) ` set (frees xs @ b # frees ys)" using header_fields(4) [OF t e xin lin] by blast
  qed
  have "keeps (xs @ ys) m m'"
    unfolding keeps_def
  proof (intro allI impI other)
    fix x assume x: "owned (xs @ ys) x"
    show "x \<noteq> b + 16" using field_not_owned [OF t e, of 16] x by auto
    have "owned ?bs x" by (rule owned_mono [OF _ x]) auto
    then have "x \<noteq> p + 8" if "p \<in> set (frees ?bs)" for p using free_field_not_owned [OF t e that, of 8] by auto
    then show "x \<notin> (\<lambda>p. p + 8) ` set (frees xs @ b # frees ys)" using field_not_owned [OF t e, of 8] x by auto
  qed
  then show ?thesis using run l' t' mg mk by (intro exI [of _ m'] exI [of _ h']) auto
qed

section \<open>Searching and taking a block\<close>

lemma kmalloc_search_found:
  assumes "linked (kheap_mem s) c (us @ b # vs) 0" "\<forall>u \<in> set us. kheap_mem s u < asz" "asz \<le> kheap_mem s b"
    and "\<forall>u \<in> set (us @ [b]). kheap_mem s (u + 16) = KHEAP_MAGIC"
  shows "loopK (kmalloc_search asz) (c, prev) s = Some (Inr ((b, if us = [] then prev else last us), s))"
  using assms
proof (induction us arbitrary: c prev)
  case Nil
  then show ?case
    by (intro loopK_leave) (auto simp: kmalloc_search_def hdr_magic_def hdr_size_def ASSERT_holds)
next
  case (Cons u us)
  have "kmalloc_search asz (c, prev) s = Some (Inr (Inr (kheap_mem s (c + 8), c), s))"
    using Cons.prems by (simp add: kmalloc_search_def hdr_magic_def hdr_size_def hdr_next_def ASSERT_holds not_le)
  then have "loopK (kmalloc_search asz) (c, prev) s = loopK (kmalloc_search asz) (kheap_mem s (c + 8), c) s"
    by (rule loopK_again)
  then show ?case using Cons by auto
qed

lemma kmalloc_search_none:
  assumes "linked (kheap_mem s) c us 0" "\<forall>u \<in> set us. kheap_mem s u < asz"
    and "\<forall>u \<in> set us. kheap_mem s (u + 16) = KHEAP_MAGIC"
  shows "\<exists>p. loopK (kmalloc_search asz) (c, prev) s = Some (Inr ((0, p), s))"
  using assms
proof (induction us arbitrary: c prev)
  case Nil
  then show ?case using loopK_leave [of "kmalloc_search asz" "(c, prev)" s "(0, prev)" s] by (auto simp: kmalloc_search_def)
next
  case (Cons u us)
  have "kmalloc_search asz (c, prev) s = Some (Inr (Inr (kheap_mem s (c + 8), c), s))"
    using Cons.prems by (simp add: kmalloc_search_def hdr_magic_def hdr_size_def hdr_next_def ASSERT_holds not_le)
  then have "loopK (kmalloc_search asz) (c, prev) s = loopK (kmalloc_search asz) (kheap_mem s (c + 8), c) s"
    by (rule loopK_again)
  then show ?case using Cons by auto
qed

text \<open>Taking \<open>b\<close> out of the list.\<close>

lemma unlink_block:
  assumes t: "tiling m a e (xs @ (b, n, f) # ys)" and e: "e \<le> 2 ^ 64"
    and l: "linked m h (frees xs @ b # frees ys) 0"
  shows "if frees xs = [] then linked m (m (b + 8)) (frees ys) 0
         else last (frees xs) \<noteq> 0 \<and> linked (m(last (frees xs) + 8 := m (b + 8))) h (frees xs @ frees ys) 0"
proof (cases "frees xs" rule: rev_cases)
  case Nil
  then show ?thesis using l by simp
next
  case (snoc us p)
  note T = tiling_split [OF t]
  obtain r where r: "linked m h (us @ [p]) b" "linked m (m (b + 8)) (frees ys) 0"
    using l snoc by (auto simp: linked_append)
  have pin: "p \<in> blk_addr ` set (xs @ (b, n, f) # ys)" using snoc frees_addr [of p xs] by auto
  have ne: "x + 8 \<noteq> p + 8" if "x \<in> set us \<or> x \<in> set (frees ys)" for x
  proof -
    have "x \<in> blk_addr ` set (xs @ (b, n, f) # ys)" using that snoc frees_addr [of x xs] frees_addr [of x ys] by auto
    moreover have "x \<noteq> p"
      using that snoc frees_distinct [OF T(1)] frees_below [OF T(1), of p] frees_below [OF T(2), of x] by auto
    ultimately show ?thesis using header_fields(1) [OF t e _ pin] by simp
  qed
  have "linked (m(p + 8 := m (b + 8))) h (us @ [p]) (m (b + 8))"
    using linked_redirect [OF r(1)] ne by blast
  moreover have "linked (m(p + 8 := m (b + 8))) (m (b + 8)) (frees ys) 0 = linked m (m (b + 8)) (frees ys) 0"
    by (rule linked_cong) (use ne in auto)
  moreover have "p \<noteq> 0" using r(1) by (auto simp: linked_append)
  ultimately show ?thesis using r(2) snoc by (auto simp: linked_append)
qed

text \<open>Splitting \<open>b\<close> after \<open>asz\<close> bytes of data.\<close>

lemma split_block:
  assumes t: "tiling m a e (xs @ (b, n, f) # ys)" and e: "e \<le> 2 ^ 64"
    and z: "unat asz mod 16 = 0" "16 \<le> unat asz" "asz \<le> n" "48 \<le> n - asz"
  defines "sp \<equiv> b + 32 + asz"
  defines "m' \<equiv> m(sp := n - asz - 32, b := asz)"
  shows "tiling m' a e (xs @ (b, asz, False) # (sp, n - asz - 32, g) # ys)"
    and "x \<in> set xs \<union> set ys \<Longrightarrow> m' (blk_addr x + 16) = m (blk_addr x + 16)"
    and "x \<in> set xs \<union> set ys \<Longrightarrow> m' (blk_addr x + 8) = m (blk_addr x + 8)"
    and "keeps (xs @ ys) m m'"
proof -
  note T = tiling_split [OF t]
  have rem: "unat (n - asz) = unat n - unat asz" using z(3) by (simp add: unat_sub_if' word_le_nat_alt)
  then have big: "48 \<le> unat n - unat asz" using z(4) by (simp add: word_le_nat_alt)
  have rem2: "unat (n - asz - 32) = unat n - unat asz - 32" using rem big by (subst unat_sub_if') simp
  have "unat b + 80 + unat asz \<le> 2 ^ 64" using T(7) e big by linarith
  then have sp: "unat sp = unat b + 32 + unat asz" unfolding sp_def by (simp add: unat_plus_if')
  have far: "blk_addr x + k \<noteq> sp \<and> blk_addr x + k \<noteq> b" if "x \<in> set xs \<union> set ys" "unat k \<le> 16" for x k
  proof -
    have "unat (blk_addr x) + 48 \<le> unat b \<or> unat b + 32 + unat n \<le> unat (blk_addr x) \<and> unat (blk_addr x) + 48 \<le> e"
      using that tiling_bounds [OF T(1), of x] tiling_bounds [OF T(2), of x] by auto
    moreover from this have "unat (blk_addr x + k) = unat (blk_addr x) + unat k"
      using that(2) e T(7) by (intro unat_add_field) auto
    ultimately show ?thesis using that(2) sp big by auto
  qed
  have "sp \<noteq> b" using sp by auto
  have "\<not> owned (xs @ ys) sp" "\<not> owned (xs @ ys) b"
    using sp big by (intro inside_not_owned [OF t]; simp)+
  then show "keeps (xs @ ys) m m'" unfolding m'_def by (intro keeps_upd) simp_all
  have keep: "m' (blk_addr x + k) = m (blk_addr x + k)" if "x \<in> set xs \<union> set ys" "unat k \<le> 16" for x k
    using far [OF that] by (simp add: m'_def)
  show "x \<in> set xs \<union> set ys \<Longrightarrow> m' (blk_addr x + 16) = m (blk_addr x + 16)" by (rule keep) simp_all
  show "x \<in> set xs \<union> set ys \<Longrightarrow> m' (blk_addr x + 8) = m (blk_addr x + 8)" by (rule keep) simp_all
  have "tiling m' a (unat b) xs = tiling m a (unat b) xs" using keep [of _ 0] by (intro tiling_cong) auto
  moreover have "tiling m' (unat b + 32 + unat n) e ys = tiling m (unat b + 32 + unat n) e ys"
    using keep [of _ 0] by (intro tiling_cong) auto
  moreover have "m' b = asz" "m' sp = n - asz - 32" using \<open>sp \<noteq> b\<close> by (simp_all add: m'_def)
  moreover have "(unat n - unat asz - 32) mod 16 = 0"
    using z(1) T(4) big by (simp add: mod_eq_0_iff_dvd dvd_diff_nat)
  moreover have "unat b + 32 + unat asz + 32 + unat (n - asz - 32) = unat b + 32 + unat n" using rem2 big by simp
  moreover have "16 \<le> unat (n - asz - 32)" using rem2 big by simp
  ultimately have "tiling m' a (unat b) xs" "tiling m' (unat b) e ((b, asz, False) # (sp, n - asz - 32, g) # ys)"
    using T(1,2) z(1,2) sp rem2 unfolding tiling.simps by metis+
  then show "tiling m' a e (xs @ (b, asz, False) # (sp, n - asz - 32, g) # ys)"
    unfolding tiling_append by blast
qed

text \<open>What an allocation makes of the block it takes.\<close>

definition carve :: "u64 \<Rightarrow> u64 \<Rightarrow> u64 \<Rightarrow> blk list" where
  "carve asz b n =
     (if 48 \<le> n - asz then [(b, asz, False), (b + 32 + asz, n - asz - 32, True)] else [(b, n, False)])"

lemma mark_allocated:
  assumes t: "tiling m a e (xs @ (b, n, f) # ys)" and e: "e \<le> 2 ^ 64"
    and mk: "marks m xs" "marks m ys" and l: "linked m h (frees xs @ frees ys) 0"
  defines "m' \<equiv> m(b + 16 := NOT KHEAP_MAGIC)"
  shows "tiling m' a e (xs @ (b, n, False) # ys)" "marks m' (xs @ (b, n, False) # ys)"
    "linked m' h (frees (xs @ (b, n, False) # ys)) 0"
proof -
  let ?bs = "xs @ (b, n, f) # ys"
  have bin: "b \<in> blk_addr ` set ?bs" by force
  have "tiling m' a e ?bs = tiling m a e ?bs"
    using header_fields(6) [OF t e _ bin] by (intro tiling_cong) (auto simp: m'_def)
  then show "tiling m' a e (xs @ (b, n, False) # ys)" using t by (simp add: tiling_append)
  have "m' (blk_addr x + 16) = m (blk_addr x + 16)" if "x \<in> set xs \<union> set ys" for x
    using header_fields(2) [OF t e _ bin, of "blk_addr x"] tiling_distinct [OF t] that by (auto simp: m'_def)
  then have "marks m' xs" "marks m' ys" using mk by (auto simp: marks_def)
  then show "marks m' (xs @ (b, n, False) # ys)" by (simp add: m'_def)
  have "linked m' h (frees xs @ frees ys) 0 = linked m h (frees xs @ frees ys) 0"
    using header_fields(3) [OF t e _ bin] frees_addr [of _ xs] frees_addr [of _ ys]
    by (intro linked_cong) (fastforce simp: m'_def)
  then show "linked m' h (frees (xs @ (b, n, False) # ys)) 0" using l by simp
qed

text \<open>The first half of \<open>kmalloc_take\<close>: the block leaves the list.\<close>

lemma unlink_state:
  fixes s :: "'a kheap_scheme"
  assumes t: "tiling (kheap_mem s) a e (xs @ (b, n, True) # ys)" and e: "e \<le> 2 ^ 64"
    and mk: "marks (kheap_mem s) (xs @ ys)"
    and l: "linked (kheap_mem s) (kheap_free_list s) (frees xs @ b # frees ys) 0"
    and prev: "prev = (if frees xs = [] then 0 else last (frees xs))"
  obtains m1 h1 where
    "kmalloc_unlink b prev s = Some (Inr ((), s\<lparr>kheap_mem := m1, kheap_free_list := h1\<rparr>))"
    "tiling m1 a e (xs @ (b, n, True) # ys)" "marks m1 (xs @ ys)" "linked m1 h1 (frees xs @ frees ys) 0"
    "keeps (xs @ ys) (kheap_mem s) m1"
proof (cases "frees xs = []")
  case True
  then show thesis
    using unlink_block [OF t e l] prev t mk by (intro that [of "hdr_next s b" "kheap_mem s"]) (auto simp: kmalloc_unlink_def hdr_next_def)
next
  case False
  let ?bs = "xs @ (b, n, True) # ys" and ?m1 = "(kheap_mem s)(prev + 8 := hdr_next s b)"
  have pin: "prev \<in> blk_addr ` set ?bs" using False prev frees_addr [of prev xs] by auto
  have "tiling ?m1 a e ?bs = tiling (kheap_mem s) a e ?bs"
    using header_fields(5) [OF t e _ pin] by (intro tiling_cong) auto
  moreover have "marks ?m1 (xs @ ys) = marks (kheap_mem s) (xs @ ys)"
    using header_fields(4) [OF t e _ pin] by (intro marks_cong) auto
  moreover have "prev \<in> set (frees ?bs)" using False prev by simp
  then have "\<not> owned ?bs (prev + 8)" by (rule free_field_not_owned [OF t e]) simp
  then have "keeps (xs @ ys) (kheap_mem s) ?m1"
    using owned_cong [of "xs @ ys" ?bs] by (simp add: keeps_upd)
  ultimately show thesis
    using unlink_block [OF t e l] prev False t mk
    by (intro that [of "kheap_free_list s" ?m1]) (auto simp: kmalloc_unlink_def hdr_next_def heap_put_def)
qed

lemma split_state:
  fixes s :: "'a kheap_scheme"
  assumes t: "tiling (kheap_mem s) a e (xs @ (b, n, f) # ys)" and e: "e \<le> 2 ^ 64" and a: "0 < a" "a mod 16 = 0"
    and mk: "marks (kheap_mem s) (xs @ ys)" and l: "linked (kheap_mem s) (kheap_free_list s) (frees xs @ frees ys) 0"
    and z: "unat asz mod 16 = 0" "16 \<le> unat asz" "asz \<le> n" "48 \<le> n - asz"
  defines "sp \<equiv> b + 32 + asz"
  obtains m1 h1 where
    "kmalloc_split asz b s = Some (Inr ((), s\<lparr>kheap_mem := m1, kheap_free_list := h1\<rparr>))"
    "tiling m1 a e (xs @ (b, asz, False) # (sp, n - asz - 32, True) # ys)"
    "marks m1 xs" "marks m1 ((sp, n - asz - 32, True) # ys)"
    "linked m1 h1 (frees xs @ frees ((sp, n - asz - 32, True) # ys)) 0"
    "keeps (xs @ ys) (kheap_mem s) m1"
proof -
  let ?m = "kheap_mem s"
  let ?m2 = "?m(sp := n - asz - 32, b := asz)"
  let ?s2 = "s\<lparr>kheap_mem := ?m2\<rparr>"
  note S = split_block [OF t e z, folded sp_def]
  have l2: "linked ?m2 (kheap_free_list s) (frees xs @ frees ys) 0 = linked ?m (kheap_free_list s) (frees xs @ frees ys) 0"
  proof (rule linked_cong)
    fix p assume "p \<in> set (frees xs @ frees ys)"
    then obtain x where "x \<in> set xs \<union> set ys" "p = blk_addr x" using frees_addr [of p "xs @ ys"] by auto
    then show "?m2 (p + 8) = ?m (p + 8)" using S(3) by blast
  qed
  obtain m1 h1 where A: "kheap_add_to_free_list sp ?s2 = Some (Inr ((), ?s2\<lparr>kheap_mem := m1, kheap_free_list := h1\<rparr>))"
    "linked m1 h1 (frees ((xs @ [(b, asz, False)]) @ (sp, n - asz - 32, True) # ys)) 0"
    "tiling m1 a e ((xs @ [(b, asz, False)]) @ (sp, n - asz - 32, True) # ys)" "m1 (sp + 16) = KHEAP_MAGIC"
    and keep: "\<forall>x \<in> set (xs @ [(b, asz, False)]) \<union> set ys. m1 (blk_addr x + 16) = ?m2 (blk_addr x + 16)"
    and kp: "keeps ((xs @ [(b, asz, False)]) @ ys) ?m2 m1"
    using add_block [of ?s2 a e "xs @ [(b, asz, False)]" sp "n - asz - 32" True ys] S(1) [of True] e a l l2 by auto
  have "m1 (blk_addr x + 16) = ?m (blk_addr x + 16)" if "x \<in> set xs \<union> set ys" for x
    using keep S(2) [OF that] that by (auto simp del: fun_upd_apply)
  then have "marks m1 xs" "marks m1 ys" using mk by (auto simp: marks_def)
  moreover have "keeps (xs @ ys) ?m m1"
    by (rule keeps_trans [OF S(4) keeps_mono [OF kp]]) auto
  ultimately show thesis
    using A z(4) tiling_split(3) [OF t]
    by (intro that [of h1 m1]) (simp_all add: kmalloc_split_def hdr_size_def Let_def heap_put_def sp_def)
qed

lemma heap_ptr_aligned:
  assumes "tiling m a e bs" "e \<le> 2 ^ 64" "a mod 16 = 0" "(b, n, f) \<in> set bs"
  shows "(b + 32) mod 16 = 0" "unat (b + 32) = unat b + 32"
proof -
  show u: "unat (b + 32) = unat b + 32"
    using tiling_bounds [OF assms(1,4)] assms(2) unat_add_field [of b 32] by simp
  show "(b + 32) mod 16 = 0"
    by (rule word_mod16) (use u tiling_aligned [OF assms(1,3,4)] in \<open>simp add: mod_eq_0_iff_dvd\<close>)
qed

lemma kmalloc_take_run:
  fixes s :: "'a kheap_scheme"
  assumes hb: "heap_blocks s (xs @ (b, n, True) # ys)"
    and prev: "prev = (if frees xs = [] then 0 else last (frees xs))"
    and z: "unat asz mod 16 = 0" "16 \<le> unat asz" "asz \<le> n"
  shows "\<exists>m' h'. kmalloc_take asz b prev s =
       Some (Inr (b + 32, s\<lparr>kheap_mem := m', kheap_free_list := h', kheap_lock := False\<rparr>)) \<and>
     heap_blocks (s\<lparr>kheap_mem := m', kheap_free_list := h'\<rparr>) (xs @ carve asz b n @ ys) \<and>
     keeps (xs @ ys) (kheap_mem s) m'"
proof -
  let ?a = "unat KERNEL_HEAP_START" and ?e = "unat (kheap_current_break s)"
  have e: "?e \<le> 2 ^ 64" by (rule break_bound)
  have t: "tiling (kheap_mem s) ?a ?e (xs @ (b, n, True) # ys)" and mk: "marks (kheap_mem s) (xs @ ys)"
    and l: "linked (kheap_mem s) (kheap_free_list s) (frees xs @ b # frees ys) 0"
    using hb by (auto simp: heap_blocks_def)
  note al = heap_ptr_aligned [OF t e heap_start(2), of b n True]
  obtain m1 h1 where U: "kmalloc_unlink b prev s = Some (Inr ((), s\<lparr>kheap_mem := m1, kheap_free_list := h1\<rparr>))"
    and t1: "tiling m1 ?a ?e (xs @ (b, n, True) # ys)" and mk1: "marks m1 (xs @ ys)"
    and l1: "linked m1 h1 (frees xs @ frees ys) 0" and k1: "keeps (xs @ ys) (kheap_mem s) m1"
    by (rule unlink_state [OF t e mk l prev])
  let ?s1 = "s\<lparr>kheap_mem := m1, kheap_free_list := h1\<rparr>"
  have take: "kmalloc_take asz b prev s = Some (Inr (b + 32, s\<lparr>kheap_mem := m2(b + 16 := NOT KHEAP_MAGIC),
      kheap_free_list := h2, kheap_lock := False\<rparr>))"
    if "kmalloc_split asz b ?s1 = Some (Inr ((), ?s1\<lparr>kheap_mem := m2, kheap_free_list := h2\<rparr>))" for m2 h2
    using U that al by (simp add: kmalloc_take_def ASSERT_holds heap_put_def)
  have mark: "keeps (xs @ ys) m (m'(b + 16 := v))" if "keeps (xs @ ys) m m'" for m m' v
    using field_not_owned [OF t e, of 16] that by (intro keeps_upd) simp_all
  show ?thesis
  proof (cases "48 \<le> n - asz")
    case True
    let ?sp = "b + 32 + asz"
    obtain m2 h2 where S: "kmalloc_split asz b ?s1 = Some (Inr ((), ?s1\<lparr>kheap_mem := m2, kheap_free_list := h2\<rparr>))"
      and t2: "tiling m2 ?a ?e (xs @ (b, asz, False) # (?sp, n - asz - 32, True) # ys)"
      and mk2: "marks m2 xs" "marks m2 ((?sp, n - asz - 32, True) # ys)"
      and l2: "linked m2 h2 (frees xs @ frees ((?sp, n - asz - 32, True) # ys)) 0"
      and k2: "keeps (xs @ ys) (kheap_mem ?s1) m2"
    proof (rule split_state [of ?s1 ?a ?e xs b n True ys asz])
      show "tiling (kheap_mem ?s1) ?a ?e (xs @ (b, n, True) # ys)" using t1 by simp
      show "marks (kheap_mem ?s1) (xs @ ys)" using mk1 by simp
      show "linked (kheap_mem ?s1) (kheap_free_list ?s1) (frees xs @ frees ys) 0" using l1 by simp
    qed (rule e z True; fail | simp add: heap_start; fail | rule that; assumption)+
    have "heap_blocks (s\<lparr>kheap_mem := m2(b + 16 := NOT KHEAP_MAGIC), kheap_free_list := h2\<rparr>) (xs @ carve asz b n @ ys)"
      using mark_allocated [OF t2 e mk2 l2] True by (simp add: heap_blocks_def carve_def)
    moreover have "keeps (xs @ ys) (kheap_mem s) m2" using keeps_trans [OF k1] k2 by simp
    ultimately show ?thesis using take [OF S] mark by blast
  next
    case False
    have "kmalloc_split asz b ?s1 = Some (Inr ((), ?s1\<lparr>kheap_mem := m1, kheap_free_list := h1\<rparr>))"
      using False tiling_split(3) [OF t1] by (simp add: kmalloc_split_def hdr_size_def)
    moreover have "heap_blocks (s\<lparr>kheap_mem := m1(b + 16 := NOT KHEAP_MAGIC), kheap_free_list := h1\<rparr>) (xs @ carve asz b n @ ys)"
      using mark_allocated [OF t1 e _ _ l1] mk1 False by (simp add: heap_blocks_def carve_def)
    ultimately show ?thesis using take mark [OF k1] by blast
  qed
qed

end
