(* ===== verification/KHeapAlloc.thy ===== *)
theory KHeapAlloc
  imports KHeapOps
begin

text \<open>
  Growth of the kernel heap and the two entry points \<open>kmalloc\<close> and \<open>kfree\<close>. The heap
  invariant joins the tiling of the heap with the state of the frame allocator and of the
  kernel address space it grows with: every page below the break is mapped writable.
\<close>

section \<open>Growing the heap\<close>

definition writable :: "'a vmm_scheme \<Rightarrow> u64 \<Rightarrow> bool" where
  "writable s v \<longleftrightarrow> (\<exists>e. vmm_lookup kernel_address_space s v = Some e \<and> bit e 1)"

text \<open>The pages from \<open>lo\<close> to \<open>hi\<close> have been mapped and nothing has been unmapped.\<close>

definition pages_grown :: "nat \<Rightarrow> nat \<Rightarrow> 'a vmm_scheme \<Rightarrow> 'a vmm_scheme \<Rightarrow> bool" where
  "pages_grown lo hi s s' \<longleftrightarrow>
     vmm_ready kernel_address_space s' \<and> vmm.more s' = vmm.more s \<and> pmm_total_frames s' = pmm_total_frames s \<and>
     (\<forall>w. writable s w \<longrightarrow> writable s' w) \<and> (\<forall>w. lo \<le> unat w \<and> unat w < hi \<longrightarrow> writable s' w)"

lemma pages_grown_refl: "vmm_ready kernel_address_space s \<Longrightarrow> pages_grown a a s s"
  by (auto simp: pages_grown_def)

lemma pages_grown_trans:
  "pages_grown a b s t \<Longrightarrow> pages_grown b c t u \<Longrightarrow> pages_grown a c s u"
  by (auto simp: pages_grown_def) (meson not_le)

lemma kheap_more_eq:
  "vmm.more s' = vmm.more s \<Longrightarrow>
   kheap_mem s' = kheap_mem s \<and> kheap_free_list s' = kheap_free_list s \<and>
   kheap_current_break s' = kheap_current_break s \<and> kheap_max_break s' = kheap_max_break s \<and>
   kheap_lock s' = kheap_lock s"
  by (cases s, cases s') simp

lemma take_ready:
  assumes r: "vmm_ready k s" and f: "f \<le> pmm_highest_frame s" "\<not> frame_used s f"
  shows "vmm_ready k (pmm_take f s)" "vmm_lookup k (pmm_take f s) v = vmm_lookup k s v"
proof -
  let ?t = "pmm_take f s" and ?root = "pml4_phys (spaces s k)"
  have inv: "space_inv s ?root" "pmm_inv s" using r by (auto simp: vmm_ready_def space_inv_def)
  note T = take_tree [OF inv(1) f]
  have sp: "spaces ?t = spaces s" by (simp add: pmm_take_def)
  have "space_inv ?t ?root"
    using inv T(2) pmm_inv_take [OF inv(2) f] by (simp add: space_inv_def)
  moreover have "is_table ?t ?root t = is_table s ?root t" for t using T(1) by (auto simp: is_table_def)
  moreover have "frame_used ?t 0" using r frame_used_take [OF inv(2) f, of 0] by (auto simp: vmm_ready_def)
  ultimately show "vmm_ready k ?t" using r sp by (auto simp: vmm_ready_def uart_ready_def pmm_take_def)
  show "vmm_lookup k ?t v = vmm_lookup k s v"
    using T(3) [of "[pml4_index v, pdpt_index v, pd_index v]" "pt_index v"] sp
    by (simp add: vmm_lookup_def mmu_entry_def table_path_def)
qed

lemma same_page:
  assumes "unat a mod 4096 = 0" "unat a \<le> unat w" "unat w < unat a + 4096"
  shows "page_number w = page_number (a :: u64)"
proof -
  obtain q where q: "unat a = 4096 * q" using assms(1) by (auto simp: mod_eq_0_iff_dvd)
  then have "unat w div 4096 = q" using assms(2,3) by (intro div_nat_eqI) auto
  then have "unat w div 4096 = unat a div 4096" using q by simp
  then have "w div 4096 = a div 4096" by (simp add: word_unat_eq_iff unat_div)
  then have "drop_bit 12 w = drop_bit 12 a" by (simp add: drop_bit_eq_div)
  then show ?thesis by (simp add: page_number_def)
qed

text \<open>One round of the loop.\<close>

lemma kheap_expand_page_run:
  assumes r: "vmm_ready kernel_address_space s" and u: "unat (pmm_used_frames s) + 4 \<le> unat (pmm_total_frames s)"
    and a: "unat addr mod 4096 = 0" "unat addr + 4096 \<le> unat new_break"
  shows "\<exists>s'. kheap_expand_page new_break addr s = Some (Inr (Inr (addr + PAGE_SIZE), s')) \<and>
     pages_grown (unat addr) (unat addr + 4096) s s' \<and> unat (pmm_used_frames s') \<le> unat (pmm_used_frames s) + 4"
proof -
  let ?k = kernel_address_space and ?root = "pml4_phys (spaces s kernel_address_space)"
  have inv: "pmm_inv s" "\<not> pmm_lock s" using r by (auto simp: vmm_ready_def space_inv_def)
  obtain f where f: "f \<le> pmm_highest_frame s" "\<not> frame_used s f"
    "pmm_alloc_frame s = Some (Inr (f * PAGE_SIZE, pmm_take f s))"
  proof -
    have "\<exists>g \<le> pmm_highest_frame s. \<not> frame_used s g" using free_frame_exists [OF inv(1)] u by simp
    then show thesis using pmm_alloc_frame_run [OF inv] that by blast
  qed
  let ?t = "pmm_take f s" and ?p = "f * PAGE_SIZE"
  have f52: "f < 2 ^ 52" using pmm_inv_frame_qword(2) [OF inv(1) f(1)] .
  have "f \<noteq> 0" using f(2) r by (auto simp: vmm_ready_def)
  then have p0: "?p \<noteq> 0" using frame_addr_div_mod(1) [OF f52] by auto
  note T = take_ready [OF r f(1,2)]
  have used: "unat (pmm_used_frames ?t) = unat (pmm_used_frames s) + 1"
    using u unat_inc [of "pmm_used_frames s" "pmm_total_frames s"] by (simp add: pmm_take_def word_less_nat_alt)
  have "unat (pmm_used_frames ?t) + 3 \<le> unat (pmm_total_frames ?t)" using u used by (simp add: pmm_take_def)
  moreover have "addr mod PAGE_SIZE = 0" using a(1) by (simp add: word_unat_eq_iff unat_mod)
  moreover have "?p mod PAGE_SIZE = 0" by (rule frame_addr_div_mod(2) [OF f52])
  moreover have sp: "spaces ?t = spaces s" by (simp add: pmm_take_def)
  ultimately obtain s' where s': "vmm_map_page ?k addr ?p (PTE_WRITE OR PTE_NX) ?t = Some (Inr (True, s'))"
    "page_mapped ?root addr (pte_for ?p (PTE_WRITE OR PTE_NX)) ?t s'"
    using vmm_map_page_run [of ?t ?k addr ?p "PTE_WRITE OR PTE_NX"] T(1) by (auto simp: vmm_ready_def)
  have lt: "addr < new_break" using a(2) by (simp add: word_less_nat_alt)
  have "kheap_expand_page new_break addr s = Some (Inr (Inr (addr + PAGE_SIZE), s'))"
    using f(3) p0 s'(1) lt by (simp add: kheap_expand_page_def)
  moreover have "pages_grown (unat addr) (unat addr + 4096) s s'"
  proof -
    have sp': "spaces s' = spaces s" using s'(2) sp by (simp add: page_mapped_def)
    have wr: "bit (pte_for ?p (PTE_WRITE OR PTE_NX)) 1" by (simp add: bit_or_iff bit_and_iff bit_1_iff)
    have e: "mmu_entry s' ?root addr = Some (pte_for ?p (PTE_WRITE OR PTE_NX))" using s'(2) by (simp only: page_mapped_def)
    have here: "writable s' w" if "page_number w = page_number addr" for w
    proof -
      have "mmu_entry s' ?root w = mmu_entry s' ?root addr" using page_number_eqD [OF that] by (simp add: mmu_entry_def)
      then show ?thesis unfolding writable_def vmm_lookup_def sp' using e wr by metis
    qed
    have other: "vmm_lookup ?k s' w = vmm_lookup ?k s w" if "page_number w \<noteq> page_number addr" for w
      using s'(2) that T(2) [of w] sp sp' by (simp add: vmm_lookup_def page_mapped_def)
    have "writable s' w" if "writable s w" for w
      using that here [of w] other [of w] by (cases "page_number w = page_number addr") (auto simp: writable_def)
    moreover have "vmm.more s' = vmm.more s" using s'(2) by (simp add: page_mapped_def pmm_take_def)
    moreover have "pmm_total_frames s' = pmm_total_frames s" using s'(2) by (simp add: page_mapped_def)
    moreover have "vmm_ready ?k s'" using page_mapped_ready [of ?t ?k addr _ s'] s'(2) T(1) sp by simp
    moreover have "\<forall>w. unat addr \<le> unat w \<and> unat w < unat addr + 4096 \<longrightarrow> writable s' w"
      using same_page [OF a(1)] here by blast
    ultimately show ?thesis unfolding pages_grown_def by blast
  qed
  moreover have "unat (pmm_used_frames s') \<le> unat (pmm_used_frames s) + 4"
    using s'(2) used by (simp add: page_mapped_def)
  ultimately show ?thesis by blast
qed

lemma kheap_expand_pages_run:
  assumes "vmm_ready kernel_address_space s" "unat (pmm_used_frames s) + 4 * n \<le> unat (pmm_total_frames s)"
    and "unat addr mod 4096 = 0" "unat new_break = unat addr + 4096 * n"
  shows "\<exists>s'. loopK (kheap_expand_page new_break) addr s = Some (Inr (True, s'\<lparr>kheap_current_break := new_break\<rparr>)) \<and>
     pages_grown (unat addr) (unat new_break) s s'"
  using assms
proof (induction n arbitrary: addr s)
  case 0
  then have "kheap_expand_page new_break addr s = Some (Inr (Inl True, s\<lparr>kheap_current_break := new_break\<rparr>))"
    by (simp add: kheap_expand_page_def word_less_nat_alt)
  then have "loopK (kheap_expand_page new_break) addr s = Some (Inr (True, s\<lparr>kheap_current_break := new_break\<rparr>))"
    by (rule loopK_leave)
  then show ?case using pages_grown_refl [OF 0(1)] 0 by (intro exI [of _ s]) simp
next
  case (Suc n)
  obtain t where t: "kheap_expand_page new_break addr s = Some (Inr (Inr (addr + PAGE_SIZE), t))"
    "pages_grown (unat addr) (unat addr + 4096) s t" "unat (pmm_used_frames t) \<le> unat (pmm_used_frames s) + 4"
    using kheap_expand_page_run [of s addr new_break] Suc.prems by auto
  have "unat addr + 4096 < 2 ^ 64" using Suc.prems(4) unat_lt2p [of new_break] by simp
  then have a: "unat (addr + PAGE_SIZE) = unat addr + 4096" by (simp add: unat_plus_if')
  obtain s' where s': "loopK (kheap_expand_page new_break) (addr + PAGE_SIZE) t = Some (Inr (True, s'\<lparr>kheap_current_break := new_break\<rparr>))"
    "pages_grown (unat (addr + PAGE_SIZE)) (unat new_break) t s'"
    using Suc.IH [of t "addr + PAGE_SIZE"] t(2,3) Suc.prems a by (auto simp: pages_grown_def)
  have "loopK (kheap_expand_page new_break) addr s = loopK (kheap_expand_page new_break) (addr + PAGE_SIZE) t"
    using t(1) by (rule loopK_again)
  then show ?case using s' pages_grown_trans [OF t(2)] a by auto
qed

section \<open>The invariant of the heap\<close>

definition kheap_inv :: "'a kheap_scheme \<Rightarrow> blk list \<Rightarrow> bool" where
  "kheap_inv s bs \<longleftrightarrow>
     heap_blocks s bs \<and> \<not> kheap_lock s \<and> vmm_ready kernel_address_space s \<and>
     unat (kheap_current_break s) mod 4096 = 0 \<and> kheap_current_break s \<le> kheap_max_break s \<and>
     kheap_max_break s = KERNEL_HEAP_START + KERNEL_HEAP_MAX_SIZE \<and>
     (\<forall>v. KERNEL_HEAP_START \<le> v \<and> v < kheap_current_break s \<longrightarrow> writable s v)"

text \<open>The fields of the heap do not matter for the lower layers.\<close>

lemma pmm_same_heap [simp]:
  "pmm_same s (s\<lparr>kheap_mem := m\<rparr>)" "pmm_same s (s\<lparr>kheap_free_list := h\<rparr>)"
  "pmm_same s (s\<lparr>kheap_current_break := b\<rparr>)" "pmm_same s (s\<lparr>kheap_lock := l\<rparr>)"
  by (simp_all add: pmm_same_def)

lemma ready_same:
  assumes "pmm_same s s'" "spaces s' = spaces s" "uart_lsr s' = uart_lsr s"
  shows "vmm_ready k s' = vmm_ready k s" "vmm_lookup k s' v = vmm_lookup k s v" "writable s' v = writable s v"
proof -
  have "phys_mem s' = phys_mem s" using assms(1) by (simp add: pmm_same_def)
  then have "is_table s' = is_table s" by (intro ext) (simp add: is_table_def)
  then show "vmm_ready k s' = vmm_ready k s"
    using pmm_same_D [OF assms(1)] assms by (simp add: vmm_ready_def uart_ready_def)
  show l: "vmm_lookup k s' v = vmm_lookup k s v" for k
    using pmm_same_D(6) [OF assms(1)] assms(2) by (simp add: vmm_lookup_def)
  show "writable s' v = writable s v" by (simp add: writable_def l)
qed

lemmas ready_heap [simp] =
  ready_same [OF pmm_same_heap(1), simplified] ready_same [OF pmm_same_heap(2), simplified]
  ready_same [OF pmm_same_heap(3), simplified] ready_same [OF pmm_same_heap(4), simplified]

lemma ready_printed [simp]:
  "vmm_ready k (printed str s) = vmm_ready k s" "writable (printed str s) v = writable s v"
  using ready_same [OF pmm_same_updates(1)] by (simp_all add: printed_def)

lemma printed_heap [simp]:
  "kheap_mem (printed str s) = kheap_mem s" "kheap_free_list (printed str s) = kheap_free_list s"
  "kheap_current_break (printed str s) = kheap_current_break s" "kheap_max_break (printed str s) = kheap_max_break s"
  "kheap_lock (printed str s) = kheap_lock s"
  by (simp_all add: printed_def)

lemma heap_blocks_cong:
  "kheap_mem s' = kheap_mem s \<Longrightarrow> kheap_free_list s' = kheap_free_list s \<Longrightarrow>
   kheap_current_break s' = kheap_current_break s \<Longrightarrow> heap_blocks s' bs = heap_blocks s bs"
  by (simp add: heap_blocks_def)

section \<open>The search\<close>

text \<open>The first free block that is large enough.\<close>

lemma first_fit:
  assumes "(c, k, True) \<in> set bs" "asz \<le> k"
  obtains xs b n ys where "bs = xs @ (b, n, True) # ys" "asz \<le> n" "\<forall>x \<in> set xs. blk_free x \<longrightarrow> blk_size x < asz"
proof -
  have "\<exists>x \<in> set bs. blk_free x \<and> asz \<le> blk_size x" using assms by force
  then obtain xs x ys where x: "bs = xs @ x # ys" "blk_free x \<and> asz \<le> blk_size x"
    "\<forall>y \<in> set xs. \<not> (blk_free y \<and> asz \<le> blk_size y)"
    using split_list_first_prop [of bs "\<lambda>x. blk_free x \<and> asz \<le> blk_size x"] by blast
  then show thesis using that [of xs "blk_addr x" "blk_size x" ys] by (cases x) (auto simp: not_le)
qed

lemma search_facts:
  assumes "heap_blocks s bs" "\<forall>x \<in> set xs. blk_free x \<longrightarrow> blk_size x < asz" "set xs \<subseteq> set bs"
  shows "\<forall>u \<in> set (frees xs). kheap_mem s u < asz" "\<forall>u \<in> set (frees xs). kheap_mem s (u + 16) = KHEAP_MAGIC"
proof -
  have t: "tiling (kheap_mem s) (unat KERNEL_HEAP_START) (unat (kheap_current_break s)) bs" "marks (kheap_mem s) bs"
    using assms(1) by (auto simp: heap_blocks_def)
  show "\<forall>u \<in> set (frees xs). kheap_mem s u < asz"
    using tiling_size [OF t(1)] assms(2,3) by (fastforce simp: frees_mem)
  show "\<forall>u \<in> set (frees xs). kheap_mem s (u + 16) = KHEAP_MAGIC"
    using t(2) assms(3) by (fastforce simp: frees_mem marks_def)
qed

text \<open>With a fitting block an attempt allocates the first one.\<close>

lemma kmalloc_attempt_fits:
  assumes hb: "heap_blocks s (xs @ (b, n, True) # ys)" and lock: "\<not> kheap_lock s"
    and sz: "sz \<noteq> 0" "asz = align_up sz 16" and z: "unat asz mod 16 = 0" "16 \<le> unat asz" "asz \<le> n"
    and first: "\<forall>x \<in> set xs. blk_free x \<longrightarrow> blk_size x < asz"
  shows "\<exists>m' h'. kmalloc_attempt sz () s = Some (Inr (Inl (b + 32), s\<lparr>kheap_mem := m', kheap_free_list := h', kheap_lock := False\<rparr>)) \<and>
     heap_blocks (s\<lparr>kheap_mem := m', kheap_free_list := h'\<rparr>) (xs @ carve asz b n @ ys) \<and> keeps (xs @ ys) (kheap_mem s) m'"
proof -
  let ?s = "s\<lparr>kheap_lock := True\<rparr>"
  let ?prev = "if frees xs = [] then 0 else last (frees xs)"
  have hb': "heap_blocks ?s (xs @ (b, n, True) # ys)" using hb by (simp add: heap_blocks_def)
  have t: "tiling (kheap_mem s) (unat KERNEL_HEAP_START) (unat (kheap_current_break s)) (xs @ (b, n, True) # ys)"
    using hb by (simp add: heap_blocks_def)
  have "set xs \<subseteq> set (xs @ (b, n, True) # ys)" by auto
  note F = search_facts [OF hb first this]
  have mb: "kheap_mem s b = n" "kheap_mem s (b + 16) = KHEAP_MAGIC" "b \<noteq> 0"
    using tiling_split(3) [OF t] hb by (auto simp: heap_blocks_def linked_append)
  have "loopK (kmalloc_search asz) (kheap_free_list s, 0) ?s = Some (Inr ((b, ?prev), ?s))"
    using kmalloc_search_found [of ?s "kheap_free_list s" "frees xs" b "frees ys" asz 0] F mb z(3) hb
    by (auto simp: heap_blocks_def)
  moreover obtain m' h' where T: "kmalloc_take asz b ?prev ?s =
       Some (Inr (b + 32, ?s\<lparr>kheap_mem := m', kheap_free_list := h', kheap_lock := False\<rparr>))"
     "heap_blocks (?s\<lparr>kheap_mem := m', kheap_free_list := h'\<rparr>) (xs @ carve asz b n @ ys)" "keeps (xs @ ys) (kheap_mem ?s) m'"
    using kmalloc_take_run [OF hb' refl z] by blast
  ultimately have "kmalloc_attempt sz () s = Some (Inr (Inl (b + 32), ?s\<lparr>kheap_mem := m', kheap_free_list := h', kheap_lock := False\<rparr>))"
    using sz lock mb(3) by (simp add: kmalloc_attempt_def Let_def)
  then show ?thesis using T(2,3) by (intro exI [of _ m'] exI [of _ h']) (simp add: heap_blocks_def)
qed

section \<open>The attempt that grows the heap\<close>

lemma kheap_expand_run:
  assumes r: "vmm_ready kernel_address_space s" and al: "unat (kheap_current_break s) mod 4096 = 0"
    and es: "es = align_up req PAGE_SIZE" "unat es mod 4096 = 0"
    and fit: "unat (kheap_current_break s) + unat es \<le> unat (kheap_max_break s)"
    and room: "unat (pmm_used_frames s) + 4 * (unat es div 4096) \<le> unat (pmm_total_frames s)"
  shows "\<exists>s'. kheap_expand req s = Some (Inr (True, s'\<lparr>kheap_current_break := kheap_current_break s + es\<rparr>)) \<and>
     pages_grown (unat (kheap_current_break s)) (unat (kheap_current_break s) + unat es) s s'"
proof -
  let ?new = "kheap_current_break s + es"
  have "unat (kheap_current_break s) + unat es < 2 ^ 64" using fit unat_lt2p [of "kheap_max_break s"] by simp
  then have nb: "unat ?new = unat (kheap_current_break s) + unat es" by (simp add: unat_plus_if')
  moreover have "unat es = 4096 * (unat es div 4096)" using es(2) by (auto simp: mod_eq_0_iff_dvd)
  ultimately obtain s' where "loopK (kheap_expand_page ?new) (kheap_current_break s) s = Some (Inr (True, s'\<lparr>kheap_current_break := ?new\<rparr>))"
    "pages_grown (unat (kheap_current_break s)) (unat ?new) s s'"
    using kheap_expand_pages_run [OF r room al, of ?new] by auto
  moreover have "\<not> kheap_max_break s < ?new" using fit nb by (simp add: word_less_nat_alt)
  ultimately show ?thesis using es(1) nb by (auto simp: kheap_expand_def Let_def)
qed

lemma kheap_expand_full:
  assumes "uart_ready s" "es = align_up req PAGE_SIZE"
    and "unat (kheap_max_break s) < unat (kheap_current_break s) + unat es" "unat (kheap_current_break s) + unat es < 2 ^ 64"
  shows "\<exists>str. kheap_expand req s = Some (Inr (False, printed str s))"
proof -
  have "kheap_max_break s < kheap_current_break s + es" using assms(3,4) by (simp add: word_less_nat_alt unat_plus_if')
  then show ?thesis using assms(1,2) by (auto simp: kheap_expand_def Let_def kprintf_format)
qed

text \<open>The new region becomes a free block at the end of the tiling.\<close>

lemma grow_blocks:
  fixes s :: "'a kheap_scheme"
  defines "old \<equiv> kheap_current_break s" and "m \<equiv> kheap_mem s"
  assumes hb: "heap_blocks s bs" and es: "unat old + unat es < 2 ^ 64" "unat es mod 16 = 0" "48 \<le> unat es"
  defines "s1 \<equiv> s\<lparr>kheap_current_break := old + es\<rparr>"
  shows "\<exists>m' h'. seqK (set_size old (es - 32)) (kheap_add_to_free_list old) s1 =
       Some (Inr ((), s1\<lparr>kheap_mem := m', kheap_free_list := h'\<rparr>)) \<and>
     heap_blocks (s1\<lparr>kheap_mem := m', kheap_free_list := h'\<rparr>) (bs @ [(old, es - 32, True)]) \<and> keeps bs m m'"
proof -
  let ?a = "unat KERNEL_HEAP_START" and ?e = "unat old + unat es" and ?n = "es - 32"
  let ?m1 = "m(old := ?n)"
  have t: "tiling m ?a (unat old) bs" and mk: "marks m bs" and l: "linked m (kheap_free_list s) (frees bs) 0"
    using hb by (auto simp: heap_blocks_def old_def m_def)
  have n: "unat ?n = unat es - 32" using es(3) by (subst unat_sub_if') simp
  have e: "unat (old + es) = ?e" using es(1) by (simp add: unat_plus_if')
  have far: "blk_addr x + i \<noteq> old" if "x \<in> set bs" "unat i \<le> 16" for x i
  proof -
    have b: "unat (blk_addr x) + 48 \<le> unat old" using tiling_bounds [OF t that(1)] by simp
    then have "unat (blk_addr x + i) = unat (blk_addr x) + unat i"
      using that(2) unat_lt2p [of old] by (intro unat_add_field) auto
    then show ?thesis using b that(2) by auto
  qed
  have m1: "?m1 (blk_addr x + i) = m (blk_addr x + i)" if "x \<in> set bs" "unat i \<le> 16" for x i
    using far [OF that] by simp
  have "tiling ?m1 ?a (unat old) bs = tiling m ?a (unat old) bs" using m1 [of _ 0] by (intro tiling_cong) auto
  moreover have "(unat es - 32) mod 16 = 0" using es(2,3) by (simp add: mod_eq_0_iff_dvd dvd_diff_nat)
  ultimately have t1: "tiling ?m1 ?a ?e (bs @ [(old, ?n, f)])" for f
    using t n es(3) by (auto simp: tiling_append)
  have ow: "\<not> owned bs old" using field_not_owned [OF t1, of 0] es(1) by simp
  have "linked ?m1 (kheap_free_list s) (frees bs) 0 = linked m (kheap_free_list s) (frees bs) 0"
  proof (rule linked_cong)
    fix p assume "p \<in> set (frees bs)"
    then obtain x where "x \<in> set bs" "p = blk_addr x" using frees_addr by blast
    then show "?m1 (p + 8) = m (p + 8)" using far [of x 8] by simp
  qed
  then have l1: "linked ?m1 (kheap_free_list s) (frees bs @ frees []) 0" using l by simp
  let ?s2 = "s1\<lparr>kheap_mem := ?m1\<rparr>"
  obtain m' h' where A: "kheap_add_to_free_list old ?s2 = Some (Inr ((), ?s2\<lparr>kheap_mem := m', kheap_free_list := h'\<rparr>))"
     "linked m' h' (frees (bs @ [(old, ?n, True)])) 0" "tiling m' ?a ?e (bs @ [(old, ?n, True)])"
     "m' (old + 16) = KHEAP_MAGIC" "\<forall>x \<in> set bs \<union> set []. m' (blk_addr x + 16) = ?m1 (blk_addr x + 16)" "keeps (bs @ []) ?m1 m'"
    using add_block [of ?s2 ?a ?e bs old ?n True "[]"] t1 [of True] l1 es(1) heap_start by (auto simp: s1_def)
  have "keeps bs m ?m1" using ow by (simp add: keeps_upd)
  then have k: "keeps bs m m'" using keeps_trans A(6) by auto
  have "m' (blk_addr x + 16) = m (blk_addr x + 16)" if "x \<in> set bs" for x using A(5) m1 [OF that, of 16] that by auto
  then have "marks m' bs" using mk by (simp add: marks_def)
  then have "heap_blocks (s1\<lparr>kheap_mem := m', kheap_free_list := h'\<rparr>) (bs @ [(old, ?n, True)])"
    using A e by (simp add: heap_blocks_def s1_def)
  moreover have "heap_put old ?n s1 = ?s2" by (simp add: heap_put_def s1_def m_def)
  ultimately show ?thesis using A(1) k by (intro exI [of _ m'] exI [of _ h']) simp
qed

text \<open>Coalescing does not lose a large free block.\<close>

lemma coal_big:
  assumes "sum_list (map (\<lambda>x. 32 + unat (blk_size x)) bs) < 2 ^ 64" "(c, k, True) \<in> set bs"
  shows "\<exists>c' k'. (c', k', True) \<in> set (coal bs) \<and> k \<le> k'"
  using assms
proof (induction bs arbitrary: c k rule: coal.induct)
  case (1 b n d j bs)
  have u: "unat (n + (32 + j)) = unat n + 32 + unat j" using "1.prems"(1) by (simp add: unat_plus_if')
  then have s: "sum_list (map (\<lambda>x. 32 + unat (blk_size x)) ((b, n + (32 + j), True) # bs)) < 2 ^ 64"
    using "1.prems"(1) by simp
  have "\<exists>c' k'. (c', k', True) \<in> set ((b, n + (32 + j), True) # bs) \<and> k \<le> k'"
  proof (cases "(c, k, True) \<in> set bs")
    case False
    then have "k = n \<or> k = j" using "1.prems"(2) by auto
    then have "k \<le> n + (32 + j)" using u by (auto simp: word_le_nat_alt)
    then show ?thesis by auto
  qed auto
  then obtain c1 k1 where c1: "(c1, k1, True) \<in> set ((b, n + (32 + j), True) # bs)" "k \<le> k1" by blast
  from "1.IH" [OF s c1(1)] show ?case using c1(2) by (auto intro: order.trans)
qed (auto, blast)

lemma tiling_sum: "tiling m a e bs \<Longrightarrow> a + sum_list (map (\<lambda>x. 32 + unat (blk_size x)) bs) = e"
  by (induction m a e bs rule: tiling.induct) auto

text \<open>
  When no free block fits and the heap can grow, the attempt grows it, adds the new region
  to the free list and asks for another attempt, for which a block then fits.
\<close>

lemma kmalloc_attempt_grows:
  assumes inv: "kheap_inv s bs" and sz: "sz \<noteq> 0" "asz = align_up sz 16" "unat asz mod 16 = 0" "16 \<le> unat asz"
    and none: "\<forall>x \<in> set bs. blk_free x \<longrightarrow> blk_size x < asz"
    and es: "es = align_up (32 + asz) PAGE_SIZE" "unat es mod 4096 = 0" "32 + unat asz \<le> unat es"
    and fit: "unat (kheap_current_break s) + unat es \<le> unat (kheap_max_break s)"
    and room: "unat (pmm_used_frames s) + 4 * (unat es div 4096) \<le> unat (pmm_total_frames s)"
  obtains s' bs' c k where "kmalloc_attempt sz () s = Some (Inr (Inr (), s'))" "kheap_inv s' bs'"
    "allocs bs' = allocs bs" "keeps bs (kheap_mem s) (kheap_mem s')" "(c, k, True) \<in> set bs'" "asz \<le> k"
proof -
  let ?s0 = "s\<lparr>kheap_lock := True\<rparr>" and ?old = "kheap_current_break s"
  have hb: "heap_blocks s bs" and lock: "\<not> kheap_lock s" and r: "vmm_ready kernel_address_space s"
    using inv by (auto simp: kheap_inv_def)
  have "set bs \<subseteq> set bs" by simp
  note F = search_facts [OF hb none this]
  obtain pr where search: "loopK (kmalloc_search asz) (kheap_free_list s, 0) ?s0 = Some (Inr ((0, pr), ?s0))"
    using kmalloc_search_none [of ?s0 "kheap_free_list s" "frees bs" asz 0] F hb by (auto simp: heap_blocks_def)
  obtain t where t: "kheap_expand (32 + asz) ?s0 = Some (Inr (True, t\<lparr>kheap_current_break := ?old + es\<rparr>))"
    "pages_grown (unat ?old) (unat ?old + unat es) ?s0 t"
    using kheap_expand_run [of ?s0 es "32 + asz"] inv r es fit room by (auto simp: kheap_inv_def)
  have more: "kheap_mem t = kheap_mem s" "kheap_free_list t = kheap_free_list s" "kheap_current_break t = ?old"
    "kheap_max_break t = kheap_max_break s" "kheap_lock t"
    using kheap_more_eq [of t ?s0] t(2) by (auto simp: pages_grown_def)
  have lt: "unat ?old + unat es < 2 ^ 64" using fit unat_lt2p [of "kheap_max_break s"] by simp
  then have nb: "unat (?old + es) = unat ?old + unat es" by (simp add: unat_plus_if')
  have e16: "unat es mod 16 = 0" using es(2) by (auto simp: mod_eq_0_iff_dvd intro: dvd_trans [of 16 4096])
  let ?t1 = "t\<lparr>kheap_current_break := ?old + es\<rparr>"
  have "heap_blocks t bs" using hb more by (simp add: heap_blocks_def)
  then obtain m1 h1 where G: "seqK (set_size ?old (es - 32)) (kheap_add_to_free_list ?old) ?t1 =
       Some (Inr ((), ?t1\<lparr>kheap_mem := m1, kheap_free_list := h1\<rparr>))"
     "heap_blocks (?t1\<lparr>kheap_mem := m1, kheap_free_list := h1\<rparr>) (bs @ [(?old, es - 32, True)])" "keeps bs (kheap_mem s) m1"
    using grow_blocks [of t bs es] lt e16 es(3) sz(4) more by auto
  let ?t2 = "?t1\<lparr>kheap_mem := m1, kheap_free_list := h1\<rparr>" and ?bs = "bs @ [(?old, es - 32, True)]"
  obtain m2 where C: "kheap_coalesce_free_list ?t2 = Some (Inr ((), ?t2\<lparr>kheap_mem := m2\<rparr>))"
    "heap_blocks (?t2\<lparr>kheap_mem := m2\<rparr>) (coal ?bs)" "keeps ?bs m1 m2"
    using kheap_coalesce_free_list_run [OF G(2)] by auto
  let ?s' = "?t2\<lparr>kheap_mem := m2, kheap_lock := False\<rparr>"
  have add: "kheap_add_to_free_list ?old (heap_put ?old (es - 32) ?t1) = Some (Inr ((), ?t2))" using G(1) by simp
  have asrt: "32 + asz \<le> es" using es(3) lt by (simp add: word_le_nat_alt unat_plus_if')
  have run: "kmalloc_attempt sz () s = Some (Inr (Inr (), ?s'))"
    using sz(1,2) lock search t(1) add C(1) asrt by (simp add: kmalloc_attempt_def Let_def ASSERT_holds)
  have "asz \<le> es - 32" using es(3) by (simp add: word_le_nat_alt unat_sub_if')
  moreover have "sum_list (map (\<lambda>x. 32 + unat (blk_size x)) ?bs) < 2 ^ 64"
    using tiling_sum [of m1 _ _ ?bs] G(2) lt nb by (fastforce simp: heap_blocks_def)
  then obtain c k where "(c, k, True) \<in> set (coal ?bs)" "es - 32 \<le> k"
    using coal_big [of ?bs ?old "es - 32"] by auto
  moreover have "kheap_inv ?s' (coal ?bs)"
  proof -
    have w: "writable t v" if "KERNEL_HEAP_START \<le> v" "v < ?old + es" for v
      using t(2) inv that nb
      by (cases "v < ?old") (auto simp: pages_grown_def kheap_inv_def word_less_nat_alt word_le_nat_alt)
    have "(unat ?old + unat es) mod 4096 = 0" using inv es(2) by (simp add: kheap_inv_def mod_add_eq [symmetric])
    moreover have "heap_blocks ?s' (coal ?bs)" using C(2) by (simp add: heap_blocks_def)
    ultimately show ?thesis using inv t(2) w nb fit more
      by (simp add: kheap_inv_def pages_grown_def word_le_nat_alt)
  qed
  moreover have "allocs (coal ?bs) = allocs bs" by (simp add: coal_allocs)
  moreover have "keeps bs (kheap_mem s) m2" using keeps_trans [OF G(3)] keeps_mono [OF C(3), of bs] by simp
  ultimately show thesis using that [OF run, of "coal ?bs" c k] by (simp add: order.trans)
qed

section \<open>Allocation\<close>

text \<open>The sizes \<open>kmalloc\<close> computes.\<close>

lemma request_sizes:
  fixes sz :: u64
  assumes "sz \<noteq> 0" "unat sz \<le> 2 ^ 46"
  defines "asz \<equiv> align_up sz 16"
  defines "es \<equiv> align_up (32 + asz) PAGE_SIZE"
  shows "unat asz mod 16 = 0" "16 \<le> unat asz" "sz \<le> asz" "unat es mod 4096 = 0" "32 + unat asz \<le> unat es"
    "unat es < 2 ^ 46 + 8192"
proof -
  have a: "unat asz = (unat sz + 15) div 16 * 16" using page_align(3) [of sz] assms(2) by (simp add: asz_def)
  then have b: "unat sz \<le> unat asz" "unat asz \<le> unat sz + 15" by linarith+
  then have t: "unat (32 + asz) = 32 + unat asz" using assms(2) by (simp add: unat_plus_if')
  then have e: "unat es = (32 + unat asz + 4095) div 4096 * 4096"
    using page_align(1) [of "32 + asz"] assms(2) b by (simp add: es_def)
  show "unat asz mod 16 = 0" using a by simp
  have "0 < unat sz" using assms(1) by (simp add: unat_gt_0)
  then show "16 \<le> unat asz" using b(1) \<open>unat asz mod 16 = 0\<close> by (auto simp: mod_eq_0_iff_dvd elim!: dvdE)
  show "sz \<le> asz" using b by (simp add: word_le_nat_alt)
  show "unat es mod 4096 = 0" using e by simp
  show "32 + unat asz \<le> unat es" using e by linarith
  have "unat es \<le> 32 + unat asz + 4095" using e by linarith
  then show "unat es < 2 ^ 46 + 8192" using b(2) assms(2) by simp
qed

text \<open>A block of at least \<open>sz\<close> bytes at \<open>p\<close> that no other allocation overlaps and that is mapped.\<close>

definition fresh_block :: "u64 \<Rightarrow> u64 \<Rightarrow> blk list \<Rightarrow> blk list \<Rightarrow> 'a kheap_scheme \<Rightarrow> bool" where
  "fresh_block sz p bs bs' s' \<longleftrightarrow>
     (\<exists>n. allocs bs' = insert (p - 32, n) (allocs bs) \<and> sz \<le> n \<and> p mod 16 = 0 \<and>
        (\<forall>(b, k) \<in> allocs bs. unat b + 32 + unat k \<le> unat (p - 32) \<or> unat p + unat n \<le> unat b) \<and>
        (\<forall>v. unat p \<le> unat v \<and> unat v < unat p + unat n \<longrightarrow> writable s' v))"

lemma heap_data:
  assumes inv: "kheap_inv s bs" and x: "(b, n, f) \<in> set bs"
  shows "(b + 32) mod 16 = 0" "unat (b + 32) = unat b + 32" "unat b + 32 + unat n \<le> unat (kheap_current_break s)"
    "unat KERNEL_HEAP_START \<le> unat b" "unat v < unat b + 32 + unat n \<Longrightarrow> unat b \<le> unat v \<Longrightarrow> writable s v"
proof -
  have t: "tiling (kheap_mem s) (unat KERNEL_HEAP_START) (unat (kheap_current_break s)) bs"
    using inv by (simp add: kheap_inv_def heap_blocks_def)
  show "(b + 32) mod 16 = 0" "unat (b + 32) = unat b + 32"
    using heap_ptr_aligned [OF t break_bound heap_start(2) x] by simp_all
  show e: "unat b + 32 + unat n \<le> unat (kheap_current_break s)" using tiling_size [OF t x] by simp
  show a: "unat KERNEL_HEAP_START \<le> unat b" using tiling_bounds [OF t x] by simp
  show "unat v < unat b + 32 + unat n \<Longrightarrow> unat b \<le> unat v \<Longrightarrow> writable s v"
    using inv a e by (simp add: kheap_inv_def word_less_nat_alt word_le_nat_alt)
qed

lemma kmalloc_fits:
  assumes inv: "kheap_inv s bs" and sz: "sz \<noteq> 0" "unat sz \<le> 2 ^ 46"
    and c: "(c, k, True) \<in> set bs" "align_up sz 16 \<le> k"
  shows "\<exists>p s' bs'. kmalloc sz s = Some (Inr (p, s')) \<and> p \<noteq> 0 \<and> kheap_inv s' bs' \<and>
     keeps bs (kheap_mem s) (kheap_mem s') \<and> fresh_block sz p bs bs' s'"
proof -
  let ?asz = "align_up sz 16"
  note Z = request_sizes [OF sz]
  have hb: "heap_blocks s bs" and lock: "\<not> kheap_lock s" using inv by (auto simp: kheap_inv_def)
  obtain xs b n ys where bs: "bs = xs @ (b, n, True) # ys" "?asz \<le> n" "\<forall>x \<in> set xs. blk_free x \<longrightarrow> blk_size x < ?asz"
    by (rule first_fit [OF c])
  obtain m' h' where A: "kmalloc_attempt sz () s = Some (Inr (Inl (b + 32), s\<lparr>kheap_mem := m', kheap_free_list := h', kheap_lock := False\<rparr>))"
    and hb': "heap_blocks (s\<lparr>kheap_mem := m', kheap_free_list := h'\<rparr>) (xs @ carve ?asz b n @ ys)"
    and kp: "keeps (xs @ ys) (kheap_mem s) m'"
    using kmalloc_attempt_fits [OF hb [unfolded bs(1)] lock sz(1) refl Z(1,2) bs(2,3)] by blast
  let ?s' = "s\<lparr>kheap_mem := m', kheap_free_list := h', kheap_lock := False\<rparr>" and ?bs' = "xs @ carve ?asz b n @ ys"
  obtain j where j: "(b, j, False) \<in> set ?bs'" "allocs ?bs' = insert (b, j) (allocs bs)" "?asz \<le> j"
    using bs by (cases "48 \<le> n - ?asz") (auto simp: carve_def)
  have inv': "kheap_inv ?s' ?bs'" using inv hb' by (auto simp: kheap_inv_def heap_blocks_def)
  note D = heap_data [OF inv' j(1)]
  have t': "tiling m' (unat KERNEL_HEAP_START) (unat (kheap_current_break s)) ?bs'" using hb' by (simp add: heap_blocks_def)
  have new: "(b, j') \<notin> allocs bs" for j'
    using hb tiling_distinct [of "kheap_mem s" _ _ bs] bs(1) by (force simp: heap_blocks_def allocs_def)
  have sep: "unat d + 32 + unat k \<le> unat b \<or> unat b + 32 + unat j \<le> unat d" if "(d, k) \<in> allocs bs" for d k
  proof -
    have "(d, k, False) \<in> set ?bs'" using that j(2) by (auto simp: allocs_def)
    then show ?thesis using tiling_disjoint [OF t' j(1), of "(d, k, False)"] that new by auto
  qed
  have "fresh_block sz (b + 32) bs ?bs' ?s'"
    unfolding fresh_block_def
    using j(2,3) Z(3) D sep by (intro exI [of _ j]) (auto simp: order.trans)
  moreover have "b + 32 \<noteq> 0" using D(2) by (auto simp: word_unat_eq_iff)
  moreover have "keeps bs (kheap_mem s) m'" using kp owned_cong [of bs "xs @ ys"] bs(1) by (simp add: keeps_def)
  moreover have "kmalloc sz s = Some (Inr (b + 32, ?s'))" unfolding kmalloc_def using A by (rule loopK_leave)
  ultimately show ?thesis using inv' by (intro exI [of _ "b + 32"] exI [of _ ?s'] exI [of _ ?bs']) simp
qed

text \<open>A request that no free block fits and for which the heap cannot grow.\<close>

lemma kmalloc_full:
  assumes inv: "kheap_inv s bs" and sz: "sz \<noteq> 0" "unat sz \<le> 2 ^ 46"
    and none: "\<forall>x \<in> set bs. blk_free x \<longrightarrow> blk_size x < align_up sz 16"
    and full: "unat (kheap_max_break s) < unat (kheap_current_break s) + unat (align_up (32 + align_up sz 16) PAGE_SIZE)"
  shows "\<exists>str. kmalloc sz s = Some (Inr (0, printed str s))"
proof -
  let ?asz = "align_up sz 16" and ?s0 = "s\<lparr>kheap_lock := True\<rparr>"
  note Z = request_sizes [OF sz]
  have hb: "heap_blocks s bs" and lock: "\<not> kheap_lock s" and u: "uart_ready s"
    using inv by (auto simp: kheap_inv_def vmm_ready_def)
  have "set bs \<subseteq> set bs" by simp
  note F = search_facts [OF hb none this]
  obtain pr where search: "loopK (kmalloc_search ?asz) (kheap_free_list s, 0) ?s0 = Some (Inr ((0, pr), ?s0))"
    using kmalloc_search_none [of ?s0 "kheap_free_list s" "frees bs" ?asz 0] F hb by (auto simp: heap_blocks_def)
  have "kheap_current_break s \<le> KERNEL_HEAP_START + KERNEL_HEAP_MAX_SIZE" using inv by (auto simp: kheap_inv_def)
  then have "unat (kheap_current_break s) + unat (align_up (32 + ?asz) PAGE_SIZE) < 2 ^ 64"
    using Z(6) by (simp add: word_le_nat_alt)
  then obtain str where e: "kheap_expand (32 + ?asz) ?s0 = Some (Inr (False, printed str ?s0))"
    using kheap_expand_full [of ?s0 _ "32 + ?asz", OF _ refl] full u by (auto simp: uart_ready_def)
  have "(printed str ?s0)\<lparr>kheap_lock := False\<rparr> = printed str s" using lock by (cases s) (simp add: printed_def)
  then have "kmalloc_attempt sz () s = Some (Inr (Inl 0, printed (str @ ''KHeap: Allocation failed - cannot expand heap for %zu bytes\<newline>'') s))"
    using sz(1) lock search e u by (simp add: kmalloc_attempt_def Let_def kprintf_format)
  then show ?thesis unfolding kmalloc_def by (blast intro: loopK_leave)
qed

section \<open>Release\<close>

text \<open>After coalescing no two neighbouring blocks are both free.\<close>

abbreviation merged :: "blk list \<Rightarrow> bool" where
  "merged \<equiv> successively (\<lambda>x y. \<not> (blk_free x \<and> blk_free y))"

lemma coal_hd: "bs \<noteq> [] \<Longrightarrow> coal bs \<noteq> [] \<and> blk_free (hd (coal bs)) = blk_free (hd bs)"
  by (induction bs rule: coal.induct) auto

lemma coal_merged: "merged (coal bs)"
proof (induction bs rule: coal.induct)
  case 1
  then show ?case by simp
qed (auto simp: successively_Cons dest: coal_hd)

lemma kfree_allocated:
  assumes inv: "kheap_inv s (xs @ (b, n, False) # ys)"
  shows "\<exists>m' h'. kfree (b + 32) s = Some (Inr ((), s\<lparr>kheap_mem := m', kheap_free_list := h', kheap_lock := False\<rparr>)) \<and>
     heap_blocks (s\<lparr>kheap_mem := m', kheap_free_list := h'\<rparr>) (coal (xs @ (b, n, True) # ys)) \<and>
     keeps (xs @ ys) (kheap_mem s) m'"
proof -
  let ?bs = "xs @ (b, n, False) # ys" and ?cs = "xs @ (b, n, True) # ys" and ?s0 = "s\<lparr>kheap_lock := True\<rparr>"
  let ?a = "unat KERNEL_HEAP_START" and ?e = "unat (kheap_current_break s)"
  have t: "tiling (kheap_mem s) ?a ?e ?bs" and mk: "marks (kheap_mem s) ?bs"
    and l: "linked (kheap_mem s) (kheap_free_list s) (frees xs @ frees ys) 0" and lock: "\<not> kheap_lock s"
    using inv by (auto simp: kheap_inv_def heap_blocks_def)
  obtain m1 h1 where A: "kheap_add_to_free_list b ?s0 = Some (Inr ((), ?s0\<lparr>kheap_mem := m1, kheap_free_list := h1\<rparr>))"
     "linked m1 h1 (frees ?cs) 0" "tiling m1 ?a ?e ?cs" "m1 (b + 16) = KHEAP_MAGIC"
     "\<forall>x \<in> set xs \<union> set ys. m1 (blk_addr x + 16) = kheap_mem s (blk_addr x + 16)" "keeps (xs @ ys) (kheap_mem s) m1"
    using add_block [of ?s0 ?a ?e xs b n False ys] t l break_bound heap_start by auto
  have "marks m1 ?cs" using A(4,5) mk by (auto simp: marks_def)
  then have hb: "heap_blocks (?s0\<lparr>kheap_mem := m1, kheap_free_list := h1\<rparr>) ?cs" using A(2,3) by (simp add: heap_blocks_def)
  let ?t = "?s0\<lparr>kheap_mem := m1, kheap_free_list := h1\<rparr>"
  obtain m2 where C: "kheap_coalesce_free_list ?t = Some (Inr ((), ?t\<lparr>kheap_mem := m2\<rparr>))"
    "heap_blocks (?t\<lparr>kheap_mem := m2\<rparr>) (coal ?cs)" "keeps ?cs m1 m2"
    using kheap_coalesce_free_list_run [OF hb] by auto
  have "kheap_mem s (b + 16) = NOT KHEAP_MAGIC" using mk by simp
  moreover have "unat (b + 32) = unat b + 32" using heap_data(2) [OF inv, of b n False] by simp
  then have "b + 32 \<noteq> 0" by (auto simp: word_unat_eq_iff)
  ultimately have "kfree (b + 32) s = Some (Inr ((), ?t\<lparr>kheap_mem := m2, kheap_lock := False\<rparr>))"
    using lock A(1) C(1) by (simp add: kfree_def Let_def hdr_magic_def ASSERT_holds)
  moreover have "?t\<lparr>kheap_mem := m2, kheap_lock := False\<rparr> = s\<lparr>kheap_mem := m2, kheap_free_list := h1, kheap_lock := False\<rparr>"
    by (cases s) simp
  moreover have "keeps (xs @ ys) (kheap_mem s) m2" using keeps_trans [OF A(6)] keeps_mono [OF C(3), of "xs @ ys"] by simp
  ultimately show ?thesis using C(2) by (intro exI [of _ m2] exI [of _ h1]) (simp add: heap_blocks_def)
qed

lemma kmalloc_run:
  assumes "kheap_inv s bs" and "sz \<noteq> 0" and "unat sz \<le> 2 ^ 46"
    and "unat (pmm_used_frames s) + 4 * (unat (align_up (32 + align_up sz 16) PAGE_SIZE) div 4096) \<le> unat (pmm_total_frames s)"
  shows "\<exists>p s' bs'. kmalloc sz s = Some (Inr (p, s')) \<and> kheap_inv s' bs' \<and> keeps bs (kheap_mem s) (kheap_mem s') \<and>
     (if p = 0
      then allocs bs' = allocs bs \<and> (\<forall>x \<in> set bs. blk_free x \<longrightarrow> blk_size x < align_up sz 16) \<and>
        unat (kheap_max_break s) < unat (kheap_current_break s) + unat (align_up (32 + align_up sz 16) PAGE_SIZE)
      else fresh_block sz p bs bs' s')"
proof (cases "\<exists>x \<in> set bs. blk_free x \<and> align_up sz 16 \<le> blk_size x")
  case True
  then obtain c k where "(c, k, True) \<in> set bs" "align_up sz 16 \<le> k" by force
  from kmalloc_fits [OF assms(1-3) this] show ?thesis by force
next
  case none: False
  note Z = request_sizes [OF assms(2,3)]
  show ?thesis
  proof (cases "unat (kheap_max_break s) < unat (kheap_current_break s) + unat (align_up (32 + align_up sz 16) PAGE_SIZE)")
    case True
    obtain str where "kmalloc sz s = Some (Inr (0, printed str s))"
      using kmalloc_full [OF assms(1-3) _ True] none by (auto simp: not_le)
    moreover have "kheap_inv (printed str s) bs" using assms(1) by (auto simp: kheap_inv_def heap_blocks_def)
    ultimately show ?thesis using True none by (intro exI [of _ 0] exI [of _ "printed str s"] exI [of _ bs]) (auto simp: not_le)
  next
    case False
    obtain s1 bs1 c k where g: "kmalloc_attempt sz () s = Some (Inr (Inr (), s1))" "kheap_inv s1 bs1"
      "allocs bs1 = allocs bs" "keeps bs (kheap_mem s) (kheap_mem s1)" "(c, k, True) \<in> set bs1" "align_up sz 16 \<le> k"
    proof (rule kmalloc_attempt_grows [OF assms(1,2) refl Z(1,2) _ refl Z(4,5) _ assms(4)])
      show "\<forall>x \<in> set bs. blk_free x \<longrightarrow> blk_size x < align_up sz 16" using none by (auto simp: not_le)
    qed (use False in simp)
    have "kmalloc sz s = kmalloc sz s1" unfolding kmalloc_def using g(1) by (rule loopK_again)
    moreover obtain p s' bs' where "kmalloc sz s1 = Some (Inr (p, s'))" "p \<noteq> 0" "kheap_inv s' bs'"
     "keeps bs1 (kheap_mem s1) (kheap_mem s')" "fresh_block sz p bs1 bs' s'"
      using kmalloc_fits [OF g(2) assms(2,3) g(5,6)] by blast
    moreover have "keeps bs (kheap_mem s) (kheap_mem s')"
      using keeps_trans [OF g(4)] keeps_mono [OF calculation(5), of bs] g(3) by simp
    ultimately show ?thesis using g(3) by (intro exI [of _ p] exI [of _ s'] exI [of _ bs']) (simp add: fresh_block_def)
  qed
qed

section \<open>A concrete machine\<close>

text \<open>An extension of the state does not change what the lower layers see.\<close>

lemma extend_fields [simp]:
  "phys_mem (vmm.extend s x) = phys_mem s" "hhdm_phys_offset (vmm.extend s x) = hhdm_phys_offset s"
  "pmm_bitmap (vmm.extend s x) = pmm_bitmap s" "pmm_bitmap_size_qwords (vmm.extend s x) = pmm_bitmap_size_qwords s"
  "pmm_total_frames (vmm.extend s x) = pmm_total_frames s" "pmm_used_frames (vmm.extend s x) = pmm_used_frames s"
  "pmm_highest_frame (vmm.extend s x) = pmm_highest_frame s" "pmm_lock (vmm.extend s x) = pmm_lock s"
  "pmm_last_allocated_index (vmm.extend s x) = pmm_last_allocated_index s" "uart_lsr (vmm.extend s x) = uart_lsr s"
  "spaces (vmm.extend s x) = spaces s" "vmm.more (vmm.extend s x) = x"
  by (simp_all add: vmm.defs)

lemma extend_ready: "vmm_ready k (vmm.extend s x) = vmm_ready k s"
proof -
  let ?t = "vmm.extend s x"
  have a: "bm_addr ?t = bm_addr s" by (simp add: bm_addr_def fun_eq_iff)
  then have u: "frame_used ?t = frame_used s" by (simp add: fun_eq_iff frame_used_def bm_qword_def)
  have b: "bitmap_frames ?t = bitmap_frames s" "all_frames ?t = all_frames s" by (simp_all add: a bitmap_frames_def all_frames_def)
  have "pmm_inv ?t = pmm_inv s" by (simp add: pmm_inv_def a b u)
  moreover have "table_ok ?t = table_ok s" by (simp add: fun_eq_iff table_ok_def u b)
  moreover have "is_table ?t = is_table s" by (intro ext) (simp add: is_table_def)
  ultimately show ?thesis by (simp add: vmm_ready_def space_inv_def u uart_ready_def)
qed

text \<open>An empty heap over the eight frames of the address space demonstration.\<close>

definition kheap_demo :: kheap where
  "kheap_demo = vmm.extend vmm_demo
     \<lparr>kheap_mem = (\<lambda>_. 0), kheap_free_list = 0, kheap_current_break = KERNEL_HEAP_START,
      kheap_max_break = KERNEL_HEAP_START + KERNEL_HEAP_MAX_SIZE, kheap_lock = False\<rparr>"

lemma kheap_demo_fields:
  "kheap_free_list kheap_demo = 0" "kheap_current_break kheap_demo = KERNEL_HEAP_START"
  "kheap_max_break kheap_demo = KERNEL_HEAP_START + KERNEL_HEAP_MAX_SIZE" "\<not> kheap_lock kheap_demo"
  "pmm_used_frames kheap_demo = 3" "pmm_total_frames kheap_demo = 8"
  by (simp_all add: kheap_demo_def vmm.defs vmm_demo_def)

lemma kheap_demo_inv: "kheap_inv kheap_demo []"
proof -
  have "vmm_ready 0 kheap_demo" by (simp add: kheap_demo_def extend_ready vmm_demo_ready)
  then show ?thesis by (auto simp: kheap_inv_def heap_blocks_def kheap_demo_fields kernel_address_space_def)
qed

lemma kheap_demo_sizes: "align_up 100 16 = 112" "align_up 144 PAGE_SIZE = 4096"
  by (simp_all add: align_up_def align_down_def)

lemma kheap_demo_alloc:
  "\<exists>p s' bs'. kmalloc 100 kheap_demo = Some (Inr (p, s')) \<and> kheap_inv s' bs' \<and> fresh_block 100 p [] bs' s'"
  using kmalloc_run [OF kheap_demo_inv, of 100]
  by (auto simp: kheap_demo_fields kheap_demo_sizes split: if_splits)

section \<open>Properties\<close>



text \<open>
  C7: \<open>kfree\<close> is correct. Given the data pointer of an allocated block it returns; exactly
  that block is no longer allocated, no byte of another allocated block has changed, no two
  neighbouring blocks are left both free, and the invariant holds. Given the data pointer of
  a block that is already free it panics.
\<close>

theorem kfree_correct:
  assumes "kheap_inv s bs" and "(p - 32, n, f) \<in> set bs"
  shows "if f then kfree p s = Some (Inl (Panic ''Assertion failed: block->magic == ~KHEAP_MAGIC''))
     else \<exists>s' bs'. kfree p s = Some (Inr ((), s')) \<and> kheap_inv s' bs' \<and> merged bs' \<and>
       allocs bs' = allocs bs - {(p - 32, n)} \<and> keeps bs' (kheap_mem s) (kheap_mem s')"
proof -
  obtain xs ys where bs: "bs = xs @ (p - 32, n, f) # ys" using assms(2) by (auto simp: in_set_conv_decomp)
  have p: "unat p = unat (p - 32) + 32" using heap_data(2) [OF assms] by simp
  show ?thesis
  proof (cases f)
    case True
    have "kheap_mem s (p - 32 + 16) = KHEAP_MAGIC" "\<not> kheap_lock s" "uart_ready (s\<lparr>kheap_lock := True\<rparr>)"
      using assms(1) bs True by (auto simp: kheap_inv_def heap_blocks_def vmm_ready_def uart_ready_def)
    moreover have "p \<noteq> 0" using p by auto
    ultimately have "kfree p s = Some (Inl (Panic ''Assertion failed: block->magic == ~KHEAP_MAGIC''))"
      by (simp add: kfree_def Let_def hdr_magic_def ASSERT_def kpanic_run)
    then show ?thesis using True by simp
  next
    case False
    let ?bs' = "coal (xs @ (p - 32, n, True) # ys)"
    obtain m' h' where K: "kfree p s = Some (Inr ((), s\<lparr>kheap_mem := m', kheap_free_list := h', kheap_lock := False\<rparr>))"
      and hb: "heap_blocks (s\<lparr>kheap_mem := m', kheap_free_list := h'\<rparr>) ?bs'" and k: "keeps (xs @ ys) (kheap_mem s) m'"
      using kfree_allocated [of s xs "p - 32" n ys] assms(1) bs False by auto
    let ?s' = "s\<lparr>kheap_mem := m', kheap_free_list := h', kheap_lock := False\<rparr>"
    have "tiling (kheap_mem s) (unat KERNEL_HEAP_START) (unat (kheap_current_break s)) bs"
      using assms(1) by (simp add: kheap_inv_def heap_blocks_def)
    from tiling_distinct [OF this] have "p - 32 \<notin> blk_addr ` set (xs @ ys)" using bs by auto
    then have "(p - 32, n) \<notin> allocs (xs @ ys)" by (force simp: allocs_def)
    then have al: "allocs ?bs' = allocs bs - {(p - 32, n)}" using bs False by (auto simp: coal_allocs)
    have "owned ?bs' = owned (xs @ ys)" by (rule owned_cong) (simp add: coal_allocs)
    then have "keeps ?bs' (kheap_mem s) m'" using k by (simp add: keeps_def)
    moreover have "kheap_inv ?s' ?bs'" using assms(1) hb by (auto simp: kheap_inv_def heap_blocks_def)
    ultimately show ?thesis using K al coal_merged False by (auto intro!: exI [of _ ?s'] exI [of _ ?bs'])
  qed
qed

theorem kfree_correct_witness:
  "\<exists>p s1 s2 bs. kmalloc 100 kheap_demo = Some (Inr (p, s1)) \<and> kfree p s1 = Some (Inr ((), s2)) \<and>
     kheap_inv s2 bs \<and> allocs bs = {}"
proof -
  obtain p s1 bs n where k: "kmalloc 100 kheap_demo = Some (Inr (p, s1))" "kheap_inv s1 bs" "allocs bs = {(p - 32, n)}"
    using kheap_demo_alloc by (auto simp: fresh_block_def)
  then have "(p - 32, n, False) \<in> set bs" by (auto simp: allocs_def)
  from kfree_correct [OF k(2) this] k show ?thesis by auto
qed

end
