(* ===== verification/MemInit.thy ===== *)
theory MemInit
  imports KHeapAlloc
begin

text \<open>
  \<open>memory_init\<close> of \<^verbatim>\<open>src/kernel/memory.c\<close>, which builds the state of the other parts of
  that file from what the boot loader reports: it sizes and places the frame bitmap, marks
  the usable frames free and the bitmap's own frames used, takes over the page tables in
  CR3, maps the direct map page by page and resets the heap. The theory proves that the
  frame allocator starts in its invariant with exactly the right frames free.
\<close>

text \<open>
  The responses of the boot loader; a response that is missing is \<open>None\<close>. Only the region
  types that the code tells apart have a constructor.
\<close>

datatype limine_memmap_type =
    LIMINE_MEMMAP_USABLE | LIMINE_MEMMAP_RESERVED | LIMINE_MEMMAP_ACPI_RECLAIMABLE | LIMINE_MEMMAP_ACPI_NVS
  | LIMINE_MEMMAP_BOOTLOADER_RECLAIMABLE | LIMINE_MEMMAP_KERNEL_AND_MODULES | LIMINE_MEMMAP_FRAMEBUFFER
  | LIMINE_MEMMAP_OTHER

record limine_memmap_entry =
  me_base :: u64
  me_length :: u64
  me_type :: limine_memmap_type

record limine_info =
  memmap_response :: "limine_memmap_entry list option"
  hhdm_response :: "u64 option"
  kernel_addr_response :: "(u64 \<times> u64) option"

abbreviation me_top :: "limine_memmap_entry \<Rightarrow> u64" where
  "me_top e \<equiv> me_base e + me_length e"

text \<open>Step 1: the highest physical address and the amount of usable memory.\<close>

fun memmap_scan :: "limine_memmap_entry list \<Rightarrow> u64 \<Rightarrow> u64 \<Rightarrow> u64 \<times> u64" where
  "memmap_scan [] highest_addr total_usable_mem = (highest_addr, total_usable_mem)"
| "memmap_scan (e # es) highest_addr total_usable_mem =
     (let usable = me_type e = LIMINE_MEMMAP_USABLE;
          total_usable_mem = (if usable then total_usable_mem + me_length e else total_usable_mem);
          highest_addr = (if usable \<and> highest_addr < me_top e then me_top e else highest_addr);
          highest_addr = (if highest_addr < me_top e then me_top e else highest_addr) in
      memmap_scan es highest_addr total_usable_mem)"

definition pmm_set_sizes :: "u64 \<Rightarrow> ('a pmm_scheme, unit) km" where
  "pmm_set_sizes highest_addr =
     seqK (modK (\<lambda>s. s\<lparr>pmm_total_frames := highest_addr div PAGE_SIZE\<rparr>))
    (seqK (modK (\<lambda>s. s\<lparr>pmm_highest_frame := pmm_total_frames s - 1\<rparr>))
          (modK (\<lambda>s. s\<lparr>pmm_bitmap_size_qwords := align_up (pmm_total_frames s) 64 div 64\<rparr>)))"

text \<open>Step 2: a place for the bitmap; 0 when no region has room. \<open>i\<close> is the index of the region.\<close>

fun place_bitmap :: "u64 \<Rightarrow> limine_memmap_entry list \<Rightarrow> u64 \<Rightarrow> ('a kcons_scheme, u64) km" where
  "place_bitmap bytes [] i = retK 0"
| "place_bitmap bytes (e # es) i =
     (if me_type e = LIMINE_MEMMAP_USABLE \<and> bytes \<le> me_length e then
        if me_base e < 0x100000 \<and> \<not> 0x100000 < me_top e then place_bitmap bytes es (i + 1)
        else
          (let potential_addr = align_up (if me_base e < 0x100000 then 0x100000 else me_base e) PAGE_SIZE in
           if potential_addr + bytes \<le> me_top e then
             seqK (kprintf ''PMM: Placing bitmap at phys 0x%lx (within region %lu)\<newline>'' [VInt potential_addr, VInt i])
                  (retK potential_addr)
           else place_bitmap bytes es (i + 1))
      else place_bitmap bytes es (i + 1))"

text \<open>Step 4: the frames of the usable regions.\<close>

definition mark_frame_free :: "u64 \<Rightarrow> ('a pmm_scheme, unit) km" where
  "mark_frame_free frame =
     bindK (pmm_bitmap_test frame) (\<lambda>b.
     whenK b
       (seqK (pmm_bitmap_clear frame)
       (bindK (getK pmm_used_frames) (\<lambda>u.
        seqK (ASSERT (0 < u) ''pmm_used_frames > 0'' 917)
             (modK (\<lambda>s. s\<lparr>pmm_used_frames := pmm_used_frames s - 1\<rparr>))))))"

definition mark_region_free :: "limine_memmap_entry \<Rightarrow> ('a pmm_scheme, unit) km" where
  "mark_region_free e =
     whenK (me_type e = LIMINE_MEMMAP_USABLE)
       (let start_frame = align_up (me_base e) PAGE_SIZE div PAGE_SIZE;
            end_frame = align_down (me_top e) PAGE_SIZE div PAGE_SIZE in
        whenK (start_frame < end_frame)
          (forK (unat start_frame) (unat end_frame) (\<lambda>frame. mark_frame_free (of_nat frame))))"

primrec mark_regions_free :: "limine_memmap_entry list \<Rightarrow> ('a pmm_scheme, unit) km" where
  "mark_regions_free [] = retK ()"
| "mark_regions_free (e # es) = seqK (mark_region_free e) (mark_regions_free es)"

text \<open>Step 5: the frames of the bitmap.\<close>

definition mark_frame_used :: "u64 \<Rightarrow> ('a pmm_scheme, unit) km" where
  "mark_frame_used frame =
     bindK (pmm_bitmap_test frame) (\<lambda>b.
     whenK (\<not> b)
       (seqK (pmm_bitmap_set frame)
             (modK (\<lambda>s. s\<lparr>pmm_used_frames := pmm_used_frames s + 1\<rparr>))))"

definition mark_bitmap_used :: "u64 \<Rightarrow> u64 \<Rightarrow> ('a pmm_scheme, unit) km" where
  "mark_bitmap_used bitmap_phys_addr bytes =
     (let bitmap_start_frame = bitmap_phys_addr div PAGE_SIZE;
          bitmap_end_frame = align_up (bitmap_phys_addr + bytes) PAGE_SIZE div PAGE_SIZE in
      seqK (kprintf ''PMM: Marking bitmap frames %lu to %lu as used\<newline>''
              [VInt bitmap_start_frame, VInt (bitmap_end_frame - 1)])
           (forK (unat bitmap_start_frame) (unat bitmap_end_frame) (\<lambda>frame. mark_frame_used (of_nat frame))))"

text \<open>Steps 4 and 5.\<close>

definition pmm_mark_phase :: "limine_memmap_entry list \<Rightarrow> u64 \<Rightarrow> u64 \<Rightarrow> ('a pmm_scheme, unit) km" where
  "pmm_mark_phase memmap p bytes =
     seqK (mark_regions_free memmap)
    (seqK (mark_bitmap_used p bytes)
    (bindK (getK (\<lambda>s. (pmm_used_frames s, pmm_total_frames s))) (\<lambda>(u, n).
       kprintf ''PMM: Initialized. Used Frames: %lu, Free Frames: %lu\<newline>'' [VInt u, VInt (n - u)])))"

text \<open>The five steps.\<close>

definition memory_init_pmm :: "limine_memmap_entry list \<Rightarrow> ('a pmm_scheme, unit) km" where
  "memory_init_pmm memmap =
     seqK (kprintf ''PMM: Initializing...\<newline>'' [])
    (let highest_addr = align_up (fst (memmap_scan memmap 0 0)) PAGE_SIZE in
     seqK (pmm_set_sizes highest_addr)
    (bindK (getK (\<lambda>s. (pmm_total_frames s, pmm_bitmap_size_qwords s))) (\<lambda>(frames, qwords).
     let bytes = qwords * 8 in
     seqK (kprintf ''PMM: Highest Addr: 0x%lx, Total Frames: %lu, Bitmap Size: %lu bytes (%lu qwords)\<newline>''
             [VInt highest_addr, VInt frames, VInt bytes, VInt qwords])
    (bindK (place_bitmap bytes memmap 0) (\<lambda>bitmap_phys_addr.
     if bitmap_phys_addr = 0 then kpanic ''PMM: Could not find suitable space for the bitmap!'' ''memory.c'' 898
     else
       bindK (phys_to_virt bitmap_phys_addr) (\<lambda>bitmap.
       seqK (modK (\<lambda>s. s\<lparr>pmm_bitmap := bitmap\<rparr>))
      (seqK (memset bitmap 0xFF bytes)
      (seqK (modK (\<lambda>s. s\<lparr>pmm_used_frames := pmm_total_frames s\<rparr>))
            (pmm_mark_phase memmap bitmap_phys_addr bytes)))))))))"

text \<open>The direct map: the flags of a region, \<open>None\<close> when it is skipped, and the loop over its pages.\<close>

definition hhdm_flags :: "limine_memmap_entry \<Rightarrow> ('a kcons_scheme, u64 option) km" where
  "hhdm_flags e =
     (case me_type e of
        LIMINE_MEMMAP_KERNEL_AND_MODULES \<Rightarrow>
          seqK (kprintf ''VMM: Mapping Kernel/Modules (0x%lx-0x%lx) as R/W/X\<newline>'' [VInt (me_base e), VInt (me_top e)])
               (retK (Some PTE_WRITE))
      | LIMINE_MEMMAP_FRAMEBUFFER \<Rightarrow>
          seqK (kprintf ''VMM: Mapping Framebuffer (0x%lx-0x%lx) as R/W/NX + Cache Disabled\<newline>''
                  [VInt (me_base e), VInt (me_top e)])
               (retK (Some (PTE_WRITE OR PTE_NX OR PTE_PCD OR PTE_PWT)))
      | LIMINE_MEMMAP_RESERVED \<Rightarrow> retK None
      | LIMINE_MEMMAP_OTHER \<Rightarrow> retK None
      | _ \<Rightarrow> retK (Some (PTE_WRITE OR PTE_NX)))"

definition map_hhdm_page :: "u64 \<Rightarrow> u64 \<Rightarrow> u64 \<Rightarrow> ('a vmm_scheme, unit + u64) km" where
  "map_hhdm_page end_addr flags paddr =
     (if paddr < end_addr then
        bindK (phys_to_virt paddr) (\<lambda>vaddr.
        bindK (vmm_map_page kernel_address_space vaddr paddr flags) (\<lambda>ok.
        if \<not> ok then kpanic ''VMM: Failed to map HHDM page!'' ''memory.c'' 994
        else retK (Inr (paddr + PAGE_SIZE))))
      else retK (Inl ()))"

primrec map_hhdm :: "limine_memmap_entry list \<Rightarrow> ('a vmm_scheme, unit) km" where
  "map_hhdm [] = retK ()"
| "map_hhdm (e # es) =
     bindK (hhdm_flags e) (\<lambda>flags.
     seqK (case flags of
             None \<Rightarrow> retK ()
           | Some fl \<Rightarrow> loopK (map_hhdm_page (me_top e) fl) (align_down (me_base e) PAGE_SIZE))
          (map_hhdm es))"

definition memory_init_vmm :: "limine_memmap_entry list \<Rightarrow> ('a vmm_scheme, unit) km" where
  "memory_init_vmm memmap =
     seqK (kprintf ''VMM: Initializing...\<newline>'' [])
    (bindK read_cr3 (\<lambda>root.
     seqK (modK (\<lambda>s. s\<lparr>spaces := (spaces s)(kernel_address_space := \<lparr>pml4_phys = root, as_lock = False\<rparr>)\<rparr>))
    (seqK (kprintf ''VMM: Initial kernel PML4 (from CR3) at phys 0x%lx\<newline>'' [VInt root])
    (seqK (kprintf ''VMM: Verifying/Mapping HHDM...\<newline>'' [])
    (seqK (map_hhdm memmap)
          (kprintf ''VMM: HHDM mapping complete.\<newline>'' []))))))"

definition memory_init_heap :: "('a kheap_scheme, unit) km" where
  "memory_init_heap =
     seqK (modK (\<lambda>s. s\<lparr>kheap_free_list := 0, kheap_current_break := KERNEL_HEAP_START,
              kheap_max_break := KERNEL_HEAP_START + KERNEL_HEAP_MAX_SIZE, kheap_lock := False\<rparr>))
          (kprintf ''KHeap: Initialized. Ready at virt 0x%lx (max size 0x%lx)\<newline>''
             [VInt KERNEL_HEAP_START, VInt KERNEL_HEAP_MAX_SIZE])"

definition memory_init :: "limine_info \<Rightarrow> ('a kheap_scheme, unit) km" where
  "memory_init info =
     seqK serial_init
    (seqK (kprintf ''Kernel: Serial Initialized (COM1 @ 115200)\<newline>'' [])
    (case memmap_response info of
       None \<Rightarrow> kpanic ''Memory Init: Missing Limine memmap info!'' ''memory.c'' 827
     | Some memmap \<Rightarrow>
    (case hhdm_response info of
       None \<Rightarrow> kpanic ''Memory Init: Missing Limine HHDM info!'' ''memory.c'' 828
     | Some offset \<Rightarrow>
    (case kernel_addr_response info of
       None \<Rightarrow> kpanic ''Memory Init: Missing Limine kernel address info!'' ''memory.c'' 829
     | Some (phys_base, virt_base) \<Rightarrow>
     seqK (modK (\<lambda>s. s\<lparr>hhdm_phys_offset := offset\<rparr>))
    (seqK (kprintf ''Memory Init: HHDM Offset: 0x%lx\<newline>'' [VInt offset])
    (seqK (kprintf ''Memory Init: Kernel Phys: 0x%lx, Kernel Virt: 0x%lx\<newline>'' [VInt phys_base, VInt virt_base])
    (seqK (memory_init_pmm memmap)
    (seqK (memory_init_vmm memmap)
    (seqK memory_init_heap
          (kprintf ''Memory Management Initialized Successfully.\<newline>'' []))))))))))"

section \<open>Marking frames\<close>

text \<open>
  While regions are marked the bitmap's own frames may be marked free for a moment, so the
  invariant of the allocator does not hold. What holds in between, relative to the state
  \<open>z\<close> right after the bitmap has been filled: only the bitmap and the counter change, and
  exactly the frames in \<open>U\<close> are marked used.
\<close>

definition used_frame_set :: "'a pmm_scheme \<Rightarrow> u64 set" where
  "used_frame_set s = {f. f \<le> pmm_highest_frame s \<and> frame_used s f}"

definition marking :: "'a pmm_scheme \<Rightarrow> u64 set \<Rightarrow> 'a pmm_scheme \<Rightarrow> bool" where
  "marking z U s \<longleftrightarrow>
     (\<exists>out m u. s = z\<lparr>io_out := out, phys_mem := m, pmm_used_frames := u\<rparr> \<and> unat u = card U \<and>
        (\<forall>a. (\<forall>i < pmm_bitmap_size_qwords z. a \<noteq> bm_addr z i) \<longrightarrow> m a = phys_mem z a)) \<and>
     used_frame_set s = U"

lemma finite_words [simp]: "finite (S :: u64 set)"
  by simp

lemma marking_fields:
  assumes "marking z U s"
  shows "pmm_bitmap_size_qwords s = pmm_bitmap_size_qwords z" "pmm_highest_frame s = pmm_highest_frame z"
    "bm_addr s = bm_addr z" "unat (pmm_used_frames s) = card U" "uart_lsr s = uart_lsr z"
    "f \<le> pmm_highest_frame z \<Longrightarrow> frame_used s f \<longleftrightarrow> f \<in> U"
  using assms by (auto simp: marking_def bm_addr_def fun_eq_iff used_frame_set_def)

lemma marking_store:
  assumes z: "pmm_inv z" and m: "marking z U s" and f: "f \<le> pmm_highest_frame z"
    and V: "\<And>g. g \<le> pmm_highest_frame z \<Longrightarrow>
        g \<in> V \<longleftrightarrow> (if g div 64 = f div 64 then bit q (unat (g mod 64)) else g \<in> U)"
    and sub: "V \<subseteq> {g. g \<le> pmm_highest_frame z}" and u: "unat u = card V"
  shows "marking z V ((bm_store (f div 64) q s)\<lparr>pmm_used_frames := u\<rparr>)"
proof -
  let ?t = "(bm_store (f div 64) q s)\<lparr>pmm_used_frames := u\<rparr>"
  note M = marking_fields [OF m] and fq = pmm_inv_frame_qword(1) [OF z f]
  have "frame_used ?t g \<longleftrightarrow> (if g div 64 = f div 64 then bit q (unat (g mod 64)) else frame_used s g)"
    if "g \<le> pmm_highest_frame z" for g
  proof -
    have "bm_addr s (g div 64) = bm_addr s (f div 64) \<longleftrightarrow> g div 64 = f div 64"
      unfolding M(3) by (rule pmm_inv_bm_addr_inj [OF z pmm_inv_frame_qword(1) [OF z that] fq])
    moreover have "bm_addr ?t = bm_addr s" by (simp add: bm_addr_def bm_store_def fun_eq_iff)
    ultimately show ?thesis by (simp add: frame_used_def bm_qword_def) (simp add: bm_store_def)
  qed
  then have "used_frame_set ?t = V"
    using V M(2,6) sub by (auto simp: used_frame_set_def bm_store_def)
  moreover obtain out m u0 where s: "s = z\<lparr>io_out := out, phys_mem := m, pmm_used_frames := u0\<rparr>"
    "\<forall>a. (\<forall>i < pmm_bitmap_size_qwords z. a \<noteq> bm_addr z i) \<longrightarrow> m a = phys_mem z a"
    using m by (auto simp: marking_def)
  have "?t = z\<lparr>io_out := out, phys_mem := m(bm_addr z (f div 64) := q), pmm_used_frames := u\<rparr>"
    using s(1) M(3) by (simp add: bm_store_def)
  ultimately show ?thesis
    unfolding marking_def using s(2) fq u by (auto intro!: exI [of _ out] exI [of _ "m(bm_addr z (f div 64) := q)"] exI [of _ u])
qed

lemma mark_frame_free_run:
  assumes z: "pmm_inv z" and m: "marking z U s" and f: "f \<le> pmm_highest_frame z"
  shows "\<exists>s'. mark_frame_free f s = Some (Inr ((), s')) \<and> marking z (U - {f}) s'"
proof (cases "f \<in> U")
  case False
  note M = marking_fields [OF m]
  have "mark_frame_free f s = Some (Inr ((), s))"
    using False M(1) M(6) [OF f] pmm_inv_frame_qword(1) [OF z f] by (simp add: mark_frame_free_def runK)
  then show ?thesis using m False by simp
next
  case True
  note M = marking_fields [OF m] and fq = pmm_inv_frame_qword(1) [OF z f]
  let ?q = "bm_qword s (f div 64) AND NOT (push_bit (unat (f mod 64)) 1)"
  let ?s' = "(bm_store (f div 64) ?q s)\<lparr>pmm_used_frames := pmm_used_frames s - 1\<rparr>"
  have sub: "U \<subseteq> {g. g \<le> pmm_highest_frame z}" using m M(2) by (auto simp: marking_def used_frame_set_def)
  have c: "0 < card U" using True by (simp add: card_gt_0_iff) blast
  then have u: "0 < pmm_used_frames s" using M(4) by (simp add: word_less_nat_alt)
  have "unat (pmm_used_frames s - 1) = card (U - {f})" using True M(4) c by (simp add: unat_sub_if')
  moreover have "g \<in> U - {f} \<longleftrightarrow> (if g div 64 = f div 64 then bit ?q (unat (g mod 64)) else g \<in> U)"
    if g: "g \<le> pmm_highest_frame z" for g
    using M(6) [OF g] frame_index_eqI [of g f] unat_mod_64 [of g]
    by (auto simp: frame_used_def bit_simps le_less)
  ultimately have "marking z (U - {f}) ?s'" using sub by (intro marking_store [OF z m f]) auto
  moreover have "mark_frame_free f s = Some (Inr ((), ?s'))"
    using True M(1) M(6) [OF f] fq u by (simp add: mark_frame_free_def runK) (simp add: bm_store_def)
  ultimately show ?thesis by blast
qed

lemma mark_frame_used_run:
  assumes z: "pmm_inv z" and m: "marking z U s" and f: "f \<le> pmm_highest_frame z"
  shows "\<exists>s'. mark_frame_used f s = Some (Inr ((), s')) \<and> marking z (insert f U) s'"
proof (cases "f \<in> U")
  case True
  note M = marking_fields [OF m]
  have "mark_frame_used f s = Some (Inr ((), s))"
    using True M(1) M(6) [OF f] pmm_inv_frame_qword(1) [OF z f] by (simp add: mark_frame_used_def runK)
  then show ?thesis using m True by (auto simp: insert_absorb)
next
  case False
  note M = marking_fields [OF m] and fq = pmm_inv_frame_qword(1) [OF z f]
  let ?q = "bm_qword s (f div 64) OR push_bit (unat (f mod 64)) 1"
  let ?s' = "(bm_store (f div 64) ?q s)\<lparr>pmm_used_frames := pmm_used_frames s + 1\<rparr>"
  have sub: "U \<subseteq> {g. g \<le> pmm_highest_frame z}" using m M(2) by (auto simp: marking_def used_frame_set_def)
  have "card U \<le> card {g. g \<le> pmm_highest_frame z}" using sub by (simp add: card_mono)
  also have "{g. g \<le> pmm_highest_frame z} = set (all_frames z)" by (auto simp: set_all_frames)
  also have "card \<dots> \<le> unat (pmm_highest_frame z) + 1"
    using card_length [of "all_frames z"] by (simp add: all_frames_def del: upt_Suc)
  finally have "unat (pmm_used_frames s + 1) = unat (pmm_used_frames s) + 1"
    using M(4) pmm_inv_size(2) [OF z] by (simp add: unat_plus_if')
  then have "unat (pmm_used_frames s + 1) = card (insert f U)" using False M(4) by simp
  moreover have "g \<in> insert f U \<longleftrightarrow> (if g div 64 = f div 64 then bit ?q (unat (g mod 64)) else g \<in> U)"
    if g: "g \<le> pmm_highest_frame z" for g
    using M(6) [OF g] frame_index_eqI [of g f] unat_mod_64 [of g]
    by (auto simp: frame_used_def bit_simps le_less)
  ultimately have "marking z (insert f U) ?s'" using sub f by (intro marking_store [OF z m f]) auto
  moreover have "mark_frame_used f s = Some (Inr ((), ?s'))"
    using False M(1) M(6) [OF f] fq by (simp add: mark_frame_used_def runK) (simp add: bm_store_def)
  ultimately show ?thesis by blast
qed

definition frame_range :: "nat \<Rightarrow> nat \<Rightarrow> u64 set" where
  "frame_range lo hi = {f. lo \<le> unat f \<and> unat f < hi}"

lemma frame_range_Suc:
  assumes "lo \<le> j" "j < 2 ^ 64" shows "frame_range lo (Suc j) = insert (of_nat j) (frame_range lo j)"
proof -
  have "unat (of_nat j :: u64) = j" using assms(2) by (rule unat_of_nat64)
  then show ?thesis using assms(1) by (auto simp: frame_range_def less_Suc_eq word_unat_eq_iff)
qed

lemma marking_loop:
  assumes z: "pmm_inv z" and m: "marking z U s" and b: "lo \<le> hi" "hi \<le> unat (pmm_highest_frame z) + 1"
    and step: "\<And>f U t. marking z U t \<Longrightarrow> f \<le> pmm_highest_frame z \<Longrightarrow>
        \<exists>t'. body f t = Some (Inr ((), t')) \<and> marking z (upd f U) t'"
    and upd: "\<And>j. lo \<le> j \<Longrightarrow> j < hi \<Longrightarrow> W (Suc j) = upd (of_nat j) (W j)" and W: "W lo = U"
  shows "\<exists>s'. forK lo hi (\<lambda>i. body (of_nat i)) s = Some (Inr ((), s')) \<and> marking z (W hi) s'"
proof (rule forK_rule [where I = "\<lambda>j t. marking z (W j) t"])
  fix j t assume j: "lo \<le> j" "j < hi" and t: "marking z (W j) t"
  have "unat (of_nat j :: u64) = j" using j b(2) unat_lt2p [of "pmm_highest_frame z"] by (intro unat_of_nat64) simp
  then have "of_nat j \<le> pmm_highest_frame z" using j b(2) by (simp add: word_le_nat_alt)
  from step [OF t this] show "\<exists>t'. body (of_nat j) t = Some (Inr ((), t')) \<and> marking z (W (Suc j)) t'"
    using upd [OF j] by simp
qed (use b m W in auto)

lemma mark_free_loop:
  assumes "pmm_inv z" "marking z U s" "lo \<le> hi" "hi \<le> unat (pmm_highest_frame z) + 1"
  shows "\<exists>s'. forK lo hi (\<lambda>i. mark_frame_free (of_nat i)) s = Some (Inr ((), s')) \<and> marking z (U - frame_range lo hi) s'"
proof (rule marking_loop [OF assms, where upd = "\<lambda>f U. U - {f}" and W = "\<lambda>j. U - frame_range lo j"])
  fix j assume "lo \<le> j" "j < hi"
  then show "U - frame_range lo (Suc j) = U - frame_range lo j - {of_nat j}"
    using frame_range_Suc [of lo j] assms(4) unat_lt2p [of "pmm_highest_frame z"] by auto
qed (use mark_frame_free_run [OF assms(1)] in \<open>auto simp: frame_range_def\<close>)

lemma mark_used_loop:
  assumes "pmm_inv z" "marking z U s" "lo \<le> hi" "hi \<le> unat (pmm_highest_frame z) + 1"
  shows "\<exists>s'. forK lo hi (\<lambda>i. mark_frame_used (of_nat i)) s = Some (Inr ((), s')) \<and> marking z (U \<union> frame_range lo hi) s'"
proof (rule marking_loop [OF assms, where upd = insert and W = "\<lambda>j. U \<union> frame_range lo j"])
  fix j assume "lo \<le> j" "j < hi"
  then show "U \<union> frame_range lo (Suc j) = insert (of_nat j) (U \<union> frame_range lo j)"
    using frame_range_Suc [of lo j] assms(4) unat_lt2p [of "pmm_highest_frame z"] by auto
qed (use mark_frame_used_run [OF assms(1)] in \<open>auto simp: frame_range_def\<close>)

text \<open>The frames that lie completely in a usable region.\<close>

definition usable_frames :: "limine_memmap_entry \<Rightarrow> u64 set" where
  "usable_frames e = {f. me_type e = LIMINE_MEMMAP_USABLE \<and> unat (me_base e) \<le> unat f * 4096 \<and>
     (unat f + 1) * 4096 \<le> unat (me_base e) + unat (me_length e)}"

text \<open>A memory map whose regions end at least a page below the end of the address space.\<close>

definition memmap_ok :: "limine_memmap_entry list \<Rightarrow> bool" where
  "memmap_ok memmap \<longleftrightarrow> list_all (\<lambda>e. unat (me_base e) + unat (me_length e) + 4096 \<le> 2 ^ 64) memmap"

lemma unat_me_top:
  "unat (me_base e) + unat (me_length e) + 4096 \<le> 2 ^ 64 \<Longrightarrow> unat (me_top e) = unat (me_base e) + unat (me_length e)"
  by (simp add: unat_plus_if')

lemma mark_region_free_run:
  assumes z: "pmm_inv z" and m: "marking z U s" and e: "unat (me_base e) + unat (me_length e) + 4096 \<le> 2 ^ 64"
    and top: "unat (me_base e) + unat (me_length e) \<le> (unat (pmm_highest_frame z) + 1) * 4096"
  shows "\<exists>s'. mark_region_free e s = Some (Inr ((), s')) \<and> marking z (U - usable_frames e) s'"
proof (cases "me_type e = LIMINE_MEMMAP_USABLE")
  case False
  then show ?thesis using m by (simp add: mark_region_free_def usable_frames_def)
next
  case True
  let ?lo = "align_up (me_base e) PAGE_SIZE div PAGE_SIZE" and ?hi = "align_down (me_top e) PAGE_SIZE div PAGE_SIZE"
  have lo: "unat ?lo = (unat (me_base e) + 4095) div 4096" using page_align(1) [of "me_base e"] e by (simp add: unat_div)
  have hi: "unat ?hi = (unat (me_base e) + unat (me_length e)) div 4096"
    using page_align(2) [of "me_top e"] unat_me_top [OF e] by (simp add: unat_div)
  have r: "usable_frames e = frame_range (unat ?lo) (unat ?hi)"
    unfolding usable_frames_def frame_range_def lo hi using True by auto
  show ?thesis
  proof (cases "?lo < ?hi")
    case False
    then have "usable_frames e = {}" unfolding r by (auto simp: frame_range_def word_less_nat_alt)
    then show ?thesis using False m by (simp add: mark_region_free_def)
  next
    case lt: True
    have "unat ?hi \<le> unat (pmm_highest_frame z) + 1" using top hi by (simp add: div_le_mono less_mult_imp_div_less)
    then show ?thesis
      using mark_free_loop [OF z m, of "unat ?lo" "unat ?hi"] lt True r by (simp add: mark_region_free_def Let_def word_less_nat_alt)
  qed
qed

lemma mark_regions_free_run:
  assumes "pmm_inv z" "marking z U s" "memmap_ok memmap"
    and "\<forall>e \<in> set memmap. unat (me_base e) + unat (me_length e) \<le> (unat (pmm_highest_frame z) + 1) * 4096"
  shows "\<exists>s'. mark_regions_free memmap s = Some (Inr ((), s')) \<and> marking z (U - \<Union> (usable_frames ` set memmap)) s'"
  using assms(2-)
proof (induction memmap arbitrary: s U)
  case (Cons e es)
  obtain t where t: "mark_region_free e s = Some (Inr ((), t))" "marking z (U - usable_frames e) t"
    using mark_region_free_run [OF assms(1) Cons.prems(1), of e] Cons.prems by (auto simp: memmap_ok_def)
  moreover have "U - \<Union> (usable_frames ` set (e # es)) = U - usable_frames e - \<Union> (usable_frames ` set es)" by auto
  ultimately show ?case using Cons.IH [OF t(2)] Cons.prems by (simp only: memmap_ok_def) simp
qed simp

section \<open>Sizing and placing the bitmap\<close>

lemma memmap_scan_bounds:
  assumes "memmap_ok memmap" "unat h + 4096 \<le> 2 ^ 64"
  shows "h \<le> fst (memmap_scan memmap h n)" "unat (fst (memmap_scan memmap h n)) + 4096 \<le> 2 ^ 64"
    "e \<in> set memmap \<Longrightarrow> unat (me_base e) + unat (me_length e) \<le> unat (fst (memmap_scan memmap h n))"
proof -
  have "h \<le> fst (memmap_scan memmap h n) \<and> unat (fst (memmap_scan memmap h n)) + 4096 \<le> 2 ^ 64 \<and>
    (\<forall>e \<in> set memmap. unat (me_base e) + unat (me_length e) \<le> unat (fst (memmap_scan memmap h n)))"
    using assms
  proof (induction memmap arbitrary: h n)
    case (Cons e es)
    define h' where "h' = (if h < me_top e then me_top e else h)"
    have top: "unat (me_top e) = unat (me_base e) + unat (me_length e)" "unat (me_top e) + 4096 \<le> 2 ^ 64"
      using Cons.prems(1) unat_me_top [of e] by (simp_all add: memmap_ok_def)
    have h': "h \<le> h'" "me_top e \<le> h'" "unat h' + 4096 \<le> 2 ^ 64" using Cons.prems(2) top by (auto simp: h'_def)
    have e: "memmap_scan (e # es) h n = memmap_scan es h' (if me_type e = LIMINE_MEMMAP_USABLE then n + me_length e else n)"
      by (simp add: Let_def h'_def)
    have "h' \<le> fst (memmap_scan (e # es) h n) \<and> unat (fst (memmap_scan (e # es) h n)) + 4096 \<le> 2 ^ 64 \<and>
      (\<forall>e' \<in> set es. unat (me_base e') + unat (me_length e') \<le> unat (fst (memmap_scan (e # es) h n)))"
      unfolding e
      by (rule Cons.IH) (use Cons.prems h'(3) in \<open>simp_all add: memmap_ok_def\<close>)
    then show ?case using h'(1,2) top(1) by (auto simp: word_le_nat_alt simp del: memmap_scan.simps)
  qed simp
  then show "h \<le> fst (memmap_scan memmap h n)" "unat (fst (memmap_scan memmap h n)) + 4096 \<le> 2 ^ 64"
    "e \<in> set memmap \<Longrightarrow> unat (me_base e) + unat (me_length e) \<le> unat (fst (memmap_scan memmap h n))" by auto
qed

text \<open>The place the code would take in a region, if any.\<close>

definition has_room :: "u64 \<Rightarrow> limine_memmap_entry \<Rightarrow> bool" where
  "has_room bytes e \<longleftrightarrow> me_type e = LIMINE_MEMMAP_USABLE \<and> bytes \<le> me_length e \<and>
     \<not> (me_base e < 0x100000 \<and> \<not> 0x100000 < me_top e) \<and>
     align_up (if me_base e < 0x100000 then 0x100000 else me_base e) PAGE_SIZE + bytes \<le> me_top e"

lemma place_bitmap_run:
  assumes "uart_ready s"
  shows "\<exists>p str. place_bitmap bytes memmap i s = Some (Inr (p, printed str s)) \<and>
     (if \<exists>e \<in> set memmap. has_room bytes e
      then \<exists>e \<in> set memmap. has_room bytes e \<and> p = align_up (if me_base e < 0x100000 then 0x100000 else me_base e) PAGE_SIZE
      else p = 0)"
proof (induction memmap arbitrary: i)
  case Nil
  then show ?case by (intro exI [of _ 0] exI [of _ "[]"]) simp
next
  case (Cons e es)
  let ?p = "align_up (if me_base e < 0x100000 then 0x100000 else me_base e) PAGE_SIZE"
  show ?case
  proof (cases "has_room bytes e")
    case True
    then have "\<exists>str. place_bitmap bytes (e # es) i s = Some (Inr (?p, printed str s))"
      using assms by (auto simp: has_room_def Let_def kprintf_format)
    then show ?thesis using True by (metis list.set_intros(1))
  next
    case False
    then have "place_bitmap bytes (e # es) i s = place_bitmap bytes es (i + 1) s" by (auto simp: has_room_def Let_def)
    then show ?thesis using Cons.IH [of "i + 1"] False by (auto split: if_splits)
  qed
qed

lemma has_room_place:
  assumes "has_room bytes e" "unat (me_base e) + unat (me_length e) + 4096 \<le> 2 ^ 64" "unat bytes \<le> 2 ^ 60"
  defines "p \<equiv> align_up (if me_base e < 0x100000 then 0x100000 else me_base e) PAGE_SIZE"
  shows "p \<noteq> 0" "unat p mod 4096 = 0" "unat (me_base e) \<le> unat p" "unat p + unat bytes \<le> unat (me_base e) + unat (me_length e)"
proof -
  let ?b = "if me_base e < 0x100000 then 0x100000 else me_base e"
  have b: "unat ?b \<ge> 0x100000" "unat (me_base e) \<le> unat ?b" "unat ?b \<le> max 0x100000 (unat (me_base e))"
    by (auto simp: word_less_nat_alt not_less)
  then have p: "unat p = (unat ?b + 4095) div 4096 * 4096"
    unfolding p_def using assms(2) by (intro page_align(1)) auto
  then have ge: "unat ?b \<le> unat p" "unat p \<le> unat ?b + 4095" by linarith+
  show "unat p mod 4096 = 0" using p by simp
  have "unat p \<noteq> 0" using ge b by linarith
  then show "p \<noteq> 0" by auto
  show "unat (me_base e) \<le> unat p" using ge b by linarith
  have le: "unat bytes \<le> unat (me_length e)" "p + bytes \<le> me_top e"
    using assms(1) by (simp_all add: has_room_def p_def word_le_nat_alt)
  have "unat p + unat bytes < 2 ^ 64" using ge b(3) le(1) assms(2,3) by (auto simp: max_def split: if_splits)
  then have "unat (p + bytes) = unat p + unat bytes" by (simp add: unat_plus_if')
  then show "unat p + unat bytes \<le> unat (me_base e) + unat (me_length e)"
    using le(2) unat_me_top [OF assms(2)] by (simp add: word_le_nat_alt)
qed

lemma unat_times8: "unat (x :: u64) < 2 ^ 60 \<Longrightarrow> unat (8 * x) = 8 * unat x"
  using unat_mult_lem [of 8 x] by simp

text \<open>The numbers of frames and of bitmap qwords for a highest address.\<close>

lemma bitmap_sizes:
  fixes H :: u64
  assumes "unat H + 4096 \<le> 2 ^ 64" "0 < unat H"
  defines "T \<equiv> align_up H PAGE_SIZE div PAGE_SIZE"
  defines "Q \<equiv> align_up T 64 div 64"
  shows "unat T < 2 ^ 52" "0 < unat T" "unat H \<le> unat T * 4096" "unat (T - 1) + 1 = unat T"
    "unat Q = unat (T - 1) div 64 + 1" "Q = (T - 1) div 64 + 1" "unat (Q * 8) = 8 * unat Q"
proof -
  have T: "unat T = (unat H + 4095) div 4096" using page_align(1) [of H] assms(1) by (simp add: T_def unat_div)
  then show l: "unat T < 2 ^ 52" and g: "0 < unat T" using assms(1,2) by simp_all
  show "unat H \<le> unat T * 4096" unfolding T by linarith
  show h: "unat (T - 1) + 1 = unat T" using g by (simp add: unat_sub_if')
  have "unat (align_up T 64) = (unat T + 63) div 64 * 64"
    using unat_align_up [of 6 T] l by simp
  then have "unat Q = (unat T + 63) div 64" by (simp add: Q_def unat_div)
  then show q: "unat Q = unat (T - 1) div 64 + 1" using h by simp
  then show "Q = (T - 1) div 64 + 1" using l h by (simp add: word_unat_eq_iff unat_plus_if' unat_div)
  show "unat (Q * 8) = 8 * unat Q" using q l h unat_times8 [of Q] div_le_dividend [of "unat (T - 1)" 64]
    by (simp add: mult.commute)
qed

text \<open>The state after the bitmap has been filled with ones.\<close>

definition filled :: "u64 \<Rightarrow> u64 \<Rightarrow> u64 \<Rightarrow> 'a pmm_scheme \<Rightarrow> 'a pmm_scheme" where
  "filled T Q p s =
     s\<lparr>pmm_total_frames := T, pmm_highest_frame := T - 1, pmm_bitmap_size_qwords := Q,
       pmm_bitmap := p + hhdm_phys_offset s,
       phys_mem := (\<lambda>a. if a - p < Q * 8 then -1 else phys_mem s a), pmm_used_frames := T\<rparr>"

lemma filled_inv:
  assumes h: "hhdm_phys_offset s \<noteq> 0" "pmm_last_allocated_index s = 0"
    and T: "unat T < 2 ^ 52" "unat (T - 1) + 1 = unat T" and Q: "unat Q = unat (T - 1) div 64 + 1" "Q = (T - 1) div 64 + 1"
    "unat (Q * 8) = 8 * unat Q" and p: "unat p + 8 * unat Q \<le> unat T * 4096"
  shows "pmm_inv (filled T Q p s)" "marking (filled T Q p s) {f. f \<le> T - 1} (filled T Q p s)"
    "bm_addr (filled T Q p s) i = p + 8 * i"
proof -
  let ?z = "filled T Q p s"
  show a: "bm_addr ?z i = p + 8 * i" for i by (simp add: bm_addr_def filled_def)
  have fields: "pmm_highest_frame ?z = T - 1" "pmm_bitmap_size_qwords ?z = Q" "pmm_total_frames ?z = T"
    "pmm_used_frames ?z = T" "hhdm_phys_offset ?z = hhdm_phys_offset s" "pmm_last_allocated_index ?z = 0"
    using h(2) by (simp_all add: filled_def)
  have q: "bm_qword ?z i = -1" if "i < Q" for i
  proof -
    have i: "unat i < unat Q" using that by (simp add: word_less_nat_alt)
    then have "unat (8 * i) = 8 * unat i"
      using Q(1) T div_le_dividend [of "unat (T - 1)" 64] by (intro unat_times8) simp
    then have "8 * i < Q * 8" using i Q(3) by (simp add: word_less_nat_alt)
    then show ?thesis by (simp add: bm_qword_def a) (simp add: filled_def)
  qed
  have used: "frame_used ?z f" if "f \<le> T - 1" for f
  proof -
    have "unat f div 64 \<le> unat (T - 1) div 64" using that by (simp add: word_le_nat_alt div_le_mono)
    then have "f div 64 < Q" using Q(1) by (simp add: word_less_nat_alt unat_div)
    then show ?thesis using q unat_mod_64 [of f] by (simp add: frame_used_def)
  qed
  have bf: "f \<le> T - 1" if fb: "f \<in> set (bitmap_frames ?z)" for f
  proof -
    obtain n where n: "n < unat Q" "f = (p + 8 * of_nat n) div PAGE_SIZE"
      using fb by (auto simp: bitmap_frames_def fields a)
    have nn: "unat (of_nat n :: u64) = n" using n(1) unat_lt2p [of Q] by (intro unat_of_nat64) simp
    then have "unat (8 * of_nat n :: u64) = 8 * n" using unat_times8 [of "of_nat n"] Q(1) T n(1) div_le_dividend [of "unat (T - 1)" 64] by simp
    then have "unat (p + 8 * of_nat n) = unat p + 8 * n" using p n(1) T(1) by (simp add: unat_plus_if')
    then have "unat f = (unat p + 8 * n) div 4096" using n(2) by (simp add: unat_div)
    moreover have "unat p + 8 * n < unat T * 4096" using p n(1) by linarith
    ultimately have "unat f < unat T" by (simp add: less_mult_imp_div_less)
    then show ?thesis using T(2) by (simp add: word_le_nat_alt)
  qed
  have all: "set (all_frames ?z) = {f. f \<le> T - 1}" by (auto simp: set_all_frames fields)
  then have "filter (frame_used ?z) (all_frames ?z) = all_frames ?z" using used by (auto simp: filter_id_conv)
  then have cnt: "length (filter (frame_used ?z) (all_frames ?z)) = unat T"
    using T(2) by (simp add: all_frames_def fields del: upt_Suc)
  have "T - 1 < 2 ^ 52" "T = T - 1 + 1" using T by (simp_all add: word_less_nat_alt)
  then show "pmm_inv ?z"
    using cnt used bf h(1) p Q(2) T(2) unfolding pmm_inv_def fields a by (auto simp: list_all_iff)
  have "card {f. f \<le> T - 1} = unat T"
    using distinct_card [OF distinct_all_frames, of ?z] T(2) unfolding all by (simp add: all_frames_def fields del: upt_Suc)
  moreover have "used_frame_set ?z = {f. f \<le> T - 1}" using used by (auto simp: used_frame_set_def fields)
  ultimately show "marking ?z {f. f \<le> T - 1} ?z"
    unfolding marking_def using fields(4)
    by (intro conjI exI [of _ "io_out ?z"] exI [of _ "phys_mem ?z"] exI [of _ "pmm_used_frames ?z"]) simp_all
qed

text \<open>When marking is over and the bitmap's frames are marked, the invariant holds.\<close>

lemma marking_inv:
  assumes z: "pmm_inv z" and m: "marking z U s" and b: "set (bitmap_frames z) \<subseteq> U"
  shows "pmm_inv s"
proof -
  note M = marking_fields [OF m]
  obtain out mm u where s: "s = z\<lparr>io_out := out, phys_mem := mm, pmm_used_frames := u\<rparr>" using m by (auto simp: marking_def)
  have f: "all_frames s = all_frames z" "bitmap_frames s = bitmap_frames z"
    using M(1-3) by (simp_all add: all_frames_def bitmap_frames_def)
  have "list_all (frame_used s) (bitmap_frames z)"
    using b M(6) pmm_inv_bitmap_frames(1) [OF z] by (auto simp: list_all_iff)
  moreover have "set (filter (frame_used s) (all_frames z)) = U"
    using m M(2) by (auto simp: marking_def used_frame_set_def set_all_frames)
  then have "length (filter (frame_used s) (all_frames z)) = card U"
    using distinct_card [of "filter (frame_used s) (all_frames z)"] distinct_all_frames [of z] by simp
  moreover have "hhdm_phys_offset s = hhdm_phys_offset z" "pmm_total_frames s = pmm_total_frames z"
    "pmm_last_allocated_index s = pmm_last_allocated_index z" by (simp_all add: s)
  ultimately show ?thesis using z M(1-4) f unfolding pmm_inv_def by auto
qed

section \<open>The frame allocator after boot\<close>

definition bitmap_bytes :: "limine_memmap_entry list \<Rightarrow> u64" where
  "bitmap_bytes memmap = align_up (align_up (fst (memmap_scan memmap 0 0)) PAGE_SIZE div PAGE_SIZE) 64 div 64 * 8"

text \<open>The frames that hold a part of the bitmap.\<close>

definition bitmap_overlap :: "'a pmm_scheme \<Rightarrow> u64 \<Rightarrow> bool" where
  "bitmap_overlap s f \<longleftrightarrow> unat f * 4096 < unat (bm_addr s 0) + 8 * unat (pmm_bitmap_size_qwords s) \<and>
     unat (bm_addr s 0) < (unat f + 1) * 4096"

lemma bitmap_frames_overlap:
  assumes "pmm_inv s" "f \<in> set (bitmap_frames s)" shows "bitmap_overlap s f"
proof -
  obtain n where n: "n < unat (pmm_bitmap_size_qwords s)" "f = bm_addr s (of_nat n) div PAGE_SIZE"
    using assms(2) by (auto simp: bitmap_frames_def)
  have "unat (of_nat n :: u64) = n" using n(1) unat_lt2p [of "pmm_bitmap_size_qwords s"] by (intro unat_of_nat64) simp
  then have "unat (bm_addr s (of_nat n)) = unat (bm_addr s 0) + 8 * n"
    using pmm_inv_bm_addr(1) [OF assms(1), of "of_nat n"] n(1) by (simp add: word_less_nat_alt)
  then have "unat f = (unat (bm_addr s 0) + 8 * n) div 4096" using n(2) by (simp add: unat_div)
  then show ?thesis using n(1) unfolding bitmap_overlap_def by simp linarith
qed

lemma mark_bitmap_used_run:
  assumes z: "pmm_inv z" and m: "marking z U s" and u: "uart_ready z" and p: "unat p mod 4096 = 0"
    and b: "bm_addr z 0 = p" "unat bytes = 8 * unat (pmm_bitmap_size_qwords z)"
      "unat p + unat bytes \<le> (unat (pmm_highest_frame z) + 1) * 4096" "unat p + unat bytes + 4096 \<le> 2 ^ 64"
  shows "\<exists>s'. mark_bitmap_used p bytes s = Some (Inr ((), s')) \<and>
     marking z (U \<union> {f. f \<le> pmm_highest_frame z \<and> bitmap_overlap z f}) s'"
proof -
  let ?lo = "p div PAGE_SIZE" and ?hi = "align_up (p + bytes) PAGE_SIZE div PAGE_SIZE"
  have pb: "unat (p + bytes) = unat p + unat bytes" using b(4) by (simp add: unat_plus_if')
  have lo: "unat ?lo = unat p div 4096" by (simp add: unat_div)
  have hi: "unat ?hi = (unat p + unat bytes + 4095) div 4096" using page_align(1) [of "p + bytes"] b(4) pb by (simp add: unat_div)
  have le: "unat ?hi \<le> unat (pmm_highest_frame z) + 1" 
    using div_le_mono [of "unat p + unat bytes + 4095" "(unat (pmm_highest_frame z) + 1) * 4096 + 4095" 4096] b(3)
    unfolding hi by simp
  have r: "frame_range (unat ?lo) (unat ?hi) = {f. f \<le> pmm_highest_frame z \<and> bitmap_overlap z f}"
  proof -
    have "f \<in> frame_range (unat ?lo) (unat ?hi) \<longleftrightarrow> bitmap_overlap z f" for f
      using b(1,2) unfolding frame_range_def bitmap_overlap_def lo hi mem_Collect_eq by auto
    moreover have "f \<le> pmm_highest_frame z" if "f \<in> frame_range (unat ?lo) (unat ?hi)" for f
      using that le by (simp add: frame_range_def word_le_nat_alt)
    ultimately show ?thesis by blast
  qed
  have "uart_ready s" using u marking_fields(5) [OF m] by (simp add: uart_ready_def)
  then obtain str where k: "kprintf ''PMM: Marking bitmap frames %lu to %lu as used\<newline>''
      [VInt ?lo, VInt (?hi - 1)] s = Some (Inr ((), printed str s))" by (auto simp: kprintf_format)
  have m': "marking z U (printed str s)"
  proof -
    have "used_frame_set (printed str s) = used_frame_set s"
      by (simp add: used_frame_set_def printed_def frame_used_def bm_qword_def bm_addr_def)
    moreover obtain out mm v where s: "s = z\<lparr>io_out := out, phys_mem := mm, pmm_used_frames := v\<rparr>" "unat v = card U"
      "\<forall>a. (\<forall>i < pmm_bitmap_size_qwords z. a \<noteq> bm_addr z i) \<longrightarrow> mm a = phys_mem z a" "used_frame_set s = U"
      using m by (auto simp: marking_def)
    moreover have "printed str s = z\<lparr>io_out := io_out (printed str s), phys_mem := mm, pmm_used_frames := v\<rparr>"
      by (cases z) (simp add: s(1) printed_def)
    ultimately show ?thesis unfolding marking_def by metis
  qed
  have "unat ?lo \<le> unat ?hi" unfolding lo hi by linarith
  then show ?thesis
    using mark_used_loop [OF z m', of "unat ?lo" "unat ?hi"] le k r by (simp add: mark_bitmap_used_def Let_def)
qed

lemma and_7: "unat (x :: u64) mod 8 = 0 \<Longrightarrow> x AND 7 = 0"
proof -
  assume "unat x mod 8 = 0"
  then have "x mod 8 = 0" by (simp add: word_unat_eq_iff unat_mod)
  then have "take_bit 3 x = 0" by (simp add: take_bit_eq_mod)
  then show ?thesis by (simp add: take_bit_eq_mask mask_eq_exp_minus_1)
qed

lemma memset_fill:
  assumes "hhdm_phys_offset s = h" "unat p mod 4096 = 0" "unat (Q * 8) = 8 * unat Q"
  shows "memset (p + h) 0xFF (Q * 8) s =
    Some (Inr ((), s\<lparr>phys_mem := (\<lambda>a. if a - p < Q * 8 then -1 else phys_mem s a)\<rparr>))"
proof -
  have "unat p mod 8 = 0" using assms(2) by (auto simp: mod_eq_0_iff_dvd intro: dvd_trans [of 8 4096])
  moreover have "unat (Q * 8) mod 8 = 0" using assms(3) by simp
  moreover have ones: "(18446744073709551615 :: u64) = -1" by simp
  ultimately show ?thesis using assms(1) by (simp add: memset_def and_7 cong: if_cong) (simp only: ones)
qed

lemma printed_pmm [simp]:
  "phys_mem (printed str s) = phys_mem s" "hhdm_phys_offset (printed str s) = hhdm_phys_offset s"
  "pmm_total_frames (printed str s) = pmm_total_frames s" "pmm_highest_frame (printed str s) = pmm_highest_frame s"
  "pmm_bitmap_size_qwords (printed str s) = pmm_bitmap_size_qwords s" "pmm_used_frames (printed str s) = pmm_used_frames s"
  "pmm_last_allocated_index (printed str s) = pmm_last_allocated_index s" "pmm_lock (printed str s) = pmm_lock s"
  "bm_addr (printed str s) = bm_addr s" "pmm.more (printed str s) = pmm.more s"
  by (simp_all add: printed_def bm_addr_def fun_eq_iff)

lemma memory_init_pmm_start:
  assumes uart: "uart_ready s" and hh: "hhdm_phys_offset s \<noteq> 0"
    and T: "T = align_up (fst (memmap_scan memmap 0 0)) PAGE_SIZE div PAGE_SIZE" "Q = align_up T 64 div 64"
    and Q: "unat (Q * 8) = 8 * unat Q"
    and place: "\<And>t :: 'a pmm_scheme. uart_ready t \<Longrightarrow>
        \<exists>p str. place_bitmap (Q * 8) memmap 0 t = Some (Inr (p, printed str t)) \<and> G p"
    and G: "\<And>p. G p \<Longrightarrow> p \<noteq> 0 \<and> unat p mod 4096 = 0"
  shows "\<exists>str p. G p \<and>
     memory_init_pmm memmap (s :: 'a pmm_scheme) = pmm_mark_phase memmap p (Q * 8) (filled T Q p (printed str s))"
proof -
  obtain str1 where k1: "kprintf ''PMM: Initializing...\<newline>'' [] s = Some (Inr ((), printed str1 s))"
    using uart by (auto simp: kprintf_format)
  let ?s2 = "(printed str1 s)\<lparr>pmm_total_frames := T, pmm_highest_frame := T - 1, pmm_bitmap_size_qwords := Q\<rparr>"
  have sz: "pmm_set_sizes (align_up (fst (memmap_scan memmap 0 0)) PAGE_SIZE) (printed str1 s) = Some (Inr ((), ?s2))"
    using T by (simp add: pmm_set_sizes_def)
  have u2: "uart_ready ?s2" using uart by (simp add: uart_ready_def printed_def)
  then obtain str2 where k2: "kprintf ''PMM: Highest Addr: 0x%lx, Total Frames: %lu, Bitmap Size: %lu bytes (%lu qwords)\<newline>''
      [VInt (align_up (fst (memmap_scan memmap 0 0)) PAGE_SIZE), VInt T, VInt (Q * 8), VInt Q] ?s2 = Some (Inr ((), printed str2 ?s2))"
    by (auto simp: kprintf_format)
  obtain str3 p where k3: "place_bitmap (Q * 8) memmap 0 (printed str2 ?s2) = Some (Inr (p, printed str3 (printed str2 ?s2)))"
    and Gp: "G p" using place [of "printed str2 ?s2"] u2 by auto
  note p = conjunct1 [OF G [OF Gp]] conjunct2 [OF G [OF Gp]]
  let ?s3 = "printed str3 (printed str2 ?s2)"
  let ?s4 = "?s3\<lparr>pmm_bitmap := p + hhdm_phys_offset s\<rparr>"
  note f = memset_fill [of ?s4 "hhdm_phys_offset s" p Q, OF _ p(2) Q]
  have "memory_init_pmm memmap s = pmm_mark_phase memmap p (Q * 8)
      (?s4\<lparr>phys_mem := (\<lambda>a. if a - p < Q * 8 then -1 else phys_mem s a), pmm_used_frames := T\<rparr>)"
    unfolding memory_init_pmm_def
    using k1 sz k2 k3 hh p(1) f by (simp add: pmm_mark_phase_def Let_def cong: if_cong)
  also have "?s4\<lparr>phys_mem := (\<lambda>a. if a - p < Q * 8 then -1 else phys_mem s a), pmm_used_frames := T\<rparr> =
      filled T Q p (printed (str1 @ str2 @ str3) s)"
    by (cases s) (simp add: filled_def printed_def cong: if_cong)
  finally show ?thesis using Gp by blast
qed

text \<open>The marking phase, from the filled bitmap on.\<close>

lemma pmm_mark_phase_run:
  fixes z :: "'a pmm_scheme"
  assumes z: "pmm_inv z" and m: "marking z {f. f \<le> pmm_highest_frame z} z" and u: "uart_ready z" and ok: "memmap_ok memmap"
    and top: "\<forall>e \<in> set memmap. unat (me_base e) + unat (me_length e) \<le> (unat (pmm_highest_frame z) + 1) * 4096"
    and p: "unat p mod 4096 = 0" "bm_addr z 0 = p" "unat bytes = 8 * unat (pmm_bitmap_size_qwords z)"
      "unat p + unat bytes \<le> (unat (pmm_highest_frame z) + 1) * 4096" "unat p + unat bytes + 4096 \<le> 2 ^ 64"
  shows "\<exists>s' str. pmm_mark_phase memmap p bytes z = Some (Inr ((), printed str s')) \<and> pmm_inv s' \<and>
     marking z ({f. f \<le> pmm_highest_frame z} - \<Union> (usable_frames ` set memmap) \<union> {f. f \<le> pmm_highest_frame z \<and> bitmap_overlap z f}) s'"
proof -
  let ?U = "{f. f \<le> pmm_highest_frame z} - \<Union> (usable_frames ` set memmap)"
  let ?V = "?U \<union> {f. f \<le> pmm_highest_frame z \<and> bitmap_overlap z f}"
  obtain t where t: "mark_regions_free memmap z = Some (Inr ((), t))" "marking z ?U t"
    using mark_regions_free_run [OF z m ok top] by blast
  obtain s' where s': "mark_bitmap_used p bytes t = Some (Inr ((), s'))" "marking z ?V s'"
    using mark_bitmap_used_run [OF z t(2) u p] by blast
  have "uart_ready s'" using u marking_fields(5) [OF s'(2)] by (simp add: uart_ready_def)
  then obtain str where "kprintf ''PMM: Initialized. Used Frames: %lu, Free Frames: %lu\<newline>''
      [VInt (pmm_used_frames s'), VInt (pmm_total_frames s' - pmm_used_frames s')] s' = Some (Inr ((), printed str s'))"
    by (auto simp: kprintf_format)
  moreover have "pmm_inv s'"
    using bitmap_frames_overlap [OF z] pmm_inv_bitmap_frames(1) [OF z] by (intro marking_inv [OF z s'(2)]) blast
  ultimately show ?thesis using t(1) s' by (auto simp: pmm_mark_phase_def)
qed

text \<open>Without room for the bitmap the machine stops.\<close>

lemma memory_init_pmm_no_room:
  fixes s :: "'a pmm_scheme"
  assumes uart: "uart_ready s" and none: "\<not> (\<exists>e \<in> set memmap. has_room (bitmap_bytes memmap) e)"
  shows "memory_init_pmm memmap s = Some (Inl (Panic ''PMM: Could not find suitable space for the bitmap!''))"
proof -
  let ?ha = "align_up (fst (memmap_scan memmap 0 0)) PAGE_SIZE"
  let ?T = "?ha div PAGE_SIZE"
  let ?Q = "align_up ?T 64 div 64"
  obtain str1 where k1: "kprintf ''PMM: Initializing...\<newline>'' [] s = Some (Inr ((), printed str1 s))"
    using uart by (auto simp: kprintf_format)
  let ?s2 = "(printed str1 s)\<lparr>pmm_total_frames := ?T, pmm_highest_frame := ?T - 1, pmm_bitmap_size_qwords := ?Q\<rparr>"
  have sz: "pmm_set_sizes ?ha (printed str1 s) = Some (Inr ((), ?s2))" by (simp add: pmm_set_sizes_def)
  have u2: "uart_ready ?s2" using uart by (simp add: uart_ready_def printed_def)
  then obtain str2 where k2: "kprintf ''PMM: Highest Addr: 0x%lx, Total Frames: %lu, Bitmap Size: %lu bytes (%lu qwords)\<newline>''
      [VInt ?ha, VInt ?T, VInt (?Q * 8), VInt ?Q] ?s2 = Some (Inr ((), printed str2 ?s2))"
    by (auto simp: kprintf_format)
  obtain str3 where k3: "place_bitmap (?Q * 8) memmap 0 (printed str2 ?s2) = Some (Inr (0, printed str3 (printed str2 ?s2)))"
    using place_bitmap_run [of "printed str2 ?s2" "?Q * 8" memmap 0] u2 none by (auto simp: bitmap_bytes_def split: if_splits)
  have "uart_ready (printed str3 (printed str2 ?s2))" using u2 by simp
  then show ?thesis
    unfolding memory_init_pmm_def using k1 sz k2 k3 by (simp add: Let_def kpanic_run)
qed

lemma overlap_cong:
  "bm_addr s = bm_addr t \<Longrightarrow> pmm_bitmap_size_qwords s = pmm_bitmap_size_qwords t \<Longrightarrow> bitmap_overlap s = bitmap_overlap t"
  by (simp add: bitmap_overlap_def fun_eq_iff)

lemma memory_init_pmm_room:
  fixes s :: "'a pmm_scheme"
  assumes uart: "uart_ready s" and hh: "hhdm_phys_offset s \<noteq> 0" "pmm_last_allocated_index s = 0"
    and ok: "memmap_ok memmap" and room: "\<exists>e \<in> set memmap. has_room (bitmap_bytes memmap) e"
  shows "\<exists>s'. memory_init_pmm memmap s = Some (Inr ((), s')) \<and> pmm_inv s' \<and>
     (\<forall>f \<le> pmm_highest_frame s'. frame_used s' f \<longleftrightarrow>
        (\<forall>e \<in> set memmap. f \<notin> usable_frames e) \<or> bitmap_overlap s' f) \<and>
     (\<forall>e \<in> set memmap. unat (me_base e) + unat (me_length e) \<le> unat (pmm_total_frames s') * 4096) \<and>
     (\<forall>a. 8 * pmm_bitmap_size_qwords s' \<le> a - bm_addr s' 0 \<longrightarrow> phys_mem s' a = phys_mem s a) \<and>
     pmm_lock s' = pmm_lock s"
proof -
  define H T Q where "H = fst (memmap_scan memmap 0 0)" and "T = align_up H PAGE_SIZE div PAGE_SIZE" and "Q = align_up T 64 div 64"
  have bb: "bitmap_bytes memmap = Q * 8" by (simp add: bitmap_bytes_def H_def T_def Q_def)
  have H: "unat H + 4096 \<le> 2 ^ 64" and He: "\<And>e. e \<in> set memmap \<Longrightarrow> unat (me_base e) + unat (me_length e) \<le> unat H"
    using memmap_scan_bounds [OF ok, of 0] by (simp_all add: H_def)
  have okE: "unat (me_base e) + unat (me_length e) + 4096 \<le> 2 ^ 64" if "e \<in> set memmap" for e
    using ok that by (auto simp: memmap_ok_def list_all_iff)
  obtain e0 where e0: "e0 \<in> set memmap" "has_room (Q * 8) e0" using room bb by auto
  have "0 < unat (me_base e0) + unat (me_length e0)"
    using e0(2) unat_me_top [OF okE [OF e0(1)]] by (auto simp: has_room_def word_less_nat_alt not_less word_le_nat_alt)
  then have "0 < unat H" using He [OF e0(1)] by linarith
  note S = bitmap_sizes [OF H this, folded T_def, folded Q_def]
  have Q60: "unat (Q * 8) \<le> 2 ^ 60" using S(1,4,5,7) div_le_dividend [of "unat (T - 1)" 64] by simp
  define G where "G p \<longleftrightarrow> p \<noteq> 0 \<and> unat p mod 4096 = 0 \<and> unat p + unat (Q * 8) \<le> unat H" for p :: u64
  have ex: "\<exists>e \<in> set memmap. has_room (Q * 8) e" using e0 by blast
  have place: "\<exists>p str. place_bitmap (Q * 8) memmap 0 t = Some (Inr (p, printed str t)) \<and> G p" if t: "uart_ready t" for t :: "'a pmm_scheme"
  proof -
    obtain p str e where r: "place_bitmap (Q * 8) memmap 0 t = Some (Inr (p, printed str t))" and e: "e \<in> set memmap"
      "has_room (Q * 8) e" "p = align_up (if me_base e < 0x100000 then 0x100000 else me_base e) PAGE_SIZE"
      using place_bitmap_run [OF t, of "Q * 8" memmap 0, unfolded if_P [OF ex]] by blast
    have "G p" using has_room_place [OF e(2) okE [OF e(1)] Q60] He [OF e(1)] unfolding G_def e(3) by linarith
    then show ?thesis using r by blast
  qed
  obtain str p where p: "G p" and run: "memory_init_pmm memmap s = pmm_mark_phase memmap p (Q * 8) (filled T Q p (printed str s))"
  proof -
    have G: "p \<noteq> 0 \<and> unat p mod 4096 = 0" if "G p" for p using that by (simp add: G_def)
    show thesis using memory_init_pmm_start [OF uart hh(1) T_def [unfolded H_def] Q_def S(7) place G] that by blast
  qed
  let ?z = "filled T Q p (printed str s)"
  have pT: "unat p + 8 * unat Q \<le> unat T * 4096" using p S(3,7) by (simp add: G_def)
  note F = filled_inv [of "printed str s", OF _ _ S(1,4,5,6,7) pT]
  have z: "pmm_inv ?z" "marking ?z {f. f \<le> pmm_highest_frame ?z} ?z" "\<And>i. bm_addr ?z i = p + 8 * i"
    using F hh by (simp_all add: filled_def)
  have fz: "pmm_highest_frame ?z = T - 1" "pmm_bitmap_size_qwords ?z = Q" "uart_ready ?z" "pmm_total_frames ?z = T" "pmm_lock ?z = pmm_lock s"
    using uart by (simp_all add: filled_def uart_ready_def printed_def)
  have top: "\<forall>e \<in> set memmap. unat (me_base e) + unat (me_length e) \<le> (unat (pmm_highest_frame ?z) + 1) * 4096"
    unfolding fz(1) S(4) using order.trans [OF He S(3)] by blast
  obtain s' str' where s': "pmm_mark_phase memmap p (Q * 8) ?z = Some (Inr ((), printed str' s'))" "pmm_inv s'"
    and m: "marking ?z ({f. f \<le> pmm_highest_frame ?z} - \<Union> (usable_frames ` set memmap) \<union> {f. f \<le> pmm_highest_frame ?z \<and> bitmap_overlap ?z f}) s'"
    using pmm_mark_phase_run [OF z(1,2) fz(3) ok top, of p "Q * 8"] p z(3) S fz H pT by (auto simp: G_def)
  note M = marking_fields [OF m]
  have ov: "bitmap_overlap (printed str' s') = bitmap_overlap ?z" using M by (intro overlap_cong) simp_all
  have used: "frame_used (printed str' s') = frame_used s'" by (rule pmm_same_D(1) [OF pmm_same_updates(1)])
  have "\<forall>f \<le> pmm_highest_frame s'. frame_used s' f \<longleftrightarrow> (\<forall>e \<in> set memmap. f \<notin> usable_frames e) \<or> bitmap_overlap ?z f"
    using M(2,6) by auto
  moreover have mem: "phys_mem s' a = phys_mem s a" if a: "8 * Q \<le> a - p" for a
  proof -
    have "a \<noteq> bm_addr ?z i" if "i < Q" for i
    proof -
      have i: "unat i < unat Q" using that by (simp add: word_less_nat_alt)
      then have "unat (8 * i) = 8 * unat i" using S(7) Q60 by (intro unat_times8) simp
      then have "8 * i < 8 * Q" using i S(7) by (simp add: word_less_nat_alt mult.commute)
      then show ?thesis using a z(3) by auto
    qed
    then have "phys_mem s' a = phys_mem ?z a" using m fz(2) by (auto simp: marking_def)
    moreover have "\<not> a - p < Q * 8" using a by (simp add: mult.commute not_less)
    ultimately show ?thesis by (simp add: filled_def)
  qed
  moreover have "pmm_total_frames s' = T" "pmm_lock s' = pmm_lock s" using m fz by (auto simp: marking_def)
  moreover have "pmm_inv (printed str' s')" using s'(2) pmm_same_D(3) [OF pmm_same_updates(1)] by simp
  moreover have "\<forall>e \<in> set memmap. unat (me_base e) + unat (me_length e) \<le> unat T * 4096"
    using order.trans [OF He S(3)] by blast
  moreover have "bm_addr s' 0 = p" "pmm_bitmap_size_qwords s' = Q" using M(1,3) z(3) [of 0] fz(2) by simp_all
  moreover have "memory_init_pmm memmap s = Some (Inr ((), printed str' s'))" using run s'(1) by simp
  ultimately show ?thesis using ov used by (intro exI [of _ "printed str' s'"]) simp
qed

section \<open>A concrete boot\<close>

text \<open>Two megabytes of memory: the first 640 KiB and everything from 1 MiB on are usable.\<close>

definition memmap_demo :: "limine_memmap_entry list" where
  "memmap_demo =
     [\<lparr>me_base = 0, me_length = 0xA0000, me_type = LIMINE_MEMMAP_USABLE\<rparr>,
      \<lparr>me_base = 0xA0000, me_length = 0x60000, me_type = LIMINE_MEMMAP_RESERVED\<rparr>,
      \<lparr>me_base = 0x100000, me_length = 0x100000, me_type = LIMINE_MEMMAP_USABLE\<rparr>]"

lemma memmap_demo_bytes: "bitmap_bytes memmap_demo = 64"
  by (simp add: bitmap_bytes_def memmap_demo_def align_up_def align_down_def)

lemma memmap_demo_ok: "memmap_ok memmap_demo" "\<exists>e \<in> set memmap_demo. has_room (bitmap_bytes memmap_demo) e"
proof -
  show "memmap_ok memmap_demo" by (simp add: memmap_ok_def memmap_demo_def)
  have "has_room 64 \<lparr>me_base = 0x100000, me_length = 0x100000, me_type = LIMINE_MEMMAP_USABLE\<rparr>"
    by (simp add: has_room_def align_up_def align_down_def)
  then show "\<exists>e \<in> set memmap_demo. has_room (bitmap_bytes memmap_demo) e"
    unfolding memmap_demo_bytes by (simp add: memmap_demo_def)
qed

definition boot_demo :: pmm where
  "boot_demo = \<lparr>io_out = [], uart_lsr = 0x20, phys_mem = (\<lambda>_. 0),
     hhdm_phys_offset = 0xFFFF800000000000, pmm_bitmap = 0, pmm_bitmap_size_qwords = 0, pmm_total_frames = 0,
     pmm_used_frames = 0, pmm_highest_frame = 0, pmm_lock = False, pmm_last_allocated_index = 0\<rparr>"

section \<open>Properties\<close>

text \<open>
  C8: the boot step establishes the invariant of the frame allocator. For a memory map whose
  regions do not run into the last page of the address space: if some usable region has room
  for the bitmap above 1 MiB, the step returns in a state in which the allocator's
  invariant holds, a frame is used exactly when it does not lie completely in a usable region
  or when it holds a part of the bitmap, every region is within the managed frames, and no
  memory outside the bitmap has changed; otherwise the kernel panics.
\<close>

theorem memory_init_pmm_correct:
  assumes "uart_ready s" and "hhdm_phys_offset s \<noteq> 0" and "pmm_last_allocated_index s = 0" and "memmap_ok memmap"
  shows "if \<exists>e \<in> set memmap. has_room (bitmap_bytes memmap) e
     then \<exists>s'. memory_init_pmm memmap s = Some (Inr ((), s')) \<and> pmm_inv s' \<and>
       (\<forall>f \<le> pmm_highest_frame s'. frame_used s' f \<longleftrightarrow>
          (\<forall>e \<in> set memmap. f \<notin> usable_frames e) \<or> bitmap_overlap s' f) \<and>
       (\<forall>e \<in> set memmap. unat (me_base e) + unat (me_length e) \<le> unat (pmm_total_frames s') * 4096) \<and>
       (\<forall>a. 8 * pmm_bitmap_size_qwords s' \<le> a - bm_addr s' 0 \<longrightarrow> phys_mem s' a = phys_mem s a) \<and>
       pmm_lock s' = pmm_lock s
     else memory_init_pmm memmap s = Some (Inl (Panic ''PMM: Could not find suitable space for the bitmap!''))"
  using memory_init_pmm_room [OF assms] memory_init_pmm_no_room [OF assms(1)] by simp

theorem memory_init_pmm_correct_witness:
  "\<exists>s'. memory_init_pmm memmap_demo boot_demo = Some (Inr ((), s')) \<and> pmm_inv s'"
proof -
  have "uart_ready boot_demo" "hhdm_phys_offset boot_demo \<noteq> 0" "pmm_last_allocated_index boot_demo = 0"
    by (simp_all add: boot_demo_def uart_ready_def)
  from memory_init_pmm_correct [OF this memmap_demo_ok(1)] show ?thesis using memmap_demo_ok(2) by auto
qed

end
