(* ===== verification/Sched.thy ===== *)
theory Sched
  imports KPrelude
begin

text \<open>
  The task table of \<^verbatim>\<open>src/kernel/scheduler.c\<close>: creation of tasks, the wrapper that runs
  a task and marks it done, simulated priorities, and the manager thread that compacts the
  table. The operating system's part (the result of \<open>malloc\<close>, of \<open>pthread_create\<close> and of
  \<open>rand\<close>) is an argument of the operations that use it. Every operation holds
  \<open>task_list_lock\<close> while it works on the table, so the threads interleave operation by
  operation: the relation \<open>sched_step\<close> of \<^verbatim>\<open>SchedRun\<close> has one rule for each.
\<close>

section \<open>Data\<close>

abbreviation MAX_TASKS :: nat where "MAX_TASKS \<equiv> 64"
abbreviation MIN_PRIORITY :: int where "MIN_PRIORITY \<equiv> 1"
abbreviation MAX_PRIORITY :: int where "MAX_PRIORITY \<equiv> 99"
abbreviation TASK_NAME_LEN :: nat where "TASK_NAME_LEN \<equiv> 32"

datatype TaskState = TASK_STATE_INVALID | TASK_STATE_RUNNING | TASK_STATE_DONE

record TCB =
  tcb_tid :: u32
  tcb_handle :: nat
  tcb_state :: TaskState
  tcb_priority :: int
  tcb_name :: string

record ThreadStartArgs =
  sa_tid :: u32
  sa_entry :: nat
  sa_arg :: nat
  sa_name :: string

record Scheduler =
  task_list :: "TCB list"
  task_count :: u64
  task_list_lock :: bool
  terminate_manager :: bool
  next_tid :: u32

text \<open>
  What the functions touch besides the scheduler object: the log and its mutex, the
  \<open>malloc\<close>ed argument blocks, and the threads that have been started and have not
  returned, named by the argument block each of them got.
\<close>

datatype log_arg = LNum int | LStr string

type_synonym log_line = "string \<times> log_arg list"

record sched_world = Scheduler +
  g_log_mutex :: bool
  klog :: "log_line list"
  args_mem :: "nat \<Rightarrow> ThreadStartArgs option"
  started :: "nat list"

section \<open>Operations\<close>

definition log_message :: "string \<Rightarrow> log_arg list \<Rightarrow> ('a sched_world_scheme, unit) km" where
  "log_message format args =
     seqK (spin_lock g_log_mutex g_log_mutex_update)
    (seqK (modK (\<lambda>s. s\<lparr>klog := klog s @ [(format, args)]\<rparr>))
          (spin_unlock g_log_mutex_update))"

text \<open>\<open>strncpy\<close> into a field of \<open>TASK_NAME_LEN\<close> bytes whose last byte is then cleared.\<close>

definition copy_name :: "string \<Rightarrow> string" where
  "copy_name nm = take (TASK_NAME_LEN - 1) nm"

definition args_free :: "nat \<Rightarrow> ('a sched_world_scheme, unit) km" where
  "args_free p = bindK (getK (\<lambda>s. args_mem s p)) (\<lambda>a.
     if a = None then stopK (Fault ''free of memory that is not allocated'')
     else modK (\<lambda>s. s\<lparr>args_mem := (args_mem s)(p := None)\<rparr>))"

definition args_load :: "nat \<Rightarrow> ('a sched_world_scheme, ThreadStartArgs) km" where
  "args_load p = bindK (getK (\<lambda>s. args_mem s p)) (\<lambda>a.
     case a of None \<Rightarrow> stopK (Fault ''use after free'') | Some x \<Rightarrow> retK x)"

text \<open>The searches of the table: the first slot that satisfies a condition.\<close>

function find_slot :: "(TCB \<Rightarrow> bool) \<Rightarrow> nat \<Rightarrow> TCB list \<Rightarrow> nat option" where
  "find_slot c i ts =
     (if i < MAX_TASKS then (if c (ts ! i) then Some i else find_slot c (Suc i) ts) else None)"
  by pat_completeness auto
termination
  by (relation "measure (\<lambda>(c, i, ts). MAX_TASKS - i)") auto

declare find_slot.simps [simp del]

definition set_task :: "nat \<Rightarrow> (TCB \<Rightarrow> TCB) \<Rightarrow> 'a sched_world_scheme \<Rightarrow> 'a sched_world_scheme" where
  "set_task i f s = s\<lparr>task_list := (task_list s)[i := f (task_list s ! i)]\<rparr>"

text \<open>The end of \<open>thread_runner\<close>: the task is marked done and its argument block freed.\<close>

definition thread_runner_end :: "nat \<Rightarrow> ('a sched_world_scheme, unit) km" where
  "thread_runner_end p =
     bindK (args_load p) (\<lambda>a.
     seqK (log_message ''Task '%s' (TID %u) FINISHED execution.'' [LStr (sa_name a), LNum (uint (sa_tid a))])
    (seqK (spin_lock task_list_lock task_list_lock_update)
    (bindK (getK (\<lambda>s. find_slot (\<lambda>t. tcb_state t \<noteq> TASK_STATE_INVALID \<and> tcb_tid t = sa_tid a) 0 (task_list s))) (\<lambda>found.
     seqK (case found of
             None \<Rightarrow> retK ()
           | Some i \<Rightarrow> modK (set_task i (\<lambda>t. t\<lparr>tcb_state := TASK_STATE_DONE\<rparr>)))
    (seqK (spin_unlock task_list_lock_update)
    (seqK (whenK (found = None)
            (log_message ''ERROR: Task '%s' (TID %u) could not find its TCB after finishing!''
               [LStr (sa_name a), LNum (uint (sa_tid a))]))
          (args_free p)))))))"

definition thread_runner_begin :: "nat \<Rightarrow> ('a sched_world_scheme, ThreadStartArgs) km" where
  "thread_runner_begin p =
     bindK (args_load p) (\<lambda>a.
     seqK (log_message ''Task '%s' (TID %u) STARTED.'' [LStr (sa_name a), LNum (uint (sa_tid a))])
          (retK a))"

text \<open>\<open>call\<close> runs the function a task was created with.\<close>

definition thread_runner ::
  "(nat \<Rightarrow> nat \<Rightarrow> ('a sched_world_scheme, unit) km) \<Rightarrow> nat \<Rightarrow> ('a sched_world_scheme, unit) km" where
  "thread_runner call p =
     bindK (thread_runner_begin p) (\<lambda>a.
     seqK (call (sa_entry a) (sa_arg a))
          (thread_runner_end p))"

text \<open>
  Creating a task. \<open>mem\<close> is what \<open>kmalloc\<close> returns (\<open>None\<close> for NULL), \<open>rc\<close> and \<open>handle\<close>
  what \<open>pthread_create\<close> returns and stores.
\<close>

definition create_in_slot ::
  "nat \<Rightarrow> int \<Rightarrow> nat \<Rightarrow> string \<Rightarrow> int \<Rightarrow> nat \<Rightarrow> nat \<Rightarrow> nat \<Rightarrow> ('a sched_world_scheme, u32) km" where
  "create_in_slot p rc handle nm prio entry arg free_slot =
     bindK (getK next_tid) (\<lambda>new_tid.
     seqK (modK (\<lambda>s. s\<lparr>next_tid := next_tid s + 1\<rparr>))
    (seqK (modK (set_task free_slot (\<lambda>t. t\<lparr>tcb_tid := new_tid, tcb_state := TASK_STATE_RUNNING,
             tcb_priority := prio, tcb_name := copy_name nm\<rparr>)))
    (seqK (modK (\<lambda>s. s\<lparr>args_mem := (args_mem s)(p \<mapsto>
             \<lparr>sa_tid = new_tid, sa_entry = entry, sa_arg = arg, sa_name = copy_name nm\<rparr>)\<rparr>))
    (if rc \<noteq> 0 then
       seqK (log_message ''ERROR: pthread_create failed for '%s' with code %d (%s)'' [LStr nm, LNum rc])
      (seqK (modK (set_task free_slot (\<lambda>t. t\<lparr>tcb_state := TASK_STATE_INVALID\<rparr>)))
            (retK 0))
     else
       seqK (modK (\<lambda>s. s\<lparr>started := p # started s\<rparr>))
      (seqK (modK (set_task free_slot (\<lambda>t. t\<lparr>tcb_handle := handle\<rparr>)))
      (seqK (log_message ''Created task '%s' (TID %u, Prio %d) in slot %d.''
               [LStr nm, LNum (uint new_tid), LNum prio, LNum (int free_slot)])
      (seqK (modK (\<lambda>s. s\<lparr>task_count := task_count s + 1\<rparr>))
            (retK new_tid))))))))"

definition kernel_create_thread ::
  "nat option \<Rightarrow> int \<Rightarrow> nat \<Rightarrow> string \<Rightarrow> int \<Rightarrow> nat \<Rightarrow> nat \<Rightarrow> ('a sched_world_scheme, u32) km" where
  "kernel_create_thread mem rc handle nm prio entry arg =
     (if prio < MIN_PRIORITY \<or> MAX_PRIORITY < prio then
        seqK (log_message (''ERROR: Invalid priority %d for task '%s'' @ [CHR 0x27]) [LNum prio, LStr nm]) (retK 0)
      else case mem of
        None \<Rightarrow>
          seqK (log_message ''ERROR: Failed to allocate memory for thread args ('%s')'' [LStr nm]) (retK 0)
      | Some p \<Rightarrow>
          seqK (modK (\<lambda>s. s\<lparr>args_mem := (args_mem s)(p \<mapsto> \<lparr>sa_tid = 0, sa_entry = 0, sa_arg = 0, sa_name = []\<rparr>)\<rparr>))
         (seqK (spin_lock task_list_lock task_list_lock_update)
         (bindK (getK (\<lambda>s. find_slot (\<lambda>t. tcb_state t = TASK_STATE_INVALID) 0 (task_list s))) (\<lambda>free_slot.
          case free_slot of
            None \<Rightarrow>
              seqK (log_message ''ERROR: Task limit (%d) reached. Cannot create '%s'.'' [LNum (int MAX_TASKS), LStr nm])
             (seqK (spin_unlock task_list_lock_update)
             (seqK (args_free p)
                   (retK 0)))
          | Some i \<Rightarrow>
              bindK (create_in_slot p rc handle nm prio entry arg i) (\<lambda>new_tid.
              seqK (spin_unlock task_list_lock_update)
             (seqK (whenK (new_tid = 0) (args_free p))
                   (retK new_tid)))))))"

definition kernel_set_priority :: "u32 \<Rightarrow> int \<Rightarrow> ('a sched_world_scheme, unit) km" where
  "kernel_set_priority tid prio =
     seqK (spin_lock task_list_lock task_list_lock_update)
    (bindK (getK (\<lambda>s. find_slot (\<lambda>t. tcb_state t = TASK_STATE_RUNNING \<and> tcb_tid t = tid) 0 (task_list s))) (\<lambda>found.
     seqK (case found of
             None \<Rightarrow> retK ()
           | Some i \<Rightarrow> modK (set_task i (\<lambda>t. t\<lparr>tcb_priority := prio\<rparr>)))
          (spin_unlock task_list_lock_update)))"

text \<open>The compaction loop of \<open>reap_tasks\<close>; it returns the number of entries kept and reaped.\<close>

function reap_loop :: "nat \<Rightarrow> nat \<Rightarrow> nat \<Rightarrow> ('a sched_world_scheme, nat \<times> nat) km" where
  "reap_loop read_idx write_idx tasks_reaped =
     (if read_idx < MAX_TASKS then
        bindK (getK (\<lambda>s. task_list s ! read_idx)) (\<lambda>t.
        if tcb_state t = TASK_STATE_RUNNING then
          seqK (whenK (read_idx \<noteq> write_idx) (modK (set_task write_idx (\<lambda>_. t))))
               (reap_loop (Suc read_idx) (Suc write_idx) tasks_reaped)
        else if tcb_state t = TASK_STATE_DONE then
          seqK (log_message ''Reaping task '%s' (TID %u)'' [LStr (tcb_name t), LNum (uint (tcb_tid t))])
               (reap_loop (Suc read_idx) write_idx (Suc tasks_reaped))
        else reap_loop (Suc read_idx) write_idx tasks_reaped)
      else retK (write_idx, tasks_reaped))"
  by pat_completeness auto
termination
  by (relation "measure (\<lambda>(r, w, n). MAX_TASKS - r)") auto

declare reap_loop.simps [simp del]

definition reap_tasks :: "('a sched_world_scheme, unit) km" where
  "reap_tasks =
     bindK (reap_loop 0 0 0) (\<lambda>(write_idx, tasks_reaped).
     seqK (modK (\<lambda>s. s\<lparr>task_count := task_count s - of_nat tasks_reaped\<rparr>))
    (seqK (forK write_idx MAX_TASKS (\<lambda>i. modK (set_task i (\<lambda>t. t\<lparr>tcb_state := TASK_STATE_INVALID, tcb_tid := 0\<rparr>))))
          (bindK (getK task_count) (\<lambda>count.
           whenK (0 < tasks_reaped)
             (log_message ''Reaped %zu tasks. Active tasks now: %zu'' [LNum (int tasks_reaped), LNum (uint count)])))))"

text \<open>
  One task in phase 1 of the manager's round; \<open>r\<close> is the value of \<open>rand\<close>. The sum of two
  \<open>int\<close>s overflows, which C leaves undefined, when a priority of \<open>INT_MAX\<close> was set.
\<close>

definition clamp_priority :: "int \<Rightarrow> int" where
  "clamp_priority new_prio =
     (let p = (if new_prio < MIN_PRIORITY then MIN_PRIORITY else new_prio)
      in if MAX_PRIORITY < p then MAX_PRIORITY else p)"

definition update_priority :: "(nat \<Rightarrow> nat) \<Rightarrow> nat \<Rightarrow> ('a sched_world_scheme, unit) km" where
  "update_priority rnd i =
     bindK (getK (\<lambda>s. task_list s ! i)) (\<lambda>t.
     if tcb_state t \<noteq> TASK_STATE_RUNNING then retK ()
     else
       let sum = tcb_priority t + (int (rnd i mod 3) - 1); new_prio = clamp_priority sum in
       if sum < - (2 ^ 31) \<or> 2 ^ 31 \<le> sum then stopK (Fault ''signed overflow'')
       else whenK (new_prio \<noteq> tcb_priority t)
         (seqK (modK (set_task i (\<lambda>t. t\<lparr>tcb_priority := new_prio\<rparr>)))
               (log_message ''Manager: Updated '%s' (TID %u) simulated prio to %d''
                  [LStr (tcb_name t), LNum (uint (tcb_tid t)), LNum new_prio])))"

definition manager_round :: "(nat \<Rightarrow> nat) \<Rightarrow> ('a sched_world_scheme, unit) km" where
  "manager_round rnd =
     seqK (spin_lock task_list_lock task_list_lock_update)
    (seqK (forK 0 MAX_TASKS (update_priority rnd))
    (seqK reap_tasks
          (spin_unlock task_list_lock_update)))"

text \<open>
  \<open>ksleep_ms\<close> gives the other threads the processor: \<open>others\<close> is what they do meanwhile.
  \<open>rnd\<close> gives the random numbers of a round, as a function of the state.
\<close>

definition manager_thread_entry ::
  "('a sched_world_scheme, unit) km \<Rightarrow> ('a sched_world_scheme \<Rightarrow> nat \<Rightarrow> nat) \<Rightarrow> ('a sched_world_scheme, unit) km" where
  "manager_thread_entry others rnd =
     seqK (log_message ''Manager/Reaper thread started.'' [])
    (seqK (whileK (\<lambda>s. \<not> terminate_manager s)
             (seqK others (bindK (getK rnd) manager_round)))
          (log_message ''Manager/Reaper thread shutting down.'' []))"

definition initialize_scheduler :: "('a sched_world_scheme, unit) km" where
  "initialize_scheduler =
     seqK (modK (\<lambda>s. s\<lparr>task_count := 0, next_tid := 1, terminate_manager := False, task_list_lock := False\<rparr>))
    (seqK (forK 0 MAX_TASKS (\<lambda>i. modK (set_task i (\<lambda>t. t\<lparr>tcb_state := TASK_STATE_INVALID, tcb_tid := 0\<rparr>))))
          (log_message ''Scheduler initialized.'' []))"

text \<open>
  \<open>destroy_scheduler\<close>, an example task and \<open>main\<close>. \<open>pause\<close> is what the other threads do in
  the \<open>k\<close>-th \<open>ksleep_ms\<close> of the caller (and while it waits for the manager), \<open>os\<close> what the
  operating system answers to the \<open>k\<close>-th creation.
\<close>

definition destroy_scheduler :: "('a sched_world_scheme, unit) km" where
  "destroy_scheduler =
     seqK (bindK (getK task_list_lock) (\<lambda>l. if l then stopK (Fault ''destroy of a locked mutex'') else retK ()))
          (log_message ''Scheduler destroyed.'' [])"

definition example_task_func :: "(nat \<Rightarrow> ('a sched_world_scheme, unit) km) \<Rightarrow> string \<Rightarrow> ('a sched_world_scheme, unit) km" where
  "example_task_func pause task_name =
     forK 0 3 (\<lambda>i.
       seqK (log_message ''   Task %s working... (%d/3)'' [LStr task_name, LNum (int i + 1)])
            (pause i))"

definition sched_main ::
  "(nat \<Rightarrow> ('a sched_world_scheme, unit) km) \<Rightarrow> int \<Rightarrow> (nat \<Rightarrow> nat option \<times> int \<times> nat) \<Rightarrow>
   ('a sched_world_scheme, int) km" where
  "sched_main pause rc os =
     (let create = (\<lambda>k nm prio. case os k of (mem, trc, handle) \<Rightarrow>
                      kernel_create_thread mem trc handle nm prio 0 k) in
      seqK initialize_scheduler
     (if rc \<noteq> 0 then
        seqK (log_message ''FATAL: Could not create manager thread!'' []) (retK 1)
      else
        bindK (create 0 ''HighPrio'' 90) (\<lambda>_.
        seqK (pause 0)
       (bindK (create 1 ''MidPrio'' 50) (\<lambda>_.
        seqK (pause 1)
       (bindK (create 2 ''LowPrio'' 10) (\<lambda>_.
        bindK (create 3 ''LowPrio_2'' 10) (\<lambda>_.
        seqK (log_message ''------- Running for 15 seconds -------'' [])
       (seqK (pause 2)
       (seqK (log_message ''------- Signalling shutdown -------'' [])
       (seqK (modK (\<lambda>s. s\<lparr>terminate_manager := True\<rparr>))
       (seqK (pause 3)
       (seqK (log_message ''Manager thread joined.'' [])
       (seqK destroy_scheduler
             (retK 0)))))))))))))))"

section \<open>The task table as a map\<close>

text \<open>
  What the table means: a finite map from task identifiers to state, name and priority.
\<close>

definition live :: "TCB \<Rightarrow> bool" where
  "live t \<longleftrightarrow> tcb_state t \<noteq> TASK_STATE_INVALID"

definition task_info :: "TCB \<Rightarrow> TaskState \<times> string \<times> int" where
  "task_info t = (tcb_state t, tcb_name t, tcb_priority t)"

definition task_map :: "TCB list \<Rightarrow> u32 \<Rightarrow> (TaskState \<times> string \<times> int) option" where
  "task_map ts = map_of (map (\<lambda>t. (tcb_tid t, task_info t)) (filter live ts))"

definition tids_ok :: "TCB list \<Rightarrow> bool" where
  "tids_ok ts \<longleftrightarrow> distinct (map tcb_tid (filter live ts))"

lemma dom_task_map: "dom (task_map ts) = tcb_tid ` set (filter live ts)"
  by (simp add: task_map_def dom_map_of_conv_image_fst image_image)

lemma task_map_Nil [simp]: "task_map [] = Map.empty"
  by (simp add: task_map_def)

lemma task_map_Cons [simp]:
  "task_map (t # ts) = (if live t then (task_map ts)(tcb_tid t \<mapsto> task_info t) else task_map ts)"
  by (simp add: task_map_def)

lemma tids_ok_Cons [simp]:
  "tids_ok (t # ts) \<longleftrightarrow> (live t \<longrightarrow> task_map ts (tcb_tid t) = None) \<and> tids_ok ts"
  using dom_task_map [of ts] by (auto simp: tids_ok_def domIff)

lemma tids_ok_Nil [simp]: "tids_ok []"
  by (simp add: tids_ok_def)

lemma task_map_append: "task_map (xs @ ys) = task_map ys ++ task_map xs"
  by (simp add: task_map_def)

lemma tids_ok_append:
  "tids_ok (xs @ ys) \<longleftrightarrow> tids_ok xs \<and> tids_ok ys \<and> dom (task_map xs) \<inter> dom (task_map ys) = {}"
  by (auto simp: tids_ok_def dom_task_map)

text \<open>The entry of one slot among the others.\<close>

lemma tids_ok_slot:
  "tids_ok (xs @ t # ys) \<longleftrightarrow> tids_ok (xs @ ys) \<and> (live t \<longrightarrow> task_map (xs @ ys) (tcb_tid t) = None)"
  by (auto simp: tids_ok_append task_map_append domIff map_add_None)

lemma task_map_slot:
  assumes "tids_ok (xs @ t # ys)"
  shows "task_map (xs @ t # ys) =
           (if live t then (task_map (xs @ ys))(tcb_tid t \<mapsto> task_info t) else task_map (xs @ ys))"
  using assms by (auto simp: tids_ok_slot task_map_append map_add_def fun_eq_iff split: option.splits)

lemma slot_split:
  assumes "i < length ts"
  obtains xs u ys where "ts = xs @ u # ys" "ts ! i = u" "\<And>t. ts[i := t] = xs @ t # ys"
  using assms by (intro that [of "take i ts" "ts ! i" "drop (Suc i) ts"])
    (auto simp: id_take_nth_drop upd_conv_take_nth_drop)

lemma find_slot_Some:
  "find_slot c i ts = Some j \<Longrightarrow> i \<le> j \<and> j < MAX_TASKS \<and> c (ts ! j) \<and> (\<forall>k. i \<le> k \<and> k < j \<longrightarrow> \<not> c (ts ! k))"
proof (induction c i ts rule: find_slot.induct)
  case (1 c i ts)
  show ?case
  proof (cases "i < MAX_TASKS \<and> \<not> c (ts ! i)")
    case True
    then have f: "find_slot c (Suc i) ts = Some j" using 1(2) by (simp add: find_slot.simps [of c i])
    show ?thesis using 1(1) [OF _ _ f] True
      by (metis Suc_leD Suc_leI le_neq_implies_less)
  next
    case False
    then show ?thesis using 1(2) by (subst (asm) find_slot.simps) (auto split: if_splits)
  qed
qed

lemma find_slot_None:
  "find_slot c i ts = None \<Longrightarrow> \<forall>k. i \<le> k \<and> k < MAX_TASKS \<longrightarrow> \<not> c (ts ! k)"
proof (induction c i ts rule: find_slot.induct)
  case (1 c i ts)
  show ?case
  proof (cases "i < MAX_TASKS")
    case True
    then have "\<not> c (ts ! i)" "find_slot c (Suc i) ts = None"
      using 1(2) by (simp_all add: find_slot.simps [of c i] split: if_splits)
    then show ?thesis using 1(1) [OF True] by (metis Suc_leI le_neq_implies_less)
  qed auto
qed

lemma task_map_find:
  assumes "tids_ok ts" "length ts = MAX_TASKS" "task_map ts k = Some (st, nm, pr)"
  obtains i where "find_slot (\<lambda>t. tcb_state t \<noteq> TASK_STATE_INVALID \<and> tcb_tid t = k) 0 ts = Some i"
    "i < length ts" "live (ts ! i)" "tcb_tid (ts ! i) = k" "task_info (ts ! i) = (st, nm, pr)"
proof -
  let ?c = "\<lambda>t. tcb_state t \<noteq> TASK_STATE_INVALID \<and> tcb_tid t = k"
  have "k \<in> dom (task_map ts)" using assms(3) by blast
  then obtain j where j: "j < length ts" "?c (ts ! j)"
    by (auto simp: dom_task_map live_def in_set_conv_nth)
  then obtain i where i: "find_slot ?c 0 ts = Some i"
    using find_slot_None [of ?c 0 ts] assms(2) by (cases "find_slot ?c 0 ts") auto
  have il: "i < length ts" and ci: "?c (ts ! i)" using find_slot_Some [OF i] assms(2) by auto
  obtain xs u ys where xy: "ts = xs @ u # ys" "ts ! i = u" by (rule slot_split [OF il])
  have u: "live u" "tcb_tid u = k" using ci unfolding xy(2) by (simp_all add: live_def)
  have "task_map ts k = Some (task_info u)"
    using task_map_slot [of xs u ys] assms(1) u unfolding xy(1) by simp
  then have "task_info (ts ! i) = (st, nm, pr)" using xy(2) assms(3) by simp
  then show ?thesis using that i il ci by (simp add: live_def)
qed

lemma task_map_update:
  assumes "tids_ok ts" "i < length ts" "live (ts ! i)" "live t" "tcb_tid t = tcb_tid (ts ! i)"
  shows "tids_ok (ts[i := t])" "task_map (ts[i := t]) = (task_map ts)(tcb_tid t \<mapsto> task_info t)"
    "length (filter live (ts[i := t])) = length (filter live ts)"
proof -
  obtain xs u ys where xy: "ts = xs @ u # ys" "ts ! i = u" and up: "ts[i := t] = xs @ t # ys"
    by (rule slot_split [OF assms(2)]) blast
  note A = assms(1,3-5) [unfolded xy(2)]
  have ok: "tids_ok (xs @ u # ys)" using A(1) unfolding xy(1) .
  show ok': "tids_ok (ts[i := t])" using ok A(2-4) unfolding up by (simp add: tids_ok_slot)
  show "task_map (ts[i := t]) = (task_map ts)(tcb_tid t \<mapsto> task_info t)"
    using task_map_slot [OF ok] task_map_slot [of xs t ys] ok' A(2-4) unfolding up unfolding xy(1) by simp
  show "length (filter live (ts[i := t])) = length (filter live ts)"
    using A(2,3) unfolding up unfolding xy(1) by simp
qed

lemma task_map_insert:
  assumes "tids_ok ts" "i < length ts" "\<not> live (ts ! i)" "live t" "task_map ts (tcb_tid t) = None"
  shows "tids_ok (ts[i := t])" "task_map (ts[i := t]) = (task_map ts)(tcb_tid t \<mapsto> task_info t)"
    "length (filter live (ts[i := t])) = Suc (length (filter live ts))"
proof -
  obtain xs u ys where xy: "ts = xs @ u # ys" "ts ! i = u" and up: "ts[i := t] = xs @ t # ys"
    by (rule slot_split [OF assms(2)]) blast
  note A = assms(1,3-5) [unfolded xy(2)]
  have ok: "tids_ok (xs @ u # ys)" using A(1) unfolding xy(1) .
  have m: "task_map ts = task_map (xs @ ys)" using task_map_slot [OF ok] A(2) unfolding xy(1) by simp
  show ok': "tids_ok (ts[i := t])" using ok A(4) unfolding up m by (simp add: tids_ok_slot)
  show "task_map (ts[i := t]) = (task_map ts)(tcb_tid t \<mapsto> task_info t)"
    using task_map_slot [of xs t ys] ok' A(3) unfolding up m by simp
  show "length (filter live (ts[i := t])) = Suc (length (filter live ts))"
    using A(2,3) unfolding up unfolding xy(1) by simp
qed

lemma task_map_dead:
  assumes "tids_ok ts" "i < length ts" "\<not> live (ts ! i)" "\<not> live t"
  shows "tids_ok (ts[i := t])" "task_map (ts[i := t]) = task_map ts" "filter live (ts[i := t]) = filter live ts"
proof -
  obtain xs u ys where xy: "ts = xs @ u # ys" "ts ! i = u" and up: "ts[i := t] = xs @ t # ys"
    by (rule slot_split [OF assms(2)]) blast
  show f: "filter live (ts[i := t]) = filter live ts"
    using assms(3,4) unfolding xy(2) unfolding up unfolding xy(1) by simp
  show "tids_ok (ts[i := t])" "task_map (ts[i := t]) = task_map ts"
    using assms(1) by (simp_all add: tids_ok_def task_map_def f)
qed

end
