(* ===== verification/SchedInv.thy ===== *)
theory SchedInv
  imports Sched
begin

text \<open>
  The correctness of the scheduler's operations against the map of tasks, the compaction
  loop against \<open>filter\<close>, and the invariant of the interleaved threads.
\<close>

section \<open>Single operations\<close>

lemma log_message_run [simp, runK]:
  fixes s :: "'a sched_world_scheme"
  shows "\<not> g_log_mutex s \<Longrightarrow> log_message f a s = Some (Inr ((), s\<lparr>klog := klog s @ [(f, a)]\<rparr>))"
  by (cases s) (simp add: log_message_def)

lemma unlock_id: "\<not> task_list_lock s \<Longrightarrow> s\<lparr>task_list_lock := False\<rparr> = (s :: 'a sched_world_scheme)"
  by (cases s) simp

text \<open>The task table, without its threads.\<close>

definition table_inv :: "'a sched_world_scheme \<Rightarrow> bool" where
  "table_inv s \<longleftrightarrow> length (task_list s) = MAX_TASKS \<and> \<not> task_list_lock s \<and> \<not> g_log_mutex s \<and>
     tids_ok (task_list s) \<and> task_count s = of_nat (length (filter live (task_list s))) \<and>
     (\<forall>k\<in>dom (task_map (task_list s)). 0 < k \<and> k < next_tid s)"

definition fresh_tcb :: "u32 \<Rightarrow> nat \<Rightarrow> string \<Rightarrow> int \<Rightarrow> TCB" where
  "fresh_tcb k h nm prio = \<lparr>tcb_tid = k, tcb_handle = h, tcb_state = TASK_STATE_RUNNING,
     tcb_priority = prio, tcb_name = copy_name nm\<rparr>"

lemma fresh_tcb_eq:
  "(t :: TCB)\<lparr>tcb_tid := k, tcb_state := TASK_STATE_RUNNING, tcb_priority := prio, tcb_name := copy_name nm,
     tcb_handle := h\<rparr> = fresh_tcb k h nm prio"
  by (cases t) (simp add: fresh_tcb_def)

lemma create_success:
  fixes s :: "'a sched_world_scheme"
  assumes "MIN_PRIORITY \<le> prio" "prio \<le> MAX_PRIORITY" "\<not> task_list_lock s" "\<not> g_log_mutex s"
    and "find_slot (\<lambda>t. tcb_state t = TASK_STATE_INVALID) 0 (task_list s) = Some i" "i < length (task_list s)"
    and "next_tid s \<noteq> 0"
  shows "kernel_create_thread (Some p) 0 h nm prio entry arg s = Some (Inr (next_tid s,
     s\<lparr>task_list := (task_list s)[i := fresh_tcb (next_tid s) h nm prio], task_count := task_count s + 1,
       next_tid := next_tid s + 1,
       klog := klog s @ [(''Created task '%s' (TID %u, Prio %d) in slot %d.'',
                 [LStr nm, LNum (uint (next_tid s)), LNum prio, LNum (int i)])],
       args_mem := (args_mem s)(p \<mapsto> \<lparr>sa_tid = next_tid s, sa_entry = entry, sa_arg = arg, sa_name = copy_name nm\<rparr>),
       started := p # started s\<rparr>))"
  using assms by (cases s) (simp add: kernel_create_thread_def create_in_slot_def set_task_def fresh_tcb_eq)

lemma create_thread_fails:
  fixes s :: "'a sched_world_scheme"
  assumes "MIN_PRIORITY \<le> prio" "prio \<le> MAX_PRIORITY" "\<not> task_list_lock s" "\<not> g_log_mutex s" "rc \<noteq> 0"
    and "find_slot (\<lambda>t. tcb_state t = TASK_STATE_INVALID) 0 (task_list s) = Some i" "i < length (task_list s)"
  shows "kernel_create_thread (Some p) rc h nm prio entry arg s = Some (Inr (0,
     s\<lparr>task_list := (task_list s)[i := (task_list s ! i)\<lparr>tcb_tid := next_tid s, tcb_priority := prio,
          tcb_name := copy_name nm, tcb_state := TASK_STATE_INVALID\<rparr>],
       next_tid := next_tid s + 1,
       klog := klog s @ [(''ERROR: pthread_create failed for '%s' with code %d (%s)'', [LStr nm, LNum rc])],
       args_mem := (args_mem s)(p := None)\<rparr>))"
  using assms by (cases s) (simp add: kernel_create_thread_def create_in_slot_def set_task_def args_free_def)

lemma create_no_slot:
  fixes s :: "'a sched_world_scheme"
  assumes "MIN_PRIORITY \<le> prio" "prio \<le> MAX_PRIORITY" "\<not> task_list_lock s" "\<not> g_log_mutex s"
    and "find_slot (\<lambda>t. tcb_state t = TASK_STATE_INVALID) 0 (task_list s) = None"
  shows "kernel_create_thread (Some p) rc h nm prio entry arg s = Some (Inr (0,
     s\<lparr>klog := klog s @ [(''ERROR: Task limit (%d) reached. Cannot create '%s'.'', [LNum (int MAX_TASKS), LStr nm])],
       args_mem := (args_mem s)(p := None)\<rparr>))"
  using assms by (cases s) (simp add: kernel_create_thread_def args_free_def)

lemma create_rejected:
  fixes s :: "'a sched_world_scheme"
  assumes "prio < MIN_PRIORITY \<or> MAX_PRIORITY < prio \<or> mem = None" "\<not> g_log_mutex s"
  shows "\<exists>l. kernel_create_thread mem rc h nm prio entry arg s = Some (Inr (0, s\<lparr>klog := klog s @ [l]\<rparr>))"
  using assms by (cases mem) (auto simp: kernel_create_thread_def)

section \<open>Compaction\<close>

abbreviation running :: "TCB \<Rightarrow> bool" where "running t \<equiv> tcb_state t = TASK_STATE_RUNNING"
abbreviation finished :: "TCB \<Rightarrow> bool" where "finished t \<equiv> tcb_state t = TASK_STATE_DONE"

definition reap_line :: "TCB \<Rightarrow> log_line" where
  "reap_line t = (''Reaping task '%s' (TID %u)'', [LStr (tcb_name t), LNum (uint (tcb_tid t))])"

definition clear_task :: "TCB \<Rightarrow> TCB" where
  "clear_task t = t\<lparr>tcb_state := TASK_STATE_INVALID, tcb_tid := 0\<rparr>"

text \<open>Copying within one array: what is written lies before what is still to be read.\<close>

lemma reap_loop_run:
  fixes s :: "'a sched_world_scheme"
  assumes "length (task_list s) = MAX_TASKS" "w \<le> r" "r \<le> MAX_TASKS" "\<not> g_log_mutex s"
  shows "reap_loop r w n s = Some (Inr ((w + length (filter running (drop r (task_list s))), n + length (filter finished (drop r (task_list s)))),
     s\<lparr>task_list := take w (task_list s) @ filter running (drop r (task_list s)) @ drop (w + length (filter running (drop r (task_list s)))) (task_list s),
       klog := klog s @ map reap_line (filter finished (drop r (task_list s)))\<rparr>))"
  using assms
proof (induction r w n arbitrary: s rule: reap_loop.induct)
  case (1 r w n)
  let ?ts = "task_list s"
  show ?case
  proof (cases "r < MAX_TASKS")
    case False
    then have "drop r ?ts = []" using "1.prems"(1) by simp
    moreover have "reap_loop r w n s = Some (Inr ((w, n), s))" using False by (simp add: reap_loop.simps [of r w n])
    ultimately show ?thesis using "1.prems" by (cases s) simp
  next
    case True
    then have d: "drop r ?ts = ?ts ! r # drop (Suc r) ?ts" using "1.prems"(1) by (simp add: Cons_nth_drop_Suc)
    show ?thesis
    proof (cases "tcb_state (?ts ! r)")
      case TASK_STATE_INVALID
      then show ?thesis using "1.IH"(3) [OF True, of "?ts ! r" s] "1.prems" True d
        by (simp add: reap_loop.simps [of r w n])
    next
      case TASK_STATE_DONE
      let ?s = "s\<lparr>klog := klog s @ [reap_line (?ts ! r)]\<rparr>"
      have "reap_loop (Suc r) w (Suc n) ?s = reap_loop r w n s"
        using TASK_STATE_DONE True "1.prems"(4) by (simp add: reap_loop.simps [of r w n] reap_line_def)
      moreover note "1.IH"(2) [OF True, of "?ts ! r" ?s]
      ultimately show ?thesis using "1.prems" True d TASK_STATE_DONE by simp
    next
      case TASK_STATE_RUNNING
      let ?s = "s\<lparr>task_list := ?ts[w := ?ts ! r]\<rparr>"
      have w: "w < length ?ts" using True "1.prems"(1,2) by simp
      have up: "reap_loop r w n s = reap_loop (Suc r) (Suc w) n ?s"
        using TASK_STATE_RUNNING True by (cases s) (auto simp: reap_loop.simps [of r w n] set_task_def)
      have ih: "reap_loop (Suc r) (Suc w) n ?s =
          Some (Inr ((Suc w + length (filter running (drop (Suc r) ?ts)), n + length (filter finished (drop (Suc r) ?ts))),
            ?s\<lparr>task_list := take (Suc w) (task_list ?s) @ filter running (drop (Suc r) ?ts) @
                 drop (Suc w + length (filter running (drop (Suc r) ?ts))) (task_list ?s),
              klog := klog s @ map reap_line (filter finished (drop (Suc r) ?ts))\<rparr>))"
        using "1.IH"(1) [OF True TASK_STATE_RUNNING, of ?s] "1.prems" True by simp
      have "take (Suc w) (?ts[w := ?ts ! r]) = take w ?ts @ [?ts ! r]"
        using w by (simp add: take_Suc_conv_app_nth)
      then show ?thesis using up ih "1.prems" d TASK_STATE_RUNNING by simp
    qed
  qed
qed

lemma clear_slots_run:
  fixes s :: "'a sched_world_scheme"
  assumes "length (task_list s) = MAX_TASKS" "w \<le> MAX_TASKS"
  shows "forK w MAX_TASKS (\<lambda>i. modK (set_task i (\<lambda>t. t\<lparr>tcb_state := TASK_STATE_INVALID, tcb_tid := 0\<rparr>))) s =
     Some (Inr ((), s\<lparr>task_list := take w (task_list s) @ map clear_task (drop w (task_list s))\<rparr>))"
  using assms
proof (induction "MAX_TASKS - w" arbitrary: w s)
  case 0
  then show ?case by (subst forK.simps) simp
next
  case (Suc n)
  let ?s = "set_task w clear_task s"
  have w: "w < MAX_TASKS" using Suc(2) by simp
  have "drop w (task_list s) = task_list s ! w # drop (Suc w) (task_list s)"
    using w Suc.prems(1) by (simp add: Cons_nth_drop_Suc)
  moreover have "take (Suc w) (task_list ?s) = take w (task_list s) @ [clear_task (task_list s ! w)]"
    using w Suc.prems(1) by (simp add: set_task_def take_Suc_conv_app_nth)
  moreover have "set_task w (\<lambda>t. t\<lparr>tcb_state := TASK_STATE_INVALID, tcb_tid := 0\<rparr>) s = ?s"
    by (simp add: set_task_def clear_task_def)
  moreover note Suc.hyps(1) [of "Suc w" ?s]
  ultimately show ?case using w Suc.hyps(2) Suc.prems
    by (subst forK.simps) (simp add: set_task_def)
qed

text \<open>\<open>reap_tasks\<close> in one equation: \<open>filter\<close>, and cleared slots behind.\<close>

definition reaped_list :: "TCB list \<Rightarrow> TCB list" where
  "reaped_list ts = filter running ts @ map clear_task (drop (length (filter running ts)) ts)"

lemma reap_tasks_run:
  fixes s :: "'a sched_world_scheme"
  assumes "length (task_list s) = MAX_TASKS" "\<not> g_log_mutex s"
  shows "\<exists>l. reap_tasks s = Some (Inr ((), s\<lparr>task_list := reaped_list (task_list s),
       task_count := task_count s - of_nat (length (filter finished (task_list s))), klog := l\<rparr>))"
proof -
  let ?ts = "task_list s" and ?n = "length (filter running (task_list s))"
  have n: "?n \<le> MAX_TASKS" using length_filter_le [of running ?ts] assms(1) by simp
  have len: "length (filter running ?ts @ drop ?n ?ts) = MAX_TASKS" using assms(1) n by simp
  show ?thesis
    using reap_loop_run [of s 0 0 0] assms n len
    by (cases s) (auto simp: reap_tasks_def clear_slots_run reaped_list_def)
qed

lemma task_map_clear [simp]: "task_map (map clear_task ts) = Map.empty" "tids_ok (map clear_task ts)"
  by (induction ts) (auto simp: clear_task_def live_def)

lemma filter_live_clear [simp]: "filter live (map clear_task ts) = []"
  by (simp add: filter_empty_conv clear_task_def live_def)

lemma task_map_running:
  "tids_ok ts \<Longrightarrow> tids_ok (filter running ts) \<and>
     task_map (filter running ts) = (\<lambda>k. Option.bind (task_map ts k) (\<lambda>v. if fst v = TASK_STATE_RUNNING then Some v else None))"
proof (induction ts)
  case (Cons t ts)
  then have ih: "tids_ok (filter running ts)"
    "task_map (filter running ts) = (\<lambda>k. Option.bind (task_map ts k) (\<lambda>v. if fst v = TASK_STATE_RUNNING then Some v else None))"
    by auto
  show ?case using ih(1) Cons.prems by (auto simp: ih(2) live_def task_info_def fun_eq_iff)
qed simp

lemma reaped_list_map:
  assumes "tids_ok ts"
  shows "tids_ok (reaped_list ts)" "length (reaped_list ts) = length ts"
    "task_map (reaped_list ts) = (\<lambda>k. Option.bind (task_map ts k) (\<lambda>v. if fst v = TASK_STATE_RUNNING then Some v else None))"
    "length (filter live (reaped_list ts)) + length (filter finished ts) = length (filter live ts)"
proof -
  have lv: "filter live (filter running ts) = filter running ts" by (induction ts) (auto simp: live_def)
  show "tids_ok (reaped_list ts)"
    using task_map_running [OF assms] by (simp add: reaped_list_def tids_ok_append)
  show "length (reaped_list ts) = length ts"
    using length_filter_le [of running ts] by (simp add: reaped_list_def)
  show "task_map (reaped_list ts) = (\<lambda>k. Option.bind (task_map ts k) (\<lambda>v. if fst v = TASK_STATE_RUNNING then Some v else None))"
    using task_map_running [OF assms] by (simp add: reaped_list_def task_map_append)
  have "length (filter running ts) + length (filter finished ts) = length (filter live ts)"
    by (induction ts) (auto simp: live_def, metis TaskState.exhaust)
  then show "length (filter live (reaped_list ts)) + length (filter finished ts) = length (filter live ts)"
    by (simp add: reaped_list_def lv del: filter_filter)
qed

section \<open>Priorities and the manager's round\<close>

text \<open>
  A priority that phase 1 of the manager can move by one without overflow: any \<open>int\<close> but the
  two extreme ones.
\<close>

definition prio_safe :: "TCB \<Rightarrow> bool" where
  "prio_safe t \<longleftrightarrow> (running t \<longrightarrow> - (2 ^ 31) < tcb_priority t \<and> tcb_priority t < 2 ^ 31 - 1)"

definition moved :: "(nat \<Rightarrow> nat) \<Rightarrow> nat \<Rightarrow> TCB \<Rightarrow> TCB" where
  "moved rnd i t =
     (if running t then t\<lparr>tcb_priority := clamp_priority (tcb_priority t + (int (rnd i mod 3) - 1))\<rparr> else t)"

lemma update_priority_run:
  fixes s :: "'a sched_world_scheme"
  assumes "prio_safe (task_list s ! i)" "\<not> g_log_mutex s"
  shows "\<exists>l. update_priority rnd i s =
     Some (Inr ((), s\<lparr>task_list := (task_list s)[i := moved rnd i (task_list s ! i)], klog := l\<rparr>))"
proof -
  let ?t = "task_list s ! i" and ?d = "int (rnd i mod 3) - 1"
  have d: "- 1 \<le> ?d" "?d \<le> 1" by linarith+
  have id: "\<exists>l. s = s\<lparr>task_list := (task_list s)[i := ?t], klog := l\<rparr>"
    by (cases s) auto
  show ?thesis
  proof (cases "running ?t")
    case True
    then have r: "- (2 ^ 31) \<le> tcb_priority ?t + ?d" "tcb_priority ?t + ?d < 2 ^ 31"
      using assms(1) d unfolding prio_safe_def by linarith+
    show ?thesis
    proof (cases "clamp_priority (tcb_priority ?t + ?d) = tcb_priority ?t")
      case eq: True
      then have "moved rnd i ?t = ?t" by (cases ?t) (simp add: moved_def)
      then show ?thesis using True r eq id by (simp add: update_priority_def Let_def)
    next
      case False
      then show ?thesis using True r assms(2)
        by (auto simp: update_priority_def Let_def moved_def set_task_def)
    qed
  next
    case False
    then show ?thesis using id by (simp add: update_priority_def moved_def)
  qed
qed

definition moved_list :: "(nat \<Rightarrow> nat) \<Rightarrow> TCB list \<Rightarrow> TCB list" where
  "moved_list rnd ts = map (\<lambda>i. moved rnd i (ts ! i)) [0..<length ts]"

lemma update_priorities_run:
  fixes s :: "'a sched_world_scheme"
  assumes len: "length (task_list s) = MAX_TASKS" and safe: "\<forall>t\<in>set (task_list s). prio_safe t" and g: "\<not> g_log_mutex s"
  shows "\<exists>l. forK 0 MAX_TASKS (update_priority rnd) s =
     Some (Inr ((), s\<lparr>task_list := moved_list rnd (task_list s), klog := l\<rparr>))"
proof -
  let ?I = "\<lambda>j t. \<exists>ts l. t = s\<lparr>task_list := ts, klog := l\<rparr> \<and> length ts = MAX_TASKS \<and>
      (\<forall>i<MAX_TASKS. ts ! i = (if i < j then moved rnd i (task_list s ! i) else task_list s ! i))"
  have "\<exists>t. forK 0 MAX_TASKS (update_priority rnd) s = Some (Inr ((), t)) \<and> ?I MAX_TASKS t"
  proof (rule forK_rule [where I = ?I])
    show "?I 0 s" using len by (intro exI [of _ "task_list s"] exI [of _ "klog s"]) (cases s, simp)
  next
    fix j t assume j: "j < MAX_TASKS" and "?I j t"
    then obtain ts l where t: "t = s\<lparr>task_list := ts, klog := l\<rparr>" "length ts = MAX_TASKS"
      and ts: "\<forall>i<MAX_TASKS. ts ! i = (if i < j then moved rnd i (task_list s ! i) else task_list s ! i)" by blast
    have tj: "ts ! j = task_list s ! j" using ts j by simp
    have "prio_safe (task_list t ! j)" using safe tj j len t(1) by simp
    then obtain l' where l': "update_priority rnd j t =
        Some (Inr ((), t\<lparr>task_list := (task_list t)[j := moved rnd j (task_list t ! j)], klog := l'\<rparr>))"
      using update_priority_run [of t j rnd] g t(1) by auto
    show "\<exists>t'. update_priority rnd j t = Some (Inr ((), t')) \<and> ?I (Suc j) t'"
    proof (intro exI conjI)
      show "update_priority rnd j t =
        Some (Inr ((), t\<lparr>task_list := (task_list t)[j := moved rnd j (task_list t ! j)], klog := l'\<rparr>))" by (rule l')
      show "t\<lparr>task_list := (task_list t)[j := moved rnd j (task_list t ! j)], klog := l'\<rparr> =
         s\<lparr>task_list := ts[j := moved rnd j (ts ! j)], klog := l'\<rparr>" using t(1) by simp
    qed (use t ts tj j in \<open>auto simp: nth_list_update less_Suc_eq\<close>)
  qed simp
  then obtain ts l where r: "forK 0 MAX_TASKS (update_priority rnd) s = Some (Inr ((), s\<lparr>task_list := ts, klog := l\<rparr>))"
    "length ts = MAX_TASKS" "\<forall>i<MAX_TASKS. ts ! i = moved rnd i (task_list s ! i)" by auto
  have "ts = moved_list rnd (task_list s)"
    using r(2,3) len by (intro nth_equalityI) (auto simp: moved_list_def)
  then show ?thesis using r(1) by blast
qed

text \<open>How phase 1 may change an entry.\<close>

definition same_task :: "TCB \<Rightarrow> TCB \<Rightarrow> bool" where
  "same_task t u \<longleftrightarrow> tcb_tid u = tcb_tid t \<and> tcb_state u = tcb_state t \<and> tcb_name u = tcb_name t \<and>
     (running t \<longrightarrow> MIN_PRIORITY \<le> tcb_priority u \<and> tcb_priority u \<le> MAX_PRIORITY \<and>
        (MIN_PRIORITY \<le> tcb_priority t \<and> tcb_priority t \<le> MAX_PRIORITY \<longrightarrow> \<bar>tcb_priority u - tcb_priority t\<bar> \<le> 1))"

lemma moved_same: "same_task t (moved rnd i t)"
proof -
  have "- 1 \<le> int (rnd i mod 3) - 1" "int (rnd i mod 3) - 1 \<le> 1" by linarith+
  then show ?thesis by (auto simp: same_task_def moved_def clamp_priority_def Let_def)
qed

lemma moved_list_same: "list_all2 same_task ts (moved_list rnd ts)"
  by (simp add: list_all2_conv_all_nth moved_list_def moved_same)

definition info_moved :: "TaskState \<times> string \<times> int \<Rightarrow> TaskState \<times> string \<times> int \<Rightarrow> bool" where
  "info_moved v w \<longleftrightarrow> (case v of (st, nm, pr) \<Rightarrow> \<exists>pr'. w = (st, nm, pr') \<and>
     (st = TASK_STATE_RUNNING \<longrightarrow> MIN_PRIORITY \<le> pr' \<and> pr' \<le> MAX_PRIORITY \<and>
        (MIN_PRIORITY \<le> pr \<and> pr \<le> MAX_PRIORITY \<longrightarrow> \<bar>pr' - pr\<bar> \<le> 1)))"

lemma same_task_map:
  assumes "list_all2 same_task ts us"
  shows "(tids_ok us \<longleftrightarrow> tids_ok ts) \<and> length (filter live us) = length (filter live ts) \<and>
     length (filter finished us) = length (filter finished ts) \<and>
     (\<forall>k. rel_option info_moved (task_map ts k) (task_map us k))"
  using assms
proof (induction rule: list_all2_induct)
  case (Cons t ts u us)
  have tu: "live u \<longleftrightarrow> live t" "tcb_tid u = tcb_tid t" "finished u \<longleftrightarrow> finished t" "info_moved (task_info t) (task_info u)"
    using Cons.hyps(1) by (auto simp: same_task_def live_def task_info_def info_moved_def)
  have r: "rel_option info_moved (task_map ts k) (task_map us k)" for k using Cons.IH by blast
  have "task_map us (tcb_tid t) = None \<longleftrightarrow> task_map ts (tcb_tid t) = None"
    using r [of "tcb_tid t"] by (auto simp: option.rel_sel)
  then show ?case using Cons.IH tu r by simp
qed simp

text \<open>The manager's round: done tasks leave, running ones stay with a priority in range.\<close>

definition round_map :: "(u32 \<Rightarrow> (TaskState \<times> string \<times> int) option) \<Rightarrow> (u32 \<Rightarrow> (TaskState \<times> string \<times> int) option) \<Rightarrow> bool" where
  "round_map m m' \<longleftrightarrow>
     (\<forall>k. (\<forall>nm pr. m k = Some (TASK_STATE_RUNNING, nm, pr) \<longrightarrow>
             (\<exists>pr'. m' k = Some (TASK_STATE_RUNNING, nm, pr') \<and> MIN_PRIORITY \<le> pr' \<and> pr' \<le> MAX_PRIORITY \<and>
                (MIN_PRIORITY \<le> pr \<and> pr \<le> MAX_PRIORITY \<longrightarrow> \<bar>pr' - pr\<bar> \<le> 1))) \<and>
          ((\<forall>nm pr. m k \<noteq> Some (TASK_STATE_RUNNING, nm, pr)) \<longrightarrow> m' k = None))"

lemma manager_round_run:
  fixes s :: "'a sched_world_scheme"
  assumes inv: "table_inv s" and safe: "\<forall>t\<in>set (task_list s). prio_safe t"
  shows "\<exists>ts' c' l. manager_round rnd s = Some (Inr ((), s\<lparr>task_list := ts', task_count := c', klog := l\<rparr>)) \<and>
     table_inv (s\<lparr>task_list := ts', task_count := c', klog := l\<rparr>) \<and>
     round_map (task_map (task_list s)) (task_map ts')"
proof -
  let ?ts = "task_list s" and ?us = "moved_list rnd (task_list s)" and ?s1 = "s\<lparr>task_list_lock := True\<rparr>"
  have I: "length ?ts = MAX_TASKS" "\<not> task_list_lock s" "\<not> g_log_mutex s" "tids_ok ?ts"
    "task_count s = of_nat (length (filter live ?ts))" "\<forall>k\<in>dom (task_map ?ts). 0 < k \<and> k < next_tid s"
    using inv by (auto simp: table_inv_def)
  have same: "list_all2 same_task ?ts ?us" by (rule moved_list_same)
  have ulen: "length ?us = MAX_TASKS" using I(1) by (simp add: moved_list_def)
  obtain l where l: "forK 0 MAX_TASKS (update_priority rnd) ?s1 = Some (Inr ((), ?s1\<lparr>task_list := ?us, klog := l\<rparr>))"
    using update_priorities_run [of ?s1 rnd] I safe by auto
  obtain l2 where l2: "reap_tasks (?s1\<lparr>task_list := ?us, klog := l\<rparr>) =
      Some (Inr ((), ?s1\<lparr>task_list := reaped_list ?us,
        task_count := task_count s - of_nat (length (filter finished ?us)), klog := l2\<rparr>))"
    using reap_tasks_run [of "?s1\<lparr>task_list := ?us, klog := l\<rparr>"] ulen I by (cases s) auto
  have ok: "tids_ok ?us" and dn: "length (filter finished ?us) = length (filter finished ?ts)"
    and lv: "length (filter live ?us) = length (filter live ?ts)"
    and tm: "\<forall>k. rel_option info_moved (task_map ?ts k) (task_map ?us k)"
    using same_task_map [OF same] I(4) by auto
  note R = reaped_list_map [OF ok]
  have rm: "round_map (task_map ?ts) (task_map (reaped_list ?us))"
    unfolding round_map_def
  proof (intro allI conjI impI)
    fix k nm pr assume "task_map ?ts k = Some (TASK_STATE_RUNNING, nm, pr)"
    then show "\<exists>pr'. task_map (reaped_list ?us) k = Some (TASK_STATE_RUNNING, nm, pr') \<and>
        MIN_PRIORITY \<le> pr' \<and> pr' \<le> MAX_PRIORITY \<and> (MIN_PRIORITY \<le> pr \<and> pr \<le> MAX_PRIORITY \<longrightarrow> \<bar>pr' - pr\<bar> \<le> 1)"
      using tm [rule_format, of k] by (auto simp: R(3) option_rel_Some1 info_moved_def)
  next
    fix k assume n: "\<forall>nm pr. task_map ?ts k \<noteq> Some (TASK_STATE_RUNNING, nm, pr)"
    show "task_map (reaped_list ?us) k = None"
      using tm [rule_format, of k] n by (cases "task_map ?ts k") (auto simp: R(3) option_rel_Some1 info_moved_def)
  qed
  have "dom (task_map (reaped_list ?us)) \<subseteq> dom (task_map ?ts)"
    using rm unfolding round_map_def by (metis domI domIff option.distinct(1) subsetI)
  moreover have "task_count s - of_nat (length (filter finished ?us)) = of_nat (length (filter live (reaped_list ?us)))"
    using R(4) lv dn I(5) by (metis add_diff_cancel_right' of_nat_add)
  ultimately have "table_inv (s\<lparr>task_list := reaped_list ?us,
      task_count := task_count s - of_nat (length (filter finished ?us)), klog := l2\<rparr>)"
    using I R(1,2) ulen by (auto simp: table_inv_def)
  moreover have "manager_round rnd s = Some (Inr ((), s\<lparr>task_list := reaped_list ?us,
      task_count := task_count s - of_nat (length (filter finished ?us)), klog := l2\<rparr>))"
    using l l2 I(2) by (cases s) (simp add: manager_round_def)
  ultimately show ?thesis using rm by (intro exI conjI) auto
qed

end
