(* ===== verification/SchedRun.thy ===== *)
theory SchedRun
  imports SchedInv
begin

text \<open>
  The scheduler with all its threads: the invariant that ties the started threads to the
  running entries of the table, the step relation whose rules are the operations the
  threads perform in any order, and the properties of the scheduler.
\<close>

section \<open>Threads and table entries\<close>

definition running_tids :: "(u32 \<Rightarrow> (TaskState \<times> string \<times> int) option) \<Rightarrow> u32 set" where
  "running_tids m = {k. \<exists>nm pr. m k = Some (TASK_STATE_RUNNING, nm, pr)}"

text \<open>
  Every thread that runs has its argument block, and the threads correspond one to one to
  the running entries of the task map \<open>m\<close>.
\<close>

definition threads_ok ::
  "nat list \<Rightarrow> (nat \<Rightarrow> ThreadStartArgs option) \<Rightarrow> (u32 \<Rightarrow> (TaskState \<times> string \<times> int) option) \<Rightarrow> bool" where
  "threads_ok st ar m \<longleftrightarrow> distinct st \<and>
     (\<forall>p\<in>set st. \<exists>a pr. ar p = Some a \<and> m (sa_tid a) = Some (TASK_STATE_RUNNING, sa_name a, pr)) \<and>
     inj_on (\<lambda>p. sa_tid (the (ar p))) (set st) \<and>
     running_tids m \<subseteq> (\<lambda>p. sa_tid (the (ar p))) ` set st"

definition prios_ok :: "(u32 \<Rightarrow> (TaskState \<times> string \<times> int) option) \<Rightarrow> bool" where
  "prios_ok m \<longleftrightarrow> (\<forall>k nm pr. m k = Some (TASK_STATE_RUNNING, nm, pr) \<longrightarrow> - (2 ^ 31) < pr \<and> pr < 2 ^ 31 - 1)"

definition sched_inv :: "'a sched_world_scheme \<Rightarrow> bool" where
  "sched_inv s \<longleftrightarrow> table_inv s \<and> threads_ok (started s) (args_mem s) (task_map (task_list s)) \<and>
     prios_ok (task_map (task_list s))"

lemma running_tids_upd [simp]:
  "running_tids (m(k \<mapsto> (TASK_STATE_RUNNING, nm, pr))) = insert k (running_tids m)"
  "running_tids (m(k \<mapsto> (TASK_STATE_DONE, nm, pr))) = running_tids m - {k}"
  by (auto simp: running_tids_def)

lemma running_tids_round: "round_map m m' \<Longrightarrow> running_tids m' = running_tids m"
  by (auto simp: running_tids_def round_map_def) (metis option.distinct(1))+

lemma threads_ok_get:
  assumes "threads_ok st ar m" "p \<in> set st"
  obtains a pr where "ar p = Some a" "m (sa_tid a) = Some (TASK_STATE_RUNNING, sa_name a, pr)"
  using assms unfolding threads_ok_def by blast

lemma threads_ok_remove:
  assumes ok: "threads_ok st ar m" and p: "p \<in> set st" and a: "ar p = Some a"
  shows "threads_ok (remove1 p st) (ar(p := None)) (m(sa_tid a \<mapsto> (TASK_STATE_DONE, nm, pr)))"
proof -
  let ?f = "\<lambda>p. sa_tid (the (ar p))"
  have inj: "inj_on ?f (set st)" and d: "distinct st" using ok by (auto simp: threads_ok_def)
  have ne: "?f q \<noteq> sa_tid a" if "q \<in> set st" "q \<noteq> p" for q
    using inj_onD [OF inj _ that(1) p] that(2) a by auto
  have "\<exists>b pr'. (ar(p := None)) q = Some b \<and>
      (m(sa_tid a \<mapsto> (TASK_STATE_DONE, nm, pr))) (sa_tid b) = Some (TASK_STATE_RUNNING, sa_name b, pr')"
    if "q \<in> set st - {p}" for q
  proof -
    from that have q: "q \<in> set st" "q \<noteq> p" by auto
    obtain b pr' where "ar q = Some b" "m (sa_tid b) = Some (TASK_STATE_RUNNING, sa_name b, pr')"
      by (rule threads_ok_get [OF ok q(1)])
    then show ?thesis using ne [OF q] q(2) by simp
  qed
  moreover have "inj_on (\<lambda>p'. sa_tid (the ((ar(p := None)) p'))) (set st - {p})"
    using inj by (auto simp: inj_on_def)
  moreover have "running_tids m - {sa_tid a} \<subseteq> (\<lambda>p'. sa_tid (the ((ar(p := None)) p'))) ` (set st - {p})"
  proof
    fix x assume x: "x \<in> running_tids m - {sa_tid a}"
    then obtain q where "q \<in> set st" "x = sa_tid (the (ar q))" using ok by (auto simp: threads_ok_def)
    then show "x \<in> (\<lambda>p'. sa_tid (the ((ar(p := None)) p'))) ` (set st - {p})"
      using x a by (intro image_eqI [of _ _ q]) auto
  qed
  ultimately show ?thesis using d unfolding threads_ok_def by (simp add: set_remove1_eq)
qed

lemma threads_ok_add:
  assumes ok: "threads_ok st ar m" and p: "ar p = None" and a: "m (sa_tid a) = None"
  shows "threads_ok (p # st) (ar(p \<mapsto> a)) (m(sa_tid a \<mapsto> (TASK_STATE_RUNNING, sa_name a, pr)))"
proof -
  have np: "p \<notin> set st" using ok p by (auto simp: threads_ok_def)
  have ne: "sa_tid (the (ar q)) \<noteq> sa_tid a" "ar q \<noteq> None" if "q \<in> set st" for q
    using threads_ok_get [OF ok that] a by (metis option.distinct(1) option.sel)+
  have "inj_on (\<lambda>q. sa_tid (the ((ar(p \<mapsto> a)) q))) (set (p # st))"
    using ok np ne(1) ne(1) [THEN not_sym] unfolding threads_ok_def inj_on_def by (metis fun_upd_apply option.sel set_ConsD)
  moreover have "\<exists>b pr'. (ar(p \<mapsto> a)) q = Some b \<and>
      (m(sa_tid a \<mapsto> (TASK_STATE_RUNNING, sa_name a, pr))) (sa_tid b) = Some (TASK_STATE_RUNNING, sa_name b, pr')"
    if q: "q \<in> set st" for q
  proof -
    obtain b pr' where b: "ar q = Some b" "m (sa_tid b) = Some (TASK_STATE_RUNNING, sa_name b, pr')"
      by (rule threads_ok_get [OF ok q])
    moreover have "q \<noteq> p" "sa_tid b \<noteq> sa_tid a" using q np ne(1) [OF q] b(1) by auto
    ultimately show ?thesis by simp
  qed
  moreover have "running_tids m \<subseteq> (\<lambda>q. sa_tid (the ((ar(p \<mapsto> a)) q))) ` set st"
  proof
    fix x assume "x \<in> running_tids m"
    then obtain q where "q \<in> set st" "x = sa_tid (the (ar q))" using ok by (auto simp: threads_ok_def)
    then show "x \<in> (\<lambda>q. sa_tid (the ((ar(p \<mapsto> a)) q))) ` set st" using np by (intro image_eqI [of _ _ q]) auto
  qed
  moreover have "distinct st" using ok by (simp add: threads_ok_def)
  ultimately show ?thesis using np unfolding threads_ok_def by (simp add: subset_insertI2)
qed

lemma threads_ok_round:
  assumes ok: "threads_ok st ar m" and r: "round_map m m'"
  shows "threads_ok st ar m'"
proof -
  have "\<exists>a pr. ar p = Some a \<and> m' (sa_tid a) = Some (TASK_STATE_RUNNING, sa_name a, pr)" if "p \<in> set st" for p
    using threads_ok_get [OF ok that] r unfolding round_map_def by metis
  then show ?thesis using ok running_tids_round [OF r] by (simp add: threads_ok_def)
qed

lemma threads_ok_fresh: "threads_ok st ar m \<Longrightarrow> ar p = None \<Longrightarrow> threads_ok st (ar(p := None)) m"
  by (simp add: fun_upd_idem)

text \<open>Marking a task done.\<close>

lemma set_done_run:
  fixes s :: "'a sched_world_scheme"
  assumes tab: "table_inv s" and a: "args_mem s p = Some a"
    and m: "task_map (task_list s) (sa_tid a) = Some (TASK_STATE_RUNNING, nm, pr)"
  shows "\<exists>i. thread_runner_end p s = Some (Inr ((),
       s\<lparr>task_list := (task_list s)[i := (task_list s ! i)\<lparr>tcb_state := TASK_STATE_DONE\<rparr>],
         klog := klog s @ [(''Task '%s' (TID %u) FINISHED execution.'', [LStr (sa_name a), LNum (uint (sa_tid a))])],
         args_mem := (args_mem s)(p := None)\<rparr>)) \<and>
     i < length (task_list s) \<and> live (task_list s ! i) \<and> tcb_tid (task_list s ! i) = sa_tid a \<and>
     task_info (task_list s ! i) = (TASK_STATE_RUNNING, nm, pr)"
proof -
  have I: "length (task_list s) = MAX_TASKS" "\<not> task_list_lock s" "\<not> g_log_mutex s" "tids_ok (task_list s)"
    using tab by (auto simp: table_inv_def)
  obtain i where i: "find_slot (\<lambda>t. tcb_state t \<noteq> TASK_STATE_INVALID \<and> tcb_tid t = sa_tid a) 0 (task_list s) = Some i"
    "i < length (task_list s)" "live (task_list s ! i)" "tcb_tid (task_list s ! i) = sa_tid a"
    "task_info (task_list s ! i) = (TASK_STATE_RUNNING, nm, pr)"
    by (rule task_map_find [OF I(4,1) m])
  have "thread_runner_end p s = Some (Inr ((),
       s\<lparr>task_list := (task_list s)[i := (task_list s ! i)\<lparr>tcb_state := TASK_STATE_DONE\<rparr>],
         klog := klog s @ [(''Task '%s' (TID %u) FINISHED execution.'', [LStr (sa_name a), LNum (uint (sa_tid a))])],
         args_mem := (args_mem s)(p := None)\<rparr>))"
    using a I i(1,2) by (cases s) (simp add: thread_runner_end_def args_load_def args_free_def set_task_def)
  then show ?thesis using i by blast
qed

text \<open>One thread leaves.\<close>

lemma thread_end_inv:
  fixes s :: "'a sched_world_scheme"
  assumes inv: "sched_inv s" and p: "p \<in> set (started s)"
  shows "\<exists>a pr s'. args_mem s p = Some a \<and>
     task_map (task_list s) (sa_tid a) = Some (TASK_STATE_RUNNING, sa_name a, pr) \<and>
     thread_runner_end p s = Some (Inr ((), s')) \<and>
     task_map (task_list s') = (task_map (task_list s))(sa_tid a \<mapsto> (TASK_STATE_DONE, sa_name a, pr)) \<and>
     klog s' = klog s @ [(''Task '%s' (TID %u) FINISHED execution.'', [LStr (sa_name a), LNum (uint (sa_tid a))])] \<and>
     args_mem s' = (args_mem s)(p := None) \<and> started s' = started s \<and> next_tid s' = next_tid s \<and>
     sched_inv (s'\<lparr>started := remove1 p (started s')\<rparr>)"
proof -
  have tab: "table_inv s" and ti: "threads_ok (started s) (args_mem s) (task_map (task_list s))" using inv by (auto simp: sched_inv_def)
  obtain a pr where a: "args_mem s p = Some a"
    and m: "task_map (task_list s) (sa_tid a) = Some (TASK_STATE_RUNNING, sa_name a, pr)"
    by (rule threads_ok_get [OF ti p])
  obtain i where r: "thread_runner_end p s = Some (Inr ((),
       s\<lparr>task_list := (task_list s)[i := (task_list s ! i)\<lparr>tcb_state := TASK_STATE_DONE\<rparr>],
         klog := klog s @ [(''Task '%s' (TID %u) FINISHED execution.'', [LStr (sa_name a), LNum (uint (sa_tid a))])],
         args_mem := (args_mem s)(p := None)\<rparr>))" (is "_ = Some (Inr ((), ?s'))")
    and i: "i < length (task_list s)" "live (task_list s ! i)" "tcb_tid (task_list s ! i) = sa_tid a"
      "task_info (task_list s ! i) = (TASK_STATE_RUNNING, sa_name a, pr)"
    using set_done_run [OF tab a m] by blast
  let ?t = "(task_list s ! i)\<lparr>tcb_state := TASK_STATE_DONE\<rparr>"
  have t: "live ?t" "tcb_tid ?t = tcb_tid (task_list s ! i)" "task_info ?t = (TASK_STATE_DONE, sa_name a, pr)"
    using i(4) by (simp_all add: live_def task_info_def)
  have ok: "tids_ok (task_list s)" using tab by (simp add: table_inv_def)
  note U = task_map_update [OF ok i(1,2) t(1,2), unfolded t(3)]
  have tm: "task_map (task_list ?s') = (task_map (task_list s))(sa_tid a \<mapsto> (TASK_STATE_DONE, sa_name a, pr))"
    using U(2) i(3) by simp
  have "sched_inv (?s'\<lparr>started := remove1 p (started ?s')\<rparr>)"
    using tab U i(3) m threads_ok_remove [OF ti p a] inv by (auto simp: sched_inv_def table_inv_def prios_ok_def)
  then show ?thesis using a m r tm by (intro exI [of _ a] exI [of _ pr] exI [of _ ?s'] conjI) simp_all
qed


text \<open>A task is created, or the table stays as it was.\<close>

lemma card_task_map: "tids_ok ts \<Longrightarrow> card (dom (task_map ts)) = length (filter live ts)"
  unfolding dom_task_map tids_ok_def by (metis distinct_card length_map set_map)

lemma free_slot_iff:
  assumes "length ts = MAX_TASKS"
  shows "find_slot (\<lambda>t. tcb_state t = TASK_STATE_INVALID) 0 ts = None \<longleftrightarrow> length (filter live ts) = MAX_TASKS"
proof
  assume "find_slot (\<lambda>t. tcb_state t = TASK_STATE_INVALID) 0 ts = None"
  then have "\<forall>t\<in>set ts. live t"
    using find_slot_None [of "\<lambda>t. tcb_state t = TASK_STATE_INVALID" 0 ts] assms by (auto simp: live_def in_set_conv_nth)
  then show "length (filter live ts) = MAX_TASKS" using assms by (simp add: filter_True)
next
  assume "length (filter live ts) = MAX_TASKS"
  then have "\<forall>t\<in>set ts. live t" using assms by (metis length_filter_less less_irrefl)
  then show "find_slot (\<lambda>t. tcb_state t = TASK_STATE_INVALID) 0 ts = None"
    using find_slot_Some [of "\<lambda>t. tcb_state t = TASK_STATE_INVALID" 0 ts] assms
    by (cases "find_slot (\<lambda>t. tcb_state t = TASK_STATE_INVALID) 0 ts") (auto simp: live_def)
qed

definition created :: "nat \<Rightarrow> u32 \<Rightarrow> string \<Rightarrow> int \<Rightarrow> 'a sched_world_scheme \<Rightarrow> 'a sched_world_scheme \<Rightarrow> bool" where
  "created p k nm prio s s' \<longleftrightarrow> k = next_tid s \<and> task_map (task_list s) k = None \<and>
     task_map (task_list s') = (task_map (task_list s))(k \<mapsto> (TASK_STATE_RUNNING, copy_name nm, prio)) \<and>
     started s' = p # started s \<and> next_tid s' = next_tid s + 1"

definition not_created :: "'a sched_world_scheme \<Rightarrow> 'a sched_world_scheme \<Rightarrow> bool" where
  "not_created s s' \<longleftrightarrow> task_map (task_list s') = task_map (task_list s) \<and> started s' = started s \<and>
     args_mem s' = args_mem s \<and> next_tid s' \<in> {next_tid s, next_tid s + 1}"

lemma inc32: "(k :: u32) + 1 \<noteq> 0 \<Longrightarrow> k < k + 1"
  using unatSuc [of k] by (simp add: word_less_nat_alt add.commute)

lemma create_in_free_slot:
  fixes s :: "'a sched_world_scheme"
  assumes inv: "sched_inv s" and k: "next_tid s \<noteq> 0" "next_tid s + 1 \<noteq> 0" and p: "args_mem s p = None"
    and pr: "MIN_PRIORITY \<le> prio" "prio \<le> MAX_PRIORITY" and free: "length (filter live (task_list s)) < MAX_TASKS"
  shows "\<exists>k s'. kernel_create_thread (Some p) rc h nm prio entry arg s = Some (Inr (k, s')) \<and> sched_inv s' \<and>
     (if rc = 0 then k \<noteq> 0 \<and> created p k nm prio s s' else k = 0 \<and> not_created s s')"
proof -
  let ?ts = "task_list s"
  have tab: "length ?ts = MAX_TASKS" "\<not> task_list_lock s" "\<not> g_log_mutex s" "tids_ok ?ts"
    "task_count s = of_nat (length (filter live ?ts))" "\<forall>k\<in>dom (task_map ?ts). 0 < k \<and> k < next_tid s"
    and th: "threads_ok (started s) (args_mem s) (task_map ?ts)" and po: "prios_ok (task_map ?ts)"
    using inv unfolding sched_inv_def table_inv_def by simp_all
  have lt: "next_tid s < next_tid s + 1" using k(2) by (rule inc32)
  have up: "\<forall>k\<in>dom (task_map ?ts). 0 < k \<and> k < next_tid s + 1" using tab(6) lt order.strict_trans by blast
  obtain i where i: "find_slot (\<lambda>t. tcb_state t = TASK_STATE_INVALID) 0 ?ts = Some i"
    using free_slot_iff [OF tab(1)] free by (metis less_irrefl not_None_eq)
  have il: "i < length ?ts" and dead: "\<not> live (?ts ! i)"
    using find_slot_Some [OF i] tab(1) by (auto simp: live_def)
  have none: "task_map ?ts (next_tid s) = None" using tab(6) by (metis domIff less_irrefl)
  show ?thesis
  proof (cases "rc = 0")
    case True
    let ?t = "fresh_tcb (next_tid s) h nm prio"
    have t: "live ?t" "tcb_tid ?t = next_tid s" "task_info ?t = (TASK_STATE_RUNNING, copy_name nm, prio)"
      by (simp_all add: fresh_tcb_def live_def task_info_def)
    note U = task_map_insert [OF tab(4) il dead t(1), unfolded t(2,3), OF none]
    let ?a = "\<lparr>sa_tid = next_tid s, sa_entry = entry, sa_arg = arg, sa_name = copy_name nm\<rparr>"
    have "threads_ok (p # started s) ((args_mem s)(p \<mapsto> ?a))
        ((task_map ?ts)(next_tid s \<mapsto> (TASK_STATE_RUNNING, copy_name nm, prio)))"
      using threads_ok_add [OF th p, of ?a prio] none by simp
    moreover have "prios_ok ((task_map ?ts)(next_tid s \<mapsto> (TASK_STATE_RUNNING, copy_name nm, prio)))"
      using po pr by (auto simp: prios_ok_def)
    moreover have "0 < next_tid s" using k(1) by (simp add: word_gt_0)
    ultimately have "sched_inv s'" "created p (next_tid s) nm prio s s'"
      if "s' = s\<lparr>task_list := ?ts[i := ?t], task_count := task_count s + 1, next_tid := next_tid s + 1, klog := l,
        args_mem := (args_mem s)(p \<mapsto> ?a), started := p # started s\<rparr>" for s' l
      using that U tab(1-5) up lt none by (simp_all add: sched_inv_def table_inv_def created_def)
    then show ?thesis
      using create_success [OF pr tab(2,3) i il k(1), of p h nm entry arg] True k(1) by simp
  next
    case False
    let ?t = "(?ts ! i)\<lparr>tcb_tid := next_tid s, tcb_priority := prio, tcb_name := copy_name nm, tcb_state := TASK_STATE_INVALID\<rparr>"
    have "\<not> live ?t" by (simp add: live_def)
    note U = task_map_dead [OF tab(4) il dead this]
    have "sched_inv s'" "not_created s s'"
      if "s' = s\<lparr>task_list := ?ts[i := ?t], next_tid := next_tid s + 1, klog := l, args_mem := (args_mem s)(p := None)\<rparr>" for s' l
      using that U tab(1-5) up th po p by (simp_all add: sched_inv_def table_inv_def not_created_def fun_upd_idem)
    then show ?thesis
      using create_thread_fails [OF pr tab(2,3) False i il, of p h nm entry arg] False by simp
  qed
qed

lemma create_thread_inv:
  fixes s :: "'a sched_world_scheme"
  assumes inv: "sched_inv s" and k: "next_tid s \<noteq> 0" "next_tid s + 1 \<noteq> 0"
    and p: "\<forall>p. mem = Some p \<longrightarrow> args_mem s p = None"
  shows "\<exists>k s'. kernel_create_thread mem rc h nm prio entry arg s = Some (Inr (k, s')) \<and> sched_inv s' \<and>
     (k \<noteq> 0 \<longleftrightarrow> MIN_PRIORITY \<le> prio \<and> prio \<le> MAX_PRIORITY \<and> mem \<noteq> None \<and> rc = 0 \<and>
        card (dom (task_map (task_list s))) < MAX_TASKS) \<and>
     (if k = 0 then not_created s s' else created (the mem) k nm prio s s')"
proof (cases "prio < MIN_PRIORITY \<or> MAX_PRIORITY < prio \<or> mem = None")
  case True
  then obtain l where "kernel_create_thread mem rc h nm prio entry arg s = Some (Inr (0, s\<lparr>klog := klog s @ [l]\<rparr>))"
    using create_rejected [OF True, of s rc h nm entry arg] inv by (auto simp: sched_inv_def table_inv_def)
  then show ?thesis using True inv by (auto simp: sched_inv_def table_inv_def not_created_def)
next
  case False
  then obtain p where mp: "mem = Some p" and pr: "MIN_PRIORITY \<le> prio" "prio \<le> MAX_PRIORITY" by auto
  have ok: "tids_ok (task_list s)" and len: "length (task_list s) = MAX_TASKS"
    and lk: "\<not> task_list_lock s" "\<not> g_log_mutex s" using inv by (auto simp: sched_inv_def table_inv_def)
  show ?thesis
  proof (cases "length (filter live (task_list s)) < MAX_TASKS")
    case True
    obtain k' s' where "kernel_create_thread (Some p) rc h nm prio entry arg s = Some (Inr (k', s'))" "sched_inv s'"
      "if rc = 0 then k' \<noteq> 0 \<and> created p k' nm prio s s' else k' = 0 \<and> not_created s s'"
      using create_in_free_slot [OF inv k p [rule_format, OF mp] pr True, of rc h nm entry arg] by blast
    then show ?thesis using mp pr True card_task_map [OF ok] by (cases "rc = 0") simp_all
  next
    case False
    then have "length (filter live (task_list s)) = MAX_TASKS"
      using length_filter_le [of live "task_list s"] len by linarith
    then show ?thesis
      using create_no_slot [OF pr lk, of p rc h nm entry arg] free_slot_iff [OF len] p mp card_task_map [OF ok] inv
      by (auto simp: sched_inv_def table_inv_def not_created_def fun_upd_idem)
  qed
qed

text \<open>A simulated priority is set.\<close>

lemma task_map_at:
  assumes "tids_ok ts" "i < length ts" "live (ts ! i)"
  shows "task_map ts (tcb_tid (ts ! i)) = Some (task_info (ts ! i))"
proof -
  obtain xs u ys where xy: "ts = xs @ u # ys" "ts ! i = u" by (rule slot_split [OF assms(2)])
  have "task_map (xs @ u # ys) (tcb_tid u) = Some (task_info u)"
    using task_map_slot [of xs u ys] assms(1,3) unfolding xy(2) unfolding xy(1) by simp
  then show ?thesis unfolding xy(2) unfolding xy(1) .
qed

lemma threads_ok_prio:
  assumes ok: "threads_ok st ar m" and k: "m k = Some (TASK_STATE_RUNNING, nm, pr)"
  shows "threads_ok st ar (m(k \<mapsto> (TASK_STATE_RUNNING, nm, prio)))"
proof -
  have "\<exists>a pr'. ar p = Some a \<and>
      (m(k \<mapsto> (TASK_STATE_RUNNING, nm, prio))) (sa_tid a) = Some (TASK_STATE_RUNNING, sa_name a, pr')" if p: "p \<in> set st" for p
  proof -
    obtain a pr' where "ar p = Some a" "m (sa_tid a) = Some (TASK_STATE_RUNNING, sa_name a, pr')"
      by (rule threads_ok_get [OF ok p])
    then show ?thesis using k by (cases "sa_tid a = k") auto
  qed
  moreover have "k \<in> running_tids m" using k by (auto simp: running_tids_def)
  then have "insert k (running_tids m) = running_tids m" by blast
  ultimately show ?thesis using ok unfolding threads_ok_def running_tids_upd by auto
qed

lemma set_priority_inv:
  fixes s :: "'a sched_world_scheme"
  assumes inv: "sched_inv s" and pr: "- (2 ^ 31) < prio" "prio < 2 ^ 31 - 1"
  shows "\<exists>s'. kernel_set_priority k prio s = Some (Inr ((), s')) \<and> sched_inv s' \<and> next_tid s' = next_tid s \<and>
     started s' = started s \<and> args_mem s' = args_mem s \<and>
     (\<forall>nm pr. task_map (task_list s) k = Some (TASK_STATE_RUNNING, nm, pr) \<longrightarrow>
        task_map (task_list s') = (task_map (task_list s))(k \<mapsto> (TASK_STATE_RUNNING, nm, prio))) \<and>
     (k \<notin> running_tids (task_map (task_list s)) \<longrightarrow> task_list s' = task_list s)"
proof -
  let ?ts = "task_list s" and ?c = "\<lambda>t. tcb_state t = TASK_STATE_RUNNING \<and> tcb_tid t = k"
  have tab: "length ?ts = MAX_TASKS" "\<not> task_list_lock s" "tids_ok ?ts"
    and th: "threads_ok (started s) (args_mem s) (task_map ?ts)" and po: "prios_ok (task_map ?ts)"
    using inv unfolding sched_inv_def table_inv_def by simp_all
  show ?thesis
  proof (cases "find_slot ?c 0 ?ts")
    case None
    have "kernel_set_priority k prio s = Some (Inr ((), s))"
      using None tab(2) by (simp add: kernel_set_priority_def unlock_id)
    moreover have "k \<notin> running_tids (task_map ?ts)"
    proof
      assume "k \<in> running_tids (task_map ?ts)"
      then obtain nm q where "task_map ?ts k = Some (TASK_STATE_RUNNING, nm, q)" by (auto simp: running_tids_def)
      then show False
        by (rule task_map_find [OF tab(3,1)]) (use find_slot_None [OF None] tab(1) in \<open>auto simp: task_info_def\<close>)
    qed
    ultimately show ?thesis using inv by (intro exI [of _ s]) (auto simp: running_tids_def)
  next
    case (Some i)
    let ?t = "(?ts ! i)\<lparr>tcb_priority := prio\<rparr>"
    have i: "i < length ?ts" "live (?ts ! i)" "tcb_tid (?ts ! i) = k" "running (?ts ! i)"
      using find_slot_Some [OF Some] tab(1) by (auto simp: live_def)
    have t: "live ?t" "tcb_tid ?t = tcb_tid (?ts ! i)" "task_info ?t = (TASK_STATE_RUNNING, tcb_name (?ts ! i), prio)"
      using i by (simp_all add: live_def task_info_def)
    note U = task_map_update [OF tab(3) i(1,2) t(1,2), unfolded t(3)]
    have m: "task_map ?ts k = Some (TASK_STATE_RUNNING, tcb_name (?ts ! i), tcb_priority (?ts ! i))"
      using task_map_at [OF tab(3) i(1,2)] i(3,4) by (simp add: task_info_def)
    have "kernel_set_priority k prio s = Some (Inr ((), s\<lparr>task_list := ?ts[i := ?t]\<rparr>))"
      using Some tab(2) by (cases s) (simp add: kernel_set_priority_def set_task_def)
    moreover have "sched_inv (s\<lparr>task_list := ?ts[i := ?t]\<rparr>)"
      using inv U i(3) m pr threads_ok_prio [OF th m] po by (auto simp: sched_inv_def table_inv_def prios_ok_def)
    ultimately show ?thesis using m U(2) i(3) by (auto simp: running_tids_def)
  qed
qed

lemma round_inv:
  fixes s :: "'a sched_world_scheme"
  assumes inv: "sched_inv s"
  shows "\<exists>s'. manager_round rnd s = Some (Inr ((), s')) \<and> sched_inv s' \<and> next_tid s' = next_tid s \<and>
     started s' = started s \<and> args_mem s' = args_mem s \<and>
     round_map (task_map (task_list s)) (task_map (task_list s'))"
proof -
  have tab: "table_inv s" and th: "threads_ok (started s) (args_mem s) (task_map (task_list s))"
    and po: "prios_ok (task_map (task_list s))" and ok: "tids_ok (task_list s)"
    using inv unfolding sched_inv_def table_inv_def by simp_all
  have "prio_safe t" if t: "t \<in> set (task_list s)" for t
  proof -
    obtain i where i: "i < length (task_list s)" "t = task_list s ! i" using t by (auto simp: in_set_conv_nth)
    have "task_map (task_list s) (tcb_tid t) = Some (TASK_STATE_RUNNING, tcb_name t, tcb_priority t)" if "running t"
      using task_map_at [OF ok i(1)] that i(2) by (simp add: live_def task_info_def)
    then show ?thesis using po unfolding prio_safe_def prios_ok_def by blast
  qed
  then obtain ts' c' l where r: "manager_round rnd s = Some (Inr ((), s\<lparr>task_list := ts', task_count := c', klog := l\<rparr>))"
    and t: "table_inv (s\<lparr>task_list := ts', task_count := c', klog := l\<rparr>)"
    and m: "round_map (task_map (task_list s)) (task_map ts')"
    using manager_round_run [OF tab] by blast
  have "prios_ok (task_map ts')"
    unfolding prios_ok_def
  proof (intro allI impI)
    fix k nm pr assume k: "task_map ts' k = Some (TASK_STATE_RUNNING, nm, pr)"
    have "\<not> (\<forall>nm pr. task_map (task_list s) k \<noteq> Some (TASK_STATE_RUNNING, nm, pr))"
    proof
      assume "\<forall>nm pr. task_map (task_list s) k \<noteq> Some (TASK_STATE_RUNNING, nm, pr)"
      then have "task_map ts' k = None" using m unfolding round_map_def by blast
      then show False using k by simp
    qed
    then obtain nm' q where "task_map (task_list s) k = Some (TASK_STATE_RUNNING, nm', q)" by blast
    then have "MIN_PRIORITY \<le> pr \<and> pr \<le> MAX_PRIORITY" using m k unfolding round_map_def
      by (metis Pair_inject option.inject)
    then show "- (2 ^ 31) < pr \<and> pr < 2 ^ 31 - 1" by simp
  qed
  then have "sched_inv (s\<lparr>task_list := ts', task_count := c', klog := l\<rparr>)"
    using t threads_ok_round [OF th m] by (simp add: sched_inv_def)
  then show ?thesis using r m
    by (intro exI [of _ "s\<lparr>task_list := ts', task_count := c', klog := l\<rparr>"]) simp
qed

section \<open>All threads together\<close>

text \<open>
  One step of the system: some thread performs one operation. \<open>malloc\<close> returns a block
  that is not in use; a thread that ends leaves the list of started threads. A priority set
  through the API is any \<open>int\<close> but the two extreme values.
\<close>

inductive sched_step :: "nat \<Rightarrow> sched_world \<Rightarrow> nat \<Rightarrow> sched_world \<Rightarrow> bool" where
  create: "\<lbrakk>\<forall>p. mem = Some p \<longrightarrow> args_mem s p = None;
     kernel_create_thread mem rc h nm prio entry arg s = Some (Inr (k, s'))\<rbrakk> \<Longrightarrow> sched_step n s (Suc n) s'"
| begins: "\<lbrakk>p \<in> set (started s); thread_runner_begin p s = Some (Inr (a, s'))\<rbrakk> \<Longrightarrow> sched_step n s n s'"
| ends: "\<lbrakk>p \<in> set (started s); thread_runner_end p s = Some (Inr ((), s'))\<rbrakk> \<Longrightarrow>
     sched_step n s n (s'\<lparr>started := remove1 p (started s')\<rparr>)"
| priority: "\<lbrakk>- (2 ^ 31) < prio; prio < 2 ^ 31 - 1; kernel_set_priority k prio s = Some (Inr ((), s'))\<rbrakk> \<Longrightarrow>
     sched_step n s n s'"
| manage: "manager_round rnd s = Some (Inr ((), s')) \<Longrightarrow> sched_step n s n s'"

text \<open>The states the system can get into; the number counts the calls of \<open>kernel_create_thread\<close>.\<close>

inductive sched_run :: "nat \<Rightarrow> sched_world \<Rightarrow> bool" where
  init: "\<lbrakk>length (task_list s) = MAX_TASKS; \<not> g_log_mutex s; started s = [];
     initialize_scheduler s = Some (Inr ((), s'))\<rbrakk> \<Longrightarrow> sched_run 0 s'"
| step: "\<lbrakk>sched_run n s; sched_step n s n' s'\<rbrakk> \<Longrightarrow> sched_run n' s'"

inductive_cases sched_stepE: "sched_step n s n' s'"

lemma initialize_scheduler_inv:
  fixes s :: "'a sched_world_scheme"
  assumes "length (task_list s) = MAX_TASKS" "\<not> g_log_mutex s" "started s = []"
  shows "\<exists>s'. initialize_scheduler s = Some (Inr ((), s')) \<and> sched_inv s' \<and> next_tid s' = 1 \<and>
     task_map (task_list s') = Map.empty"
proof -
  let ?s = "s\<lparr>task_count := 0, next_tid := 1, terminate_manager := False, task_list_lock := False\<rparr>"
  have "initialize_scheduler s = Some (Inr ((), ?s\<lparr>task_list := map clear_task (task_list s),
      klog := klog s @ [(''Scheduler initialized.'', [])]\<rparr>))"
    using clear_slots_run [of ?s 0] assms by (simp add: initialize_scheduler_def)
  moreover have "threads_ok [] ar Map.empty" "prios_ok Map.empty" for ar
    by (simp_all add: threads_ok_def running_tids_def prios_ok_def)
  ultimately show ?thesis using assms by (auto simp: sched_inv_def table_inv_def)
qed

lemma sched_step_inv:
  assumes "sched_step n s n' s'" "sched_inv s" "next_tid s \<noteq> 0" "next_tid s + 1 \<noteq> 0"
  shows "sched_inv s' \<and> (next_tid s' = next_tid s \<or> n' = Suc n \<and> next_tid s' = next_tid s + 1)"
  using assms(1)
proof cases
  case (create mem rc h nm prio entry arg k)
  obtain k' t where r: "kernel_create_thread mem rc h nm prio entry arg s = Some (Inr (k', t))" and t: "sched_inv t"
    and c: "if k' = 0 then not_created s t else created (the mem) k' nm prio s t"
    using create_thread_inv [OF assms(2-4) create(2), of rc h nm prio entry arg] by blast
  have "next_tid t = next_tid s \<or> next_tid t = next_tid s + 1"
    using c by (cases "k' = 0") (simp_all add: not_created_def created_def)
  moreover have "s' = t" using r create(3) by simp
  ultimately show ?thesis using t create(1) by simp
next
  case (begins p a)
  have "g_log_mutex s = False" using assms(2) by (simp add: sched_inv_def table_inv_def)
  moreover obtain b where "args_mem s p = Some b"
    using assms(2) begins(2) unfolding sched_inv_def threads_ok_def by blast
  ultimately have "\<exists>l. s' = s\<lparr>klog := l\<rparr>"
    using begins(3) by (auto simp: thread_runner_begin_def args_load_def)
  then show ?thesis using assms(2) by (auto simp: sched_inv_def table_inv_def)
next
  case (ends p t)
  obtain u where "thread_runner_end p s = Some (Inr ((), u))" "next_tid u = next_tid s"
    "sched_inv (u\<lparr>started := remove1 p (started u)\<rparr>)"
    using thread_end_inv [OF assms(2) ends(3)] by blast
  then show ?thesis using ends by simp
next
  case (priority prio k)
  obtain u where "kernel_set_priority k prio s = Some (Inr ((), u))" "next_tid u = next_tid s" "sched_inv u"
    using set_priority_inv [OF assms(2) priority(2,3), of k] by blast
  then show ?thesis using priority by simp
next
  case (manage rnd)
  obtain u where "manager_round rnd s = Some (Inr ((), u))" "next_tid u = next_tid s" "sched_inv u"
    using round_inv [OF assms(2), of rnd] by blast
  then show ?thesis using manage by simp
qed

lemma sched_run_bound:
  assumes "sched_run n s" "n < 2 ^ 32 - 2"
  shows "sched_inv s \<and> next_tid s \<noteq> 0 \<and> unat (next_tid s) \<le> Suc n"
  using assms
proof (induction rule: sched_run.induct)
  case (init s s')
  then obtain t where "initialize_scheduler s = Some (Inr ((), t))" "sched_inv t" "next_tid t = 1"
    using initialize_scheduler_inv [of s] by blast
  then show ?case using init(4) by simp
next
  case (step n s n' s')
  from step.hyps(2) have nn: "n \<le> n' \<and> n' \<le> Suc n" by cases simp_all
  then have ih: "sched_inv s" "next_tid s \<noteq> 0" "unat (next_tid s) \<le> Suc n" using step.IH step.prems by simp_all
  have lt: "unat (next_tid s) + unat (1 :: u32) < 2 ^ LENGTH(32)" using ih(3) step.prems nn by simp
  have u: "unat (next_tid s + 1) = Suc (unat (next_tid s))"
    using unat_add_lem [THEN iffD1, OF lt] by simp
  then have nz: "next_tid s + 1 \<noteq> 0" by (metis nat.distinct(1) unat_0)
  from sched_step_inv [OF step.hyps(2) ih(1,2) nz] nn ih u nz show ?case by (elim conjE disjE) simp_all
qed


section \<open>Properties\<close>

text \<open>A state to run the theorems on: an empty table, and one with two tasks.\<close>

definition sched_empty :: sched_world where
  "sched_empty = \<lparr>task_list = replicate MAX_TASKS \<lparr>tcb_tid = 0, tcb_handle = 0, tcb_state = TASK_STATE_INVALID,
       tcb_priority = 0, tcb_name = []\<rparr>,
     task_count = 0, task_list_lock = False, terminate_manager = False, next_tid = 1,
     g_log_mutex = False, klog = [], args_mem = (\<lambda>_. None), started = []\<rparr>"

lemma sched_empty_init:
  "sched_run 0 (sched_empty\<lparr>task_list := map clear_task (task_list sched_empty), klog := [(''Scheduler initialized.'', [])]\<rparr>)"
  by (rule sched_run.init [of sched_empty])
    (use clear_slots_run [of sched_empty 0] in \<open>simp_all add: sched_empty_def initialize_scheduler_def\<close>)

lemma sched_empty_inv: "sched_inv sched_empty"
proof -
  have "task_map (replicate n t) = Map.empty" "filter live (replicate n t) = []" if "\<not> live t" for n t
    using that by (induction n) auto
  then show ?thesis
    by (simp add: sched_inv_def table_inv_def sched_empty_def live_def tids_ok_def threads_ok_def running_tids_def prios_ok_def)
qed



text \<open>
  C10: Creating a task always returns. It succeeds exactly when the priority is in range,
  memory and a thread are available and fewer than 64 tasks are in the table; then the
  identifier is new and non-zero and the table gains exactly that task, RUNNING, with the
  name cut to 31 characters. Otherwise it returns 0 and table, threads and allocated memory
  are as before.
\<close>

theorem kernel_create_thread_correct:
  fixes s :: "'a sched_world_scheme"
  assumes "sched_inv s" "next_tid s \<noteq> 0" "next_tid s + 1 \<noteq> 0" "\<forall>p. mem = Some p \<longrightarrow> args_mem s p = None"
  shows "\<exists>k s'. kernel_create_thread mem rc h nm prio entry arg s = Some (Inr (k, s')) \<and> sched_inv s' \<and>
     (k \<noteq> 0 \<longleftrightarrow> MIN_PRIORITY \<le> prio \<and> prio \<le> MAX_PRIORITY \<and> mem \<noteq> None \<and> rc = 0 \<and>
        card (dom (task_map (task_list s))) < MAX_TASKS) \<and>
     (if k = 0 then not_created s s' else created (the mem) k nm prio s s')"
  by (rule create_thread_inv [OF assms])

theorem kernel_create_thread_correct_witness:
  "\<exists>k s'. kernel_create_thread (Some 7) 0 1 ''HighPrio'' 90 0 0 sched_empty = Some (Inr (k, s')) \<and> sched_inv s' \<and>
     (k \<noteq> 0 \<longleftrightarrow> MIN_PRIORITY \<le> 90 \<and> (90 :: int) \<le> MAX_PRIORITY \<and> Some (7 :: nat) \<noteq> None \<and> (0 :: int) = 0 \<and>
        card (dom (task_map (task_list sched_empty))) < MAX_TASKS) \<and>
     (if k = 0 then not_created sched_empty s' else created (the (Some 7)) k ''HighPrio'' 90 sched_empty s')"
  by (rule kernel_create_thread_correct [OF sched_empty_inv]) (simp_all add: sched_empty_def)

text \<open>
  A task that ends finds its own entry: the wrapper returns, marks exactly that task
  DONE, never reports a lost entry, frees the argument block once, and the invariant holds
  without the thread.
\<close>

theorem thread_runner_end_correct:
  fixes s :: "'a sched_world_scheme"
  assumes "sched_inv s" "p \<in> set (started s)"
  shows "\<exists>a pr s'. args_mem s p = Some a \<and>
     task_map (task_list s) (sa_tid a) = Some (TASK_STATE_RUNNING, sa_name a, pr) \<and>
     thread_runner_end p s = Some (Inr ((), s')) \<and>
     task_map (task_list s') = (task_map (task_list s))(sa_tid a \<mapsto> (TASK_STATE_DONE, sa_name a, pr)) \<and>
     klog s' = klog s @ [(''Task '%s' (TID %u) FINISHED execution.'', [LStr (sa_name a), LNum (uint (sa_tid a))])] \<and>
     args_mem s' = (args_mem s)(p := None) \<and> started s' = started s \<and> next_tid s' = next_tid s \<and>
     sched_inv (s'\<lparr>started := remove1 p (started s')\<rparr>)"
  by (rule thread_end_inv [OF assms])

text \<open>The empty table with one task in slot 0.\<close>

definition sched_one :: sched_world where
  "sched_one = sched_empty\<lparr>task_list := (task_list sched_empty)[0 := fresh_tcb 1 1 ''HighPrio'' 90], task_count := 1,
     next_tid := 2, klog := [], args_mem := [7 \<mapsto> \<lparr>sa_tid = 1, sa_entry = 0, sa_arg = 0, sa_name = ''HighPrio''\<rparr>],
     started := [7]\<rparr>"

lemma sched_one_map: "task_map (task_list sched_one) = [1 \<mapsto> (TASK_STATE_RUNNING, ''HighPrio'', 90)]"
  and sched_one_inv: "sched_inv sched_one"
proof -
  let ?d = "\<lparr>tcb_tid = 0, tcb_handle = 0, tcb_state = TASK_STATE_INVALID, tcb_priority = 0, tcb_name = []\<rparr> :: TCB"
  have d: "task_map (replicate n ?d) = Map.empty" "filter live (replicate n ?d) = []" for n
    by (induction n) (auto simp: live_def)
  have l: "task_list sched_one = fresh_tcb 1 1 ''HighPrio'' 90 # replicate 63 ?d"
    unfolding sched_one_def sched_empty_def by (simp add: numeral_eq_Suc)
  show m: "task_map (task_list sched_one) = [1 \<mapsto> (TASK_STATE_RUNNING, ''HighPrio'', 90)]"
    unfolding l by (simp add: d fresh_tcb_def live_def task_info_def copy_name_def)
  have f: "filter live (task_list sched_one) = [fresh_tcb 1 1 ''HighPrio'' 90]" "length (task_list sched_one) = 64"
    unfolding l by (simp_all add: d fresh_tcb_def live_def)
  have "tids_ok (task_list sched_one)" by (simp add: tids_ok_def f)
  moreover have "prios_ok [1 \<mapsto> (TASK_STATE_RUNNING, ''HighPrio'', 90)]" by (simp add: prios_ok_def)
  moreover have "threads_ok (started sched_one) (args_mem sched_one) [1 \<mapsto> (TASK_STATE_RUNNING, ''HighPrio'', 90)]"
    by (auto simp: threads_ok_def running_tids_def sched_one_def split: if_splits)
  ultimately show "sched_inv sched_one"
    unfolding sched_inv_def table_inv_def m f by (simp add: sched_one_def sched_empty_def)
qed

theorem thread_runner_end_correct_witness:
  "\<exists>a pr s'. args_mem sched_one 7 = Some a \<and>
     task_map (task_list sched_one) (sa_tid a) = Some (TASK_STATE_RUNNING, sa_name a, pr) \<and>
     thread_runner_end 7 sched_one = Some (Inr ((), s')) \<and>
     task_map (task_list s') = (task_map (task_list sched_one))(sa_tid a \<mapsto> (TASK_STATE_DONE, sa_name a, pr)) \<and>
     klog s' = klog sched_one @ [(''Task '%s' (TID %u) FINISHED execution.'', [LStr (sa_name a), LNum (uint (sa_tid a))])] \<and>
     args_mem s' = (args_mem sched_one)(7 := None) \<and> started s' = started sched_one \<and> next_tid s' = next_tid sched_one \<and>
     sched_inv (s'\<lparr>started := remove1 7 (started s')\<rparr>)"
  by (rule thread_runner_end_correct [OF sched_one_inv]) (simp add: sched_one_def)

text \<open>
  C11: The compaction loop of \<open>reap_tasks\<close>, which copies entries forward within the one
  array, computes what \<open>filter\<close> computes: the RUNNING entries in their order, then cleared
  slots; the counter drops by the number of DONE entries.
\<close>

theorem reap_tasks_filter:
  fixes s :: "'a sched_world_scheme"
  assumes "length (task_list s) = MAX_TASKS" "\<not> g_log_mutex s"
  shows "\<exists>l. reap_tasks s = Some (Inr ((), s\<lparr>
       task_list := filter running (task_list s) @ map clear_task (drop (length (filter running (task_list s))) (task_list s)),
       task_count := task_count s - of_nat (length (filter finished (task_list s))), klog := l\<rparr>))"
  using reap_tasks_run [OF assms] by (simp add: reaped_list_def)

theorem reap_tasks_filter_witness:
  "\<exists>l. reap_tasks sched_one = Some (Inr ((), sched_one\<lparr>
       task_list := filter running (task_list sched_one) @
         map clear_task (drop (length (filter running (task_list sched_one))) (task_list sched_one)),
       task_count := task_count sched_one - of_nat (length (filter finished (task_list sched_one))), klog := l\<rparr>))"
  by (rule reap_tasks_filter) (simp_all add: sched_one_def sched_empty_def)

text \<open>
  C12: A round of the manager returns and drains the table: no DONE task is left, every
  RUNNING task is still there under its name with a priority in 1..99 that moved by at most
  one if it was in range, and when no thread is running any more the table is empty and
  \<open>task_count\<close> is 0.
\<close>

theorem manager_round_drains:
  fixes s :: "'a sched_world_scheme"
  assumes "sched_inv s"
  shows "\<exists>s'. manager_round rnd s = Some (Inr ((), s')) \<and> sched_inv s' \<and> started s' = started s \<and>
     round_map (task_map (task_list s)) (task_map (task_list s')) \<and>
     (started s = [] \<longrightarrow> task_map (task_list s') = Map.empty \<and> task_count s' = 0)"
proof -
  obtain s' where r: "manager_round rnd s = Some (Inr ((), s'))" "sched_inv s'" "started s' = started s"
    and m: "round_map (task_map (task_list s)) (task_map (task_list s'))"
    using round_inv [OF assms, of rnd] by blast
  have "task_map (task_list s') = Map.empty \<and> task_count s' = 0" if e: "started s = []"
  proof -
    have "running_tids (task_map (task_list s)) = {}"
      using assms e by (simp add: sched_inv_def threads_ok_def)
    then have em: "task_map (task_list s') = Map.empty"
      using m unfolding round_map_def running_tids_def fun_eq_iff by blast
    have "tids_ok (task_list s')" and c: "task_count s' = of_nat (length (filter live (task_list s')))"
      using r(2) by (simp_all add: sched_inv_def table_inv_def)
    then have "length (filter live (task_list s')) = 0" using card_task_map [of "task_list s'"] em by simp
    then show ?thesis using em c by simp
  qed
  then show ?thesis using r m by blast
qed

theorem manager_round_drains_witness:
  "\<exists>s'. manager_round (\<lambda>_. 0) sched_one = Some (Inr ((), s')) \<and> sched_inv s' \<and> started s' = started sched_one \<and>
     round_map (task_map (task_list sched_one)) (task_map (task_list s')) \<and>
     (started sched_one = [] \<longrightarrow> task_map (task_list s') = Map.empty \<and> task_count s' = 0)"
  by (rule manager_round_drains [OF sched_one_inv])

text \<open>
  Where the counter of identifiers wraps to 0 the new task is created, but 0 is also the
  sign of failure: the argument block of the running thread is freed and the caller is told
  that nothing was created.
\<close>

lemma create_tid_zero:
  fixes s :: "'a sched_world_scheme"
  assumes "MIN_PRIORITY \<le> prio" "prio \<le> MAX_PRIORITY" "\<not> task_list_lock s" "\<not> g_log_mutex s"
    and "find_slot (\<lambda>t. tcb_state t = TASK_STATE_INVALID) 0 (task_list s) = Some i" "i < length (task_list s)"
    and "next_tid s = 0"
  shows "\<exists>s'. kernel_create_thread (Some p) 0 h nm prio entry arg s = Some (Inr (0, s')) \<and>
     started s' = p # started s \<and> args_mem s' p = None"
  using assms by (cases s) (simp add: kernel_create_thread_def create_in_slot_def set_task_def args_free_def)

end
