(* ===== verification/NetBase.thy ===== *)
theory NetBase
  imports KPrelude
begin

text \<open>
  The data of the network server \<^verbatim>\<open>src/net/network.c\<close> and its system calls. The operating
  system is a record \<open>os_calls\<close> of answers, indexed by the number of calls made so far, so
  that a statement over all such records covers every behaviour of the system. Bytes that
  a peer sends wait in \<open>net_in\<close>, bytes the server has sent are in \<open>net_out\<close>.
\<close>

section \<open>Data\<close>

datatype log_level_t = LOG_DEBUG | LOG_INFO | LOG_WARNING | LOG_ERROR | LOG_FATAL
datatype client_state_t = CLIENT_NEW | CLIENT_ACTIVE | CLIENT_CLOSING
datatype recv_status_t = RECV_OK | RECV_EOF | RECV_TIMEOUT | RECV_ERROR
datatype log_fp = Stderr | LogFile | NoFile
datatype errno = EINTR | EAGAIN | EPIPE | EOTHER

abbreviation MAX_COMMAND_LINE_LENGTH :: nat where "MAX_COMMAND_LINE_LENGTH \<equiv> 1024"
abbreviation RATE_LIMIT_WINDOW :: int where "RATE_LIMIT_WINDOW \<equiv> 60"
abbreviation RECV_TIMEOUT_INTERNAL :: int where "RECV_TIMEOUT_INTERNAL \<equiv> 5"
abbreviation INET6_ADDRSTRLEN :: nat where "INET6_ADDRSTRLEN \<equiv> 46"

fun level_number :: "log_level_t \<Rightarrow> nat" where
  "level_number LOG_DEBUG = 0"
| "level_number LOG_INFO = 1"
| "level_number LOG_WARNING = 2"
| "level_number LOG_ERROR = 3"
| "level_number LOG_FATAL = 4"

record server_config_t =
  cfg_port :: int
  cfg_backlog :: int
  cfg_buf_size :: nat
  cfg_thread_pool_size :: nat
  cfg_max_queue_size :: nat
  cfg_max_connections :: nat
  cfg_connection_timeout :: int
  cfg_max_requests_per_minute :: int
  cfg_use_ipv6 :: bool
  cfg_log_level :: log_level_t
  cfg_log_file :: "string option"
  cfg_log_fp :: log_fp

record rate_limit_entry_t =
  rl_ip :: string
  rl_first_request_time :: int
  rl_request_count :: int

record client_data_t =
  cl_socket :: int
  cl_ip :: string
  cl_port :: int
  cl_last_activity :: int
  cl_state :: client_state_t
  cl_request_count :: int

text \<open>A queue item: its client and the address of the next item, 0 for none.\<close>

record work_item_t =
  wi_client :: client_data_t
  wi_next :: nat

record thread_pool_t =
  tp_threads :: "nat list"
  tp_thread_count :: nat
  work_queue_head :: nat
  work_queue_tail :: nat
  queue_size :: nat
  queue_mutex :: bool
  tp_shutdown :: bool
  active_connections :: int
  conn_mutex :: bool
  rate_limits :: "rate_limit_entry_t list"
  rate_limit_size :: nat
  rate_limit_capacity :: nat
  rate_limit_mutex :: bool

datatype nlog_arg = NInt int | NStr string | NErr errno

type_synonym nlog_line = "log_level_t \<times> string \<times> nlog_arg list"

text \<open>
  The whole server: configuration, pool, the listening socket, the flag the signal handler
  clears, the allocated queue items, the sockets and the log. \<open>sock_ends\<close> lists the sockets
  that have been closed, in order; \<open>calls\<close> counts the system calls.
\<close>

record net_world = thread_pool_t +
  config :: server_config_t
  server_fd :: int
  server_running :: bool
  work_items :: "nat \<Rightarrow> work_item_t option"
  net_in :: "int \<Rightarrow> string"
  net_out :: "int \<Rightarrow> string"
  sock_ends :: "int list"
  net_log_mutex :: bool
  net_log :: "nlog_line list"
  calls :: nat

section \<open>The operating system\<close>

text \<open>
  What the system answers to its \<open>n\<close>-th call. \<open>select\<close> reports an error, a timeout or
  readiness. \<open>recv\<close> and \<open>send\<close> report an error or how many bytes the system is willing to
  move; \<open>accept\<close> an error or a socket with the peer's address (\<open>None\<close> for an unknown
  address family).
\<close>

datatype sel_answer = SelErr errno | SelTimeout | SelReady
datatype io_answer = IoErr errno | IoBytes nat
datatype acc_answer = AccErr errno | AccSock int "(string \<times> int) option"

record os_calls =
  os_time :: "nat \<Rightarrow> int"
  os_malloc :: "nat \<Rightarrow> nat option"
  os_select :: "nat \<Rightarrow> sel_answer"
  os_recv :: "nat \<Rightarrow> io_answer"
  os_send :: "nat \<Rightarrow> io_answer"
  os_close :: "nat \<Rightarrow> errno option"
  os_fcntl :: "nat \<Rightarrow> errno option"
  os_accept :: "nat \<Rightarrow> acc_answer"
  os_status :: "nat \<Rightarrow> int"

definition sys_call :: "(nat \<Rightarrow> 'r) \<Rightarrow> ('a net_world_scheme, 'r) km" where
  "sys_call f = bindK (getK calls) (\<lambda>n. seqK (modK (\<lambda>s. s\<lparr>calls := Suc (calls s)\<rparr>)) (retK (f n)))"

text \<open>
  \<open>recv\<close> of at most \<open>len\<close> bytes: it takes the next bytes the peer has sent, none when there
  are none left (end of file). \<open>send\<close> of a buffer: a prefix goes out.
\<close>

definition sys_recv :: "os_calls \<Rightarrow> int \<Rightarrow> nat \<Rightarrow> ('a net_world_scheme, errno + string) km" where
  "sys_recv os fd len =
     bindK (sys_call (os_recv os)) (\<lambda>r.
     case r of
       IoErr e \<Rightarrow> retK (Inl e)
     | IoBytes k \<Rightarrow>
         bindK (getK (\<lambda>s. take (min (max 1 k) len) (net_in s fd))) (\<lambda>bytes.
         seqK (modK (\<lambda>s. s\<lparr>net_in := (net_in s)(fd := drop (length bytes) (net_in s fd))\<rparr>))
              (retK (Inr bytes))))"

definition sys_send :: "os_calls \<Rightarrow> int \<Rightarrow> string \<Rightarrow> ('a net_world_scheme, errno + nat) km" where
  "sys_send os fd buf =
     bindK (sys_call (os_send os)) (\<lambda>r.
     case r of
       IoErr e \<Rightarrow> retK (Inl e)
     | IoBytes k \<Rightarrow>
         seqK (modK (\<lambda>s. s\<lparr>net_out := (net_out s)(fd := net_out s fd @ take k buf)\<rparr>))
              (retK (Inr (min k (length buf)))))"

definition sys_close :: "os_calls \<Rightarrow> int \<Rightarrow> ('a net_world_scheme, errno option) km" where
  "sys_close os fd =
     bindK (sys_call (os_close os)) (\<lambda>r.
     seqK (modK (\<lambda>s. s\<lparr>sock_ends := sock_ends s @ [fd]\<rparr>))
          (retK r))"

definition log_message_net :: "log_level_t \<Rightarrow> string \<Rightarrow> nlog_arg list \<Rightarrow> ('a net_world_scheme, unit) km" where
  "log_message_net level format args =
     bindK (getK (\<lambda>s. level_number (cfg_log_level (config s)))) (\<lambda>min_level.
     if level_number level < min_level then retK ()
     else
       seqK (spin_lock net_log_mutex net_log_mutex_update)
      (seqK (modK (\<lambda>s. s\<lparr>net_log := net_log s @ [(level, format, args)]\<rparr>))
            (spin_unlock net_log_mutex_update)))"

definition default_config :: server_config_t where
  "default_config = \<lparr>cfg_port = 8080, cfg_backlog = 10, cfg_buf_size = 4096,
     cfg_thread_pool_size = 20, cfg_max_queue_size = 100, cfg_max_connections = 1000,
     cfg_connection_timeout = 60, cfg_max_requests_per_minute = 60, cfg_use_ipv6 = False,
     cfg_log_level = LOG_INFO, cfg_log_file = None, cfg_log_fp = Stderr\<rparr>"

definition init_config :: "('a net_world_scheme, unit) km" where
  "init_config = modK (\<lambda>s. s\<lparr>config := default_config\<rparr>)"

section \<open>Runs of the system calls\<close>

lemma sys_call_run [simp, runK]: "sys_call f s = Some (Inr (f (calls s), s\<lparr>calls := Suc (calls s)\<rparr>))"
  by (simp add: sys_call_def)

text \<open>Logging changes the log only.\<close>

definition logged :: "nlog_line list \<Rightarrow> 'a net_world_scheme \<Rightarrow> 'a net_world_scheme" where
  "logged ls s = s\<lparr>net_log := net_log s @ filter (\<lambda>l. level_number (cfg_log_level (config s)) \<le> level_number (fst l)) ls\<rparr>"

lemma log_message_net_run [simp, runK]:
  fixes s :: "'a net_world_scheme"
  shows "\<not> net_log_mutex s \<Longrightarrow> log_message_net level format args s = Some (Inr ((), logged [(level, format, args)] s))"
  by (cases s) (auto simp: log_message_net_def logged_def)

lemma logged_sel [simp]:
  "config (logged ls s) = config s" "calls (logged ls s) = calls s" "net_in (logged ls s) = net_in s"
  "net_out (logged ls s) = net_out s" "sock_ends (logged ls s) = sock_ends s" "net_log_mutex (logged ls s) = net_log_mutex s"
  "work_items (logged ls s) = work_items s" "work_queue_head (logged ls s) = work_queue_head s"
  "work_queue_tail (logged ls s) = work_queue_tail s" "queue_size (logged ls s) = queue_size s"
  "queue_mutex (logged ls s) = queue_mutex s" "tp_shutdown (logged ls s) = tp_shutdown s"
  "active_connections (logged ls s) = active_connections s" "conn_mutex (logged ls s) = conn_mutex s"
  "rate_limits (logged ls s) = rate_limits s" "rate_limit_size (logged ls s) = rate_limit_size s"
  "rate_limit_capacity (logged ls s) = rate_limit_capacity s" "rate_limit_mutex (logged ls s) = rate_limit_mutex s"
  "server_running (logged ls s) = server_running s" "server_fd (logged ls s) = server_fd s"
  by (simp_all add: logged_def)

text \<open>
  \<open>quiet\<close> forgets the call counter and the log: two states with the same \<open>quiet\<close> part
  differ in nothing else.
\<close>

definition quiet :: "'a net_world_scheme \<Rightarrow> 'a net_world_scheme" where
  "quiet s = s\<lparr>net_log := [], calls := 0\<rparr>"

lemma quiet_logged [simp]: "quiet (logged ls s) = quiet s"
  by (simp add: quiet_def logged_def)

lemma quiet_calls [simp]: "quiet (s\<lparr>calls := c\<rparr>) = quiet (s :: 'a net_world_scheme)"
  by (cases s) (simp add: quiet_def)

lemma quiet_sel [simp]:
  "config (quiet s) = config s" "net_in (quiet s) = net_in s" "net_out (quiet s) = net_out s"
  "sock_ends (quiet s) = sock_ends s" "net_log_mutex (quiet s) = net_log_mutex s"
  "work_items (quiet s) = work_items s" "work_queue_head (quiet s) = work_queue_head s"
  "work_queue_tail (quiet s) = work_queue_tail s" "queue_size (quiet s) = queue_size s"
  "queue_mutex (quiet s) = queue_mutex s" "tp_shutdown (quiet s) = tp_shutdown s"
  "active_connections (quiet s) = active_connections s" "conn_mutex (quiet s) = conn_mutex s"
  "rate_limits (quiet s) = rate_limits s" "rate_limit_size (quiet s) = rate_limit_size s"
  "rate_limit_capacity (quiet s) = rate_limit_capacity s" "rate_limit_mutex (quiet s) = rate_limit_mutex s"
  "server_running (quiet s) = server_running s" "server_fd (quiet s) = server_fd s"
  by (simp_all add: quiet_def)

lemma quiet_upd [simp]:
  fixes s :: "'a net_world_scheme"
  shows "quiet (s\<lparr>net_in := i\<rparr>) = (quiet s)\<lparr>net_in := i\<rparr>"
    "quiet (s\<lparr>net_out := i\<rparr>) = (quiet s)\<lparr>net_out := i\<rparr>"
    "quiet (s\<lparr>sock_ends := e\<rparr>) = (quiet s)\<lparr>sock_ends := e\<rparr>"
    "quiet (s\<lparr>active_connections := a\<rparr>) = (quiet s)\<lparr>active_connections := a\<rparr>"
    "quiet (s\<lparr>conn_mutex := b\<rparr>) = (quiet s)\<lparr>conn_mutex := b\<rparr>"
    "quiet (s\<lparr>rate_limit_mutex := b\<rparr>) = (quiet s)\<lparr>rate_limit_mutex := b\<rparr>"
    "quiet (s\<lparr>queue_mutex := b\<rparr>) = (quiet s)\<lparr>queue_mutex := b\<rparr>"
    "quiet (s\<lparr>rate_limits := r\<rparr>) = (quiet s)\<lparr>rate_limits := r\<rparr>"
    "quiet (s\<lparr>rate_limit_size := n\<rparr>) = (quiet s)\<lparr>rate_limit_size := n\<rparr>"
    "quiet (s\<lparr>work_items := w\<rparr>) = (quiet s)\<lparr>work_items := w\<rparr>"
    "quiet (s\<lparr>work_queue_head := n\<rparr>) = (quiet s)\<lparr>work_queue_head := n\<rparr>"
    "quiet (s\<lparr>work_queue_tail := n\<rparr>) = (quiet s)\<lparr>work_queue_tail := n\<rparr>"
    "quiet (s\<lparr>queue_size := n\<rparr>) = (quiet s)\<lparr>queue_size := n\<rparr>"
    "quiet (s\<lparr>tp_shutdown := b\<rparr>) = (quiet s)\<lparr>tp_shutdown := b\<rparr>"
    "quiet (s\<lparr>server_running := b\<rparr>) = (quiet s)\<lparr>server_running := b\<rparr>"
  by (cases s; simp add: quiet_def)+

lemma quiet_eqs:
  assumes "quiet t = x"
  shows "config t = config x" "net_in t = net_in x" "net_out t = net_out x" "sock_ends t = sock_ends x"
    "net_log_mutex t = net_log_mutex x" "work_items t = work_items x" "work_queue_head t = work_queue_head x"
    "work_queue_tail t = work_queue_tail x" "queue_size t = queue_size x" "queue_mutex t = queue_mutex x"
    "tp_shutdown t = tp_shutdown x" "active_connections t = active_connections x" "conn_mutex t = conn_mutex x"
    "rate_limits t = rate_limits x" "rate_limit_size t = rate_limit_size x"
    "rate_limit_capacity t = rate_limit_capacity x" "rate_limit_mutex t = rate_limit_mutex x"
    "server_running t = server_running x" "server_fd t = server_fd x"
  by (simp_all flip: assms)

section \<open>A concrete system and state\<close>

text \<open>A system that answers every call, and a server with one idle client on socket 5.\<close>

definition os_demo :: os_calls where
  "os_demo = \<lparr>os_time = int, os_malloc = (\<lambda>n. Some (Suc n)), os_select = (\<lambda>_. SelReady), os_recv = (\<lambda>_. IoBytes 16),
     os_send = (\<lambda>_. IoBytes 8), os_close = (\<lambda>_. None), os_fcntl = (\<lambda>_. None), os_accept = (\<lambda>_. AccErr EAGAIN),
     os_status = (\<lambda>_. 0)\<rparr>"

definition net_demo :: net_world where
  "net_demo = \<lparr>tp_threads = [], tp_thread_count = 0, work_queue_head = 0, work_queue_tail = 0, queue_size = 0,
     queue_mutex = False, tp_shutdown = False, active_connections = 1, conn_mutex = False,
     rate_limits = replicate 3 \<lparr>rl_ip = [], rl_first_request_time = 0, rl_request_count = 0\<rparr>,
     rate_limit_size = 0, rate_limit_capacity = 3, rate_limit_mutex = False,
     config = \<lparr>cfg_port = 8080, cfg_backlog = 10, cfg_buf_size = 4096,
       cfg_thread_pool_size = 20, cfg_max_queue_size = 100, cfg_max_connections = 3,
       cfg_connection_timeout = 60, cfg_max_requests_per_minute = 2, cfg_use_ipv6 = False,
       cfg_log_level = LOG_INFO, cfg_log_file = None, cfg_log_fp = Stderr\<rparr>,
     server_fd = 3, server_running = True, work_items = (\<lambda>_. None),
     net_in = (\<lambda>_. [])(5 := ''  help'' @ [CHR 0x0A]), net_out = (\<lambda>_. []), sock_ends = [], net_log_mutex = False,
     net_log = [], calls = 0\<rparr>"

end
