(* ===== verification/NetIO.thy ===== *)
theory NetIO
  imports NetBase
begin

text \<open>
  The two transfer loops of \<^verbatim>\<open>src/net/network.c\<close>, \<open>send_full\<close> and \<open>recv_full\<close>, with every
  error branch, and their total correctness for every behaviour of the operating system
  that interrupts only finitely many calls.
\<close>

section \<open>Operations\<close>

text \<open>One round of the loop of \<open>send_full\<close>; the local is the number of bytes sent so far.\<close>

definition send_round :: "os_calls \<Rightarrow> int \<Rightarrow> string \<Rightarrow> nat \<Rightarrow> ('a net_world_scheme, int + nat) km" where
  "send_round os sockfd buffer bytes_sent =
     (if bytes_sent < length buffer then
       bindK (sys_send os sockfd (drop bytes_sent buffer)) (\<lambda>r.
       case r of
         Inl EINTR \<Rightarrow> retK (Inr bytes_sent)
       | Inl EAGAIN \<Rightarrow>
           seqK (log_message_net LOG_WARNING ''send() returned EAGAIN/EWOULDBLOCK, buffer full? Treating as error.'' [])
                (retK (Inl (- 1)))
       | Inl EPIPE \<Rightarrow>
           seqK (log_message_net LOG_INFO ''send() failed: Broken pipe (client closed connection).'' [])
                (retK (Inl (- 1)))
       | Inl e \<Rightarrow>
           seqK (log_message_net LOG_ERROR ''send() error: %s'' [NErr e])
                (retK (Inl (- 1)))
       | Inr n \<Rightarrow> retK (Inr (bytes_sent + n)))
      else retK (Inl (int bytes_sent)))"

definition send_full :: "os_calls \<Rightarrow> int \<Rightarrow> string \<Rightarrow> ('a net_world_scheme, int) km" where
  "send_full os sockfd buffer = loopK (send_round os sockfd buffer) 0"

text \<open>
  One round of \<open>recv_full\<close>. The receive buffer is the bytes received so far; the rest of it
  is zero from the \<open>memset\<close>. The result is the status and the buffer.
\<close>

definition recv_round :: "os_calls \<Rightarrow> int \<Rightarrow> nat \<Rightarrow> string \<Rightarrow> ('a net_world_scheme, recv_status_t \<times> string + string) km" where
  "recv_round os sockfd len got =
     (if length got < len - 1 then
        bindK (sys_call (os_select os)) (\<lambda>select_result.
        case select_result of
          SelErr e \<Rightarrow>
            if e = EINTR then retK (Inr got)
            else seqK (log_message_net LOG_ERROR ''select() error in recv_full: %s'' [NErr e])
                      (retK (Inl (RECV_ERROR, got)))
        | SelTimeout \<Rightarrow>
            if 0 < length got then retK (Inl (RECV_OK, got)) else retK (Inl (RECV_TIMEOUT, got))
        | SelReady \<Rightarrow>
            bindK (sys_recv os sockfd (len - length got - 1)) (\<lambda>r.
            case r of
              Inl e \<Rightarrow>
                if e = EINTR then retK (Inr got)
                else if e = EAGAIN then
                  seqK (log_message_net LOG_WARNING ''recv() returned EAGAIN/EWOULDBLOCK after select returned ready'' [])
                       (retK (Inl (RECV_ERROR, got)))
                else
                  seqK (log_message_net LOG_ERROR ''recv() error: %s'' [NErr e])
                       (retK (Inl (RECV_ERROR, got)))
            | Inr bytes \<Rightarrow>
                if bytes = [] then retK (Inl (RECV_EOF, got))
                else if CHR 0x0A \<in> set bytes then retK (Inl (RECV_OK, got @ bytes))
                else retK (Inr (got @ bytes))))
      else retK (Inl (RECV_OK, got)))"

definition recv_full :: "os_calls \<Rightarrow> int \<Rightarrow> nat \<Rightarrow> ('a net_world_scheme, recv_status_t \<times> string) km" where
  "recv_full os sockfd len =
     (if len = 0 then retK (RECV_OK, []) else loopK (recv_round os sockfd len) [])"

section \<open>Total correctness\<close>

text \<open>From its \<open>n\<close>-th call on, the system neither interrupts calls nor moves nothing.\<close>

definition calm_from :: "os_calls \<Rightarrow> nat \<Rightarrow> bool" where
  "calm_from os n \<longleftrightarrow> (\<forall>m\<ge>n. os_select os m \<noteq> SelErr EINTR \<and> os_recv os m \<noteq> IoErr EINTR \<and>
     os_send os m \<noteq> IoErr EINTR \<and> os_send os m \<noteq> IoBytes 0)"

text \<open>What a transfer changes besides the call counter and the log: one socket's bytes.\<close>

definition sent_more :: "int \<Rightarrow> string \<Rightarrow> 'a net_world_scheme \<Rightarrow> 'a net_world_scheme \<Rightarrow> bool" where
  "sent_more fd bytes s s' \<longleftrightarrow> calls s \<le> calls s' \<and>
     quiet s' = quiet (s\<lparr>net_out := (net_out s)(fd := net_out s fd @ bytes)\<rparr>)"

definition took_more :: "int \<Rightarrow> string \<Rightarrow> 'a net_world_scheme \<Rightarrow> 'a net_world_scheme \<Rightarrow> bool" where
  "took_more fd bytes s s' \<longleftrightarrow> calls s \<le> calls s' \<and> net_in s fd = bytes @ net_in s' fd \<and>
     quiet s' = quiet (s\<lparr>net_in := (net_in s)(fd := net_in s' fd)\<rparr>)"

lemma sent_more_refl: "sent_more fd [] s (s :: 'a net_world_scheme)"
  by (cases s) (simp add: sent_more_def)

lemma sent_moreD:
  assumes "sent_more fd b s (t :: 'a net_world_scheme)"
  shows "net_out t = (net_out s)(fd := net_out s fd @ b)" "net_log_mutex t = net_log_mutex s" "net_in t = net_in s"
    "calls s \<le> calls t"
  using assms quiet_eqs [of t] by (simp_all add: sent_more_def)

lemma sent_more_log: "sent_more fd b s t \<Longrightarrow> sent_more fd b s (logged ls (t :: 'a net_world_scheme))"
  by (simp add: sent_more_def)

lemma sent_more_call: "sent_more fd b s t \<Longrightarrow> sent_more fd b s (t\<lparr>calls := Suc (calls t)\<rparr> :: 'a net_world_scheme)"
  by (simp add: sent_more_def)

lemma sent_more_send:
  assumes "sent_more fd b s (t :: 'a net_world_scheme)"
  shows "sent_more fd (b @ b') s (t\<lparr>calls := Suc (calls t), net_out := (net_out t)(fd := net_out t fd @ b')\<rparr>)"
  using assms sent_moreD [OF assms] by (simp add: sent_more_def)

lemma took_more_refl: "took_more fd [] s (s :: 'a net_world_scheme)"
  by (cases s) (simp add: took_more_def)

lemma took_moreD:
  assumes "took_more fd b s (t :: 'a net_world_scheme)"
  shows "net_in s fd = b @ net_in t fd" "net_log_mutex t = net_log_mutex s" "calls s \<le> calls t"
    "net_in t = (net_in s)(fd := net_in t fd)"
proof -
  have q: "quiet t = quiet (s\<lparr>net_in := (net_in s)(fd := net_in t fd)\<rparr>)" using assms by (simp add: took_more_def)
  show "net_in s fd = b @ net_in t fd" "calls s \<le> calls t" using assms by (simp_all add: took_more_def)
  show "net_log_mutex t = net_log_mutex s" "net_in t = (net_in s)(fd := net_in t fd)"
    using quiet_eqs(5,2) [OF q] by simp_all
qed

lemma took_more_log: "took_more fd b s t \<Longrightarrow> took_more fd b s (logged ls (t :: 'a net_world_scheme))"
  by (simp add: took_more_def)

lemma took_more_call: "took_more fd b s t \<Longrightarrow> took_more fd b s (t\<lparr>calls := c\<rparr> :: 'a net_world_scheme)" if "calls t \<le> c"
  using that by (simp add: took_more_def)

lemma took_more_recv:
  assumes "took_more fd b s (t :: 'a net_world_scheme)" "net_in t fd = b' @ r" "calls t \<le> c"
  shows "took_more fd (b @ b') s (t\<lparr>calls := c, net_in := (net_in t)(fd := r)\<rparr>)"
  using assms took_moreD [OF assms(1)] by (simp add: took_more_def)

lemma send_round_done: "length buffer \<le> k \<Longrightarrow> send_round os fd buffer k t = Some (Inr (Inl (int k), t))"
  by (simp add: send_round_def)

lemma send_round_err:
  fixes t :: "'a net_world_scheme"
  assumes "k < length buffer" "os_send os (calls t) = IoErr e" "\<not> net_log_mutex t"
  shows "if e = EINTR then send_round os fd buffer k t = Some (Inr (Inr k, t\<lparr>calls := Suc (calls t)\<rparr>))
     else \<exists>l. send_round os fd buffer k t = Some (Inr (Inl (- 1), logged [l] (t\<lparr>calls := Suc (calls t)\<rparr>)))"
  using assms by (cases e) (auto simp: send_round_def sys_send_def)

lemma send_round_bytes:
  fixes t :: "'a net_world_scheme"
  assumes "k < length buffer" "os_send os (calls t) = IoBytes j"
  shows "send_round os fd buffer k t = Some (Inr (Inr (k + min j (length buffer - k)),
     t\<lparr>calls := Suc (calls t), net_out := (net_out t)(fd := net_out t fd @ take j (drop k buffer))\<rparr>))"
  using assms by (simp add: send_round_def sys_send_def)

lemma send_full_run:
  fixes s :: "'a net_world_scheme"
  assumes calm: "calm_from os n" and g: "\<not> net_log_mutex s"
  shows "\<exists>r s'. send_full os fd buffer s = Some (Inr (r, s')) \<and>
     (r = int (length buffer) \<and> sent_more fd buffer s s' \<or>
      r = - 1 \<and> (\<exists>k < length buffer. sent_more fd (take k buffer) s s'))"
  unfolding send_full_def
proof (rule loopK_rule [where I = "\<lambda>k t. k \<le> length buffer \<and> sent_more fd (take k buffer) s t"
      and V = "\<lambda>k t. (n - calls t) + (length buffer - k)", rotated], goal_cases)
  case (1 k t)
  let ?t = "t\<lparr>calls := Suc (calls t)\<rparr>"
  have k: "k \<le> length buffer" and m: "sent_more fd (take k buffer) s t" using 1 by auto
  have g': "\<not> net_log_mutex t" using sent_moreD(2) [OF m] g by simp
  show ?case
  proof (cases "k < length buffer")
    case False
    then show ?thesis using k m send_round_done [of buffer k os fd t] by simp
  next
    case True
    show ?thesis
    proof (cases "os_send os (calls t)")
      case (IoErr e)
      note r = send_round_err [OF True IoErr g', of fd] and m' = sent_more_call [OF m]
      show ?thesis
      proof (cases "e = EINTR")
        case intr: True
        then have "calls t < n" using calm IoErr by (meson calm_from_def not_le)
        then show ?thesis using r intr m' k by (intro disjI2 exI [of _ k] exI [of _ ?t]) simp
      next
        case False
        then show ?thesis using r sent_more_log [OF m'] True by auto
      qed
    next
      case (IoBytes j)
      let ?b = "take j (drop k buffer)" and ?k = "k + min j (length buffer - k)"
      let ?t' = "t\<lparr>calls := Suc (calls t), net_out := (net_out t)(fd := net_out t fd @ ?b)\<rparr>"
      have "take ?k buffer = take k buffer @ ?b" by (simp add: take_add min_def)
      then have m': "sent_more fd (take ?k buffer) s ?t'" using sent_more_send [OF m, of ?b] by simp
      have "(n - Suc (calls t)) + (length buffer - ?k) < (n - calls t) + (length buffer - k)"
      proof (cases "j = 0")
        case True
        then have "calls t < n" using calm IoBytes by (metis calm_from_def not_le)
        then show ?thesis using True by simp
      next
        case False
        then show ?thesis using True by simp
      qed
      then show ?thesis using send_round_bytes [where fd = fd, OF True IoBytes] m' k
        by (intro disjI2 exI [of _ ?k] exI [of _ ?t']) simp
    qed
  qed
qed (simp add: sent_more_refl)

lemma recv_round_select:
  fixes t :: "'a net_world_scheme"
  assumes "length got < len - 1" "\<not> net_log_mutex t" "os_select os (calls t) = SelErr e"
  shows "if e = EINTR then recv_round os fd len got t = Some (Inr (Inr got, t\<lparr>calls := Suc (calls t)\<rparr>))
     else \<exists>l. recv_round os fd len got t = Some (Inr (Inl (RECV_ERROR, got), logged [l] (t\<lparr>calls := Suc (calls t)\<rparr>)))"
  using assms by (auto simp: recv_round_def)

lemma recv_round_timeout:
  fixes t :: "'a net_world_scheme"
  assumes "length got < len - 1" "os_select os (calls t) = SelTimeout"
  shows "recv_round os fd len got t =
     Some (Inr (Inl (if got = [] then RECV_TIMEOUT else RECV_OK, got), t\<lparr>calls := Suc (calls t)\<rparr>))"
  using assms by (simp add: recv_round_def)

lemma recv_round_err:
  fixes t :: "'a net_world_scheme"
  assumes "length got < len - 1" "\<not> net_log_mutex t" "os_select os (calls t) = SelReady" "os_recv os (Suc (calls t)) = IoErr e"
  shows "if e = EINTR then recv_round os fd len got t = Some (Inr (Inr got, t\<lparr>calls := Suc (Suc (calls t))\<rparr>))
     else \<exists>l. recv_round os fd len got t = Some (Inr (Inl (RECV_ERROR, got), logged [l] (t\<lparr>calls := Suc (Suc (calls t))\<rparr>)))"
  using assms by (auto simp: recv_round_def sys_recv_def)

lemma recv_round_bytes:
  fixes t :: "'a net_world_scheme" and fd :: int
  assumes "length got < len - 1" "os_select os (calls t) = SelReady" "os_recv os (Suc (calls t)) = IoBytes j"
    and "take (min (max 1 j) (len - length got - 1)) (net_in t fd) = b"
  shows "recv_round os fd len got t =
    Some (Inr (if b = [] then Inl (RECV_EOF, got) else if CHR 0x0A \<in> set b then Inl (RECV_OK, got @ b) else Inr (got @ b),
      t\<lparr>calls := Suc (Suc (calls t)), net_in := (net_in t)(fd := drop (length b) (net_in t fd))\<rparr>))"
  using assms by (simp add: recv_round_def sys_recv_def)

definition recv_result :: "os_calls \<Rightarrow> int \<Rightarrow> nat \<Rightarrow> 'a net_world_scheme \<Rightarrow> recv_status_t \<times> string \<Rightarrow> 'a net_world_scheme \<Rightarrow> bool" where
  "recv_result os fd len s r s' \<longleftrightarrow> took_more fd (snd r) s s' \<and> length (snd r) < len \<and>
     (fst r = RECV_OK \<and> 1 < len \<longrightarrow> snd r \<noteq> []) \<and>
     (fst r = RECV_TIMEOUT \<longrightarrow> snd r = [] \<and> (\<exists>m\<ge>calls s. os_select os m = SelTimeout)) \<and>
     (fst r = RECV_EOF \<longrightarrow> net_in s' fd = [])"

lemma recv_full_run:
  fixes s :: "'a net_world_scheme"
  assumes calm: "calm_from os n" and g: "\<not> net_log_mutex s" and len: "0 < len"
  shows "\<exists>r s'. recv_full os fd len s = Some (Inr (r, s')) \<and> recv_result os fd len s r s'"
proof -
  have "\<exists>r s'. loopK (recv_round os fd len) [] s = Some (Inr (r, s')) \<and> recv_result os fd len s r s'"
  proof (rule loopK_rule [where I = "\<lambda>got t. length got < len \<and> took_more fd got s t"
        and V = "\<lambda>got t. (n - calls t) + (len - length got)", rotated], goal_cases)
    case (1 got t)
    have l: "length got < len" and m: "took_more fd got s t" using 1 by auto
    have g': "\<not> net_log_mutex t" using took_moreD(2) [OF m] g by simp
    have m1: "took_more fd got s (t\<lparr>calls := Suc (calls t)\<rparr>)" "took_more fd got s (t\<lparr>calls := Suc (Suc (calls t))\<rparr>)"
      using took_more_call [OF _ m] by simp_all
    show ?case
    proof (cases "length got < len - 1")
      case False
      then have "recv_round os fd len got t = Some (Inr (Inl (RECV_OK, got), t))" by (simp add: recv_round_def)
      then show ?thesis using l m False by (auto simp: recv_result_def)
    next
      case room: True
      consider (sel) e where "os_select os (calls t) = SelErr e" | (timeout) "os_select os (calls t) = SelTimeout"
        | (err) e where "os_select os (calls t) = SelReady" "os_recv os (Suc (calls t)) = IoErr e"
        | (bytes) j where "os_select os (calls t) = SelReady" "os_recv os (Suc (calls t)) = IoBytes j"
        by (metis io_answer.exhaust sel_answer.exhaust)
      then show ?thesis
      proof cases
        case (sel e)
        note r = recv_round_select [OF room g' sel, of fd]
        show ?thesis
        proof (cases "e = EINTR")
          case True
          then have "calls t < n" using calm sel by (meson calm_from_def not_le)
          then show ?thesis using r True m1(1) l
            by (intro disjI2 exI [of _ got] exI [of _ "t\<lparr>calls := Suc (calls t)\<rparr>"]) simp
        next
          case False
          then show ?thesis using r took_more_log [OF m1(1)] l by (auto simp: recv_result_def)
        qed
      next
        case timeout
        moreover have "calls s \<le> calls t" by (rule took_moreD(3) [OF m])
        ultimately show ?thesis using recv_round_timeout [OF room timeout, of fd] m1(1) l by (auto simp: recv_result_def)
      next
        case (err e)
        note r = recv_round_err [OF room g' err, of fd]
        show ?thesis
        proof (cases "e = EINTR")
          case True
          then have "Suc (calls t) < n" using calm err(2) by (meson calm_from_def not_le)
          then show ?thesis using r True m1(2) l
            by (intro disjI2 exI [of _ got] exI [of _ "t\<lparr>calls := Suc (Suc (calls t))\<rparr>"]) simp
        next
          case False
          then show ?thesis using r took_more_log [OF m1(2)] l by (auto simp: recv_result_def)
        qed
      next
        case (bytes j)
        define b where "b = take (min (max 1 j) (len - length got - 1)) (net_in t fd)"
        let ?t = "t\<lparr>calls := Suc (Suc (calls t)), net_in := (net_in t)(fd := drop (length b) (net_in t fd))\<rparr>"
        note r = recv_round_bytes [OF room bytes b_def [symmetric]]
        have sp: "net_in t fd = b @ drop (length b) (net_in t fd)"
          unfolding b_def by (metis append_eq_conv_conj append_take_drop_id)
        have m2: "took_more fd (got @ b) s ?t" by (rule took_more_recv [OF m sp]) simp
        have lb: "length (got @ b) < len" using room unfolding b_def by simp
        show ?thesis
        proof (cases "b = []")
          case True
          then have "net_in t fd = []" using room unfolding b_def by (auto simp: min_def split: if_splits)
          then show ?thesis using r True m2 l by (auto simp: recv_result_def)
        next
          case False
          then have v: "(n - Suc (Suc (calls t))) + (len - length (got @ b)) < (n - calls t) + (len - length got)"
            using lb by (cases b) simp_all
          show ?thesis
          proof (cases "CHR 0x0A \<in> set b")
            case True
            then show ?thesis using r False m2 lb
              by (intro disjI1 exI [of _ "(RECV_OK, got @ b)"] exI [of _ ?t]) (simp add: recv_result_def)
          next
            case nl: False
            then show ?thesis using r False m2 lb v
              by (intro disjI2 exI [of _ "got @ b"] exI [of _ ?t]) simp
          qed
        qed
      qed
    qed
  qed (use len in \<open>simp add: took_more_refl\<close>)
  then show ?thesis using len by (simp add: recv_full_def)
qed

section \<open>Properties\<close>


lemma os_demo_calm: "calm_from os_demo 0"
  by (simp add: calm_from_def os_demo_def)




end
