(* ===== verification/CText.thy ===== *)
theory CText
  imports KPrelude
begin

text \<open>
  Characters and numbers as the C library reads and prints them: character classes, \<open>strtol\<close>,
  decimal output and the lines of a text. The network server and the data processor use them.
\<close>

section \<open>Characters\<close>

definition char_code :: "char \<Rightarrow> nat" where
  "char_code c = of_char c"

definition isspace :: "char \<Rightarrow> bool" where
  "isspace c \<longleftrightarrow> char_code c = 0x20 \<or> 0x09 \<le> char_code c \<and> char_code c \<le> 0x0D"

definition isprint :: "char \<Rightarrow> bool" where
  "isprint c \<longleftrightarrow> 0x20 \<le> char_code c \<and> char_code c \<le> 0x7E"

section \<open>Numbers\<close>

text \<open>\<open>strtol (s, NULL, 10)\<close>: leading space, a sign, digits, saturating at the range of \<open>long\<close>.\<close>

abbreviation LONG_MAX :: int where "LONG_MAX \<equiv> 9223372036854775807"

definition digit :: "char \<Rightarrow> bool" where
  "digit c \<longleftrightarrow> 48 \<le> char_code c \<and> char_code c \<le> 57"

definition digits_value :: "string \<Rightarrow> int" where
  "digits_value ds = foldl (\<lambda>v c. 10 * v + (int (char_code c) - 48)) 0 ds"

definition strtol :: "string \<Rightarrow> int" where
  "strtol str =
     (let s = dropWhile isspace str;
          neg = (s \<noteq> [] \<and> hd s = CHR ''-'');
          s' = (if s \<noteq> [] \<and> (hd s = CHR ''-'' \<or> hd s = CHR ''+'') then tl s else s);
          v = digits_value (takeWhile digit s') in
      if neg then max (- LONG_MAX - 1) (- v) else min LONG_MAX v)"

text \<open>Decimal output, as \<open>%d\<close> prints it.\<close>

function dec_nat :: "nat \<Rightarrow> string" where
  "dec_nat n = (if n < 10 then [char_of (48 + n)] else dec_nat (n div 10) @ [char_of (48 + n mod 10)])"
  by pat_completeness auto
termination
  by (relation "measure id") auto

declare dec_nat.simps [simp del]

definition dec_int :: "int \<Rightarrow> string" where
  "dec_int i = (if i < 0 then CHR ''-'' # dec_nat (nat (- i)) else dec_nat (nat i))"

section \<open>Lines\<close>

text \<open>The lines that repeated calls of \<open>getline\<close> return; a newline at the end of the text starts no line.\<close>

abbreviation newline :: char where "newline \<equiv> CHR 0x0A"

function lines_of :: "string \<Rightarrow> string list" where
  "lines_of t =
     (if t = [] then []
      else takeWhile (\<lambda>c. c \<noteq> newline) t # lines_of (tl (dropWhile (\<lambda>c. c \<noteq> newline) t)))"
  by pat_completeness auto
termination
proof (relation "measure length")
  fix t :: string assume "t \<noteq> []"
  moreover have "length (dropWhile (\<lambda>c. c \<noteq> newline) t) \<le> length t" by (rule length_dropWhile_le)
  ultimately show "(tl (dropWhile (\<lambda>c. c \<noteq> newline) t), t) \<in> measure length" by (cases t) auto
qed simp

declare lines_of.simps [simp del]

lemma lines_of_line:
  assumes "newline \<notin> set l"
  shows "lines_of (l @ newline # t) = l # lines_of t"
proof -
  have "takeWhile (\<lambda>c. c \<noteq> newline) (l @ newline # t) = l" "dropWhile (\<lambda>c. c \<noteq> newline) (l @ newline # t) = newline # t"
    using assms by (auto simp: takeWhile_append dropWhile_append)
  then show ?thesis by (subst lines_of.simps) simp
qed

lemma lines_of_concat:
  "\<forall>l \<in> set ls. newline \<notin> set l \<Longrightarrow> lines_of (concat (map (\<lambda>l. l @ [newline]) ls)) = ls"
  by (induction ls) (simp_all add: lines_of_line lines_of.simps [of "[]"])

section \<open>Printing and reading a number\<close>

lemma digit_char: "n < 10 \<Longrightarrow> digit (char_of (48 + n)) \<and> int (char_code (char_of (48 + n))) - 48 = int n"
  by (simp add: digit_def char_code_def)

lemma dec_nat_digits: "list_all digit (dec_nat n) \<and> dec_nat n \<noteq> []"
proof (induction n rule: dec_nat.induct)
  case (1 n)
  then show ?case by (cases "n < 10") (simp_all add: dec_nat.simps [of n] digit_char)
qed

lemma dec_nat_value: "digits_value (dec_nat n) = int n"
proof (induction n rule: dec_nat.induct)
  case (1 n)
  show ?case
  proof (cases "n < 10")
    case True
    then show ?thesis by (simp add: dec_nat.simps [of n] digits_value_def digit_char)
  next
    case False
    then have "digits_value (dec_nat n) = 10 * int (n div 10) + int (n mod 10)"
      using 1 digit_char [of "n mod 10"] by (simp add: dec_nat.simps [of n] digits_value_def)
    also have "\<dots> = int n" by (simp add: zdiv_int zmod_int)
    finally show ?thesis .
  qed
qed

text \<open>A sign or a digit is not a space, so reading a printed number starts at its first character.\<close>

lemma digit_facts: "digit c \<Longrightarrow> \<not> isspace c \<and> c \<noteq> CHR ''-'' \<and> c \<noteq> CHR ''+'' \<and> c \<noteq> newline"
  by (auto simp: digit_def isspace_def char_code_def)

lemma dec_int_chars: "\<forall>c \<in> set (dec_int i). digit c \<or> c = CHR ''-''"
  using dec_nat_digits by (auto simp: dec_int_def list_all_iff)

lemma takeWhile_dec_nat: "rest = [] \<or> \<not> digit (hd rest) \<Longrightarrow> takeWhile digit (dec_nat n @ rest) = dec_nat n"
  using dec_nat_digits [of n] by (cases rest) (auto simp: list_all_iff takeWhile_append)

lemma hd_dec_nat: "digit (hd (dec_nat n @ rest))"
  using dec_nat_digits [of n] by (cases "dec_nat n") auto

end
