(* ===== verification/NetText.thy ===== *)
theory NetText
  imports NetBase CText
begin

text \<open>
  Command lines of \<^verbatim>\<open>src/net/network.c\<close>: \<open>sanitize_input\<close>, written with the indices of the
  C loops, against a specification by list functions, and \<open>is_valid_command\<close>. A C string
  is the list of its characters before the terminating NUL.
\<close>

section \<open>Operations\<close>

definition c_str :: "string \<Rightarrow> string" where
  "c_str bytes = takeWhile (\<lambda>c. c \<noteq> CHR 0x00) bytes"

definition chop_last :: "char \<Rightarrow> string \<Rightarrow> string" where
  "chop_last c buffer = (if 0 < length buffer \<and> buffer ! (length buffer - 1) = c then take (length buffer - 1) buffer else buffer)"

function scrub :: "nat \<Rightarrow> string \<Rightarrow> string" where
  "scrub i buffer =
     (if i < length buffer then
        scrub (Suc i) (if \<not> isprint (buffer ! i) \<and> \<not> isspace (buffer ! i) then buffer[i := CHR ''?''] else buffer)
      else buffer)"
  by pat_completeness auto
termination
  by (relation "measure (\<lambda>(i, b). length b - i)") (auto split: if_splits)

function skip_space :: "string \<Rightarrow> nat \<Rightarrow> nat" where
  "skip_space buffer start =
     (if start < length buffer \<and> isspace (buffer ! start) then skip_space buffer (Suc start) else start)"
  by pat_completeness auto
termination
  by (relation "measure (\<lambda>(b, i). length b - i)") auto

function trim_tail :: "string \<Rightarrow> string" where
  "trim_tail buffer =
     (if 0 < length buffer \<and> isspace (buffer ! (length buffer - 1)) then trim_tail (take (length buffer - 1) buffer)
      else buffer)"
  by pat_completeness auto
termination
  by (relation "measure length") auto

declare scrub.simps [simp del] skip_space.simps [simp del] trim_tail.simps [simp del]

definition sanitize_input :: "string \<Rightarrow> ('a net_world_scheme, string) km" where
  "sanitize_input buffer =
     (let b1 = chop_last CHR 0x0A buffer; b2 = chop_last CHR 0x0D b1 in
      bindK (if MAX_COMMAND_LINE_LENGTH \<le> length b2 then
               seqK (log_message_net LOG_WARNING ''Input truncated to %d bytes'' [NInt (int MAX_COMMAND_LINE_LENGTH)])
                    (retK (take (MAX_COMMAND_LINE_LENGTH - 1) b2))
             else retK b2) (\<lambda>b3.
      let b4 = scrub 0 b3;
          start = skip_space b4 0;
          b5 = (if 0 < start then drop start b4 else b4) in
      retK (trim_tail b5)))"

definition allowed_commands :: "string list" where
  "allowed_commands = [''help'', ''info'', ''exit'', ''quit'', ''echo'']"

fun valid_loop :: "string list \<Rightarrow> string \<Rightarrow> bool" where
  "valid_loop [] command = False"
| "valid_loop (k # ks) command =
     (if take (length k) command = k then
        (if k = ''echo'' then True
         else if length command = length k \<or> isspace (command ! length k) then True
         else valid_loop ks command)
      else valid_loop ks command)"

definition is_valid_command :: "string \<Rightarrow> bool" where
  "is_valid_command command = (if command = [] then False else valid_loop allowed_commands command)"

section \<open>Specification\<close>

definition clean :: "char \<Rightarrow> char" where
  "clean c = (if isprint c \<or> isspace c then c else CHR ''?'')"

definition strip :: "string \<Rightarrow> string" where
  "strip b = rev (dropWhile isspace (rev (dropWhile isspace b)))"

definition sanitized :: "string \<Rightarrow> string" where
  "sanitized buffer =
     strip (map clean (take (MAX_COMMAND_LINE_LENGTH - 1) (chop_last CHR 0x0D (chop_last CHR 0x0A buffer))))"

lemma scrub_map: "scrub i b = take i b @ map clean (drop i b)"
proof (induction i b rule: scrub.induct)
  case (1 i b)
  show ?case
  proof (cases "i < length b")
    case True
    have d: "drop i b = b ! i # drop (Suc i) b" using True by (simp add: Cons_nth_drop_Suc)
    have t: "take (Suc i) (b[i := c]) = take i b @ [c]" for c using True by (simp add: take_Suc_conv_app_nth)
    have t': "take (Suc i) b = take i b @ [b ! i]" using True by (simp add: take_Suc_conv_app_nth)
    show ?thesis using 1 [OF True] True d t t' by (auto simp: scrub.simps [of i b] clean_def)
  next
    case False
    then show ?thesis by (simp add: scrub.simps [of i b])
  qed
qed

lemma skip_space_drop: "i \<le> length b \<Longrightarrow> drop (skip_space b i) b = dropWhile isspace (drop i b)"
proof (induction b i rule: skip_space.induct)
  case (1 b i)
  show ?case
  proof (cases "i < length b")
    case True
    then have "drop i b = b ! i # drop (Suc i) b" by (simp add: Cons_nth_drop_Suc)
    then show ?thesis using 1 True by (cases "isspace (b ! i)") (simp_all add: skip_space.simps [of b i])
  next
    case False
    then show ?thesis by (simp add: skip_space.simps [of b i])
  qed
qed

lemma trim_tail_rev: "trim_tail b = rev (dropWhile isspace (rev b))"
proof (induction b rule: trim_tail.induct)
  case (1 b)
  show ?case
  proof (cases b rule: rev_cases)
    case Nil
    then show ?thesis by (subst trim_tail.simps) simp
  next
    case (snoc xs x)
    then show ?thesis using 1 by (subst trim_tail.simps) simp
  qed
qed

lemma sanitize_run:
  fixes s :: "'a net_world_scheme"
  assumes "\<not> net_log_mutex s"
  shows "\<exists>s'. sanitize_input buffer s = Some (Inr (sanitized buffer, s')) \<and> quiet s' = quiet s \<and> calls s' = calls s"
proof -
  let ?b = "chop_last CHR 0x0D (chop_last CHR 0x0A buffer)"
  have tail: "trim_tail (if 0 < skip_space (scrub 0 b) 0 then drop (skip_space (scrub 0 b) 0) (scrub 0 b) else scrub 0 b)
      = strip (map clean b)" for b
    using skip_space_drop [of 0 "scrub 0 b"] by (auto simp: trim_tail_rev strip_def scrub_map)
  show ?thesis
  proof (cases "MAX_COMMAND_LINE_LENGTH \<le> length ?b")
    case True
    then show ?thesis using assms tail [of "take (MAX_COMMAND_LINE_LENGTH - 1) ?b"]
      by (auto simp: sanitize_input_def sanitized_def Let_def)
  next
    case False
    then show ?thesis using tail [of ?b] by (auto simp: sanitize_input_def sanitized_def Let_def)
  qed
qed

text \<open>The result of sanitizing is harmless: short, printable, without blanks at its ends.\<close>

definition harmless :: "string \<Rightarrow> bool" where
  "harmless b \<longleftrightarrow> length b < MAX_COMMAND_LINE_LENGTH \<and> list_all (\<lambda>c. isprint c \<or> isspace c) b \<and>
     (b \<noteq> [] \<longrightarrow> \<not> isspace (hd b) \<and> \<not> isspace (last b))"

lemma strip_set: "set (strip b) \<subseteq> set b"
  unfolding strip_def by (metis set_dropWhileD set_rev subsetI)

lemma strip_length: "length (strip b) \<le> length b"
  unfolding strip_def by (metis length_dropWhile_le length_rev order_trans)

lemma strip_ends: "strip b \<noteq> [] \<Longrightarrow> \<not> isspace (hd (strip b)) \<and> \<not> isspace (last (strip b))"
proof -
  let ?d = "dropWhile isspace b"
  assume ne: "strip b \<noteq> []"
  have "?d \<noteq> []" using ne unfolding strip_def by (metis dropWhile.simps(1) rev.simps(1))
  then have hd: "\<not> isspace (hd ?d)" by (rule hd_dropWhile)
  have r: "dropWhile isspace (rev ?d) \<noteq> []" using ne by (simp add: strip_def)
  have last: "last (strip b) = hd (dropWhile isspace (rev ?d))" using r by (simp add: strip_def last_rev)
  have "hd (strip b) = hd ?d"
  proof -
    have "?d = strip b @ rev (takeWhile isspace (rev ?d))"
      unfolding strip_def by (metis rev_append rev_rev_ident takeWhile_dropWhile_id)
    then show ?thesis using ne by (metis hd_append2)
  qed
  then show ?thesis using hd last hd_dropWhile [OF r] by simp
qed

lemma sanitized_harmless: "harmless (sanitized b)"
proof -
  have "isprint CHR ''?''" by (simp add: isprint_def char_code_def)
  then have "isprint (clean c) \<or> isspace (clean c)" for c by (simp add: clean_def)
  then have "list_all (\<lambda>c. isprint c \<or> isspace c) (sanitized b)"
    unfolding list_all_iff sanitized_def using strip_set by fastforce
  moreover have "length (sanitized b) < MAX_COMMAND_LINE_LENGTH"
    unfolding sanitized_def by (rule le_less_trans [OF strip_length]) simp
  ultimately show ?thesis using strip_ends unfolding harmless_def sanitized_def by blast
qed

lemma sanitized_id: "harmless b \<Longrightarrow> sanitized b = b"
proof -
  assume h: "harmless b"
  have sp: "isspace CHR 0x0A" "isspace CHR 0x0D" by (simp_all add: isspace_def char_code_def)
  have c: "chop_last x b = b" if "isspace x" for x
    using h that by (auto simp: chop_last_def harmless_def last_conv_nth)
  have "map clean b = b" using h by (auto simp: harmless_def list_all_iff clean_def intro: map_idI)
  moreover have "strip b = b"
  proof (cases "b = []")
    case False
    then have "dropWhile isspace b = b" "dropWhile isspace (rev b) = rev b"
      using h by (auto simp: harmless_def dropWhile_eq_self_iff hd_rev)
    then show ?thesis by (simp add: strip_def)
  qed (simp add: strip_def)
  ultimately show ?thesis using h by (simp add: sanitized_def c sp harmless_def)
qed

lemma valid_loop_iff:
  "valid_loop ks c \<longleftrightarrow> (\<exists>k\<in>set ks. take (length k) c = k \<and> (k = ''echo'' \<or> length c = length k \<or> isspace (c ! length k)))"
proof (induction ks)
  case (Cons k ks)
  then show ?case unfolding valid_loop.simps set_simps by (metis insertE insertI1 insertI2)
qed simp

lemma first_word:
  assumes "list_all (\<lambda>x. \<not> isspace x) k"
  shows "(take (length k) c = k \<and> (length c = length k \<or> isspace (c ! length k))) \<longleftrightarrow> takeWhile (\<lambda>x. \<not> isspace x) c = k"
  using assms
proof (induction k arbitrary: c)
  case Nil
  then show ?case by (cases c) auto
next
  case (Cons x k)
  then show ?case by (cases c) auto
qed

lemma words_no_space:
  "list_all (\<lambda>x. \<not> isspace x) ''help''" "list_all (\<lambda>x. \<not> isspace x) ''info''"
  "list_all (\<lambda>x. \<not> isspace x) ''exit''" "list_all (\<lambda>x. \<not> isspace x) ''quit''"
  by (simp_all add: isspace_def char_code_def)

section \<open>Properties\<close>

text \<open>
  C18: \<open>sanitize_input\<close>, with its in-place loops and index arithmetic, computes the
  specification: one newline and one carriage return removed from the end, at most 1023
  characters kept, unprintable characters replaced by question marks and blanks stripped
  from both ends. Nothing but the log changes.
\<close>

theorem sanitize_input_correct:
  fixes s :: "'a net_world_scheme"
  assumes "\<not> net_log_mutex s"
  shows "\<exists>s'. sanitize_input buffer s = Some (Inr (sanitized buffer, s')) \<and> quiet s' = quiet s \<and> calls s' = calls s"
  by (rule sanitize_run [OF assms])

theorem sanitize_input_correct_witness:
  "\<exists>s'. sanitize_input ''  help'' net_demo = Some (Inr (sanitized ''  help'', s')) \<and> quiet s' = quiet net_demo \<and>
     calls s' = calls net_demo"
  by (rule sanitize_input_correct) (simp add: net_demo_def)

text \<open>
  What \<open>sanitize_input\<close> returns is shorter than 1024 characters, contains only
  printable characters and white space, neither starts nor ends with white space, and
  sanitizing it again changes nothing.
\<close>

theorem sanitize_input_harmless:
  fixes s :: "'a net_world_scheme"
  assumes "sanitize_input buffer s = Some (Inr (b, s'))" "\<not> net_log_mutex s"
  shows "harmless b \<and> (\<exists>s''. sanitize_input b s = Some (Inr (b, s'')))"
proof -
  have b: "b = sanitized buffer" using sanitize_run [OF assms(2), of buffer] assms(1) by auto
  then have h: "harmless b" using sanitized_harmless by simp
  then show ?thesis using sanitize_run [OF assms(2), of b] sanitized_id [OF h] by auto
qed

lemma sanitize_demo: "\<exists>s'. sanitize_input ''  help'' net_demo = Some (Inr (''help'', s'))"
proof -
  have "sanitized ''  help'' = ''help''"
    by (simp add: sanitized_def chop_last_def strip_def clean_def isprint_def isspace_def char_code_def)
  then show ?thesis using sanitize_run [of net_demo "''  help''"] by (auto simp: net_demo_def)
qed

theorem sanitize_input_harmless_witness:
  "harmless ''help'' \<and> (\<exists>s''. sanitize_input ''help'' net_demo = Some (Inr (''help'', s'')))"
proof -
  obtain s' where "sanitize_input ''  help'' net_demo = Some (Inr (''help'', s'))" using sanitize_demo by blast
  then show ?thesis by (rule sanitize_input_harmless) (simp add: net_demo_def)
qed

text \<open>
  \<open>is_valid_command\<close> accepts exactly the lines whose first word is help, info, exit or
  quit and the lines that begin with the four letters echo.
\<close>

theorem is_valid_command_spec:
  "is_valid_command c \<longleftrightarrow>
     takeWhile (\<lambda>x. \<not> isspace x) c \<in> {''help'', ''info'', ''exit'', ''quit''} \<or> take 4 c = ''echo''"
proof -
  define h i x q e where w: "h = ''help''" "i = ''info''" "x = ''exit''" "q = ''quit''" "e = ''echo''"
  have ne: "h \<noteq> e" "i \<noteq> e" "x \<noteq> e" "q \<noteq> e" and e: "length e = 4" by (simp_all add: w)
  note first = words_no_space [THEN first_word, of c, folded w]
  have "valid_loop [h, i, x, q, e] c \<longleftrightarrow>
     takeWhile (\<lambda>x. \<not> isspace x) c \<in> {h, i, x, q} \<or> take 4 c = e"
    unfolding valid_loop_iff list.set w(5) [symmetric] using first ne e by simp
  moreover have "\<not> valid_loop [h, i, x, q, e] []" unfolding w by simp
  ultimately show ?thesis
    unfolding is_valid_command_def allowed_commands_def w [symmetric] by (cases "c = []") auto
qed

end
