(* ===== verification/NetRate.thy ===== *)
theory NetRate
  imports NetBase
begin

text \<open>
  The rate limiter of \<^verbatim>\<open>src/net/network.c\<close>: one pass over the table that drops expired
  entries, compacts the array in place, counts the request and decides. The table means a
  finite map from addresses to the start of the window and the count.
\<close>

section \<open>Operations\<close>

text \<open>The search and compaction loop; the result is the new size, the position found, the verdict and the array.\<close>

function rate_loop ::
  "int \<Rightarrow> int \<Rightarrow> string \<Rightarrow> nat \<Rightarrow> nat \<Rightarrow> nat \<Rightarrow> nat option \<Rightarrow> bool \<Rightarrow> rate_limit_entry_t list \<Rightarrow>
   nat \<times> nat option \<times> bool \<times> rate_limit_entry_t list" where
  "rate_loop now max_req ip sz read_idx write_idx found_idx allowed arr =
     (if read_idx < sz then
        (let e = arr ! read_idx in
         if RATE_LIMIT_WINDOW < now - rl_first_request_time e then
           rate_loop now max_req ip sz (Suc read_idx) write_idx found_idx allowed arr
         else
           let hit = (found_idx = None \<and> rl_ip e = ip);
               e' = (if hit then e\<lparr>rl_request_count := rl_request_count e + 1\<rparr> else e);
               allowed' = (if hit \<and> max_req < rl_request_count e' then False else allowed);
               arr' = arr[read_idx := e'];
               arr'' = (if read_idx \<noteq> write_idx then arr'[write_idx := e'] else arr') in
           rate_loop now max_req ip sz (Suc read_idx) (Suc write_idx)
             (if hit then Some write_idx else found_idx) allowed' arr'')
      else (write_idx, found_idx, allowed, arr))"
  by pat_completeness auto
termination
  by (relation "measure (\<lambda>(now, mx, ip, sz, r, w, f, al, arr). sz - r)") auto

declare rate_loop.simps [simp del]

definition check_and_update_rate_limit :: "os_calls \<Rightarrow> string \<Rightarrow> ('a net_world_scheme, bool) km" where
  "check_and_update_rate_limit os ip =
     seqK (spin_lock rate_limit_mutex rate_limit_mutex_update)
    (bindK (sys_call (os_time os)) (\<lambda>current_time.
     bindK (getK id) (\<lambda>s.
     case rate_loop current_time (cfg_max_requests_per_minute (config s)) ip (rate_limit_size s) 0 0 None True (rate_limits s) of
       (write_idx, found_idx, allowed, arr) \<Rightarrow>
         seqK (modK (\<lambda>s. s\<lparr>rate_limits := arr, rate_limit_size := write_idx\<rparr>))
        (seqK (if allowed \<and> found_idx = None then
                 bindK (getK (\<lambda>s. rate_limit_size s < rate_limit_capacity s)) (\<lambda>room.
                 if room then
                   seqK (modK (\<lambda>s. s\<lparr>rate_limits := (rate_limits s)[rate_limit_size s :=
                          \<lparr>rl_ip = take (INET6_ADDRSTRLEN - 1) ip, rl_first_request_time = current_time, rl_request_count = 1\<rparr>]\<rparr>))
                        (modK (\<lambda>s. s\<lparr>rate_limit_size := Suc (rate_limit_size s)\<rparr>))
                 else
                   log_message_net LOG_WARNING
                     ''Rate limit table full (%d entries), cannot track new IP: %s. Allowing request.''
                     [NInt (int (rate_limit_capacity s)), NStr ip])
               else retK ())
        (seqK (spin_unlock rate_limit_mutex_update)
              (retK allowed))))))"

section \<open>The loop as a list function\<close>

abbreviation fresh :: "int \<Rightarrow> rate_limit_entry_t \<Rightarrow> bool" where
  "fresh now e \<equiv> now - rl_first_request_time e \<le> RATE_LIMIT_WINDOW"

text \<open>Counting the request in the first entry of the address.\<close>

fun bump :: "string \<Rightarrow> rate_limit_entry_t list \<Rightarrow> rate_limit_entry_t list" where
  "bump ip [] = []"
| "bump ip (e # es) = (if rl_ip e = ip then e\<lparr>rl_request_count := rl_request_count e + 1\<rparr> # es else e # bump ip es)"

definition entry_of :: "string \<Rightarrow> rate_limit_entry_t list \<Rightarrow> rate_limit_entry_t option" where
  "entry_of ip es = find (\<lambda>e. rl_ip e = ip) es"

lemma bump_length [simp]: "length (bump ip es) = length es"
  by (induction es) auto

text \<open>Once the address has been found the loop only compacts.\<close>

lemma rate_loop_found:
  assumes "w \<le> r" "r \<le> sz" "sz \<le> length arr"
  shows "\<exists>arr'. rate_loop now mx ip sz r w (Some f) al arr =
      (w + length (filter (fresh now) (drop r (take sz arr))), Some f, al, arr') \<and> length arr' = length arr \<and>
    take (w + length (filter (fresh now) (drop r (take sz arr)))) arr' = take w arr @ filter (fresh now) (drop r (take sz arr))"
  using assms
proof (induction "sz - r" arbitrary: r w arr)
  case 0
  then show ?case by (subst rate_loop.simps) simp
next
  case (Suc n)
  have r: "r < sz" using Suc(2) by simp
  have d: "drop r (take sz arr) = arr ! r # drop (Suc r) (take sz arr)"
    using r Suc.prems(3) by (metis Cons_nth_drop_Suc length_take min.absorb2 nth_take)
  show ?case
  proof (cases "fresh now (arr ! r)")
    case False
    then show ?thesis using Suc.hyps(1) [of "Suc r" w arr] Suc(2) Suc.prems r d
      by (subst rate_loop.simps) (simp add: Let_def)
  next
    case True
    let ?arr = "arr[w := arr ! r]"
    have w: "w < length arr" using r Suc.prems by simp
    have tl: "drop (Suc r) (take sz ?arr) = drop (Suc r) (take sz arr)"
      using Suc.prems r by (simp add: drop_take drop_update_cancel)
    have hd: "take (Suc w) ?arr = take w arr @ [arr ! r]" using w by (simp add: take_Suc_conv_app_nth)
    have st: "rate_loop now mx ip sz r w (Some f) al arr = rate_loop now mx ip sz (Suc r) (Suc w) (Some f) al ?arr"
      using r True by (subst rate_loop.simps) (auto simp: Let_def list_update_id)
    show ?thesis using Suc.hyps(1) [of "Suc r" "Suc w" ?arr] Suc(2) Suc.prems r d tl hd True
      unfolding st by auto
  qed
qed

lemma rate_loop_run:
  assumes "w \<le> r" "r \<le> sz" "sz \<le> length arr"
  shows "\<exists>fd arr'. rate_loop now mx ip sz r w None al arr =
      (w + length (filter (fresh now) (drop r (take sz arr))), fd,
       al \<and> (\<forall>e. entry_of ip (filter (fresh now) (drop r (take sz arr))) = Some e \<longrightarrow> rl_request_count e + 1 \<le> mx), arr') \<and>
    (fd = None \<longleftrightarrow> entry_of ip (filter (fresh now) (drop r (take sz arr))) = None) \<and> length arr' = length arr \<and>
    take (w + length (filter (fresh now) (drop r (take sz arr)))) arr' =
      take w arr @ bump ip (filter (fresh now) (drop r (take sz arr)))"
  using assms
proof (induction "sz - r" arbitrary: r w arr)
  case 0
  then show ?case by (subst rate_loop.simps) (simp add: entry_of_def)
next
  case (Suc n)
  have r: "r < sz" using Suc(2) by simp
  have d: "drop r (take sz arr) = arr ! r # drop (Suc r) (take sz arr)"
    using r Suc.prems(3) by (metis Cons_nth_drop_Suc length_take min.absorb2 nth_take)
  show ?case
  proof (cases "fresh now (arr ! r)")
    case False
    then show ?thesis using Suc.hyps(1) [of "Suc r" w arr] Suc(2) Suc.prems r d
      by (subst rate_loop.simps) (simp add: Let_def)
  next
    case fr: True
    have w: "w < length arr" using r Suc.prems by simp
    show ?thesis
    proof (cases "rl_ip (arr ! r) = ip")
      case True
      let ?e = "(arr ! r)\<lparr>rl_request_count := rl_request_count (arr ! r) + 1\<rparr>"
      let ?arr = "(arr[r := ?e])[w := ?e]"
      have tl: "drop (Suc r) (take sz ?arr) = drop (Suc r) (take sz arr)"
        using Suc.prems r by (simp add: drop_take drop_update_cancel)
      have hd: "take (Suc w) ?arr = take w arr @ [?e]"
        using w Suc.prems(1) by (simp add: take_Suc_conv_app_nth take_update_cancel)
      have st: "rate_loop now mx ip sz r w None al arr =
          rate_loop now mx ip sz (Suc r) (Suc w) (Some w) (al \<and> rl_request_count (arr ! r) + 1 \<le> mx) ?arr"
        using r fr True by (subst rate_loop.simps) (auto simp: Let_def not_less)
      show ?thesis
        using rate_loop_found [of "Suc w" "Suc r" sz ?arr now mx ip w "al \<and> rl_request_count (arr ! r) + 1 \<le> mx"]
          Suc.prems r d tl hd fr True
        unfolding st by (auto simp: entry_of_def)
    next
      case False
      let ?arr = "arr[w := arr ! r]"
      have tl: "drop (Suc r) (take sz ?arr) = drop (Suc r) (take sz arr)"
        using Suc.prems r by (simp add: drop_take drop_update_cancel)
      have hd: "take (Suc w) ?arr = take w arr @ [arr ! r]" using w by (simp add: take_Suc_conv_app_nth)
      have st: "rate_loop now mx ip sz r w None al arr = rate_loop now mx ip sz (Suc r) (Suc w) None al ?arr"
        using r fr False by (subst rate_loop.simps) (auto simp: Let_def list_update_id)
      show ?thesis using Suc.hyps(1) [of "Suc r" "Suc w" ?arr] Suc(2) Suc.prems r d tl hd fr False
        unfolding st by (auto simp: entry_of_def)
    qed
  qed
qed

section \<open>The table as a map\<close>

definition rate_entries :: "'a net_world_scheme \<Rightarrow> rate_limit_entry_t list" where
  "rate_entries s = take (rate_limit_size s) (rate_limits s)"

definition rate_map :: "rate_limit_entry_t list \<Rightarrow> string \<Rightarrow> (int \<times> int) option" where
  "rate_map es ip = map_option (\<lambda>e. (rl_first_request_time e, rl_request_count e)) (entry_of ip es)"

definition rate_inv :: "'a net_world_scheme \<Rightarrow> bool" where
  "rate_inv s \<longleftrightarrow> \<not> rate_limit_mutex s \<and> \<not> net_log_mutex s \<and> rate_limit_size s \<le> rate_limit_capacity s \<and>
     length (rate_limits s) = rate_limit_capacity s \<and> distinct (map rl_ip (rate_entries s))"

text \<open>What a request does to the map; \<open>room\<close> says that a new address can be entered.\<close>

definition rate_step :: "int \<Rightarrow> int \<Rightarrow> string \<Rightarrow> bool \<Rightarrow> (string \<Rightarrow> (int \<times> int) option) \<Rightarrow> bool \<times> (string \<Rightarrow> (int \<times> int) option)" where
  "rate_step now max_req ip room m =
     (let m' = (\<lambda>a. Option.bind (m a) (\<lambda>(t, c). if now - t \<le> RATE_LIMIT_WINDOW then Some (t, c) else None)) in
      case m' ip of
        Some (t, c) \<Rightarrow> (c + 1 \<le> max_req, m'(ip \<mapsto> (t, c + 1)))
      | None \<Rightarrow> (True, if room then m'(ip \<mapsto> (now, 1)) else m'))"

lemma rate_map_simps [simp]:
  "rate_map [] a = None"
  "rate_map (e # es) a = (if rl_ip e = a then Some (rl_first_request_time e, rl_request_count e) else rate_map es a)"
  by (simp_all add: rate_map_def entry_of_def)

lemma rate_map_None: "rate_map es a = None \<longleftrightarrow> a \<notin> rl_ip ` set es"
  by (induction es) auto

lemma rate_map_filter:
  "distinct (map rl_ip es) \<Longrightarrow> rate_map (filter (fresh now) es) a =
     Option.bind (rate_map es a) (\<lambda>(t, c). if now - t \<le> RATE_LIMIT_WINDOW then Some (t, c) else None)"
proof (induction es)
  case (Cons e es)
  show ?case
  proof (cases "rl_ip e = a")
    case True
    then have "rate_map (filter (fresh now) es) a = None" using Cons.prems by (auto simp: rate_map_None)
    then show ?thesis using True by simp
  next
    case False
    then show ?thesis using Cons by simp
  qed
qed simp

lemma rate_map_bump:
  "rate_map (bump ip es) a = (if a = ip then map_option (\<lambda>(t, c). (t, c + 1)) (rate_map es a) else rate_map es a)"
  by (induction es) auto

lemma bump_ips [simp]: "map rl_ip (bump ip es) = map rl_ip es"
  by (induction es) auto

lemma bump_none: "entry_of ip es = None \<Longrightarrow> bump ip es = es"
  by (induction es) (auto simp: entry_of_def split: if_splits)

lemma rate_map_snoc: "rate_map (es @ [e]) a = (case rate_map es a of None \<Rightarrow> rate_map [e] a | Some x \<Rightarrow> Some x)"
  by (induction es) auto

lemma check_rate_run:
  fixes s :: "'a net_world_scheme" and os :: os_calls
  assumes inv: "rate_inv s" and ip: "length ip < INET6_ADDRSTRLEN"
  defines "now \<equiv> os_time os (calls s)" and "es \<equiv> rate_entries s"
  shows "\<exists>b s'. check_and_update_rate_limit os ip s = Some (Inr (b, s')) \<and> rate_inv s' \<and> calls s' = Suc (calls s) \<and>
     quiet s' = quiet (s\<lparr>rate_limits := rate_limits s', rate_limit_size := rate_limit_size s'\<rparr>) \<and>
     (b, rate_map (rate_entries s')) =
       rate_step now (cfg_max_requests_per_minute (config s)) ip
         (length (filter (fresh now) es) < rate_limit_capacity s) (rate_map es)"
proof -
  let ?mx = "cfg_max_requests_per_minute (config s)" and ?f = "filter (fresh now) es"
  let ?s1 = "s\<lparr>rate_limit_mutex := True, calls := Suc (calls s)\<rparr>"
  have I: "\<not> rate_limit_mutex s" "\<not> net_log_mutex s" "rate_limit_size s \<le> rate_limit_capacity s"
    "length (rate_limits s) = rate_limit_capacity s" "distinct (map rl_ip es)"
    using inv by (auto simp: rate_inv_def es_def)
  obtain fd arr where L: "rate_loop now ?mx ip (rate_limit_size s) 0 0 None True (rate_limits s) =
       (length ?f, fd, \<forall>e. entry_of ip ?f = Some e \<longrightarrow> rl_request_count e + 1 \<le> ?mx, arr)"
    and fd: "fd = None \<longleftrightarrow> entry_of ip ?f = None" and la: "length arr = length (rate_limits s)"
    and ta: "take (length ?f) arr = bump ip ?f"
    using rate_loop_run [of 0 0 "rate_limit_size s" "rate_limits s" now ?mx ip True] I
    by (auto simp: es_def rate_entries_def)
  have lf: "length ?f \<le> rate_limit_capacity s"
    using length_filter_le [of "fresh now" es] I(3,4) by (simp add: es_def rate_entries_def)
  have df: "distinct (map rl_ip ?f)" using I(5) by (rule distinct_map_filter)
  have mf: "rate_map ?f = (\<lambda>a. Option.bind (rate_map es a) (\<lambda>(t, c). if now - t \<le> RATE_LIMIT_WINDOW then Some (t, c) else None))"
    using rate_map_filter [OF I(5)] by blast
  let ?s2 = "s\<lparr>calls := Suc (calls s), rate_limits := arr, rate_limit_size := length ?f\<rparr>"
  show ?thesis
  proof (cases "entry_of ip ?f")
    case (Some e)
    let ?b = "rl_request_count e + 1 \<le> ?mx"
    have run: "check_and_update_rate_limit os ip s = Some (Inr (?b, ?s2))"
      using L fd Some I(1) by (cases s) (auto simp: check_and_update_rate_limit_def now_def)
    have mp: "rate_map ?f ip = Some (rl_first_request_time e, rl_request_count e)" using Some by (simp add: rate_map_def)
    have "rate_map (bump ip ?f) = (rate_map ?f)(ip \<mapsto> (rl_first_request_time e, rl_request_count e + 1))"
      using mp by (auto simp: fun_eq_iff rate_map_bump)
    then have "(?b, rate_map (rate_entries ?s2)) = rate_step now ?mx ip (length ?f < rate_limit_capacity s) (rate_map es)"
      using mp ta by (simp add: rate_step_def mf [symmetric] rate_entries_def)
    moreover have "rate_inv ?s2" using I la lf df ta by (simp add: rate_inv_def rate_entries_def)
    ultimately show ?thesis using run by (intro exI [of _ ?b] exI [of _ ?s2]) simp
  next
    case None
    have tf: "take (length ?f) arr = ?f" using ta bump_none [OF None] by simp
    have mp: "rate_map ?f ip = None" using None by (simp add: rate_map_def)
    show ?thesis
    proof (cases "length ?f < rate_limit_capacity s")
      case True
      let ?e = "\<lparr>rl_ip = ip, rl_first_request_time = now, rl_request_count = 1\<rparr>"
      let ?s3 = "s\<lparr>calls := Suc (calls s), rate_limits := arr[length ?f := ?e], rate_limit_size := Suc (length ?f)\<rparr>"
      have run: "check_and_update_rate_limit os ip s = Some (Inr (True, ?s3))"
        using L fd None I(1) True ip by (cases s) (simp add: check_and_update_rate_limit_def now_def)
      have en: "rate_entries ?s3 = ?f @ [?e]"
        using True la I(4) tf by (simp add: rate_entries_def take_Suc_conv_app_nth)
      have "rate_map (?f @ [?e]) = (rate_map ?f)(ip \<mapsto> (now, 1))"
        using mp by (auto simp: fun_eq_iff rate_map_snoc split: option.splits)
      then have "(True, rate_map (rate_entries ?s3)) = rate_step now ?mx ip (length ?f < rate_limit_capacity s) (rate_map es)"
        using mp True en by (simp add: rate_step_def mf [symmetric])
      moreover have "rate_inv ?s3" using I la True df en mp by (simp add: rate_inv_def rate_map_None)
      ultimately show ?thesis using run by (intro exI [of _ True] exI [of _ ?s3]) simp
    next
      case False
      let ?l = "[(LOG_WARNING, ''Rate limit table full (%d entries), cannot track new IP: %s. Allowing request.'',
         [NInt (int (rate_limit_capacity s)), NStr ip])]"
      let ?s4 = "logged ?l ?s2"
      have run: "check_and_update_rate_limit os ip s = Some (Inr (True, ?s4))"
        using L fd None I(1,2) False by (cases s) (simp add: check_and_update_rate_limit_def now_def logged_def)
      have "(True, rate_map (rate_entries ?s4)) = rate_step now ?mx ip (length ?f < rate_limit_capacity s) (rate_map es)"
        using mp False tf by (simp add: rate_step_def mf [symmetric] rate_entries_def)
      moreover have "rate_inv ?s4" using I la lf df tf by (simp add: rate_inv_def rate_entries_def)
      ultimately show ?thesis using run by (intro exI [of _ True] exI [of _ ?s4]) simp
    qed
  qed
qed

section \<open>Properties\<close>


lemma net_demo_rate_inv: "rate_inv net_demo"
  by (simp add: rate_inv_def rate_entries_def net_demo_def)


text \<open>A sequence of requests, from any addresses, and the verdicts on one of them.\<close>

primrec rate_requests :: "os_calls \<Rightarrow> string list \<Rightarrow> ('a net_world_scheme, (string \<times> bool) list) km" where
  "rate_requests os [] = retK []"
| "rate_requests os (ip # ips) =
     bindK (check_and_update_rate_limit os ip) (\<lambda>b. bindK (rate_requests os ips) (\<lambda>bs. retK ((ip, b) # bs)))"

definition granted :: "string \<Rightarrow> (string \<times> bool) list \<Rightarrow> nat" where
  "granted ip bs = length (filter (\<lambda>x. x = (ip, True)) bs)"

lemma rate_step_other:
  assumes "rate_step now mx ip' room m = (b, m')" "m ip = Some (t, c)" "now - t \<le> RATE_LIMIT_WINDOW"
  shows "m' ip = Some (t, if ip' = ip then c + 1 else c)" "ip' = ip \<Longrightarrow> b \<longleftrightarrow> c + 1 \<le> mx"
  using assms by (auto simp: rate_step_def Let_def split: option.splits if_splits)

lemma rate_requests_granted:
  fixes s :: "'a net_world_scheme"
  assumes "rate_inv s" "\<forall>a\<in>set ips. length a < INET6_ADDRSTRLEN"
    and "rate_map (rate_entries s) ip = Some (t, c)"
    and "\<forall>i < length ips. os_time os (calls s + i) - t \<le> RATE_LIMIT_WINDOW"
  shows "\<exists>bs s'. rate_requests os ips s = Some (Inr (bs, s')) \<and> map fst bs = ips \<and>
     int (granted ip bs) \<le> max 0 (cfg_max_requests_per_minute (config s) - c)"
  using assms
proof (induction ips arbitrary: s c)
  case Nil
  then show ?case by (simp add: granted_def)
next
  case (Cons a ips)
  let ?mx = "cfg_max_requests_per_minute (config s)"
  obtain b s1 where r: "check_and_update_rate_limit os a s = Some (Inr (b, s1))" "rate_inv s1" "calls s1 = Suc (calls s)"
    and q: "quiet s1 = quiet (s\<lparr>rate_limits := rate_limits s1, rate_limit_size := rate_limit_size s1\<rparr>)"
    and st: "(b, rate_map (rate_entries s1)) = rate_step (os_time os (calls s)) ?mx a
      (length (filter (fresh (os_time os (calls s))) (rate_entries s)) < rate_limit_capacity s) (rate_map (rate_entries s))"
    using check_rate_run [OF Cons.prems(1), of a os] Cons.prems(2) by auto
  have t0: "os_time os (calls s) - t \<le> RATE_LIMIT_WINDOW" using Cons.prems(4) by (metis add.right_neutral length_greater_0_conv list.distinct(1))
  have ts: "\<forall>i < length ips. os_time os (calls s1 + i) - t \<le> RATE_LIMIT_WINDOW"
    using Cons.prems(4) r(3) by (metis Suc_less_eq add_Suc_shift length_Cons)
  note m = rate_step_other [OF st [symmetric] Cons.prems(3) t0]
  have cfg: "config s1 = config s" using quiet_eqs(1) [OF q] by simp
  obtain bs s2 where "rate_requests os ips s1 = Some (Inr (bs, s2))" "map fst bs = ips"
    "int (granted ip bs) \<le> max 0 (?mx - (if a = ip then c + 1 else c))"
    using Cons.IH [OF r(2) _ m(1) ts] Cons.prems(2) cfg by auto
  then show ?case using r(1) m(2) by (auto simp: granted_def split: if_splits)
qed

text \<open>
  The limit is a limit: from the moment an address is in the table until its window of
  60 seconds ends, at most \<open>max_requests_per_minute\<close> minus its count further requests are
  granted to it, however many it makes and however other addresses interleave with it.
\<close>

theorem rate_limit_bound:
  fixes s :: "'a net_world_scheme"
  assumes "rate_inv s" "\<forall>a\<in>set ips. length a < INET6_ADDRSTRLEN"
    and "rate_map (rate_entries s) ip = Some (t, c)"
    and "\<forall>i < length ips. os_time os (calls s + i) - t \<le> RATE_LIMIT_WINDOW"
  shows "\<exists>bs s'. rate_requests os ips s = Some (Inr (bs, s')) \<and> map fst bs = ips \<and>
     int (granted ip bs) \<le> max 0 (cfg_max_requests_per_minute (config s) - c)"
  by (rule rate_requests_granted [OF assms])

definition net_rated :: net_world where
  "net_rated = net_demo\<lparr>rate_limits := [\<lparr>rl_ip = ''10.0.0.1'', rl_first_request_time = 0, rl_request_count = 1\<rparr>,
     \<lparr>rl_ip = [], rl_first_request_time = 0, rl_request_count = 0\<rparr>,
     \<lparr>rl_ip = [], rl_first_request_time = 0, rl_request_count = 0\<rparr>], rate_limit_size := 1\<rparr>"

theorem rate_limit_bound_witness:
  "\<exists>bs s'. rate_requests os_demo [''10.0.0.1'', ''10.0.0.2'', ''10.0.0.1''] net_rated = Some (Inr (bs, s')) \<and>
     map fst bs = [''10.0.0.1'', ''10.0.0.2'', ''10.0.0.1''] \<and>
     int (granted ''10.0.0.1'' bs) \<le> max 0 (cfg_max_requests_per_minute (config net_rated) - 1)"
  by (rule rate_limit_bound [where t = 0])
    (simp_all add: rate_inv_def rate_entries_def net_rated_def net_demo_def os_demo_def)

end
