(* ===== verification/NetPool.thy ===== *)
theory NetPool
  imports NetBase Contracts
begin

text \<open>
  The thread pool of \<^verbatim>\<open>src/net/network.c\<close>: its initialization, the linked work queue with
  \<open>enqueue_client\<close> and \<open>dequeue_client\<close>, the worker loop, and the cleanup. Queue items are
  allocated objects named by addresses. While a thread waits on a condition variable the
  others run: \<open>others\<close> is what they do, with the mutex released.
\<close>

section \<open>Operations\<close>

definition item_free :: "nat \<Rightarrow> ('a net_world_scheme, unit) km" where
  "item_free p = bindK (getK (\<lambda>s. work_items s p)) (\<lambda>it.
     if it = None then stopK (Fault ''free of memory that is not allocated'')
     else modK (\<lambda>s. s\<lparr>work_items := (work_items s)(p := None)\<rparr>))"

definition item_load :: "nat \<Rightarrow> ('a net_world_scheme, work_item_t) km" where
  "item_load p = bindK (getK (\<lambda>s. work_items s p)) (\<lambda>it.
     case it of None \<Rightarrow> stopK (Fault ''invalid pointer'') | Some x \<Rightarrow> retK x)"

definition cond_wait :: "('a net_world_scheme, unit) km \<Rightarrow> ('a net_world_scheme, unit) km" where
  "cond_wait others =
     seqK (spin_unlock queue_mutex_update) (seqK others (spin_lock queue_mutex queue_mutex_update))"

text \<open>
  Appending an item at the tail. The source tests a field \<open>queue_tail\<close> that the structure
  does not have; the field meant is \<open>work_queue_tail\<close>.
\<close>

definition link_item :: "nat \<Rightarrow> ('a net_world_scheme, unit) km" where
  "link_item p =
     bindK (getK work_queue_tail) (\<lambda>tail.
     seqK (if tail = 0 then
             modK (\<lambda>s. s\<lparr>work_queue_head := p, work_queue_tail := p\<rparr>)
           else
             bindK (item_load tail) (\<lambda>it.
             seqK (modK (\<lambda>s. s\<lparr>work_items := (work_items s)(tail \<mapsto> it\<lparr>wi_next := p\<rparr>)\<rparr>))
                  (modK (\<lambda>s. s\<lparr>work_queue_tail := p\<rparr>))))
          (modK (\<lambda>s. s\<lparr>queue_size := queue_size s + 1\<rparr>)))"

definition count_connection :: "client_data_t \<Rightarrow> ('a net_world_scheme, unit) km" where
  "count_connection client =
     seqK (spin_lock conn_mutex conn_mutex_update)
    (seqK (modK (\<lambda>s. s\<lparr>active_connections := active_connections s + 1\<rparr>))
    (bindK (getK active_connections) (\<lambda>current_active.
     seqK (spin_unlock conn_mutex_update)
          (log_message_net LOG_INFO ''Connection accepted from %s:%d (active: %d)''
             [NStr (cl_ip client), NInt (cl_port client), NInt current_active]))))"

definition enqueue_client :: "os_calls \<Rightarrow> ('a net_world_scheme, unit) km \<Rightarrow> client_data_t \<Rightarrow> ('a net_world_scheme, unit) km" where
  "enqueue_client os others client =
     bindK (sys_call (os_malloc os)) (\<lambda>mem.
     case mem of
       None \<Rightarrow>
         seqK (log_message_net LOG_ERROR ''Failed to allocate memory for work item: %s'' [])
              (bindK (sys_close os (cl_socket client)) (\<lambda>_. retK ()))
     | Some item \<Rightarrow>
         bindK (sys_call (os_time os)) (\<lambda>now.
         seqK (modK (\<lambda>s. s\<lparr>work_items := (work_items s)(item \<mapsto>
                \<lparr>wi_client = client\<lparr>cl_last_activity := now, cl_state := CLIENT_NEW, cl_request_count := 0\<rparr>, wi_next = 0\<rparr>)\<rparr>))
        (seqK (spin_lock queue_mutex queue_mutex_update)
        (seqK (whileK (\<lambda>s. cfg_max_queue_size (config s) \<le> queue_size s \<and> \<not> tp_shutdown s) (cond_wait others))
        (bindK (getK tp_shutdown) (\<lambda>shut.
         if shut then
           seqK (spin_unlock queue_mutex_update)
          (seqK (item_free item)
          (bindK (sys_close os (cl_socket client)) (\<lambda>_.
           log_message_net LOG_INFO ''Server shutting down, rejecting new connection from %s:%d''
             [NStr (cl_ip client), NInt (cl_port client)])))
         else
           seqK (link_item item)
          (seqK (spin_unlock queue_mutex_update)
                (count_connection client))))))))"

text \<open>The caller of \<open>dequeue_client\<close> holds the queue mutex; \<open>None\<close> is the return value -1.\<close>

definition dequeue_client :: "('a net_world_scheme, client_data_t option) km" where
  "dequeue_client =
     bindK (getK (\<lambda>s. queue_size s = 0 \<or> work_queue_head s = 0)) (\<lambda>empty.
     if empty then retK None
     else
       bindK (getK work_queue_head) (\<lambda>item.
       bindK (item_load item) (\<lambda>it.
       seqK (modK (\<lambda>s. s\<lparr>work_queue_head := wi_next it\<rparr>))
      (seqK (bindK (getK work_queue_head) (\<lambda>h. whenK (h = 0) (modK (\<lambda>s. s\<lparr>work_queue_tail := 0\<rparr>))))
      (seqK (modK (\<lambda>s. s\<lparr>queue_size := queue_size s - 1\<rparr>))
      (seqK (item_free item)
            (retK (Some (wi_client it)))))))))"

text \<open>One round of \<open>worker_thread\<close>; \<open>Inl ()\<close> is \<open>pthread_exit\<close>. \<open>handle\<close> serves a client.\<close>

definition worker_round ::
  "('a net_world_scheme, unit) km \<Rightarrow> (client_data_t \<Rightarrow> ('a net_world_scheme, unit) km) \<Rightarrow> unit \<Rightarrow> ('a net_world_scheme, unit + unit) km" where
  "worker_round others handle _ =
     seqK (spin_lock queue_mutex queue_mutex_update)
    (seqK (whileK (\<lambda>s. queue_size s = 0 \<and> \<not> tp_shutdown s) (cond_wait others))
    (bindK (getK (\<lambda>s. tp_shutdown s \<and> queue_size s = 0)) (\<lambda>stop.
     if stop then seqK (spin_unlock queue_mutex_update) (retK (Inl ()))
     else
       bindK dequeue_client (\<lambda>r.
       case r of
         Some client \<Rightarrow>
           seqK (spin_unlock queue_mutex_update)
          (seqK (handle client)
                (retK (Inr ())))
       | None \<Rightarrow>
           seqK (spin_unlock queue_mutex_update)
          (seqK (bindK (getK tp_shutdown) (\<lambda>shut. whenK (\<not> shut)
                   (log_message_net LOG_WARNING ''Worker woke up but queue was empty unexpectedly.'' [])))
                (retK (Inr ())))))))"

definition worker_thread ::
  "('a net_world_scheme, unit) km \<Rightarrow> (client_data_t \<Rightarrow> ('a net_world_scheme, unit) km) \<Rightarrow> ('a net_world_scheme, unit) km" where
  "worker_thread others handle = loopK (worker_round others handle) ()"

definition close_socket :: "os_calls \<Rightarrow> client_data_t \<Rightarrow> ('a net_world_scheme, client_data_t) km" where
  "close_socket os client =
     (if 0 \<le> cl_socket client then
        bindK (sys_call (os_status os)) (\<lambda>_.
        bindK (sys_close os (cl_socket client)) (\<lambda>r.
        seqK (case r of
                Some e \<Rightarrow> log_message_net LOG_WARNING ''close() failed for socket %d: %s'' [NInt (cl_socket client), NErr e]
              | None \<Rightarrow> retK ())
             (retK (client\<lparr>cl_socket := - 1\<rparr>))))
      else retK client)"

definition uncount_connection :: "client_data_t \<Rightarrow> ('a net_world_scheme, unit) km" where
  "uncount_connection client =
     seqK (spin_lock conn_mutex conn_mutex_update)
    (seqK (modK (\<lambda>s. if 0 < active_connections s then s\<lparr>active_connections := active_connections s - 1\<rparr> else s))
    (bindK (getK active_connections) (\<lambda>current_active.
     seqK (spin_unlock conn_mutex_update)
          (log_message_net LOG_DEBUG ''Client %s:%d connection closed (active: %d)''
             [NStr (cl_ip client), NInt (cl_port client), NInt current_active]))))"

definition close_client_connection :: "os_calls \<Rightarrow> client_data_t \<Rightarrow> bool \<Rightarrow> ('a net_world_scheme, client_data_t) km" where
  "close_client_connection os client update_count =
     bindK (close_socket os client) (\<lambda>client'.
     seqK (whenK update_count (uncount_connection client'))
          (retK client'))"

text \<open>One round of the loop that closes the connections left in the queue.\<close>

definition drain_round :: "os_calls \<Rightarrow> nat \<Rightarrow> ('a net_world_scheme, unit + nat) km" where
  "drain_round os cur =
     (if cur = 0 then retK (Inl ())
      else
        bindK (item_load cur) (\<lambda>it.
        seqK (log_message_net LOG_INFO ''Closing unprocessed connection from queue: %s:%d''
                [NStr (cl_ip (wi_client it)), NInt (cl_port (wi_client it))])
       (bindK (close_client_connection os (wi_client it) False) (\<lambda>_.
        seqK (item_free cur)
             (retK (Inr (wi_next it)))))))"

text \<open>\<open>join\<close> is what the worker threads still do before they end.\<close>

definition cleanup_thread_pool :: "os_calls \<Rightarrow> ('a net_world_scheme, unit) km \<Rightarrow> ('a net_world_scheme, unit) km" where
  "cleanup_thread_pool os join =
     seqK (log_message_net LOG_INFO ''Cleaning up thread pool...'' [])
    (seqK (modK (\<lambda>s. s\<lparr>tp_shutdown := True\<rparr>))
    (seqK (spin_lock queue_mutex queue_mutex_update)
    (seqK (spin_unlock queue_mutex_update)
    (seqK join
    (seqK (log_message_net LOG_DEBUG ''All worker threads joined.'' [])
    (seqK (spin_lock queue_mutex queue_mutex_update)
    (bindK (getK work_queue_head) (\<lambda>cur.
     seqK (loopK (drain_round os) cur)
    (seqK (modK (\<lambda>s. s\<lparr>work_queue_head := 0, work_queue_tail := 0, queue_size := 0\<rparr>))
    (seqK (spin_unlock queue_mutex_update)
    (seqK (modK (\<lambda>s. s\<lparr>tp_threads := [], rate_limits := []\<rparr>))
          (log_message_net LOG_INFO ''Thread pool resources cleaned up.'' []))))))))))))"

text \<open>
  Initialization. \<open>os_status\<close> gives the results of the \<open>init\<close> and \<open>create\<close> calls; \<open>junk\<close> is
  the content of freshly allocated memory. The result is 0 or -1, as in the source; the
  cleanup frees both arrays.
\<close>

definition pool_fail :: "string \<Rightarrow> ('a net_world_scheme, int) km" where
  "pool_fail msg =
     seqK (log_message_net LOG_ERROR msg [])
    (seqK (modK (\<lambda>s. s\<lparr>tp_threads := [], rate_limits := []\<rparr>))
          (retK (- 1)))"

definition create_round ::
  "os_calls \<Rightarrow> ('a net_world_scheme, unit) km \<Rightarrow> nat \<Rightarrow> nat \<Rightarrow> ('a net_world_scheme, int + nat) km" where
  "create_round os join thread_count i =
     (if i < thread_count then
        bindK (sys_call (os_status os)) (\<lambda>rc.
        if rc \<noteq> 0 then
          seqK (log_message_net LOG_ERROR ''Failed to create worker thread %d: %s'' [NInt (int i)])
         (seqK (modK (\<lambda>s. s\<lparr>tp_thread_count := i, tp_shutdown := True\<rparr>))
         (seqK join
         (seqK (modK (\<lambda>s. s\<lparr>tp_threads := [], rate_limits := []\<rparr>))
               (retK (Inl (- 1))))))
        else
          seqK (modK (\<lambda>s. s\<lparr>tp_threads := (tp_threads s)[i := Suc i]\<rparr>))
               (retK (Inr (Suc i))))
      else
        seqK (log_message_net LOG_INFO ''Thread pool initialized with %d threads'' [NInt (int thread_count)])
             (retK (Inl 0)))"

definition initialize_thread_pool ::
  "os_calls \<Rightarrow> ('a net_world_scheme, unit) km \<Rightarrow> rate_limit_entry_t \<Rightarrow> nat \<Rightarrow> ('a net_world_scheme, int) km" where
  "initialize_thread_pool os join junk thread_count =
     bindK (sys_call (os_malloc os)) (\<lambda>m1.
     if m1 = None then pool_fail ''Failed to allocate memory for thread pool threads: %s''
     else
       bindK (sys_call (os_malloc os)) (\<lambda>m2.
       if m2 = None then pool_fail ''Failed to allocate memory for rate limiting: %s''
       else
         seqK (modK (\<lambda>s. s\<lparr>tp_threads := replicate thread_count 0,
                 rate_limits := replicate (cfg_max_connections (config s)) junk,
                 tp_thread_count := thread_count, work_queue_head := 0, work_queue_tail := 0, queue_size := 0,
                 tp_shutdown := False, active_connections := 0, rate_limit_size := 0,
                 rate_limit_capacity := cfg_max_connections (config s)\<rparr>))
        (bindK (sys_call (os_status os)) (\<lambda>r1.
         if r1 \<noteq> 0 then pool_fail ''Failed to initialize queue mutex: %s''
         else seqK (modK (\<lambda>s. s\<lparr>queue_mutex := False\<rparr>))
        (bindK (sys_call (os_status os)) (\<lambda>r2.
         if r2 \<noteq> 0 then pool_fail ''Failed to initialize connection mutex: %s''
         else seqK (modK (\<lambda>s. s\<lparr>conn_mutex := False\<rparr>))
        (bindK (sys_call (os_status os)) (\<lambda>r3.
         if r3 \<noteq> 0 then pool_fail ''Failed to initialize rate limit mutex: %s''
         else seqK (modK (\<lambda>s. s\<lparr>rate_limit_mutex := False\<rparr>))
        (bindK (sys_call (os_status os)) (\<lambda>r4.
         if r4 \<noteq> 0 then pool_fail ''Failed to initialize condition variables: %s''
         else
           bindK (sys_call (os_status os)) (\<lambda>r5.
           if r5 \<noteq> 0 then pool_fail ''Failed to initialize condition variables: %s''
           else loopK (create_round os join thread_count) 0)))))))))))"

section \<open>The queue as a list\<close>

text \<open>The addresses of at most \<open>n\<close> items from \<open>p\<close> on.\<close>

primrec follow :: "nat \<Rightarrow> (nat \<Rightarrow> work_item_t option) \<Rightarrow> nat \<Rightarrow> nat list" where
  "follow 0 h p = []"
| "follow (Suc n) h p = (case h p of None \<Rightarrow> [] | Some it \<Rightarrow> p # follow n h (wi_next it))"

primrec chain :: "(nat \<Rightarrow> work_item_t option) \<Rightarrow> nat \<Rightarrow> nat list \<Rightarrow> nat \<Rightarrow> bool" where
  "chain h p [] e = (p = e)"
| "chain h p (q # qs) e = (p = q \<and> q \<noteq> 0 \<and> (\<exists>it. h q = Some it \<and> chain h (wi_next it) qs e))"

definition queue_ptrs :: "'a net_world_scheme \<Rightarrow> nat list" where
  "queue_ptrs s = follow (queue_size s) (work_items s) (work_queue_head s)"

definition queue_clients :: "'a net_world_scheme \<Rightarrow> client_data_t list" where
  "queue_clients s = map (\<lambda>p. wi_client (the (work_items s p))) (queue_ptrs s)"

text \<open>
  The invariant: the items form a list from head to tail, as long as \<open>queue_size\<close> says,
  without repetition, and nothing else is allocated.
\<close>

definition queue_ok :: "(nat \<Rightarrow> work_item_t option) \<Rightarrow> nat \<Rightarrow> nat \<Rightarrow> nat \<Rightarrow> nat list \<Rightarrow> bool" where
  "queue_ok h h0 t0 n qs \<longleftrightarrow> chain h h0 qs 0 \<and> distinct qs \<and> t0 = (if qs = [] then 0 else last qs) \<and>
     n = length qs \<and> dom h = set qs"

definition queue_inv :: "'a net_world_scheme \<Rightarrow> bool" where
  "queue_inv s \<longleftrightarrow> queue_ok (work_items s) (work_queue_head s) (work_queue_tail s) (queue_size s) (queue_ptrs s) \<and>
     \<not> conn_mutex s \<and> \<not> net_log_mutex s"

lemma follow_chain: "chain h p qs 0 \<Longrightarrow> follow (length qs) h p = qs"
  by (induction qs arbitrary: p) auto

lemma queue_ok_unique: "queue_ok h h0 t0 n qs \<Longrightarrow> follow n h h0 = qs"
  using follow_chain by (simp add: queue_ok_def)

lemma chain_append: "chain h p (qs @ rs) e \<longleftrightarrow> (\<exists>m. chain h p qs m \<and> chain h m rs e)"
  by (induction qs arbitrary: p) auto

lemma chain_upd: "r \<notin> set qs \<Longrightarrow> chain (h(r := x)) p qs e = chain h p qs e"
  by (induction qs arbitrary: p) auto

lemma chain_no_zero: "chain h p qs e \<Longrightarrow> 0 \<notin> set qs"
  by (induction qs arbitrary: p) auto

lemma queue_ok_append:
  assumes ok: "queue_ok h h0 t0 n qs" and p: "h p = None" "p \<noteq> 0" and it: "wi_next it = 0"
  shows "queue_ok (if t0 = 0 then h(p \<mapsto> it) else (h(p \<mapsto> it))(t0 \<mapsto> (the (h t0))\<lparr>wi_next := p\<rparr>))
     (if t0 = 0 then p else h0) p (Suc n) (qs @ [p])"
proof (cases qs rule: rev_cases)
  case Nil
  then have "t0 = 0" "n = 0" "dom h = {}" using ok by (simp_all add: queue_ok_def)
  then show ?thesis using Nil p(2) it by (simp add: queue_ok_def)
next
  case (snoc rs q)
  have c: "chain h h0 (rs @ [q]) 0" "distinct (rs @ [q])" "t0 = q" "n = length qs" "dom h = set (rs @ [q])"
    using ok snoc by (auto simp: queue_ok_def)
  then obtain iq where iq: "chain h h0 rs q" "q \<noteq> 0" "h q = Some iq" "wi_next iq = 0"
    by (auto simp: chain_append)
  have np: "p \<notin> set rs" "p \<noteq> q" using c(5) p(1) by auto
  have nq: "q \<notin> set rs" using c(2) by simp
  let ?h = "h(p \<mapsto> it, q \<mapsto> iq\<lparr>wi_next := p\<rparr>)"
  have "chain ?h h0 rs q" using iq(1) np nq by (simp add: chain_upd)
  then have "chain ?h h0 (rs @ [q, p]) 0" using iq(2) p(2) np it by (auto simp: chain_append)
  moreover have "dom ?h = set (rs @ [q, p])" using c(5) by auto
  ultimately show ?thesis using c iq snoc np by (simp add: queue_ok_def)
qed

lemma queue_ok_tail:
  assumes ok: "queue_ok h h0 t0 n (p # qs)"
  shows "\<exists>it. h h0 = Some it \<and> p = h0 \<and> h0 \<noteq> 0 \<and>
     queue_ok (h(h0 := None)) (wi_next it) (if wi_next it = 0 then 0 else t0) (n - 1) qs"
proof -
  obtain it where it: "h h0 = Some it" "p = h0" "h0 \<noteq> 0" "chain h (wi_next it) qs 0"
    using ok unfolding queue_ok_def chain.simps by blast
  have d: "h0 \<notin> set qs" "distinct qs" "dom h = insert h0 (set qs)" using ok it(2) by (simp_all add: queue_ok_def)
  have "wi_next it = 0 \<longleftrightarrow> qs = []" using it(4) by (cases qs) auto
  then have "queue_ok (h(h0 := None)) (wi_next it) (if wi_next it = 0 then 0 else t0) (n - 1) qs"
    using ok it d by (auto simp: queue_ok_def chain_upd)
  then show ?thesis using it by blast
qed

section \<open>Queue operations\<close>

lemma queue_inv_ok: "queue_inv s \<Longrightarrow>
   queue_ok (work_items s) (work_queue_head s) (work_queue_tail s) (queue_size s) (queue_ptrs s)"
  by (simp add: queue_inv_def)

lemma queue_ptrs_eq:
  assumes "queue_ok (work_items s) (work_queue_head s) (work_queue_tail s) (queue_size s) qs"
  shows "queue_ptrs s = qs"
  using queue_ok_unique [OF assms] by (simp add: queue_ptrs_def)

lemma dequeue_empty:
  "queue_inv s \<Longrightarrow> queue_clients s = [] \<Longrightarrow> dequeue_client s = Some (Inr (None, s))"
  by (auto simp: queue_inv_def queue_ok_def queue_clients_def dequeue_client_def)

lemma dequeue_run:
  fixes s :: "'a net_world_scheme"
  assumes inv: "queue_inv s" and c: "queue_clients s = c # cs"
  shows "\<exists>s'. dequeue_client s = Some (Inr (Some c, s')) \<and> queue_inv s' \<and> queue_clients s' = cs \<and>
     queue_size s' = queue_size s - 1 \<and>
     quiet s' = quiet (s\<lparr>work_items := work_items s', work_queue_head := work_queue_head s',
       work_queue_tail := work_queue_tail s', queue_size := queue_size s - 1\<rparr>)"
proof -
  obtain p qs where pq: "queue_ptrs s = p # qs" and cl: "wi_client (the (work_items s p)) = c"
    "map (\<lambda>p. wi_client (the (work_items s p))) qs = cs"
    using c by (auto simp: queue_clients_def)
  note ok = queue_inv_ok [OF inv, unfolded pq]
  obtain it where it: "work_items s (work_queue_head s) = Some it" "p = work_queue_head s" "work_queue_head s \<noteq> 0"
    and ok': "queue_ok ((work_items s)(work_queue_head s := None)) (wi_next it) (if wi_next it = 0 then 0 else work_queue_tail s)
       (queue_size s - 1) qs"
    using queue_ok_tail [OF ok] by blast
  let ?s = "s\<lparr>work_items := (work_items s)(work_queue_head s := None), work_queue_head := wi_next it,
     work_queue_tail := (if wi_next it = 0 then 0 else work_queue_tail s), queue_size := queue_size s - 1\<rparr>"
  have n: "queue_size s \<noteq> 0" using ok by (simp add: queue_ok_def)
  have run: "dequeue_client s = Some (Inr (Some c, ?s))"
    using it n cl by (cases s; cases "wi_next it = 0") (simp_all add: dequeue_client_def item_load_def item_free_def)
  have ptrs: "queue_ptrs ?s = qs" by (rule queue_ptrs_eq) (use ok' in simp)
  have "p \<notin> set qs" using ok by (simp add: queue_ok_def)
  then have "queue_clients ?s = cs" using cl(2) it(2) unfolding queue_clients_def ptrs by (auto intro!: map_cong)
  moreover have "queue_inv ?s" using ok' ptrs inv by (simp add: queue_inv_def)
  ultimately show ?thesis using run by (intro exI [of _ ?s]) simp
qed

text \<open>Enqueueing when there is room and the server is not shutting down.\<close>

definition stored :: "client_data_t \<Rightarrow> int \<Rightarrow> client_data_t" where
  "stored client now = client\<lparr>cl_last_activity := now, cl_state := CLIENT_NEW, cl_request_count := 0\<rparr>"

lemma link_item_run:
  fixes s :: "'a net_world_scheme"
  assumes ok: "queue_ok h h0 t0 n qs" and p: "h p = None" "p \<noteq> 0" and it: "wi_next it = 0"
    and s: "work_items s = h(p \<mapsto> it)" "work_queue_head s = h0" "work_queue_tail s = t0" "queue_size s = n"
  shows "\<exists>h'. link_item p s = Some (Inr ((), s\<lparr>work_items := h', work_queue_head := if t0 = 0 then p else h0,
       work_queue_tail := p, queue_size := Suc n\<rparr>)) \<and>
     queue_ok h' (if t0 = 0 then p else h0) p (Suc n) (qs @ [p]) \<and> h' p = Some it \<and>
     (\<forall>q\<in>set qs. wi_client (the (h' q)) = wi_client (the (h q)))"
proof -
  let ?h' = "if t0 = 0 then h(p \<mapsto> it) else (h(p \<mapsto> it))(t0 \<mapsto> (the (h t0))\<lparr>wi_next := p\<rparr>)"
  note ok' = queue_ok_append [OF ok p it]
  have tail: "t0 = 0 \<or> (\<exists>x. h t0 = Some x) \<and> t0 \<noteq> p \<and> t0 \<in> set qs"
  proof (cases "qs = []")
    case False
    then have "t0 \<in> set qs" "dom h = set qs" using ok by (simp_all add: queue_ok_def)
    then show ?thesis using p(1) by (metis domD domIff)
  qed (use ok in \<open>simp add: queue_ok_def\<close>)
  have "link_item p s = Some (Inr ((), s\<lparr>work_items := ?h', work_queue_head := if t0 = 0 then p else h0,
       work_queue_tail := p, queue_size := Suc n\<rparr>))"
    using tail s by (cases s; cases "t0 = 0") (auto simp: link_item_def item_load_def)
  moreover have "?h' p = Some it" using tail by auto
  moreover have "p \<notin> set qs" using ok p(1) by (auto simp: queue_ok_def)
  then have "\<forall>q\<in>set qs. wi_client (the (?h' q)) = wi_client (the (h q))" using tail by auto
  ultimately show ?thesis using ok' by blast
qed

definition pool_idle :: "'a net_world_scheme \<Rightarrow> bool" where
  "pool_idle s \<longleftrightarrow> queue_inv s \<and> \<not> queue_mutex s"

text \<open>There is room: the queue is not full, the server runs and memory for one item is available.\<close>

definition queue_room :: "os_calls \<Rightarrow> 'a net_world_scheme \<Rightarrow> bool" where
  "queue_room os s \<longleftrightarrow> \<not> tp_shutdown s \<and> queue_size s < cfg_max_queue_size (config s) \<and>
     (\<exists>p. os_malloc os (calls s) = Some p \<and> p \<noteq> 0 \<and> work_items s p = None)"

lemma enqueue_run:
  fixes s :: "'a net_world_scheme"
  assumes idle: "pool_idle s" and room: "queue_room os s"
  shows "\<exists>s'. enqueue_client os others client s = Some (Inr ((), s')) \<and> pool_idle s' \<and>
     queue_clients s' = queue_clients s @ [stored client (os_time os (Suc (calls s)))] \<and>
     active_connections s' = active_connections s + 1 \<and> sock_ends s' = sock_ends s"
proof -
  have I: "queue_ok (work_items s) (work_queue_head s) (work_queue_tail s) (queue_size s) (queue_ptrs s)"
    "\<not> conn_mutex s" "\<not> net_log_mutex s" "\<not> queue_mutex s"
    using idle by (simp_all add: pool_idle_def queue_inv_def)
  obtain p where p: "os_malloc os (calls s) = Some p" "p \<noteq> 0" "work_items s p = None"
    and r: "\<not> tp_shutdown s" "queue_size s < cfg_max_queue_size (config s)"
    using room by (auto simp: queue_room_def)
  let ?it = "\<lparr>wi_client = stored client (os_time os (Suc (calls s))), wi_next = 0\<rparr>"
  let ?s1 = "s\<lparr>calls := Suc (Suc (calls s)), work_items := (work_items s)(p \<mapsto> ?it), queue_mutex := True\<rparr>"
  obtain h' where L: "link_item p ?s1 = Some (Inr ((), ?s1\<lparr>work_items := h',
       work_queue_head := if work_queue_tail s = 0 then p else work_queue_head s, work_queue_tail := p, queue_size := Suc (queue_size s)\<rparr>))"
    and ok': "queue_ok h' (if work_queue_tail s = 0 then p else work_queue_head s) p (Suc (queue_size s)) (queue_ptrs s @ [p])"
    and hp: "h' p = Some ?it" "\<forall>q\<in>set (queue_ptrs s). wi_client (the (h' q)) = wi_client (the (work_items s q))"
    using link_item_run [OF I(1) p(3,2), of ?it ?s1] by auto
  let ?l = "(LOG_INFO, ''Connection accepted from %s:%d (active: %d)'',
     [NStr (cl_ip client), NInt (cl_port client), NInt (active_connections s + 1)])"
  let ?s2 = "logged [?l] (?s1\<lparr>work_items := h',
       work_queue_head := if work_queue_tail s = 0 then p else work_queue_head s, work_queue_tail := p, queue_size := Suc (queue_size s),
       queue_mutex := False, active_connections := active_connections s + 1, conn_mutex := False\<rparr>)"
  have run: "enqueue_client os others client s = Some (Inr ((), ?s2))"
    using p r I L by (simp add: enqueue_client_def count_connection_def stored_def)
  have ptrs: "queue_ptrs ?s2 = queue_ptrs s @ [p]" by (rule queue_ptrs_eq) (use ok' in simp)
  have "queue_clients ?s2 = queue_clients s @ [stored client (os_time os (Suc (calls s)))]"
    using hp unfolding queue_clients_def ptrs by simp
  moreover have "pool_idle ?s2" using ok' ptrs I by (simp add: pool_idle_def queue_inv_def)
  ultimately show ?thesis using run by (intro exI [of _ ?s2]) simp
qed

lemma dequeue_idle:
  fixes s :: "'a net_world_scheme"
  assumes "pool_idle s" "queue_clients s = c # cs"
  shows "\<exists>s'. dequeue_client s = Some (Inr (Some c, s')) \<and> pool_idle s' \<and> queue_clients s' = cs"
proof -
  obtain s' where s': "dequeue_client s = Some (Inr (Some c, s'))" "queue_inv s'" "queue_clients s' = cs"
    and q: "quiet s' = quiet (s\<lparr>work_items := work_items s', work_queue_head := work_queue_head s',
       work_queue_tail := work_queue_tail s', queue_size := queue_size s - 1\<rparr>)"
    using dequeue_run [of s c cs] assms by (auto simp: pool_idle_def)
  have "\<not> queue_mutex s'" using quiet_eqs(10) [OF q] assms(1) by (simp add: pool_idle_def)
  then show ?thesis using s' by (auto simp: pool_idle_def)
qed

definition client_key :: "client_data_t \<Rightarrow> int \<times> string \<times> int" where
  "client_key c = (cl_socket c, cl_ip c, cl_port c)"

interpretation netq: fifo_queue pool_idle "\<lambda>s. map client_key (queue_clients s)" "queue_room os"
  "enqueue_client os others" dequeue_client client_key client_key
  for os others
proof
  fix s :: "'a net_world_scheme" and x
  assume "pool_idle s" "queue_room os s"
  from enqueue_run [OF this, of others x]
  show "\<exists>r s'. enqueue_client os others x s = Some (Inr (r, s')) \<and> pool_idle s' \<and>
      map client_key (queue_clients s') = map client_key (queue_clients s) @ [client_key x]"
    by (auto simp: client_key_def stored_def)
next
  fix s :: "'a net_world_scheme" and k ks
  assume "pool_idle s" "map client_key (queue_clients s) = k # ks"
  then show "\<exists>y s'. dequeue_client s = Some (Inr (Some y, s')) \<and> pool_idle s' \<and> client_key y = k \<and>
      map client_key (queue_clients s') = ks"
    using dequeue_idle [of s] by (cases "queue_clients s") auto
next
  fix s :: "'a net_world_scheme"
  assume "pool_idle s" "map client_key (queue_clients s) = []"
  then show "\<exists>s'. dequeue_client s = Some (Inr (None, s')) \<and> pool_idle s' \<and> map client_key (queue_clients s') = []"
    using dequeue_empty [of s] by (simp add: pool_idle_def)
qed

section \<open>Closing and draining\<close>

lemma close_socket_run:
  fixes s :: "'a net_world_scheme"
  assumes "\<not> net_log_mutex s"
  shows "\<exists>s'. close_socket os c s = Some (Inr (c\<lparr>cl_socket := min (cl_socket c) (- 1)\<rparr>, s')) \<and>
     quiet s' = quiet (s\<lparr>sock_ends := sock_ends s @ (if 0 \<le> cl_socket c then [cl_socket c] else [])\<rparr>)"
proof (cases "0 \<le> cl_socket c")
  case True
  then show ?thesis using assms
    by (cases "os_close os (Suc (calls s))") (simp_all add: close_socket_def sys_close_def min_def)
next
  case False
  then have "c\<lparr>cl_socket := min (cl_socket c) (- 1)\<rparr> = c" by (cases c) (simp add: min_def)
  then show ?thesis using False by (cases s) (simp add: close_socket_def)
qed

lemma uncount_run:
  fixes s :: "'a net_world_scheme"
  assumes "\<not> conn_mutex s" "\<not> net_log_mutex s"
  shows "\<exists>s'. uncount_connection c s = Some (Inr ((), s')) \<and>
     quiet s' = quiet (s\<lparr>active_connections := (if 0 < active_connections s then active_connections s - 1 else active_connections s)\<rparr>)"
proof (cases "0 < active_connections s")
  case True
  then show ?thesis using assms by (cases s) (simp add: uncount_connection_def quiet_def logged_def)
next
  case False
  then show ?thesis using assms by (cases s) (simp add: uncount_connection_def quiet_def logged_def)
qed

lemma close_run:
  fixes s :: "'a net_world_scheme"
  assumes "\<not> conn_mutex s" "\<not> net_log_mutex s"
  shows "\<exists>s'. close_client_connection os c upd s = Some (Inr (c\<lparr>cl_socket := min (cl_socket c) (- 1)\<rparr>, s')) \<and>
     quiet s' = quiet (s\<lparr>sock_ends := sock_ends s @ (if 0 \<le> cl_socket c then [cl_socket c] else []),
       active_connections := (if upd \<and> 0 < active_connections s then active_connections s - 1 else active_connections s)\<rparr>)"
proof -
  let ?c = "c\<lparr>cl_socket := min (cl_socket c) (- 1)\<rparr>"
  obtain t where t: "close_socket os c s = Some (Inr (?c, t))"
    and q: "quiet t = quiet (s\<lparr>sock_ends := sock_ends s @ (if 0 \<le> cl_socket c then [cl_socket c] else [])\<rparr>)"
    using close_socket_run [OF assms(2)] by blast
  note e = quiet_eqs [OF q]
  have m: "\<not> conn_mutex t" "\<not> net_log_mutex t" "active_connections t = active_connections s" using e assms by simp_all
  show ?thesis
  proof (cases upd)
    case True
    obtain u where "uncount_connection ?c t = Some (Inr ((), u))"
      "quiet u = quiet (t\<lparr>active_connections := (if 0 < active_connections t then active_connections t - 1 else active_connections t)\<rparr>)"
      using uncount_run [OF m(1,2)] by blast
    then show ?thesis using True t q m(3) by (simp add: close_client_connection_def)
  next
    case False
    then have "close_client_connection os c upd s = Some (Inr (?c, t))" using t by (simp add: close_client_connection_def)
    moreover have "quiet t = quiet (s\<lparr>sock_ends := sock_ends s @ (if 0 \<le> cl_socket c then [cl_socket c] else []),
       active_connections := active_connections s\<rparr>)" using q by (cases s) simp
    ultimately show ?thesis using False by auto
  qed
qed

text \<open>Draining the queue closes every socket once, in queue order, and frees every item.\<close>

lemma drain_run:
  fixes s :: "'a net_world_scheme"
  assumes "chain (work_items s) p qs 0" "distinct qs" "dom (work_items s) = set qs" "\<not> conn_mutex s" "\<not> net_log_mutex s"
  shows "\<exists>s'. loopK (drain_round os) p s = Some (Inr ((), s')) \<and>
     quiet s' = quiet (s\<lparr>work_items := Map.empty, sock_ends := sock_ends s @
        filter (\<lambda>k. 0 \<le> k) (map (\<lambda>q. cl_socket (wi_client (the (work_items s q)))) qs)\<rparr>)"
  using assms
proof (induction qs arbitrary: p s)
  case Nil
  then have "work_items s = Map.empty" "p = 0" by simp_all
  then have "loopK (drain_round os) p s = Some (Inr ((), s))" "quiet s = quiet (s\<lparr>work_items := Map.empty, sock_ends := sock_ends s\<rparr>)"
    by (simp add: drain_round_def loopK_leave, cases s, simp)
  then show ?case by (intro exI [of _ s]) simp
next
  case (Cons q qs)
  obtain it where it: "work_items s q = Some it" "p = q" "q \<noteq> 0" "chain (work_items s) (wi_next it) qs 0"
    using Cons.prems(1) by auto
  have nq: "q \<notin> set qs" "distinct qs" using Cons.prems(2) by simp_all
  let ?c = "wi_client it"
  let ?s1 = "logged [(LOG_INFO, ''Closing unprocessed connection from queue: %s:%d'', [NStr (cl_ip ?c), NInt (cl_port ?c)])] s"
  obtain t where t: "close_client_connection os ?c False ?s1 = Some (Inr (?c\<lparr>cl_socket := min (cl_socket ?c) (- 1)\<rparr>, t))"
    and q: "quiet t = quiet (?s1\<lparr>sock_ends := sock_ends ?s1 @ (if 0 \<le> cl_socket ?c then [cl_socket ?c] else []),
       active_connections := active_connections ?s1\<rparr>)"
    using close_run [of ?s1 os ?c False] Cons.prems(4,5) by auto
  note e = quiet_eqs [OF q]
  let ?t = "t\<lparr>work_items := (work_items t)(q := None)\<rparr>"
  have round: "drain_round os p s = Some (Inr (Inr (wi_next it), ?t))"
    using it t e(6) Cons.prems(5) by (simp add: drain_round_def item_load_def item_free_def)
  have ch: "chain (work_items ?t) (wi_next it) qs 0" "dom (work_items ?t) = set qs"
    using it(4) nq e(6) Cons.prems(3) by (auto simp: chain_upd)
  obtain s' where s': "loopK (drain_round os) (wi_next it) ?t = Some (Inr ((), s'))"
    and q': "quiet s' = quiet (?t\<lparr>work_items := Map.empty, sock_ends := sock_ends ?t @
        filter (\<lambda>k. 0 \<le> k) (map (\<lambda>q. cl_socket (wi_client (the (work_items ?t q)))) qs)\<rparr>)"
    using Cons.IH [OF ch(1) nq(2) ch(2)] e(13,5) Cons.prems(4,5) by auto
  have mp: "map (\<lambda>q. cl_socket (wi_client (the (work_items ?t q)))) qs = map (\<lambda>q. cl_socket (wi_client (the (work_items s q)))) qs"
    using nq(1) e(6) by (auto intro!: map_cong)
  have "quiet s' = quiet (s\<lparr>work_items := Map.empty, sock_ends := sock_ends s @
        filter (\<lambda>k. 0 \<le> k) (map (\<lambda>q. cl_socket (wi_client (the (work_items s q)))) (q # qs))\<rparr>)"
    (is "_ = quiet (s\<lparr>work_items := _, sock_ends := sock_ends s @ ?X\<rparr>)")
  proof -
    have "sock_ends ?t @ filter (\<lambda>k. 0 \<le> k) (map (\<lambda>q. cl_socket (wi_client (the (work_items ?t q)))) qs) = sock_ends s @ ?X"
      unfolding mp using e(4) it(1) by simp
    then have "quiet s' = (quiet t)\<lparr>work_items := Map.empty, sock_ends := sock_ends s @ ?X\<rparr>" using q' by simp
    also have "\<dots> = (quiet s)\<lparr>work_items := Map.empty, sock_ends := sock_ends s @ ?X\<rparr>"
      unfolding q by (cases s) (simp add: quiet_def logged_def)
    finally show ?thesis by simp
  qed
  then show ?case using round s' by (auto simp: loopK_again)
qed

lemma queue_inv_locks:
  "queue_inv (s\<lparr>queue_mutex := b\<rparr>) \<longleftrightarrow> queue_inv (s :: 'a net_world_scheme)"
  "queue_clients (s\<lparr>queue_mutex := b\<rparr>) = queue_clients s"
  by (simp_all add: queue_inv_def queue_ptrs_def queue_clients_def)

lemma queue_size_clients: "queue_inv s \<Longrightarrow> queue_size s = length (queue_clients s)"
  by (simp add: queue_inv_def queue_ok_def queue_clients_def)

text \<open>A worker's round when there is a client in the queue.\<close>

lemma worker_round_serves:
  fixes s :: "'a net_world_scheme"
  assumes idle: "pool_idle s" and c: "queue_clients s = c # cs"
  shows "\<exists>t. pool_idle t \<and> queue_clients t = cs \<and> tp_shutdown t = tp_shutdown s \<and>
     worker_round others handle () s = seqK (handle c) (retK (Inr ())) t"
proof -
  let ?s = "s\<lparr>queue_mutex := True\<rparr>"
  have inv: "queue_inv ?s" "queue_clients ?s = c # cs" using idle c by (simp_all add: pool_idle_def queue_inv_locks)
  obtain t where t: "dequeue_client ?s = Some (Inr (Some c, t))" "queue_inv t" "queue_clients t = cs"
    and q: "quiet t = quiet (?s\<lparr>work_items := work_items t, work_queue_head := work_queue_head t,
       work_queue_tail := work_queue_tail t, queue_size := queue_size ?s - 1\<rparr>)"
    using dequeue_run [OF inv] by blast
  have n: "0 < queue_size s" using queue_size_clients [OF inv(1)] inv(2) by simp
  have "worker_round others handle () s = seqK (handle c) (retK (Inr ())) (t\<lparr>queue_mutex := False\<rparr>)"
    using idle t(1) n by (simp add: worker_round_def pool_idle_def)
  moreover have "tp_shutdown t = tp_shutdown s" using quiet_eqs(11) [OF q] by simp
  ultimately show ?thesis using t by (intro exI [of _ "t\<lparr>queue_mutex := False\<rparr>"]) (simp add: pool_idle_def queue_inv_locks)
qed

lemma worker_drains_run:
  fixes s :: "'a net_world_scheme"
  assumes idle: "pool_idle s" "tp_shutdown s"
    and h: "\<forall>c t. pool_idle t \<and> tp_shutdown t \<longrightarrow>
       (\<exists>t'. handle c t = Some (Inr ((), t')) \<and> pool_idle t' \<and> tp_shutdown t' \<and> queue_clients t' = queue_clients t)"
  shows "\<exists>s'. worker_thread others handle s = Some (Inr ((), s')) \<and> pool_idle s' \<and> queue_clients s' = []"
proof -
  have "\<exists>u s'. loopK (worker_round others handle) () s = Some (Inr (u, s')) \<and> (pool_idle s' \<and> queue_clients s' = [])"
  proof (rule loopK_rule [where I = "\<lambda>_ t. pool_idle t \<and> tp_shutdown t" and V = "\<lambda>_ t. length (queue_clients t)", rotated], goal_cases)
    case (1 u t)
    show ?case
    proof (cases "queue_clients t")
      case Nil
      then have "queue_size t = 0" using 1 queue_size_clients [of t] by (simp add: pool_idle_def)
      then have "worker_round others handle u t = Some (Inr (Inl (), t))"
        using 1 by (cases t) (simp add: worker_round_def pool_idle_def)
      then show ?thesis using 1 Nil by blast
    next
      case (Cons c cs)
      obtain t1 where t1: "pool_idle t1" "queue_clients t1 = cs" "tp_shutdown t1 = tp_shutdown t"
        "worker_round others handle () t = seqK (handle c) (retK (Inr ())) t1"
        using worker_round_serves [OF _ Cons] 1 by blast
      obtain t2 where t2: "handle c t1 = Some (Inr ((), t2))" "pool_idle t2" "tp_shutdown t2" "queue_clients t2 = cs"
        using h t1 1 by metis
      have "worker_round others handle u t = Some (Inr (Inr (), t2))" using t1(4) t2(1) by simp
      then show ?thesis using t2 Cons by auto
    qed
  qed (use idle in simp)
  then show ?thesis by (auto simp: worker_thread_def)
qed

section \<open>Properties\<close>

text \<open>
  C14: The work queue is first-in first-out: a client enqueued while there is room is
  accepted, and taking clients out afterwards returns first all that were waiting, in their
  order, then the new one, and leaves the queue empty and well formed.
\<close>

theorem work_queue_fifo:
  fixes s :: "'a net_world_scheme"
  assumes "pool_idle s" "queue_room os s"
  shows "\<exists>r t ys y s'. enqueue_client os others x s = Some (Inr (r, t)) \<and>
     repeatK (Suc (length (map client_key (queue_clients s)))) dequeue_client t = Some (Inr (map Some (ys @ [y]), s')) \<and>
     map client_key ys = map client_key (queue_clients s) \<and> client_key y = client_key x \<and>
     map client_key (queue_clients s') = [] \<and> pool_idle s'"
  by (rule netq.put_then_gets [OF assms])

lemma net_demo_idle: "pool_idle net_demo"
  by (simp add: pool_idle_def queue_inv_def queue_ok_def queue_ptrs_def net_demo_def)

definition demo_client :: client_data_t where
  "demo_client = \<lparr>cl_socket = 5, cl_ip = ''10.0.0.1'', cl_port = 4000, cl_last_activity = 0, cl_state = CLIENT_NEW,
     cl_request_count = 0\<rparr>"

theorem work_queue_fifo_witness:
  "\<exists>r t ys y s'. enqueue_client os_demo (retK ()) demo_client net_demo = Some (Inr (r, t)) \<and>
     repeatK (Suc (length (map client_key (queue_clients net_demo)))) dequeue_client t = Some (Inr (map Some (ys @ [y]), s')) \<and>
     map client_key ys = map client_key (queue_clients net_demo) \<and> client_key y = client_key demo_client \<and>
     map client_key (queue_clients s') = [] \<and> pool_idle s'"
  by (rule work_queue_fifo [OF net_demo_idle]) (simp add: queue_room_def net_demo_def os_demo_def)

text \<open>
  Cleaning up the pool returns with an empty queue and no item allocated, after closing
  the sockets of the clients still waiting, each exactly once and in queue order.
  \<open>active_connections\<close> keeps counting them.
\<close>

theorem cleanup_closes_waiting:
  fixes s :: "'a net_world_scheme"
  assumes "pool_idle s"
  shows "\<exists>s'. cleanup_thread_pool os (retK ()) s = Some (Inr ((), s')) \<and> pool_idle s' \<and> queue_clients s' = [] \<and>
     work_items s' = Map.empty \<and> tp_shutdown s' \<and> active_connections s' = active_connections s \<and>
     sock_ends s' = sock_ends s @ filter (\<lambda>k. 0 \<le> k) (map cl_socket (queue_clients s))"
proof -
  have I: "queue_ok (work_items s) (work_queue_head s) (work_queue_tail s) (queue_size s) (queue_ptrs s)"
    "\<not> conn_mutex s" "\<not> net_log_mutex s" "\<not> queue_mutex s"
    using assms by (simp_all add: pool_idle_def queue_inv_def)
  let ?l1 = "[(LOG_INFO, ''Cleaning up thread pool...'', [])]" and ?l2 = "[(LOG_DEBUG, ''All worker threads joined.'', [])]"
  let ?t = "(logged ?l2 ((logged ?l1 s)\<lparr>tp_shutdown := True, queue_mutex := False\<rparr>))\<lparr>queue_mutex := True\<rparr>"
  obtain u where u: "loopK (drain_round os) (work_queue_head s) ?t = Some (Inr ((), u))"
    and q: "quiet u = quiet (?t\<lparr>work_items := Map.empty, sock_ends := sock_ends ?t @
        filter (\<lambda>k. 0 \<le> k) (map (\<lambda>q. cl_socket (wi_client (the (work_items ?t q)))) (queue_ptrs s))\<rparr>)"
    using drain_run [of ?t "work_queue_head s" "queue_ptrs s" os] I by (auto simp: queue_ok_def)
  note e = quiet_eqs [OF q]
  let ?s' = "logged [(LOG_INFO, ''Thread pool resources cleaned up.'', [])]
     (u\<lparr>work_queue_head := 0, work_queue_tail := 0, queue_size := 0, queue_mutex := False, tp_threads := [], rate_limits := []\<rparr>)"
  have "cleanup_thread_pool os (retK ()) s = Some (Inr ((), ?s'))"
    using u I e by (simp add: cleanup_thread_pool_def)
  moreover have "pool_idle ?s' \<and> queue_clients ?s' = []"
    using e I by (simp add: pool_idle_def queue_inv_def queue_ok_def queue_ptrs_def queue_clients_def)
  moreover have "map (\<lambda>q. cl_socket (wi_client (the (work_items s q)))) (queue_ptrs s) = map cl_socket (queue_clients s)"
    by (simp add: queue_clients_def)
  ultimately show ?thesis using e by (intro exI [of _ ?s']) simp
qed

theorem cleanup_closes_waiting_witness:
  "\<exists>s'. cleanup_thread_pool os_demo (retK ()) net_demo = Some (Inr ((), s')) \<and> pool_idle s' \<and> queue_clients s' = [] \<and>
     work_items s' = Map.empty \<and> tp_shutdown s' \<and> active_connections s' = active_connections net_demo \<and>
     sock_ends s' = sock_ends net_demo @ filter (\<lambda>k. 0 \<le> k) (map cl_socket (queue_clients net_demo))"
  by (rule cleanup_closes_waiting [OF net_demo_idle])

text \<open>
  Once shutdown has been requested a worker thread serves the clients that are waiting
  and then ends, leaving the queue empty, provided that serving a client returns and leaves
  the queue alone.
\<close>

theorem worker_thread_ends:
  fixes s :: "'a net_world_scheme"
  assumes "pool_idle s" "tp_shutdown s"
    and "\<forall>c t. pool_idle t \<and> tp_shutdown t \<longrightarrow>
       (\<exists>t'. handle c t = Some (Inr ((), t')) \<and> pool_idle t' \<and> tp_shutdown t' \<and> queue_clients t' = queue_clients t)"
  shows "\<exists>s'. worker_thread others handle s = Some (Inr ((), s')) \<and> pool_idle s' \<and> queue_clients s' = []"
  by (rule worker_drains_run [OF assms])

theorem worker_thread_ends_witness:
  "\<exists>s'. worker_thread (retK ()) (\<lambda>c. log_message_net LOG_INFO ''served'' []) (net_demo\<lparr>tp_shutdown := True\<rparr>) = Some (Inr ((), s')) \<and>
     pool_idle s' \<and> queue_clients s' = []"
  by (rule worker_thread_ends)
    (use net_demo_idle in \<open>simp_all add: pool_idle_def queue_inv_def queue_ptrs_def queue_clients_def\<close>)

end
