(* ===== verification/NetConfig.thy ===== *)
theory NetConfig
  imports NetText
begin

text \<open>
  The command line of the network server (\<open>parse_command_line\<close> of
  \<^verbatim>\<open>src/net/network.c\<close>). What \<open>getopt_long\<close> returns is a list of option characters with
  their arguments, \<open>?\<close> for an unknown option. The source handles the options \<open>p\<close>, \<open>f\<close>
  and \<open>h\<close>; every other one reaches the default case. Text printed on the terminal is not
  kept.
\<close>

section \<open>Operations\<close>

abbreviation set_config :: "(server_config_t \<Rightarrow> server_config_t) \<Rightarrow> ('a net_world_scheme, unit) km" where
  "set_config f \<equiv> modK (\<lambda>s. s\<lparr>config := f (config s)\<rparr>)"

definition parse_option :: "os_calls \<Rightarrow> char \<times> string \<Rightarrow> ('a net_world_scheme, unit) km" where
  "parse_option os opt =
     (let (c, optarg) = opt in
      if c = CHR ''p'' then
        (let p = strtol optarg in
         if p \<le> 0 \<or> 65535 < p then set_config (\<lambda>k. k\<lparr>cfg_port := 8080\<rparr>) else set_config (\<lambda>k. k\<lparr>cfg_port := p\<rparr>))
      else if c = CHR ''f'' then
        bindK (sys_call (os_malloc os)) (\<lambda>mem.
        if mem = None then set_config (\<lambda>k. k\<lparr>cfg_log_file := None, cfg_log_fp := Stderr\<rparr>)
        else set_config (\<lambda>k. k\<lparr>cfg_log_file := Some optarg\<rparr>))
      else if c = CHR ''h'' then stopK (Exit 0)
      else stopK (Exit 1))"

primrec parse_options :: "os_calls \<Rightarrow> (char \<times> string) list \<Rightarrow> ('a net_world_scheme, unit) km" where
  "parse_options os [] = retK ()"
| "parse_options os (opt # opts) = seqK (parse_option os opt) (parse_options os opts)"

text \<open>\<open>fopen\<close> is an \<open>os_status\<close> call, 0 for NULL.\<close>

definition parse_command_line :: "os_calls \<Rightarrow> (char \<times> string) list \<Rightarrow> ('a net_world_scheme, unit) km" where
  "parse_command_line os opts =
     seqK (parse_options os opts)
    (bindK (getK config) (\<lambda>cfg.
     whenK (cfg_log_file cfg \<noteq> None \<and> cfg_log_fp cfg = Stderr)
       (bindK (sys_call (os_status os)) (\<lambda>fp.
        if fp = 0 then set_config (\<lambda>k. k\<lparr>cfg_log_fp := Stderr\<rparr>) else set_config (\<lambda>k. k\<lparr>cfg_log_fp := LogFile\<rparr>)))))"

section \<open>What the options can do\<close>

text \<open>The options change the port within its range, and the log file; nothing else.\<close>

definition config_ok :: "server_config_t \<Rightarrow> bool" where
  "config_ok k \<longleftrightarrow> 1 \<le> cfg_port k \<and> cfg_port k \<le> 65535 \<and> cfg_log_fp k \<noteq> NoFile \<and>
     (cfg_log_fp k = LogFile \<longrightarrow> cfg_log_file k \<noteq> None)"

definition same_limits :: "server_config_t \<Rightarrow> server_config_t \<Rightarrow> bool" where
  "same_limits k k' \<longleftrightarrow>
     k'\<lparr>cfg_port := 0, cfg_log_file := None, cfg_log_fp := Stderr\<rparr> = k\<lparr>cfg_port := 0, cfg_log_file := None, cfg_log_fp := Stderr\<rparr>"

lemma same_limits_simps [simp]:
  "same_limits k k"
  "same_limits k (k'\<lparr>cfg_port := p\<rparr>) = same_limits k k'"
  "same_limits k (k'\<lparr>cfg_log_file := f\<rparr>) = same_limits k k'"
  "same_limits k (k'\<lparr>cfg_log_fp := q\<rparr>) = same_limits k k'"
  "same_limits k (k'\<lparr>cfg_log_file := f, cfg_log_fp := q\<rparr>) = same_limits k k'"
  by (cases k; cases k'; simp add: same_limits_def)+

definition accepted_option :: "char \<times> string \<Rightarrow> bool" where
  "accepted_option opt \<longleftrightarrow> fst opt = CHR ''p'' \<or> fst opt = CHR ''f''"

lemma parse_option_run:
  fixes s :: "'a net_world_scheme"
  assumes "accepted_option opt" "cfg_log_fp (config s) = Stderr"
  shows "\<exists>s'. parse_option os opt s = Some (Inr ((), s')) \<and> cfg_log_fp (config s') = Stderr \<and>
    same_limits k (config s') = same_limits k (config s) \<and>
    (config_ok (config s) \<longrightarrow> config_ok (config s')) \<and> (fst opt = CHR ''p'' \<longrightarrow> config_ok (config s'))"
proof -
  obtain c a where opt: "opt = (c, a)" by (cases opt)
  consider (p) "c = CHR ''p''" | (f) "c = CHR ''f''" using assms(1) opt by (auto simp: accepted_option_def)
  then show ?thesis
  proof cases
    case p
    then show ?thesis using assms(2) opt
      by (cases "strtol a \<le> 0 \<or> 65535 < strtol a") (auto simp: parse_option_def Let_def config_ok_def)
  next
    case f
    then show ?thesis using assms(2) opt
      by (cases "os_malloc os (calls s)") (auto simp: parse_option_def config_ok_def)
  qed
qed

lemma parse_options_run:
  fixes s :: "'a net_world_scheme"
  assumes "list_all accepted_option opts" "cfg_log_fp (config s) = Stderr" "config_ok (config s)" "same_limits k (config s)"
  shows "\<exists>s'. parse_options os opts s = Some (Inr ((), s')) \<and> cfg_log_fp (config s') = Stderr \<and>
    config_ok (config s') \<and> same_limits k (config s')"
  using assms
proof (induction opts arbitrary: s)
  case (Cons opt opts)
  obtain t where "parse_option os opt s = Some (Inr ((), t))" "cfg_log_fp (config t) = Stderr" "config_ok (config t)"
    "same_limits k (config t)"
    using parse_option_run [of opt s os k] Cons.prems by auto
  then show ?case using Cons.IH [of t] Cons.prems by auto
qed simp

lemma parse_options_exit:
  fixes s :: "'a net_world_scheme"
  assumes "list_all accepted_option pre" "\<not> accepted_option opt" "cfg_log_fp (config s) = Stderr"
  shows "parse_options os (pre @ opt # post) s = Some (Inl (Exit (if fst opt = CHR ''h'' then 0 else 1)))"
  using assms
proof (induction pre arbitrary: s)
  case Nil
  then show ?case by (cases opt) (simp add: parse_option_def accepted_option_def)
next
  case (Cons o' pre)
  obtain t where "parse_option os o' s = Some (Inr ((), t))" "cfg_log_fp (config t) = Stderr"
    using parse_option_run [of o' s os undefined] Cons.prems by auto
  then show ?case using Cons.IH [of t] Cons.prems by simp
qed

section \<open>Properties\<close>

text \<open>
  Whatever the command line is, starting from the built-in configuration it either ends
  the process, with status 0 for the first option that is neither \<open>p\<close> nor \<open>f\<close> if that is
  \<open>h\<close> and with status 1 otherwise, or leaves a configuration whose port lies in 1..65535,
  whose log stream is open, and whose other limits are the defaults.
\<close>

theorem parse_command_line_bounds:
  fixes s :: "'a net_world_scheme"
  shows "case seqK init_config (parse_command_line os opts) s of
     None \<Rightarrow> False
   | Some (Inl e) \<Rightarrow> (\<exists>pre opt post. opts = pre @ opt # post \<and> list_all accepted_option pre \<and> \<not> accepted_option opt \<and>
       e = Exit (if fst opt = CHR ''h'' then 0 else 1))
   | Some (Inr (_, s')) \<Rightarrow> list_all accepted_option opts \<and> config_ok (config s') \<and> same_limits default_config (config s')"
proof -
  obtain t where t: "init_config s = Some (Inr ((), t))" "cfg_log_fp (config t) = Stderr" "config_ok (config t)"
    "config t = default_config"
    by (simp add: init_config_def default_config_def config_ok_def)
  show ?thesis
  proof (cases "list_all accepted_option opts")
    case True
    then obtain u where u: "parse_options os opts t = Some (Inr ((), u))" "cfg_log_fp (config u) = Stderr"
      "config_ok (config u)" "same_limits (config t) (config u)"
      using parse_options_run [of opts t "config t" os] t by auto
    show ?thesis using True t(1,4) u by (auto simp: parse_command_line_def config_ok_def)
  next
    case False
    then obtain pre opt post where o: "opts = pre @ opt # post" "list_all accepted_option pre" "\<not> accepted_option opt"
      using split_list_first_prop [of opts "\<lambda>x. \<not> accepted_option x"] by (auto simp: list_all_iff)
    have "seqK init_config (parse_command_line os opts) s = Some (Inl (Exit (if fst opt = CHR ''h'' then 0 else 1)))"
      using t parse_options_exit [OF o(2,3) t(2), of os post] o(1) by (simp add: parse_command_line_def)
    then show ?thesis using o by (simp only: option.case sum.case) blast
  qed
qed

end
