(* ===== verification/NetServer.thy ===== *)
theory NetServer
  imports NetIO NetText NetRate NetPool NetConfig
begin

text \<open>
  The server of \<^verbatim>\<open>src/net/network.c\<close> on top of its parts: serving one client
  (\<open>handle_client\<close>), creating the listening socket, the signal handler and \<open>main\<close>.
\<close>

section \<open>Serving a client\<close>

text \<open>The answer to a command that passed \<open>is_valid_command\<close>.\<close>

definition command_reply :: "server_config_t \<Rightarrow> int \<Rightarrow> client_data_t \<Rightarrow> string \<Rightarrow> string" where
  "command_reply cfg current_active client buffer =
     (let room = cfg_buf_size cfg + 128 - 1 in
      if buffer = ''help'' then
        ''Available commands:\<newline>  help          - Show this help message\<newline>  info          - Show server and connection information\<newline>  echo <message> - Echo back your message\<newline>  exit or quit  - Disconnect from the server\<newline>> ''
      else if buffer = ''info'' then
        take room (''Server Version: 2.1\<newline>Server Port: '' @ dec_int (cfg_port cfg) @
          ''\<newline>Total Active Connections: '' @ dec_int current_active @
          ''\<newline>Your IP: '' @ cl_ip client @ ''\<newline>Your Port: '' @ dec_int (cl_port client) @
          ''\<newline>Your Requests This Session: '' @ dec_int (cl_request_count client) @
          ''\<newline>Connection Timeout: '' @ dec_int (cfg_connection_timeout cfg) @ '' seconds\<newline>> '')
      else if take 5 buffer = ''echo '' then take room (''Echo: '' @ drop 5 buffer @ ''\<newline>> '')
      else if buffer = ''echo'' then ''Echo: \<newline>> ''
      else ''Error: Command logic not implemented?\<newline>> '')"

text \<open>Only the command \<open>info\<close> reads the number of active connections, under its lock.\<close>

definition read_active :: "bool \<Rightarrow> ('a net_world_scheme, int) km" where
  "read_active info =
     (if info then
        seqK (spin_lock conn_mutex conn_mutex_update)
       (bindK (getK active_connections) (\<lambda>a. seqK (spin_unlock conn_mutex_update) (retK a)))
      else retK 0)"

text \<open>What is done with a sanitized line; \<open>Inl\<close> ends the connection.\<close>

definition handle_line :: "os_calls \<Rightarrow> client_data_t \<Rightarrow> string \<Rightarrow> ('a net_world_scheme, client_data_t + client_data_t) km" where
  "handle_line os client buffer =
     (let fd = cl_socket client in
      if buffer = [] then
        bindK (send_full os fd ''> '') (\<lambda>_. retK (Inr client))
      else if buffer = ''exit'' \<or> buffer = ''quit'' then
        seqK (log_message_net LOG_INFO ''Client %s:%d requested disconnect'' [NStr (cl_ip client), NInt (cl_port client)])
       (bindK (send_full os fd ''Goodbye!\<newline>'') (\<lambda>_. retK (Inl client)))
      else if \<not> is_valid_command buffer then
        bindK (send_full os fd ''Error: Invalid or unknown command. Type 'help'.\<newline>> '') (\<lambda>_. retK (Inr client))
      else
        bindK (read_active (buffer = ''info'')) (\<lambda>current_active.
        bindK (getK (\<lambda>s. command_reply (config s) current_active client buffer)) (\<lambda>reply.
        bindK (send_full os fd reply) (\<lambda>_. retK (Inr client)))))"

text \<open>What the loop of \<open>handle_client\<close> does with the bytes of a successful receive, and one round of it.\<close>

definition handle_request :: "os_calls \<Rightarrow> client_data_t \<Rightarrow> string \<Rightarrow> ('a net_world_scheme, client_data_t + client_data_t) km" where
  "handle_request os client bytes =
     bindK (sys_call (os_time os)) (\<lambda>t.
     bindK (sanitize_input (c_str bytes)) (\<lambda>buffer.
     seqK (log_message_net LOG_DEBUG (''Received from %s:%d: '%s'' @ [CHR 0x27]) [NStr (cl_ip client), NInt (cl_port client), NStr buffer])
          (handle_line os (client\<lparr>cl_last_activity := t, cl_request_count := cl_request_count client + 1\<rparr>) buffer)))"

definition client_round :: "os_calls \<Rightarrow> client_data_t \<Rightarrow> ('a net_world_scheme, client_data_t + client_data_t) km" where
  "client_round os client =
     bindK (getK server_running) (\<lambda>run.
     if \<not> run then retK (Inl client)
     else
       bindK (sys_call (os_time os)) (\<lambda>now.
       bindK (getK config) (\<lambda>cfg.
       if cfg_connection_timeout cfg < now - cl_last_activity client then
         seqK (log_message_net LOG_INFO ''Client %s:%d timed out due to inactivity (%d seconds)''
                 [NStr (cl_ip client), NInt (cl_port client), NInt (cfg_connection_timeout cfg)])
        (bindK (send_full os (cl_socket client) ''Timeout: Closing connection due to inactivity.\<newline>'') (\<lambda>_. retK (Inl client)))
       else
         bindK (recv_full os (cl_socket client) (cfg_buf_size cfg)) (\<lambda>(status, bytes).
         case status of
           RECV_TIMEOUT \<Rightarrow> retK (Inr client)
         | RECV_ERROR \<Rightarrow>
             seqK (log_message_net LOG_INFO ''Network error receiving from client %s:%d'' [NStr (cl_ip client), NInt (cl_port client)])
                  (retK (Inl client))
         | RECV_EOF \<Rightarrow>
             seqK (log_message_net LOG_INFO ''Client %s:%d disconnected gracefully'' [NStr (cl_ip client), NInt (cl_port client)])
                  (retK (Inl client))
         | RECV_OK \<Rightarrow>
             handle_request os client bytes))))"

definition set_nonblocking :: "os_calls \<Rightarrow> int \<Rightarrow> ('a net_world_scheme, unit) km" where
  "set_nonblocking os fd =
     bindK (sys_call (os_fcntl os)) (\<lambda>flags.
     case flags of
       None \<Rightarrow>
         bindK (sys_call (os_fcntl os)) (\<lambda>r.
         case r of
           None \<Rightarrow> retK ()
         | Some e \<Rightarrow> log_message_net LOG_WARNING ''Failed to set client socket %d to non-blocking: %s'' [NInt fd, NErr e])
     | Some e \<Rightarrow> log_message_net LOG_WARNING ''Failed to get client socket %d flags: %s'' [NInt fd, NErr e])"

definition welcome_msg :: string where
  "welcome_msg = ''Welcome to the Enhanced Server!\<newline>Type 'help' for commands.\<newline>Type 'exit' or 'quit' to disconnect.\<newline>> ''"

definition handle_client :: "os_calls \<Rightarrow> client_data_t \<Rightarrow> ('a net_world_scheme, unit) km" where
  "handle_client os client =
     (let fd = cl_socket client; close = bindK (close_client_connection os client True) (\<lambda>_. retK ()) in
      seqK (set_nonblocking os fd)
     (bindK (sys_call (os_malloc os)) (\<lambda>mem.
      if mem = None then
        seqK (log_message_net LOG_ERROR ''Failed to allocate buffer for client %s:%d: %s'' [NStr (cl_ip client), NInt (cl_port client)])
             close
      else
        bindK (check_and_update_rate_limit os (cl_ip client)) (\<lambda>allowed.
        if \<not> allowed then
          seqK (log_message_net LOG_WARNING ''Rate limit exceeded for %s:%d'' [NStr (cl_ip client), NInt (cl_port client)])
         (bindK (send_full os fd ''429 Too Many Requests\<newline>'') (\<lambda>_. close))
        else
          bindK (send_full os fd welcome_msg) (\<lambda>r.
          if r < 0 then
            seqK (log_message_net LOG_INFO ''Failed to send welcome message to client %s:%d (disconnected?): %s''
                    [NStr (cl_ip client), NInt (cl_port client)])
                 close
          else
            bindK (sys_call (os_time os)) (\<lambda>now.
            bindK (loopK (client_round os) (client\<lparr>cl_last_activity := now\<rparr>)) (\<lambda>client'.
            bindK (close_client_connection os client' True) (\<lambda>_. retK ()))))))))"

section \<open>The listening socket, signals and main\<close>

text \<open>
  One candidate address of \<open>getaddrinfo\<close>, given by its family (\<open>True\<close> for IPv6):
  \<open>socket\<close>, \<open>setsockopt\<close> and \<open>bind\<close> with their failures. \<open>os_status\<close> gives the socket
  numbers and results, -1 for failure. \<open>Inl\<close> is the bound socket.
\<close>

definition try_address :: "os_calls \<Rightarrow> bool \<Rightarrow> ('a net_world_scheme, int + unit) km" where
  "try_address os ipv6 =
     bindK (sys_call (os_status os)) (\<lambda>sockfd.
     if sockfd = - 1 then
       seqK (log_message_net LOG_DEBUG ''socket() failed: %s'' []) (retK (Inr ()))
     else
       bindK (sys_call (os_status os)) (\<lambda>r.
       if r = - 1 then
         seqK (log_message_net LOG_ERROR ''Failed to set SO_REUSEADDR: %s'' [])
        (bindK (sys_close os sockfd) (\<lambda>_. retK (Inr ())))
       else
         seqK (if ipv6 then
                 bindK (sys_call (os_status os)) (\<lambda>r6. whenK (r6 = - 1)
                   (log_message_net LOG_WARNING ''Failed to unset IPV6_V6ONLY (non-fatal): %s'' []))
               else retK ())
        (bindK (sys_call (os_status os)) (\<lambda>rb.
         if rb = 0 then
           seqK (log_message_net LOG_DEBUG ''Successfully bound to address.'' []) (retK (Inl sockfd))
         else
           seqK (log_message_net LOG_WARNING ''bind() failed: %s'' [])
          (bindK (sys_close os sockfd) (\<lambda>_. retK (Inr ())))))))"

primrec try_addresses :: "os_calls \<Rightarrow> bool list \<Rightarrow> ('a net_world_scheme, int) km" where
  "try_addresses os [] = retK (- 1)"
| "try_addresses os (a # as) = bindK (try_address os a) (\<lambda>r. case r of Inl sockfd \<Rightarrow> retK sockfd | Inr _ \<Rightarrow> try_addresses os as)"

text \<open>\<open>addrs\<close> is the list \<open>getaddrinfo\<close> produces, \<open>None\<close> when it fails.\<close>

definition setup_server_socket :: "os_calls \<Rightarrow> bool list option \<Rightarrow> ('a net_world_scheme, int) km" where
  "setup_server_socket os addrs =
     (case addrs of
        None \<Rightarrow> seqK (log_message_net LOG_ERROR ''getaddrinfo error: %s'' []) (retK (- 1))
      | Some as \<Rightarrow>
          bindK (try_addresses os as) (\<lambda>sockfd.
          if sockfd = - 1 then
            bindK (getK (\<lambda>s. cfg_port (config s))) (\<lambda>port.
            seqK (log_message_net LOG_ERROR ''Could not bind to any address on port %d'' [NInt port]) (retK (- 1)))
          else
            bindK (sys_call (os_fcntl os)) (\<lambda>flags.
            if flags \<noteq> None then
              seqK (log_message_net LOG_ERROR ''Failed to get socket flags: %s'' [])
             (bindK (sys_close os sockfd) (\<lambda>_. retK (- 1)))
            else
              bindK (sys_call (os_fcntl os)) (\<lambda>r.
              if r \<noteq> None then
                seqK (log_message_net LOG_ERROR ''Failed to set socket to non-blocking: %s'' [])
               (bindK (sys_close os sockfd) (\<lambda>_. retK (- 1)))
              else
                bindK (sys_call (os_status os)) (\<lambda>rl.
                if rl = - 1 then
                  seqK (log_message_net LOG_ERROR ''Failed to listen on socket: %s'' [])
                 (bindK (sys_close os sockfd) (\<lambda>_. retK (- 1)))
                else retK sockfd)))))"

text \<open>The handler for SIGINT and SIGTERM; the connection to the own port only wakes up \<open>accept\<close>.\<close>

definition signal_handler :: "os_calls \<Rightarrow> bool \<Rightarrow> ('a net_world_scheme, unit) km" where
  "signal_handler os int_or_term =
     whenK int_or_term
       (seqK (modK (\<lambda>s. s\<lparr>server_running := False\<rparr>))
       (bindK (getK server_fd) (\<lambda>fd.
        whenK (0 \<le> fd)
          (bindK (sys_call (os_status os)) (\<lambda>sock.
           whenK (0 \<le> sock)
             (bindK (sys_call (os_status os)) (\<lambda>_.
              bindK (sys_close os sock) (\<lambda>_. retK ()))))))))"

text \<open>
  One round of the accept loop of \<open>main\<close>. \<open>others\<close> is what workers and signals do
  meanwhile; \<open>Inl ()\<close> leaves the loop.
\<close>

definition accept_round :: "os_calls \<Rightarrow> ('a net_world_scheme, unit) km \<Rightarrow> unit \<Rightarrow> ('a net_world_scheme, unit + unit) km" where
  "accept_round os others _ =
     bindK (getK server_running) (\<lambda>run.
     if \<not> run then retK (Inl ())
     else
       seqK others
      (bindK (sys_call (os_accept os)) (\<lambda>r.
       case r of
         AccErr e \<Rightarrow>
           bindK (getK server_running) (\<lambda>run.
           if \<not> run then retK (Inl ())
           else if e = EAGAIN \<or> e = EINTR then retK (Inr ())
           else seqK (log_message_net LOG_ERROR ''Failed to accept connection: %s'' [NErr e]) (retK (Inr ())))
       | AccSock client_fd peer \<Rightarrow>
           seqK (spin_lock conn_mutex conn_mutex_update)
          (bindK (getK (\<lambda>s. int (cfg_max_connections (config s)) \<le> active_connections s)) (\<lambda>max_conn_reached.
           seqK (spin_unlock conn_mutex_update)
          (if max_conn_reached then
             bindK (getK (\<lambda>s. cfg_max_connections (config s))) (\<lambda>m.
             seqK (log_message_net LOG_WARNING ''Max connections (%d) reached. Rejecting new connection.'' [NInt (int m)])
            (bindK (sys_send os client_fd ''503 Service Unavailable\<newline>'') (\<lambda>_.
             bindK (sys_close os client_fd) (\<lambda>_. retK (Inr ())))))
           else
             let client = \<lparr>cl_socket = client_fd, cl_ip = (case peer of Some (ip, _) \<Rightarrow> ip | None \<Rightarrow> ''unknown''),
                    cl_port = (case peer of Some (_, port) \<Rightarrow> port | None \<Rightarrow> 0), cl_last_activity = 0,
                    cl_state = CLIENT_NEW, cl_request_count = 0\<rparr> in
             seqK (whenK (peer = None) (log_message_net LOG_WARNING ''Accepted connection with unknown address family: %d'' []))
            (seqK (enqueue_client os others client)
                  (retK (Inr ())))))))))"

definition net_main ::
  "os_calls \<Rightarrow> ('a net_world_scheme, unit) km \<Rightarrow> ('a net_world_scheme, unit) km \<Rightarrow> rate_limit_entry_t \<Rightarrow>
   (char \<times> string) list \<Rightarrow> bool list option \<Rightarrow> ('a net_world_scheme, int) km" where
  "net_main os others join junk opts addrs =
     seqK init_config
    (seqK (parse_command_line os opts)
    (seqK (log_message_net LOG_INFO ''Server starting...'' [])
    (bindK (sys_call (os_status os)) (\<lambda>sigint.
     bindK (if sigint = - 1 then retK (- 1) else sys_call (os_status os)) (\<lambda>sig.
     if sig = - 1 then seqK (log_message_net LOG_FATAL ''Failed to set signal handlers: %s'' []) (retK 1)
     else
       bindK (sys_call (os_status os)) (\<lambda>sigp.
       seqK (whenK (sigp = - 1) (log_message_net LOG_WARNING ''Failed to ignore SIGPIPE: %s'' []))
      (bindK (setup_server_socket os addrs) (\<lambda>fd.
       seqK (modK (\<lambda>s. s\<lparr>server_fd := fd\<rparr>))
      (if fd < 0 then
         seqK (log_message_net LOG_FATAL ''Failed to initialize server socket. Exiting.'' []) (retK 1)
       else
         bindK (getK config) (\<lambda>cfg.
         seqK (log_message_net LOG_INFO ''Server (%s) listening on port %d''
                 [NStr (if cfg_use_ipv6 cfg then ''IPv6/Any'' else ''IPv4/Any''), NInt (cfg_port cfg)])
        (bindK (initialize_thread_pool os join junk (cfg_thread_pool_size cfg)) (\<lambda>r.
         if r \<noteq> 0 then
           seqK (log_message_net LOG_FATAL ''Failed to initialize thread pool. Exiting.'' [])
          (bindK (sys_close os fd) (\<lambda>_. retK 1))
         else
           seqK (log_message_net LOG_INFO ''Server started successfully. Waiting for connections...'' [])
          (seqK (loopK (accept_round os others) ())
          (seqK (log_message_net LOG_INFO ''Shutdown signal received. Cleaning up...'' [])
          (seqK (bindK (getK server_fd) (\<lambda>fd. whenK (0 \<le> fd)
                   (bindK (sys_close os fd) (\<lambda>_. modK (\<lambda>s. s\<lparr>server_fd := - 1\<rparr>)))))
          (seqK (cleanup_thread_pool os join)
          (seqK (modK (\<lambda>s. s\<lparr>config := (config s)\<lparr>cfg_log_fp := (if cfg_log_fp (config s) = LogFile then NoFile else cfg_log_fp (config s)),
                                       cfg_log_file := None\<rparr>\<rparr>))
                (retK 0))))))))))))))))))"

section \<open>A served client is closed\<close>

text \<open>\<open>core\<close> forgets in addition what went over the sockets and the rate limit table.\<close>

definition core :: "'a net_world_scheme \<Rightarrow> 'a net_world_scheme" where
  "core s = (quiet s)\<lparr>net_in := (\<lambda>_. []), net_out := (\<lambda>_. []), rate_limits := [], rate_limit_size := 0\<rparr>"

lemma core_simps [simp]:
  fixes s :: "'a net_world_scheme"
  shows "core (logged ls s) = core s" "core (s\<lparr>calls := c\<rparr>) = core s"
    "core (s\<lparr>net_in := i\<rparr>) = core s" "core (s\<lparr>net_out := i\<rparr>) = core s"
    "core (s\<lparr>rate_limits := r\<rparr>) = core s" "core (s\<lparr>rate_limit_size := n\<rparr>) = core s"
  by (cases s; simp add: core_def quiet_def logged_def)+

lemma core_quiet: "quiet t = quiet s \<Longrightarrow> core t = core s"
  by (simp add: core_def)

lemma core_eqs:
  assumes "core t = core s"
  shows "config t = config s" "sock_ends t = sock_ends s" "net_log_mutex t = net_log_mutex s"
    "conn_mutex t = conn_mutex s" "active_connections t = active_connections s" "server_running t = server_running s"
    "queue_clients t = queue_clients s" "work_items t = work_items s"
proof -
  have "config (core x) = config x" "sock_ends (core x) = sock_ends x" "net_log_mutex (core x) = net_log_mutex x"
    "conn_mutex (core x) = conn_mutex x" "active_connections (core x) = active_connections x"
    "server_running (core x) = server_running x" "queue_clients (core x) = queue_clients x" "work_items (core x) = work_items x"
    for x :: "'a net_world_scheme"
    by (simp_all add: core_def queue_clients_def queue_ptrs_def)
  then show "config t = config s" "sock_ends t = sock_ends s" "net_log_mutex t = net_log_mutex s"
    "conn_mutex t = conn_mutex s" "active_connections t = active_connections s" "server_running t = server_running s"
    "queue_clients t = queue_clients s" "work_items t = work_items s"
    using assms by metis+
qed

lemma sent_more_core: "sent_more fd b s t \<Longrightarrow> core t = core s \<and> net_in t = net_in s \<and> calls s \<le> calls t"
  using core_quiet [of t "s\<lparr>net_out := (net_out s)(fd := net_out s fd @ b)\<rparr>"] sent_moreD
  by (metis core_simps(4) sent_more_def)

lemma took_more_core: "took_more fd b s t \<Longrightarrow> core t = core s"
  using core_quiet [of t "s\<lparr>net_in := (net_in s)(fd := net_in t fd)\<rparr>"] by (simp add: took_more_def core_def)

text \<open>\<open>still s t\<close>: from \<open>s\<close> to \<open>t\<close> bytes may have been sent, nothing received.\<close>

definition still :: "'a net_world_scheme \<Rightarrow> 'a net_world_scheme \<Rightarrow> bool" where
  "still s t \<longleftrightarrow> core t = core s \<and> net_in t = net_in s \<and> calls s \<le> calls t"

lemma still_trans: "still s t \<Longrightarrow> still t u \<Longrightarrow> still s u"
  by (simp add: still_def)

lemma still_refl [simp]: "still s s" "still s (logged ls s)" "still s (s\<lparr>calls := Suc (calls s)\<rparr>)"
  by (simp_all add: still_def)

lemma send_still:
  fixes s :: "'a net_world_scheme"
  assumes "calm_from os n" "\<not> net_log_mutex s"
  shows "\<exists>r s'. send_full os fd b s = Some (Inr (r, s')) \<and> still s s'"
  using send_full_run [OF assms, of fd b] sent_more_core unfolding still_def by blast

lemma read_active_run [simp]:
  fixes s :: "'a net_world_scheme"
  shows "\<not> conn_mutex s \<Longrightarrow> read_active info s = Some (Inr (if info then active_connections s else 0, s))"
  by (cases s) (simp add: read_active_def)

lemma handle_line_run:
  fixes s :: "'a net_world_scheme"
  assumes calm: "calm_from os n" and g: "\<not> net_log_mutex s" "\<not> conn_mutex s"
  shows "\<exists>r s'. handle_line os client b s = Some (Inr (r, s')) \<and> r \<in> {Inl client, Inr client} \<and> still s s'"
proof -
  let ?fd = "cl_socket client"
  have send: "\<exists>r s'. bindK (send_full os ?fd msg) (\<lambda>_. retK x) t = Some (Inr (x, s')) \<and> still s s'"
    if "still s t" for msg t and x :: "client_data_t + client_data_t"
  proof -
    have "\<not> net_log_mutex t" using that g(1) core_eqs(3) by (metis still_def)
    then obtain r s' where "send_full os ?fd msg t = Some (Inr (r, s'))" "still t s'" using send_still [OF calm] by blast
    then show ?thesis using still_trans [OF that] by auto
  qed
  consider (empty) "b = []" | (bye) "b \<noteq> []" "b = ''exit'' \<or> b = ''quit''"
    | (invalid) "b \<noteq> []" "b \<noteq> ''exit''" "b \<noteq> ''quit''" "\<not> is_valid_command b"
    | (cmd) "b \<noteq> []" "b \<noteq> ''exit''" "b \<noteq> ''quit''" "is_valid_command b" by blast
  then show ?thesis
  proof cases
    case empty
    then show ?thesis using send [of s "''> ''" "Inr client"] by (auto simp: handle_line_def Let_def)
  next
    case bye
    let ?l = "[(LOG_INFO, ''Client %s:%d requested disconnect'', [NStr (cl_ip client), NInt (cl_port client)])]"
    show ?thesis using bye send [of "logged ?l s" "''Goodbye!\<newline>''" "Inl client"] g(1)
      by (auto simp: handle_line_def Let_def)
  next
    case invalid
    then show ?thesis
      using send [of s "''Error: Invalid or unknown command. Type 'help'.\<newline>> ''" "Inr client"]
      by (auto simp: handle_line_def Let_def)
  next
    case cmd
    let ?reply = "command_reply (config s) (if b = ''info'' then active_connections s else 0) client b"
    have "handle_line os client b s = bindK (send_full os ?fd ?reply) (\<lambda>_. retK (Inr client)) s"
      using cmd g(2) by (simp add: handle_line_def Let_def split del: if_split)
    then show ?thesis using send [of s ?reply "Inr client"] by auto
  qed
qed

text \<open>The system also stops reporting timeouts when data or the end of file is there.\<close>

definition quick_from :: "os_calls \<Rightarrow> nat \<Rightarrow> bool" where
  "quick_from os n \<longleftrightarrow> calm_from os n \<and> (\<forall>m\<ge>n. os_select os m \<noteq> SelTimeout)"

definition same_client :: "client_data_t \<Rightarrow> client_data_t \<Rightarrow> bool" where
  "same_client c d \<longleftrightarrow> client_key d = client_key c"

lemma same_client_simps [simp]:
  "same_client c c" "same_client c (c\<lparr>cl_last_activity := t\<rparr>)" "same_client c (c\<lparr>cl_last_activity := t, cl_request_count := k\<rparr>)"
  by (simp_all add: same_client_def client_key_def)

lemma same_client_socket: "same_client c d \<Longrightarrow> cl_socket d = cl_socket c"
  by (simp add: same_client_def client_key_def)

text \<open>
  What a round achieves: it leaves, or it goes round again having taken at least one byte
  from the peer (or having used up one of the calls before the system gets quick).
\<close>

definition round_result ::
  "nat \<Rightarrow> client_data_t \<Rightarrow> 'a net_world_scheme \<Rightarrow> client_data_t + client_data_t \<Rightarrow> 'a net_world_scheme \<Rightarrow> bool" where
  "round_result n c s r s' \<longleftrightarrow> core s' = core s \<and>
     (case r of Inl d \<Rightarrow> same_client c d
      | Inr d \<Rightarrow> same_client c d \<and> (n - calls s') + length (net_in s' (cl_socket c)) < (n - calls s) + length (net_in s (cl_socket c)))"

lemma round_result_still:
  "core u = core s \<Longrightarrow> still u s' \<Longrightarrow> same_client c d \<Longrightarrow> round_result n c s (Inl d) s'"
  by (simp add: round_result_def still_def)

lemma client_round_received:
  fixes s :: "'a net_world_scheme"
  assumes calm: "calm_from os n" and g: "\<not> net_log_mutex s" "\<not> conn_mutex s"
    and u: "took_more (cl_socket c) bytes s u" "bytes \<noteq> []"
  shows "\<exists>r s'. handle_request os c bytes u = Some (Inr (r, s')) \<and> round_result n c s r s'"
proof -
  let ?u = "u\<lparr>calls := Suc (calls u)\<rparr>"
  let ?c = "c\<lparr>cl_last_activity := os_time os (calls u), cl_request_count := cl_request_count c + 1\<rparr>"
  have cu: "core u = core s" by (rule took_more_core [OF u(1)])
  note D = took_moreD [OF u(1)]
  obtain v where v: "sanitize_input (c_str bytes) ?u = Some (Inr (sanitized (c_str bytes), v))" "quiet v = quiet ?u" "calls v = calls ?u"
    using sanitize_run [of ?u "c_str bytes"] D(2) g(1) by auto
  let ?v = "logged [(LOG_DEBUG, ''Received from %s:%d: '%s'' @ [CHR 0x27], [NStr (cl_ip c), NInt (cl_port c), NStr (sanitized (c_str bytes))])] v"
  have cv: "core v = core s" using core_quiet [OF v(2)] cu by simp
  have gv: "\<not> net_log_mutex v" "\<not> conn_mutex v" "net_in v = net_in u"
    using core_eqs(3,4) [OF cv] g quiet_eqs(2) [OF v(2)] by simp_all
  obtain r s' where r: "handle_line os ?c (sanitized (c_str bytes)) ?v = Some (Inr (r, s'))" "r \<in> {Inl ?c, Inr ?c}" "still ?v s'"
    using handle_line_run [of os n ?v ?c "sanitized (c_str bytes)"] calm gv by auto
  have "length (net_in u (cl_socket c)) < length (net_in s (cl_socket c))" using D(1) u(2) by (cases bytes) simp_all
  then have "round_result n c s r s'"
    using r(2,3) cv gv(3) v(3) D(3) by (auto simp: round_result_def still_def)
  then show ?thesis using v(1) gv(1) r(1) by (simp add: handle_request_def)
qed

lemma client_round_run:
  fixes s :: "'a net_world_scheme"
  assumes quick: "quick_from os n" and g: "\<not> net_log_mutex s" "\<not> conn_mutex s" and len: "1 < cfg_buf_size (config s)"
  shows "\<exists>r s'. client_round os c s = Some (Inr (r, s')) \<and> round_result n c s r s'"
proof (cases "server_running s")
  case False
  then show ?thesis by (simp add: client_round_def round_result_def)
next
  case run: True
  have calm: "calm_from os n" using quick by (simp add: quick_from_def)
  let ?s = "s\<lparr>calls := Suc (calls s)\<rparr>" and ?fd = "cl_socket c"
  show ?thesis
  proof (cases "cfg_connection_timeout (config s) < os_time os (calls s) - cl_last_activity c")
    case True
    let ?l = "[(LOG_INFO, ''Client %s:%d timed out due to inactivity (%d seconds)'',
       [NStr (cl_ip c), NInt (cl_port c), NInt (cfg_connection_timeout (config s))])]"
    obtain r s' where "send_full os ?fd ''Timeout: Closing connection due to inactivity.\<newline>'' (logged ?l ?s) = Some (Inr (r, s'))"
      "still (logged ?l ?s) s'"
      using send_still [OF calm, of "logged ?l ?s" ?fd "''Timeout: Closing connection due to inactivity.\<newline>''"] g by auto
    then show ?thesis using run True g round_result_still [of "logged ?l ?s" s s' c c n] by (simp add: client_round_def)
  next
    case False
    obtain st bytes u where r: "recv_full os ?fd (cfg_buf_size (config s)) ?s = Some (Inr ((st, bytes), u))"
      and res: "recv_result os ?fd (cfg_buf_size (config s)) ?s (st, bytes) u"
      using recv_full_run [OF calm, of ?s "cfg_buf_size (config s)" ?fd] g len by auto
    have tm: "took_more ?fd bytes ?s u" using res by (simp add: recv_result_def)
    have cu: "core u = core s" using took_more_core [OF tm] by simp
    note D = took_moreD [OF tm]
    have gu: "\<not> net_log_mutex u" using D(2) g by simp
    show ?thesis
    proof (cases st)
      case RECV_OK
      then have "bytes \<noteq> []" using res len by (simp add: recv_result_def)
      then obtain q s' where q: "handle_request os c bytes u = Some (Inr (q, s'))" "round_result n c ?s q s'"
        using client_round_received [OF calm _ _ tm] g by auto
      have "round_result n c s q s'" using q(2) by (cases q) (auto simp: round_result_def)
      then show ?thesis using run False r RECV_OK q(1) by (simp add: client_round_def)
    next
      case RECV_TIMEOUT
      then obtain m where "bytes = []" "Suc (calls s) \<le> m" "os_select os m = SelTimeout"
        using res by (auto simp: recv_result_def)
      moreover from this have "m < n" using quick by (metis not_le quick_from_def)
      ultimately have "round_result n c s (Inr c) u" using cu D(1,3) by (simp add: round_result_def)
      then show ?thesis using run False r RECV_TIMEOUT by (simp add: client_round_def)
    next
      case RECV_EOF
      then show ?thesis using run False r cu gu by (simp add: client_round_def round_result_def)
    next
      case RECV_ERROR
      then show ?thesis using run False r cu gu by (simp add: client_round_def round_result_def)
    qed
  qed
qed

lemma serve_run:
  fixes s :: "'a net_world_scheme"
  assumes quick: "quick_from os n" and g: "\<not> net_log_mutex s" "\<not> conn_mutex s" and len: "1 < cfg_buf_size (config s)"
  shows "\<exists>d s'. loopK (client_round os) c s = Some (Inr (d, s')) \<and> same_client c d \<and> core s' = core s"
proof -
  have "\<exists>d s'. loopK (client_round os) c s = Some (Inr (d, s')) \<and> (same_client c d \<and> core s' = core s)"
  proof (rule loopK_rule [where I = "\<lambda>d t. same_client c d \<and> core t = core s"
        and V = "\<lambda>d t. (n - calls t) + length (net_in t (cl_socket c))", rotated], goal_cases)
    case (1 d t)
    have d: "same_client c d" and ct: "core t = core s" using 1 by simp_all
    note e = core_eqs [OF ct]
    have k: "client_key d = client_key c" "cl_socket d = cl_socket c" using same_client_socket [OF d] d by (simp_all only: same_client_def)
    obtain r t' where r: "client_round os d t = Some (Inr (r, t'))" "round_result n d t r t'"
      using client_round_run [OF quick, of t d] e g len by auto
    show ?case
    proof (cases r)
      case (Inl f)
      then show ?thesis using r ct k by (auto simp: round_result_def same_client_def)
    next
      case (Inr f)
      then have "same_client c f" "core t' = core s"
        "(n - calls t') + length (net_in t' (cl_socket c)) < (n - calls t) + length (net_in t (cl_socket c))"
        using r(2) ct k by (simp_all add: round_result_def same_client_def)
      then show ?thesis using r(1) Inr by blast
    qed
  qed simp
  then show ?thesis by blast
qed

text \<open>The end of every path: the connection is closed and counted out.\<close>

definition client_done :: "client_data_t \<Rightarrow> 'a net_world_scheme \<Rightarrow> 'a net_world_scheme \<Rightarrow> bool" where
  "client_done c s s' \<longleftrightarrow> sock_ends s' = sock_ends s @ [cl_socket c] \<and>
     active_connections s' = (if 0 < active_connections s then active_connections s - 1 else active_connections s) \<and>
     \<not> conn_mutex s' \<and> \<not> net_log_mutex s' \<and> queue_clients s' = queue_clients s"

lemma close_done:
  fixes s t :: "'a net_world_scheme"
  assumes t: "core t = core s" and g: "\<not> conn_mutex s" "\<not> net_log_mutex s" and c: "same_client c d" "0 \<le> cl_socket c"
  shows "\<exists>s'. bindK (close_client_connection os d True) (\<lambda>_. retK ()) t = Some (Inr ((), s')) \<and> client_done c s s'"
proof -
  note e = core_eqs [OF t]
  obtain u where u: "close_client_connection os d True t = Some (Inr (d\<lparr>cl_socket := min (cl_socket d) (- 1)\<rparr>, u))"
    and q: "quiet u = quiet (t\<lparr>sock_ends := sock_ends t @ (if 0 \<le> cl_socket d then [cl_socket d] else []),
       active_connections := (if True \<and> 0 < active_connections t then active_connections t - 1 else active_connections t)\<rparr>)"
    using close_run [of t os d True] e g by auto
  have "queue_clients u = queue_clients (quiet u)" by (simp add: queue_clients_def queue_ptrs_def)
  also have "\<dots> = queue_clients t" unfolding q by (simp add: queue_clients_def queue_ptrs_def)
  finally have "queue_clients u = queue_clients s" using e(7) by simp
  moreover have "sock_ends u = sock_ends s @ [cl_socket c]" "\<not> conn_mutex u" "\<not> net_log_mutex u"
    "active_connections u = (if 0 < active_connections s then active_connections s - 1 else active_connections s)"
    using quiet_eqs [OF q] e(2-5) g c(2) same_client_socket [OF c(1)] by simp_all
  ultimately show ?thesis using u by (simp add: client_done_def)
qed

lemma set_nonblocking_still:
  fixes s :: "'a net_world_scheme"
  assumes "\<not> net_log_mutex s"
  shows "\<exists>s'. set_nonblocking os fd s = Some (Inr ((), s')) \<and> quiet s' = quiet s"
  proof (cases "os_fcntl os (calls s)")
  case None
  then show ?thesis using assms by (cases "os_fcntl os (Suc (calls s))") (simp_all add: set_nonblocking_def)
next
  case (Some e)
  then show ?thesis using assms by (simp add: set_nonblocking_def)
qed

section \<open>Properties\<close>

text \<open>The two ends of the conversation that follow the rate limit check, from any state with the server's core unchanged.\<close>

lemma refused_done:
  fixes s u :: "'a net_world_scheme"
  assumes calm: "calm_from os n" and u: "core u = core s" and g: "\<not> conn_mutex s" "\<not> net_log_mutex s" and c: "0 \<le> cl_socket c"
  shows "\<exists>s'. seqK (log_message_net LOG_WARNING fmt args)
      (bindK (send_full os (cl_socket c) msg) (\<lambda>_. bindK (close_client_connection os c True) (\<lambda>_. retK ()))) u
    = Some (Inr ((), s')) \<and> client_done c s s'"
proof -
  let ?u = "logged [(LOG_WARNING, fmt, args)] u"
  have gu: "\<not> net_log_mutex u" using core_eqs(3) [OF u] g by simp
  obtain r v where v: "send_full os (cl_socket c) msg ?u = Some (Inr (r, v))" "still ?u v"
    using send_still [OF calm, of ?u "cl_socket c" msg] gu by auto
  have "core v = core s" using v(2) u by (simp add: still_def)
  from close_done [OF this g _ c] show ?thesis using v(1) gu by auto
qed

lemma greeted_done:
  fixes s u :: "'a net_world_scheme"
  assumes quick: "quick_from os n" and u: "core u = core s" and g: "\<not> conn_mutex s" "\<not> net_log_mutex s"
    and c: "0 \<le> cl_socket c" and len: "1 < cfg_buf_size (config s)"
  shows "\<exists>s'. bindK (send_full os (cl_socket c) welcome_msg) (\<lambda>r.
      if r < 0 then seqK (log_message_net LOG_INFO fmt args) (bindK (close_client_connection os c True) (\<lambda>_. retK ()))
      else bindK (sys_call (os_time os)) (\<lambda>now.
           bindK (loopK (client_round os) (c\<lparr>cl_last_activity := now\<rparr>)) (\<lambda>client'.
           bindK (close_client_connection os client' True) (\<lambda>_. retK ())))) u
    = Some (Inr ((), s')) \<and> client_done c s s'"
proof -
  have calm: "calm_from os n" using quick by (simp add: quick_from_def)
  have gu: "\<not> net_log_mutex u" using core_eqs(3) [OF u] g by simp
  obtain r v where v: "send_full os (cl_socket c) welcome_msg u = Some (Inr (r, v))" "still u v"
    using send_still [OF calm gu, of "cl_socket c" welcome_msg] by auto
  have cv: "core v = core s" using v(2) u by (simp add: still_def)
  note ev = core_eqs [OF cv]
  show ?thesis
  proof (cases "r < 0")
    case True
    have "core (logged [(LOG_INFO, fmt, args)] v) = core s" using cv by simp
    from close_done [OF this g _ c] show ?thesis using v(1) True ev(3) g by auto
  next
    case False
    let ?v = "v\<lparr>calls := Suc (calls v)\<rparr>" and ?c = "c\<lparr>cl_last_activity := os_time os (calls v)\<rparr>"
    obtain d w where w: "loopK (client_round os) ?c ?v = Some (Inr (d, w))" "same_client ?c d" "core w = core ?v"
      using serve_run [OF quick, of ?v ?c] ev g len by auto
    have "core w = core s" using w(3) cv by simp
    moreover have "same_client c d" using w(2) by (simp add: same_client_def client_key_def)
    ultimately show ?thesis using close_done [OF _ g _ c] v(1) False w(1) by simp
  qed
qed



end
