(* ===== verification/BitWords.thy ===== *)
theory BitWords
  imports KPrelude
begin

text \<open>
  A bitmap as a list of 64-bit words, and the set of the numbers of its set bits. The node
  bitmap of the tree library and the block bitmap of the architecture's frame allocator are
  such lists.
\<close>

definition wbits :: "u64 list \<Rightarrow> nat set" where
  "wbits ws = {n. n < 64 * length ws \<and> bit (ws ! (n div 64)) (n mod 64)}"

abbreviation bmask :: "nat \<Rightarrow> u64" where "bmask b \<equiv> push_bit (b mod 64) 1"

lemma word_index: "n < 64 * m \<Longrightarrow> n div 64 < (m :: nat)"
  by (simp add: less_mult_imp_div_less mult.commute)

lemma word_index_iff: "n div 64 < m \<longleftrightarrow> n < 64 * (m :: nat)"
  by (simp add: div_less_iff_less_mult mult.commute)

lemma bit_number_eq: "n = m \<longleftrightarrow> n div 64 = m div 64 \<and> n mod 64 = m mod (64 :: nat)"
  by (metis div_mult_mod_eq)

lemma bit_bmask: "bit (bmask b) n \<longleftrightarrow> n = b mod 64"
  by (auto simp: bit_exp_iff)

lemma and_bmask: "w AND bmask b \<noteq> 0 \<longleftrightarrow> bit w (b mod 64)"
proof -
  have "bit (w AND bmask b) n \<longleftrightarrow> n = b mod 64 \<and> bit w (b mod 64)" for n
    by (auto simp only: bit_and_iff bit_bmask)
  then show ?thesis using bit_eq_iff [of "w AND bmask b" 0] by simp
qed

lemma wbits_test: "b < 64 * length ws \<Longrightarrow> ws ! (b div 64) AND bmask b \<noteq> 0 \<longleftrightarrow> b \<in> wbits ws"
  by (simp only: and_bmask wbits_def) simp

lemma wbits_update:
  assumes "b < 64 * length ws" "\<And>n. n < 64 \<Longrightarrow> bit w n \<longleftrightarrow> (if n = b mod 64 then v else bit (ws ! (b div 64)) n)"
  shows "wbits (ws[b div 64 := w]) = (if v then insert b (wbits ws) else wbits ws - {b})"
proof -
  have k: "b div 64 < length ws" using assms(1) by (rule word_index)
  have "n \<in> wbits (ws[b div 64 := w]) \<longleftrightarrow> n \<in> (if v then insert b (wbits ws) else wbits ws - {b})" for n
  proof (cases "n div 64 = b div 64")
    case True
    then have "n < 64 * length ws" using k word_index_iff [of n] by simp
    then show ?thesis using True k assms(2) [of "n mod 64"] bit_number_eq [of n b] by (auto simp: wbits_def)
  next
    case False
    then have "n \<noteq> b" by auto
    then show ?thesis using False by (auto simp: wbits_def nth_list_update)
  qed
  then show ?thesis by blast
qed

lemma wbits_set: "b < 64 * length ws \<Longrightarrow> wbits (ws[b div 64 := ws ! (b div 64) OR bmask b]) = insert b (wbits ws)"
  by (subst wbits_update [where v = True]) (auto simp only: bit_or_iff bit_bmask split: if_splits)

lemma wbits_clear: "b < 64 * length ws \<Longrightarrow> wbits (ws[b div 64 := ws ! (b div 64) AND NOT (bmask b)]) = wbits ws - {b}"
  by (subst wbits_update [where v = False]) (auto simp only: bit_and_iff bit_not_iff bit_bmask split: if_splits, simp)

lemma wbits_finite [simp]: "finite (wbits ws)"
  by (rule finite_subset [of _ "{..<64 * length ws}"]) (auto simp: wbits_def)

section \<open>Counting\<close>

definition popcountll :: "u64 \<Rightarrow> nat" where
  "popcountll w = length (filter (bit w) [0..<64])"

lemma popcountll_card: "popcountll w = card {j. j < 64 \<and> bit w j}"
  unfolding popcountll_def length_filter_conv_card by (rule arg_cong [where f = card]) auto

lemma card_wbits: "card (wbits ws) = sum_list (map popcountll ws)"
proof (induction ws rule: rev_induct)
  case Nil
  then show ?case by (simp add: wbits_def)
next
  case (snoc w ws)
  let ?T = "(\<lambda>j. 64 * length ws + j) ` {j. j < 64 \<and> bit w j}"
  have "n \<in> wbits (ws @ [w]) \<longleftrightarrow> n \<in> wbits ws \<union> ?T" for n
  proof (cases "n < 64 * length ws")
    case True
    then show ?thesis by (auto simp: wbits_def nth_append word_index)
  next
    case False
    then obtain j where "n = 64 * length ws + j" using le_Suc_ex not_less by blast
    then show ?thesis by (auto simp: wbits_def nth_append)
  qed
  then have "wbits (ws @ [w]) = wbits ws \<union> ?T" by blast
  moreover have "card (wbits ws \<union> ?T) = card (wbits ws) + card ?T" by (rule card_Un_disjoint) (auto simp: wbits_def)
  moreover have "card ?T = popcountll w" by (simp add: popcountll_card card_image)
  ultimately show ?case using snoc.IH by simp
qed

end
