(* ===== verification/KTree.thy ===== *)
theory KTree
  imports Contracts BitWords
begin

text \<open>
  The tree library \<^verbatim>\<open>src/mm/kernel_tree.h\<close>: atomic counters and bounded spinlocks, bitmaps,
  ring buffers, the pool of nodes with its free list, and the table of trees. Indices and
  counters keep their width; an access outside an array is a fault. The other processors
  are an argument \<open>env\<close>: what the lock word is when it is tried again. \<open>ktree_insert\<close> is not
  modelled, the source file ends in the middle of it.
\<close>

section \<open>Data\<close>

abbreviation KTREE_MAX_NODES :: nat where "KTREE_MAX_NODES \<equiv> 4096"
abbreviation KTREE_MAX_TREES :: nat where "KTREE_MAX_TREES \<equiv> 32"
abbreviation KTREE_SPINLOCK_RETRIES :: nat where "KTREE_SPINLOCK_RETRIES \<equiv> 1000"
abbreviation KTREE_INVALID_NODE :: u16 where "KTREE_INVALID_NODE \<equiv> 0xFFFF"

datatype ktree_error_t = KTREE_SUCCESS | KTREE_ERR_FULL | KTREE_ERR_INVALID | KTREE_ERR_NOT_FOUND | KTREE_ERR_EXISTS
  | KTREE_ERR_EMPTY | KTREE_ERR_LOCK_FAILED | KTREE_ERR_MAX_DEPTH | KTREE_ERR_OOM | KTREE_ERR_CORRUPTED

record ktree_node_t =
  nd_data :: u32
  nd_hash :: u32
  nd_left :: u16
  nd_right :: u16
  nd_parent :: u16
  nd_height :: u8
  nd_flags :: u8

record ktree_node_pool_t =
  nodes :: "ktree_node_t list"
  free_list :: u16
  node_count :: u32
  pool_lock :: u32

record ktree_bitmap_t =
  bits :: "u64 list"

record ktree_ring_buffer_t =
  rb_buffer :: "u16 list"
  rb_head :: u16
  rb_tail :: u16
  rb_count :: u16

record ktree_tree_t =
  tr_root :: u16
  tr_size :: u32
  tree_lock :: u32
  tr_flags :: u32
  tr_height :: u8

record ktree_manager_t =
  node_pool :: ktree_node_pool_t
  trees :: "ktree_tree_t list"
  tree_count :: u32
  mgr_lock :: u32
  mgr_flags :: u32

section \<open>Counters and spinlocks\<close>

definition ktree_atomic_inc :: "u32 \<Rightarrow> u32" where "ktree_atomic_inc counter = counter + 1"
definition ktree_atomic_dec :: "u32 \<Rightarrow> u32" where "ktree_atomic_dec counter = counter - 1"

definition ktree_atomic_cas :: "u32 \<Rightarrow> u32 \<Rightarrow> u32 \<Rightarrow> bool \<times> u32" where
  "ktree_atomic_cas counter expected desired = (if counter = expected then (True, desired) else (False, counter))"

text \<open>
  The attempts of \<open>ktree_spinlock_lock\<close>: an exchange with 1 succeeds when the word was 0;
  after a failed attempt the other processors may change the word.
\<close>

primrec spin_tries :: "(nat \<Rightarrow> u32 \<Rightarrow> u32) \<Rightarrow> nat \<Rightarrow> nat \<Rightarrow> u32 \<Rightarrow> bool \<times> u32" where
  "spin_tries env i 0 lock = (False, lock)"
| "spin_tries env i (Suc n) lock = (if lock = 0 then (True, 1) else spin_tries env (Suc i) n (env i 1))"

definition ktree_spinlock_lock ::
  "(nat \<Rightarrow> u32 \<Rightarrow> u32) \<Rightarrow> ('s \<Rightarrow> u32) \<Rightarrow> ((u32 \<Rightarrow> u32) \<Rightarrow> 's \<Rightarrow> 's) \<Rightarrow> ('s, ktree_error_t) km" where
  "ktree_spinlock_lock env get upd =
     bindK (getK (\<lambda>s. spin_tries env 0 KTREE_SPINLOCK_RETRIES (get s))) (\<lambda>(won, l).
     seqK (modK (upd (\<lambda>_. l))) (retK (if won then KTREE_SUCCESS else KTREE_ERR_LOCK_FAILED)))"

definition ktree_spinlock_trylock :: "u32 \<Rightarrow> bool \<times> u32" where
  "ktree_spinlock_trylock lock = (lock = 0, 1)"

definition ktree_spinlock_unlock :: "((u32 \<Rightarrow> u32) \<Rightarrow> 's \<Rightarrow> 's) \<Rightarrow> ('s, unit) km" where
  "ktree_spinlock_unlock upd = modK (upd (\<lambda>_. 0))"

section \<open>Bitmaps\<close>

definition bm_size :: nat where
  "bm_size = KTREE_MAX_NODES div 64 + (if KTREE_MAX_NODES mod 64 \<noteq> 0 then 1 else 0)"

definition ktree_bitmap_init :: "(ktree_bitmap_t, unit) km" where
  "ktree_bitmap_init = forK 0 bm_size (\<lambda>i. setnthK bits bits_update i (\<lambda>_. 0))"

abbreviation bm_idx :: "u32 \<Rightarrow> nat" where "bm_idx b \<equiv> unat (drop_bit 6 b)"
abbreviation bm_mask :: "u32 \<Rightarrow> u64" where "bm_mask b \<equiv> push_bit (unat (b AND 0x3F)) 1"

definition ktree_bitmap_set :: "u32 \<Rightarrow> (ktree_bitmap_t, unit) km" where
  "ktree_bitmap_set b = setnthK bits bits_update (bm_idx b) (\<lambda>w. w OR bm_mask b)"

definition ktree_bitmap_test :: "u32 \<Rightarrow> (ktree_bitmap_t, bool) km" where
  "ktree_bitmap_test b = bindK (nthK bits (bm_idx b)) (\<lambda>w. retK (w AND bm_mask b \<noteq> 0))"

definition ktree_bitmap_test_and_set :: "u32 \<Rightarrow> (ktree_bitmap_t, bool) km" where
  "ktree_bitmap_test_and_set b =
     bindK (nthK bits (bm_idx b)) (\<lambda>old.
     seqK (setnthK bits bits_update (bm_idx b) (\<lambda>w. w OR bm_mask b)) (retK (old AND bm_mask b \<noteq> 0)))"

definition ktree_bitmap_clear :: "u32 \<Rightarrow> (ktree_bitmap_t, unit) km" where
  "ktree_bitmap_clear b = setnthK bits bits_update (bm_idx b) (\<lambda>w. w AND NOT (bm_mask b))"

definition ktree_bitmap_count :: "ktree_bitmap_t \<Rightarrow> u32" where
  "ktree_bitmap_count b = foldl (\<lambda>count w. count + of_nat (popcountll w)) 0 (take bm_size (bits b))"

section \<open>Ring buffers\<close>

definition ktree_ring_init :: "(ktree_ring_buffer_t, unit) km" where
  "ktree_ring_init = modK (\<lambda>rb. rb\<lparr>rb_head := 0, rb_tail := 0, rb_count := 0\<rparr>)"

definition ktree_ring_empty :: "ktree_ring_buffer_t \<Rightarrow> bool" where
  "ktree_ring_empty rb \<longleftrightarrow> rb_count rb = 0"

definition ktree_ring_full :: "ktree_ring_buffer_t \<Rightarrow> bool" where
  "ktree_ring_full rb \<longleftrightarrow> unat (rb_count rb) = KTREE_MAX_NODES"

definition ktree_ring_push :: "u16 \<Rightarrow> (ktree_ring_buffer_t, ktree_error_t) km" where
  "ktree_ring_push idx =
     bindK (getK ktree_ring_full) (\<lambda>full.
     if full then retK KTREE_ERR_FULL
     else
       bindK (getK rb_tail) (\<lambda>tail.
       seqK (setnthK rb_buffer rb_buffer_update (unat tail) (\<lambda>_. idx))
      (seqK (modK (\<lambda>rb. rb\<lparr>rb_tail := (tail + 1) AND (of_nat KTREE_MAX_NODES - 1)\<rparr>))
      (seqK (modK (\<lambda>rb. rb\<lparr>rb_count := rb_count rb + 1\<rparr>))
            (retK KTREE_SUCCESS)))))"

definition ktree_ring_pop :: "(ktree_ring_buffer_t, ktree_error_t + u16) km" where
  "ktree_ring_pop =
     bindK (getK ktree_ring_empty) (\<lambda>empty.
     if empty then retK (Inl KTREE_ERR_EMPTY)
     else
       bindK (getK rb_head) (\<lambda>head.
       bindK (nthK rb_buffer (unat head)) (\<lambda>idx.
       seqK (modK (\<lambda>rb. rb\<lparr>rb_head := (head + 1) AND (of_nat KTREE_MAX_NODES - 1)\<rparr>))
      (seqK (modK (\<lambda>rb. rb\<lparr>rb_count := rb_count rb - 1\<rparr>))
            (retK (Inr idx))))))"

definition ktree_ring_clear :: "(ktree_ring_buffer_t, unit) km" where
  "ktree_ring_clear = modK (\<lambda>rb. rb\<lparr>rb_head := 0, rb_tail := 0, rb_count := 0\<rparr>)"

definition ktree_ring_size :: "ktree_ring_buffer_t \<Rightarrow> u16" where
  "ktree_ring_size rb = rb_count rb"

section \<open>The node pool\<close>

abbreviation node_get :: "u16 \<Rightarrow> (ktree_node_pool_t, ktree_node_t) km" where
  "node_get idx \<equiv> nthK nodes (unat idx)"
abbreviation node_set :: "u16 \<Rightarrow> (ktree_node_t \<Rightarrow> ktree_node_t) \<Rightarrow> (ktree_node_pool_t, unit) km" where
  "node_set idx \<equiv> setnthK nodes nodes_update (unat idx)"

definition pool_link_node :: "nat \<Rightarrow> (ktree_node_pool_t, unit) km" where
  "pool_link_node i = setnthK nodes nodes_update i (\<lambda>n. n\<lparr>nd_left := of_nat (i + 1),
     nd_right := KTREE_INVALID_NODE, nd_parent := KTREE_INVALID_NODE, nd_height := 0, nd_flags := 0\<rparr>)"

definition ktree_pool_init :: "(ktree_node_pool_t, unit) km" where
  "ktree_pool_init =
     seqK (forK 0 (KTREE_MAX_NODES - 1) pool_link_node)
    (seqK (setnthK nodes nodes_update (KTREE_MAX_NODES - 1) (\<lambda>n. n\<lparr>nd_left := KTREE_INVALID_NODE,
             nd_right := KTREE_INVALID_NODE, nd_parent := KTREE_INVALID_NODE, nd_height := 0, nd_flags := 0\<rparr>))
    (modK (\<lambda>p. p\<lparr>free_list := 0, node_count := 0, pool_lock := 0\<rparr>)))"

definition ktree_take_node :: "(ktree_node_pool_t, ktree_error_t + u16) km" where
  "ktree_take_node =
     bindK (getK free_list) (\<lambda>new_idx.
     if new_idx = KTREE_INVALID_NODE then retK (Inl KTREE_ERR_FULL)
     else
       bindK (node_get new_idx) (\<lambda>n.
       seqK (modK (\<lambda>p. p\<lparr>free_list := nd_left n\<rparr>))
      (seqK (node_set new_idx (\<lambda>n. n\<lparr>nd_left := KTREE_INVALID_NODE, nd_right := KTREE_INVALID_NODE,
               nd_parent := KTREE_INVALID_NODE, nd_height := 1, nd_flags := 0\<rparr>))
      (seqK (modK (\<lambda>p. p\<lparr>node_count := ktree_atomic_inc (node_count p)\<rparr>))
            (retK (Inr new_idx))))))"

definition ktree_pool_alloc_node :: "(nat \<Rightarrow> u32 \<Rightarrow> u32) \<Rightarrow> (ktree_node_pool_t, ktree_error_t + u16) km" where
  "ktree_pool_alloc_node env =
     bindK (ktree_spinlock_lock env pool_lock pool_lock_update) (\<lambda>e.
     if e \<noteq> KTREE_SUCCESS then retK (Inl KTREE_ERR_LOCK_FAILED)
     else
       bindK ktree_take_node (\<lambda>r.
       seqK (ktree_spinlock_unlock pool_lock_update) (retK r)))"

definition ktree_node_init :: "u16 \<Rightarrow> u32 \<Rightarrow> (ktree_node_pool_t, unit) km" where
  "ktree_node_init idx d = seqK (node_set idx (\<lambda>n. n\<lparr>nd_data := d\<rparr>)) (node_set idx (\<lambda>n. n\<lparr>nd_hash := d\<rparr>))"

definition ktree_pool_free_node :: "(nat \<Rightarrow> u32 \<Rightarrow> u32) \<Rightarrow> u16 \<Rightarrow> (ktree_node_pool_t, unit) km" where
  "ktree_pool_free_node env idx =
     whenK (idx \<noteq> KTREE_INVALID_NODE)
       (bindK (ktree_spinlock_lock env pool_lock pool_lock_update) (\<lambda>_.
        bindK (getK free_list) (\<lambda>head.
        seqK (node_set idx (\<lambda>n. n\<lparr>nd_left := head, nd_right := KTREE_INVALID_NODE,
                nd_parent := KTREE_INVALID_NODE, nd_flags := 0\<rparr>))
       (seqK (modK (\<lambda>p. p\<lparr>free_list := idx\<rparr>))
       (seqK (modK (\<lambda>p. p\<lparr>node_count := ktree_atomic_dec (node_count p)\<rparr>))
             (ktree_spinlock_unlock pool_lock_update))))))"

definition ktree_pool_get_node :: "u16 \<Rightarrow> (ktree_node_pool_t, ktree_node_t option) km" where
  "ktree_pool_get_node idx =
     (if idx = KTREE_INVALID_NODE then retK None else bindK (node_get idx) (\<lambda>n. retK (Some n)))"

definition ktree_pool_node_count :: "ktree_node_pool_t \<Rightarrow> u32" where
  "ktree_pool_node_count p = node_count p"

section \<open>Trees\<close>

definition ktree_init :: "u32 \<Rightarrow> ktree_tree_t \<Rightarrow> ktree_tree_t" where
  "ktree_init flags t = t\<lparr>tr_root := KTREE_INVALID_NODE, tr_size := 0, tree_lock := 0, tr_flags := flags, tr_height := 0\<rparr>"

definition tree_unused :: "ktree_tree_t \<Rightarrow> bool" where
  "tree_unused t \<longleftrightarrow> tr_root t = KTREE_INVALID_NODE \<and> tr_size t = 0"

function find_tree :: "nat \<Rightarrow> (ktree_manager_t, nat option) km" where
  "find_tree i =
     (if i < KTREE_MAX_TREES then
        bindK (nthK trees i) (\<lambda>t. if tree_unused t then retK (Some i) else find_tree (Suc i))
      else retK None)"
  by pat_completeness auto
termination
  by (relation "measure (\<lambda>i. KTREE_MAX_TREES - i)") auto

declare find_tree.simps [simp del]

definition ktree_manager_create_tree :: "(nat \<Rightarrow> u32 \<Rightarrow> u32) \<Rightarrow> u32 \<Rightarrow> (ktree_manager_t, ktree_error_t + u32) km" where
  "ktree_manager_create_tree env flags =
     bindK (ktree_spinlock_lock env mgr_lock mgr_lock_update) (\<lambda>e.
     if e \<noteq> KTREE_SUCCESS then retK (Inl KTREE_ERR_LOCK_FAILED)
     else
       bindK (getK tree_count) (\<lambda>count.
       bindK (if KTREE_MAX_TREES \<le> unat count then retK (Inl KTREE_ERR_FULL)
              else
                bindK (find_tree 0) (\<lambda>slot.
                case slot of
                  Some i \<Rightarrow>
                    seqK (setnthK trees trees_update i (ktree_init flags))
                   (seqK (modK (\<lambda>m. m\<lparr>tree_count := ktree_atomic_inc (tree_count m)\<rparr>))
                         (retK (Inr (of_nat i))))
                | None \<Rightarrow> retK (Inl KTREE_ERR_FULL))) (\<lambda>r.
       seqK (ktree_spinlock_unlock mgr_lock_update) (retK r))))"

definition ktree_manager_init :: "(ktree_manager_t, unit) km" where
  "ktree_manager_init =
     seqK (zoomK node_pool (\<lambda>p m. m\<lparr>node_pool := p\<rparr>) ktree_pool_init)
    (seqK (forK 0 KTREE_MAX_TREES (\<lambda>i. setnthK trees trees_update i (ktree_init 0)))
    (modK (\<lambda>m. m\<lparr>tree_count := 0, mgr_lock := 0, mgr_flags := 0\<rparr>)))"

section \<open>Locks\<close>

text \<open>What the \<open>k\<close>-th attempt finds in the lock word.\<close>

definition look :: "(nat \<Rightarrow> u32 \<Rightarrow> u32) \<Rightarrow> u32 \<Rightarrow> nat \<Rightarrow> u32" where
  "look env l k = (case k of 0 \<Rightarrow> l | Suc j \<Rightarrow> env j 1)"

lemma spin_tries_iff:
  "fst (spin_tries env i n l) \<longleftrightarrow> (\<exists>k<n. (case k of 0 \<Rightarrow> l | Suc j \<Rightarrow> env (i + j) 1) = 0)"
proof (induction n arbitrary: i l)
  case (Suc n)
  show ?case
  proof (cases "l = 0")
    case False
    have "(\<exists>k<Suc n. (case k of 0 \<Rightarrow> l | Suc j \<Rightarrow> env (i + j) 1) = 0) \<longleftrightarrow> (\<exists>j<n. env (i + j) 1 = 0)"
      using False by (auto simp: less_Suc_eq_0_disj)
    also have "\<dots> \<longleftrightarrow> (\<exists>k<n. (case k of 0 \<Rightarrow> env i 1 | Suc j \<Rightarrow> env (Suc i + j) 1) = 0)"
      by (intro ex_cong) (auto split: nat.splits)
    finally show ?thesis using False Suc.IH by simp
  qed auto
qed simp

lemma spin_tries_free: "0 < n \<Longrightarrow> spin_tries env i n 0 = (True, 1)"
  by (cases n) simp_all

lemma lock_free [simp]:
  "get s = 0 \<Longrightarrow> ktree_spinlock_lock env get upd s = Some (Inr (KTREE_SUCCESS, upd (\<lambda>_. 1) s))"
  by (simp add: ktree_spinlock_lock_def spin_tries_free)

lemma unlock_run [simp]: "ktree_spinlock_unlock upd s = Some (Inr ((), upd (\<lambda>_. 0) s))"
  by (simp add: ktree_spinlock_unlock_def)

section \<open>The ring buffer is a queue\<close>

definition ring_inv :: "ktree_ring_buffer_t \<Rightarrow> bool" where
  "ring_inv rb \<longleftrightarrow> length (rb_buffer rb) = KTREE_MAX_NODES \<and> unat (rb_head rb) < KTREE_MAX_NODES \<and>
     unat (rb_count rb) \<le> KTREE_MAX_NODES \<and> unat (rb_tail rb) = (unat (rb_head rb) + unat (rb_count rb)) mod KTREE_MAX_NODES"

definition ring_list :: "ktree_ring_buffer_t \<Rightarrow> u16 list" where
  "ring_list rb = map (\<lambda>i. rb_buffer rb ! ((unat (rb_head rb) + i) mod KTREE_MAX_NODES)) [0..<unat (rb_count rb)]"

lemma ring_step: "unat ((x + 1) AND (of_nat KTREE_MAX_NODES - 1) :: u16) = (unat x + 1) mod KTREE_MAX_NODES"
proof -
  have "(of_nat KTREE_MAX_NODES - 1 :: u16) = mask 12" by (simp add: mask_eq_exp_minus_1)
  then have "unat ((x + 1) AND (of_nat KTREE_MAX_NODES - 1) :: u16) = take_bit 12 (unat (x + 1))"
    by (simp only: take_bit_eq_mask [symmetric] unsigned_take_bit_eq)
  also have "\<dots> = (unat x + 1) mod 65536 mod 4096" by (simp add: take_bit_eq_mod unat_word_ariths)
  also have "\<dots> = (unat x + 1) mod 4096" by (simp add: mod_mod_cancel)
  finally show ?thesis .
qed

lemma ring_push_run:
  assumes "ring_inv rb" "\<not> ktree_ring_full rb"
  shows "\<exists>rb'. ktree_ring_push x rb = Some (Inr (KTREE_SUCCESS, rb')) \<and> ring_inv rb' \<and> ring_list rb' = ring_list rb @ [x]"
proof -
  let ?t = "unat (rb_tail rb)" and ?h = "unat (rb_head rb)" and ?c = "unat (rb_count rb)"
  let ?rb = "rb\<lparr>rb_buffer := (rb_buffer rb)[?t := x], rb_tail := (rb_tail rb + 1) AND (of_nat KTREE_MAX_NODES - 1),
    rb_count := rb_count rb + 1\<rparr>"
  have len: "length (rb_buffer rb) = KTREE_MAX_NODES" and h: "?h < KTREE_MAX_NODES" and t: "?t = (?h + ?c) mod KTREE_MAX_NODES"
    and c: "?c < KTREE_MAX_NODES" using assms by (auto simp: ring_inv_def ktree_ring_full_def)
  have c': "unat (rb_count rb + 1) = Suc ?c" using c by (simp add: unat_word_ariths)
  have run: "ktree_ring_push x rb = Some (Inr (KTREE_SUCCESS, ?rb))"
    using assms(2) len t by (simp add: ktree_ring_push_def)
  have "ring_inv ?rb" using len h t c c' ring_step [of "rb_tail rb"] by (simp add: ring_inv_def mod_Suc_eq)
  moreover have "ring_list ?rb = ring_list rb @ [x]"
  proof -
    have "?t \<noteq> (?h + i) mod KTREE_MAX_NODES" if "i < ?c" for i
      using that t c h by (auto simp: mod_if split: if_splits)
    then have "(rb_buffer rb)[?t := x] ! ((?h + i) mod KTREE_MAX_NODES) =
        (if i < ?c then rb_buffer rb ! ((?h + i) mod KTREE_MAX_NODES) else x)" if "i < Suc ?c" for i
      using that t len by (cases "i < ?c") (simp_all add: less_Suc_eq)
    then have "ring_list ?rb = map (\<lambda>i. if i < ?c then rb_buffer rb ! ((?h + i) mod KTREE_MAX_NODES) else x) [0..<Suc ?c]"
      unfolding ring_list_def using c' by (intro list_eq_iff_nth_eq [THEN iffD2]) (simp del: upt_Suc)
    then show ?thesis by (simp add: ring_list_def)
  qed
  ultimately show ?thesis using run by blast
qed

lemma ring_pop_run:
  assumes "ring_inv rb" "ring_list rb = x # xs"
  shows "\<exists>rb'. ktree_ring_pop rb = Some (Inr (Inr x, rb')) \<and> ring_inv rb' \<and> ring_list rb' = xs"
proof -
  let ?t = "unat (rb_tail rb)" and ?h = "unat (rb_head rb)" and ?c = "unat (rb_count rb)"
  let ?rb = "rb\<lparr>rb_head := (rb_head rb + 1) AND (of_nat KTREE_MAX_NODES - 1), rb_count := rb_count rb - 1\<rparr>"
  have len: "length (rb_buffer rb) = KTREE_MAX_NODES" and h: "?h < KTREE_MAX_NODES" and t: "?t = (?h + ?c) mod KTREE_MAX_NODES"
    and c: "?c \<le> KTREE_MAX_NODES" using assms by (auto simp: ring_inv_def)
  have "length (ring_list rb) = Suc (length xs)" using assms(2) by simp
  then have cs: "?c = Suc (length xs)" by (simp add: ring_list_def)
  then have nz: "rb_count rb \<noteq> 0" by auto
  then have c': "unat (rb_count rb - 1) = length xs" using cs by (simp add: unat_minus_one)
  have l: "ring_list rb = rb_buffer rb ! ?h # map (\<lambda>i. rb_buffer rb ! ((?h + Suc i) mod KTREE_MAX_NODES)) [0..<length xs]"
    using h by (simp add: ring_list_def cs upt_conv_Cons map_Suc_upt [symmetric] del: upt_Suc)
  have run: "ktree_ring_pop rb = Some (Inr (Inr x, ?rb))"
    using nz len h l assms(2) by (simp add: ktree_ring_pop_def ktree_ring_empty_def)
  have "ring_list ?rb = xs"
    using l assms(2) c' ring_step [of "rb_head rb"] by (simp add: ring_list_def mod_add_left_eq)
  moreover have "ring_inv ?rb"
    using len h t c cs c' ring_step [of "rb_head rb"] by (simp add: ring_inv_def mod_add_left_eq)
  ultimately show ?thesis using run by blast
qed

lemma ring_pop_empty: "ring_list rb = [] \<Longrightarrow> ktree_ring_pop rb = Some (Inr (Inl KTREE_ERR_EMPTY, rb))"
  by (simp add: ring_list_def ktree_ring_pop_def ktree_ring_empty_def unat_eq_0)

lemma ring_init_run: "length (rb_buffer rb) = KTREE_MAX_NODES \<Longrightarrow>
    \<exists>rb'. ktree_ring_init rb = Some (Inr ((), rb')) \<and> ring_inv rb' \<and> ring_list rb' = []"
  by (simp add: ktree_ring_init_def ring_inv_def ring_list_def)

abbreviation ring_get :: "(ktree_ring_buffer_t, u16 option) km" where
  "ring_get \<equiv> bindK ktree_ring_pop (\<lambda>r. retK (case r of Inl _ \<Rightarrow> None | Inr x \<Rightarrow> Some x))"

interpretation ring: fifo_queue ring_inv ring_list "\<lambda>rb. \<not> ktree_ring_full rb" ktree_ring_push ring_get id id
proof
  fix s x assume "ring_inv s" "\<not> ktree_ring_full s"
  then show "\<exists>r s'. ktree_ring_push x s = Some (Inr (r, s')) \<and> ring_inv s' \<and> ring_list s' = ring_list s @ [id x]"
    using ring_push_run [of s x] by auto
next
  fix s k ks assume "ring_inv s" "ring_list s = k # ks"
  then show "\<exists>y s'. ring_get s = Some (Inr (Some y, s')) \<and> ring_inv s' \<and> id y = k \<and> ring_list s' = ks"
    using ring_pop_run [of s k ks] by auto
qed (simp add: ring_pop_empty)

section \<open>The bitmap is a set\<close>

definition bm_set :: "ktree_bitmap_t \<Rightarrow> nat set" where
  "bm_set b = wbits (bits b)"

lemma bm_idx_div: "bm_idx b = unat b div 64"
  by (simp add: drop_bit_eq_div unat_div_distrib)

lemma bm_mask_eq: "bm_mask b = bmask (unat b)"
proof -
  have "(0x3F :: u32) = mask 6" by (simp add: mask_eq_exp_minus_1)
  then have "unat (b AND 0x3F) = unat b mod 64"
    by (simp only: take_bit_eq_mask [symmetric] unsigned_take_bit_eq) (simp add: take_bit_eq_mod)
  then show ?thesis by simp
qed

definition bm_ok :: "ktree_bitmap_t \<Rightarrow> bool" where
  "bm_ok b \<longleftrightarrow> length (bits b) = bm_size"

lemma bitmap_ops:
  assumes "bm_ok m" "unat b < KTREE_MAX_NODES"
  shows "\<exists>m'. ktree_bitmap_set b m = Some (Inr ((), m')) \<and> bm_ok m' \<and> bm_set m' = insert (unat b) (bm_set m)"
    "\<exists>m'. ktree_bitmap_clear b m = Some (Inr ((), m')) \<and> bm_ok m' \<and> bm_set m' = bm_set m - {unat b}"
    "ktree_bitmap_test b m = Some (Inr (unat b \<in> bm_set m, m))"
    "\<exists>m'. ktree_bitmap_test_and_set b m = Some (Inr (unat b \<in> bm_set m, m')) \<and> bm_ok m' \<and> bm_set m' = insert (unat b) (bm_set m)"
proof -
  let ?b = "unat b" and ?ws = "bits m"
  have lt: "?b < 64 * length ?ws" using assms by (simp add: bm_ok_def bm_size_def)
  have k: "?b div 64 < length ?ws" by (rule word_index [OF lt])
  note eqs = bm_idx_div bm_mask_eq
  let ?set = "m\<lparr>bits := ?ws[?b div 64 := ?ws ! (?b div 64) OR bmask ?b]\<rparr>"
  let ?clr = "m\<lparr>bits := ?ws[?b div 64 := ?ws ! (?b div 64) AND NOT (bmask ?b)]\<rparr>"
  have "ktree_bitmap_set b m = Some (Inr ((), ?set))"
    unfolding ktree_bitmap_set_def eqs using k by (cases m) simp
  moreover have set: "bm_set ?set = insert ?b (bm_set m)" "bm_ok ?set"
    using wbits_set [OF lt] assms(1) by (simp_all add: bm_set_def bm_ok_def)
  ultimately show s: "\<exists>m'. ktree_bitmap_set b m = Some (Inr ((), m')) \<and> bm_ok m' \<and> bm_set m' = insert (unat b) (bm_set m)" by blast
  have "ktree_bitmap_clear b m = Some (Inr ((), ?clr))"
    unfolding ktree_bitmap_clear_def eqs using k by (cases m) simp
  moreover have "bm_set ?clr = bm_set m - {?b}" "bm_ok ?clr"
    using wbits_clear [OF lt] assms(1) by (simp_all add: bm_set_def bm_ok_def)
  ultimately show "\<exists>m'. ktree_bitmap_clear b m = Some (Inr ((), m')) \<and> bm_ok m' \<and> bm_set m' = bm_set m - {unat b}" by blast
  have test: "?ws ! (?b div 64) AND bmask ?b \<noteq> 0 \<longleftrightarrow> ?b \<in> bm_set m" unfolding bm_set_def by (rule wbits_test [OF lt])
  show "ktree_bitmap_test b m = Some (Inr (unat b \<in> bm_set m, m))"
    unfolding ktree_bitmap_test_def eqs using k test by simp
  have "ktree_bitmap_test_and_set b m = Some (Inr (?b \<in> bm_set m, ?set))"
    unfolding ktree_bitmap_test_and_set_def eqs using k test by (cases m) simp
  then show "\<exists>m'. ktree_bitmap_test_and_set b m = Some (Inr (unat b \<in> bm_set m, m')) \<and> bm_ok m' \<and> bm_set m' = insert (unat b) (bm_set m)"
    using set by blast
qed

lemma bm_count: "foldl (\<lambda>count w. count + of_nat (popcountll w)) c ws = (c + of_nat (sum_list (map popcountll ws)) :: u32)"
  by (induction ws arbitrary: c) (simp_all add: algebra_simps)

lemma bitmap_count: "bm_ok m \<Longrightarrow> unat (ktree_bitmap_count m) = card (bm_set m)"
proof -
  assume m: "bm_ok m"
  have "card (bm_set m) \<le> card {..<64 * length (bits m)}" by (rule card_mono) (auto simp: bm_set_def wbits_def)
  then have le: "card (bm_set m) \<le> 4096" using m by (simp add: bm_ok_def bm_size_def)
  have "ktree_bitmap_count m = of_nat (card (bm_set m))"
    using m bm_count [of 0 "bits m"] card_wbits [of "bits m"] by (simp add: ktree_bitmap_count_def bm_ok_def bm_set_def)
  then show ?thesis using le by (simp add: unat_of_nat)
qed

lemma bitmap_init_run:
  assumes "bm_ok m"
  shows "\<exists>m'. ktree_bitmap_init m = Some (Inr ((), m')) \<and> bm_ok m' \<and> bm_set m' = {}"
proof -
  have "\<exists>m'. ktree_bitmap_init m = Some (Inr ((), m')) \<and> (bm_ok m' \<and> (\<forall>k<bm_size. bits m' ! k = 0))"
    unfolding ktree_bitmap_init_def
    by (rule forK_rule) (use assms in \<open>auto simp: bm_ok_def nth_list_update less_Suc_eq\<close>)
  then show ?thesis by (auto simp: bm_ok_def bm_set_def wbits_def word_index)
qed

section \<open>The pool hands out every node once\<close>

text \<open>The free list as the indices met from \<open>free_list\<close> along \<open>left\<close>.\<close>

primrec chain_from :: "nat \<Rightarrow> ktree_node_t list \<Rightarrow> u16 \<Rightarrow> u16 list" where
  "chain_from 0 ns h = []"
| "chain_from (Suc k) ns h =
     (if h = KTREE_INVALID_NODE \<or> length ns \<le> unat h then [] else h # chain_from k ns (nd_left (ns ! unat h)))"

primrec free_chain :: "ktree_node_t list \<Rightarrow> u16 \<Rightarrow> u16 list \<Rightarrow> bool" where
  "free_chain ns h [] \<longleftrightarrow> h = KTREE_INVALID_NODE"
| "free_chain ns h (f # fs) \<longleftrightarrow> h = f \<and> unat f < length ns \<and> free_chain ns (nd_left (ns ! unat f)) fs"

definition free_nodes :: "ktree_node_pool_t \<Rightarrow> u16 list" where
  "free_nodes p = chain_from KTREE_MAX_NODES (nodes p) (free_list p)"

definition pool_with :: "ktree_node_pool_t \<Rightarrow> u16 list \<Rightarrow> bool" where
  "pool_with p fs \<longleftrightarrow> length (nodes p) = KTREE_MAX_NODES \<and> pool_lock p = 0 \<and> free_chain (nodes p) (free_list p) fs \<and>
     distinct fs \<and> unat (node_count p) + length fs = KTREE_MAX_NODES"

definition pool_inv :: "ktree_node_pool_t \<Rightarrow> bool" where
  "pool_inv p \<longleftrightarrow> pool_with p (free_nodes p)"

lemma invalid_node: "unat i < KTREE_MAX_NODES \<Longrightarrow> i \<noteq> KTREE_INVALID_NODE"
  by auto

lemma chain_from_eq:
  assumes "free_chain ns h fs" "length fs \<le> k" "length ns = KTREE_MAX_NODES"
  shows "chain_from k ns h = fs"
  using assms
proof (induction fs arbitrary: k h)
  case Nil
  then show ?case by (cases k) simp_all
next
  case (Cons f fs)
  then show ?case using invalid_node [of f] by (cases k) auto
qed

lemma pool_with_free: "pool_with p fs \<Longrightarrow> free_nodes p = fs"
  unfolding free_nodes_def by (rule chain_from_eq) (auto simp: pool_with_def)

lemma pool_invI: "pool_with p fs \<Longrightarrow> pool_inv p"
  by (simp add: pool_inv_def pool_with_free)

lemma free_chain_set: "free_chain ns h fs \<Longrightarrow> f \<in> set fs \<Longrightarrow> unat f < length ns"
  by (induction fs arbitrary: h) auto

lemma free_chain_other: "f \<notin> set fs \<Longrightarrow> free_chain (ns[unat f := n]) h fs = free_chain ns h fs"
proof (induction fs arbitrary: h)
  case (Cons g fs)
  then have "unat f \<noteq> unat g" by (simp add: word_unat_eq_iff)
  then show ?case using Cons by simp
qed simp

text \<open>What an allocation does to its node.\<close>

definition blank_node :: "ktree_node_t \<Rightarrow> ktree_node_t" where
  "blank_node n = n\<lparr>nd_left := KTREE_INVALID_NODE, nd_right := KTREE_INVALID_NODE, nd_parent := KTREE_INVALID_NODE,
     nd_height := 1, nd_flags := 0\<rparr>"

lemma pool_alloc_run:
  assumes "pool_with p (f # fs)"
  shows "\<exists>p'. ktree_pool_alloc_node env p = Some (Inr (Inr f, p')) \<and> pool_with p' fs \<and>
    nodes p' = (nodes p)[unat f := blank_node (nodes p ! unat f)]"
proof -
  let ?n = "nodes p ! unat f"
  let ?p = "p\<lparr>nodes := (nodes p)[unat f := blank_node ?n], free_list := nd_left ?n, node_count := node_count p + 1\<rparr>"
  have p: "length (nodes p) = KTREE_MAX_NODES" "pool_lock p = 0" "free_list p = f" "unat f < KTREE_MAX_NODES"
    "free_chain (nodes p) (nd_left ?n) fs" "f \<notin> set fs" "distinct fs" "unat (node_count p) + Suc (length fs) = KTREE_MAX_NODES"
    using assms by (auto simp: pool_with_def)
  have "ktree_pool_alloc_node env p = Some (Inr (Inr f, ?p))"
    using p invalid_node [OF p(4)] by (cases p) (simp add: ktree_pool_alloc_node_def ktree_take_node_def ktree_atomic_inc_def blank_node_def)
  moreover have "unat (node_count p + 1) = Suc (unat (node_count p))" using p(8) by (simp add: unat_word_ariths)
  ultimately show ?thesis using p by (simp add: pool_with_def free_chain_other)
qed

lemma pool_alloc_full: "pool_with p [] \<Longrightarrow> ktree_pool_alloc_node env p = Some (Inr (Inl KTREE_ERR_FULL, p))"
  by (cases p) (simp add: pool_with_def ktree_pool_alloc_node_def ktree_take_node_def)

lemma pool_free_run:
  assumes "pool_with p fs" "unat i < KTREE_MAX_NODES" "i \<notin> set fs"
  shows "\<exists>p'. ktree_pool_free_node env i p = Some (Inr ((), p')) \<and> pool_with p' (i # fs) \<and>
    (\<forall>j. j \<noteq> unat i \<longrightarrow> nodes p' ! j = nodes p ! j)"
proof -
  let ?n = "nodes p ! unat i"
  let ?m = "?n\<lparr>nd_left := free_list p, nd_right := KTREE_INVALID_NODE, nd_parent := KTREE_INVALID_NODE, nd_flags := 0\<rparr>"
  let ?p = "p\<lparr>nodes := (nodes p)[unat i := ?m], free_list := i, node_count := node_count p - 1\<rparr>"
  have p: "length (nodes p) = KTREE_MAX_NODES" "pool_lock p = 0" "free_chain (nodes p) (free_list p) fs"
    "distinct fs" "unat (node_count p) + length fs = KTREE_MAX_NODES"
    using assms by (auto simp: pool_with_def)
  have "insert (unat i) (unat ` set fs) \<subseteq> {..<KTREE_MAX_NODES}" using free_chain_set [OF p(3)] p(1) assms(2) by auto
  then have "card (insert (unat i) (unat ` set fs)) \<le> card {..<KTREE_MAX_NODES}" by (rule card_mono [rotated]) simp
  moreover have "unat i \<notin> unat ` set fs" using assms(3) by (auto simp flip: word_unat_eq_iff)
  moreover have "card (unat ` set fs) = length fs" using p(4) by (subst card_image) (auto simp: inj_on_def distinct_card simp flip: word_unat_eq_iff)
  ultimately have "length fs < KTREE_MAX_NODES" by simp
  then have c: "unat (node_count p - 1) + Suc (length fs) = KTREE_MAX_NODES"
    using p(5) by (subst unat_minus_one) auto
  have "ktree_pool_free_node env i p = Some (Inr ((), ?p))"
    using p assms(2) invalid_node [OF assms(2)] by (cases p) (simp add: ktree_pool_free_node_def ktree_atomic_dec_def)
  moreover have "pool_with ?p (i # fs)" using p assms c by (simp add: pool_with_def free_chain_other)
  ultimately show ?thesis by simp
qed

lemma upt_chain:
  assumes "k < N" "N = length ns" "N < 65536"
    and left: "\<And>j. Suc j < N \<Longrightarrow> nd_left (ns ! j) = of_nat (Suc j)" "nd_left (ns ! (N - 1)) = KTREE_INVALID_NODE"
  shows "free_chain ns (of_nat k) (map of_nat [k..<N])"
  using assms(1)
proof (induction k rule: strict_inc_induct)
  case (base k)
  then show ?case using assms by (simp add: upt_rec unat_of_nat)
next
  case (step k)
  then show ?case using assms left(1) [of k] by (cases "Suc k < N") (simp_all add: upt_rec [of k] unat_of_nat)
qed

lemma upt_words_distinct: "N < 65536 \<Longrightarrow> distinct (map (of_nat :: nat \<Rightarrow> u16) [0..<N])"
proof -
  assume "N < 65536"
  then have "inj_on (of_nat :: nat \<Rightarrow> u16) (set [0..<N])"
    by (intro inj_on_inverseI [where g = unat]) (simp add: unat_of_nat)
  then show ?thesis by (simp add: distinct_map)
qed

lemma pool_init_run:
  assumes "length (nodes p) = KTREE_MAX_NODES"
  shows "\<exists>p'. ktree_pool_init p = Some (Inr ((), p')) \<and> pool_inv p' \<and> node_count p' = 0"
proof -
  define N where "N = KTREE_MAX_NODES"
  define I where "I i q \<longleftrightarrow> length (nodes q) = N \<and> (\<forall>j<i. nd_left (nodes q ! j) = of_nat (Suc j))" for i and q :: ktree_node_pool_t
  have "\<exists>q. forK 0 (N - 1) pool_link_node p = Some (Inr ((), q)) \<and> I (N - 1) q"
    by (rule forK_rule) (use assms in \<open>auto simp: I_def N_def pool_link_node_def nth_list_update less_Suc_eq\<close>)
  then obtain q where q: "forK 0 (N - 1) pool_link_node p = Some (Inr ((), q))" "I (N - 1) q" by blast
  let ?q = "q\<lparr>nodes := (nodes q)[N - 1 := (nodes q ! (N - 1))\<lparr>nd_left := KTREE_INVALID_NODE, nd_right := KTREE_INVALID_NODE,
    nd_parent := KTREE_INVALID_NODE, nd_height := 0, nd_flags := 0\<rparr>], free_list := 0, node_count := 0, pool_lock := 0\<rparr>"
  have "0 < N" "N < 65536" by (simp_all add: N_def)
  have "ktree_pool_init p = Some (Inr ((), ?q))"
    using q \<open>0 < N\<close> by (cases q) (simp add: ktree_pool_init_def I_def flip: N_def)
  moreover have "free_chain (nodes ?q) (of_nat 0) (map of_nat [0..<N])"
    by (rule upt_chain) (use q(2) \<open>0 < N\<close> \<open>N < 65536\<close> in \<open>auto simp: I_def\<close>)
  then have "pool_with ?q (map of_nat [0..<N])"
    using q(2) upt_words_distinct [OF \<open>N < 65536\<close>] unfolding pool_with_def by (simp add: I_def flip: N_def)
  ultimately show ?thesis using pool_invI by fastforce
qed

abbreviation pool_nodes :: "u16 set" where "pool_nodes \<equiv> {i. unat i < KTREE_MAX_NODES}"

definition pool_free_any :: "(nat \<Rightarrow> u32 \<Rightarrow> u32) \<Rightarrow> ktree_error_t + u16 \<Rightarrow> (ktree_node_pool_t, unit) km" where
  "pool_free_any env r = (case r of Inl _ \<Rightarrow> retK () | Inr i \<Rightarrow> ktree_pool_free_node env i)"

lemma free_nodes_in: "pool_inv p \<Longrightarrow> set (free_nodes p) \<subseteq> pool_nodes"
  using free_chain_set by (fastforce simp: pool_inv_def pool_with_def)

interpretation node_source: total_frame_source pool_inv "\<lambda>p. Inr ` pool_nodes" "\<lambda>p. Inr ` (pool_nodes - set (free_nodes p))" "\<lambda>p. {}"
  "\<lambda>r. \<not> isl r" "ktree_pool_alloc_node env" "pool_free_any env"
proof
  fix s f s' assume s: "pool_inv s" "ktree_pool_alloc_node env s = Some (Inr (f, s'))" "\<not> isl f"
  then obtain i fs where fs: "free_nodes s = i # fs"
    using pool_alloc_full [of s env] by (cases "free_nodes s") (auto simp: pool_inv_def)
  then have "f = Inr i" "pool_with s' fs" using s pool_alloc_run [of s i fs env] by (auto simp: pool_inv_def)
  moreover from this fs have "free_nodes s' = fs" "i \<in> pool_nodes" "i \<notin> set fs"
    using s(1) free_nodes_in [OF s(1)] by (auto simp: pool_with_free pool_inv_def pool_with_def)
  ultimately show "f \<in> Inr ` pool_nodes \<and> f \<notin> Inr ` (pool_nodes - set (free_nodes s)) \<and>
      Inr ` (pool_nodes - set (free_nodes s')) = insert f (Inr ` (pool_nodes - set (free_nodes s))) \<and>
      Inr ` pool_nodes = Inr ` pool_nodes \<and> {} = {} \<and> pool_inv s'"
    using fs pool_invI by auto
next
  fix s and f :: "ktree_error_t + u16" assume s: "pool_inv s" "f \<in> Inr ` (pool_nodes - set (free_nodes s))"
  then obtain i where i: "f = Inr i" "unat i < KTREE_MAX_NODES" "i \<notin> set (free_nodes s)" by auto
  then obtain s' where "ktree_pool_free_node env i s = Some (Inr ((), s'))" "pool_with s' (i # free_nodes s)"
    using pool_free_run [of s "free_nodes s" i env] s(1) by (auto simp: pool_inv_def)
  then show "\<exists>s'. pool_free_any env f s = Some (Inr ((), s')) \<and>
      Inr ` (pool_nodes - set (free_nodes s')) = Inr ` (pool_nodes - set (free_nodes s)) - {f} \<and>
      Inr ` pool_nodes = Inr ` pool_nodes \<and> {} = {} \<and> pool_inv s'"
    using i pool_invI pool_with_free [of s' "i # free_nodes s"] by (auto simp: pool_free_any_def)
next
  fix s assume s: "pool_inv s" "\<not> Inr ` pool_nodes \<subseteq> Inr ` (pool_nodes - set (free_nodes s))"
  then obtain i fs where "free_nodes s = i # fs" by (cases "free_nodes s") auto
  then show "\<exists>f s'. ktree_pool_alloc_node env s = Some (Inr (f, s')) \<and> \<not> isl f"
    using s(1) pool_alloc_run [of s i fs env] by (auto simp: pool_inv_def)
qed simp_all

section \<open>Creating trees\<close>

definition mgr_ok :: "ktree_manager_t \<Rightarrow> bool" where
  "mgr_ok m \<longleftrightarrow> length (trees m) = KTREE_MAX_TREES \<and> mgr_lock m = 0"

definition first_unused :: "ktree_manager_t \<Rightarrow> nat \<Rightarrow> nat option \<Rightarrow> bool" where
  "first_unused m i r \<longleftrightarrow> (case r of
      Some j \<Rightarrow> i \<le> j \<and> j < KTREE_MAX_TREES \<and> tree_unused (trees m ! j) \<and> (\<forall>k. i \<le> k \<longrightarrow> k < j \<longrightarrow> \<not> tree_unused (trees m ! k))
    | None \<Rightarrow> \<forall>k. i \<le> k \<longrightarrow> k < KTREE_MAX_TREES \<longrightarrow> \<not> tree_unused (trees m ! k))"

lemma find_tree_run:
  assumes "length (trees m) = KTREE_MAX_TREES"
  shows "\<exists>r. find_tree i m = Some (Inr (r, m)) \<and> first_unused m i r"
  using assms
proof (induction i rule: find_tree.induct)
  case (1 i)
  show ?case
  proof (cases "i < KTREE_MAX_TREES \<and> \<not> tree_unused (trees m ! i)")
    case True
    then obtain r where r: "find_tree (Suc i) m = Some (Inr (r, m))" "first_unused m (Suc i) r" using 1 by auto
    have "i \<le> k \<longleftrightarrow> k = i \<or> Suc i \<le> k" for k by auto
    then have "first_unused m i r" using r(2) True by (cases r) (auto simp: first_unused_def)
    then show ?thesis using r(1) True "1.prems" by (simp add: find_tree.simps [of i])
  next
    case False
    then show ?thesis using "1.prems" by (auto simp: find_tree.simps [of i] first_unused_def)
  qed
qed

lemma first_unused_unique: "first_unused m i r \<Longrightarrow> first_unused m i q \<Longrightarrow> r = q"
  by (cases r; cases q) (auto simp: first_unused_def intro: linorder_cases)

lemma create_tree_run:
  assumes "mgr_ok m" "unat (tree_count m) < KTREE_MAX_TREES"
  shows "(\<exists>i m'. ktree_manager_create_tree env flags m = Some (Inr (Inr (of_nat i), m')) \<and> first_unused m 0 (Some i) \<and>
      mgr_ok m' \<and> trees m' = (trees m)[i := ktree_init flags (trees m ! i)] \<and> tree_count m' = tree_count m + 1) \<or>
    (ktree_manager_create_tree env flags m = Some (Inr (Inl KTREE_ERR_FULL, m)) \<and> first_unused m 0 None)"
proof -
  let ?m = "m\<lparr>mgr_lock := 1\<rparr>"
  have m: "mgr_lock m = 0" "length (trees m) = KTREE_MAX_TREES" using assms by (simp_all add: mgr_ok_def)
  obtain r where r: "find_tree 0 ?m = Some (Inr (r, ?m))" "first_unused ?m 0 r" using find_tree_run [of ?m 0] m by auto
  have u: "mgr_lock_update (\<lambda>_. 0) ?m = m" "mgr_lock_update (\<lambda>_. 1) m = ?m" using m by (cases m; simp)+
  have same: "first_unused m 0 q = first_unused ?m 0 q" for q by (cases q) (simp_all add: first_unused_def)
  show ?thesis
  proof (cases r)
    case None
    then show ?thesis using r m u assms(2) same [of None] by (simp add: ktree_manager_create_tree_def)
  next
    case (Some i)
    let ?t = "m\<lparr>trees := (trees m)[i := ktree_init flags (trees m ! i)], tree_count := tree_count m + 1\<rparr>"
    have i: "first_unused m 0 (Some i)" "i < KTREE_MAX_TREES" using r(2) Some same by (auto simp: first_unused_def)
    have "ktree_manager_create_tree env flags m = Some (Inr (Inr (of_nat i), ?t))"
      using r(1) Some m assms(2) i(2) by (cases m) (simp add: ktree_manager_create_tree_def ktree_atomic_inc_def)
    moreover have "mgr_ok ?t" using m by (simp add: mgr_ok_def)
    ultimately show ?thesis using i(1) by (intro disjI1 exI [of _ i] exI [of _ ?t]) simp
  qed
qed

lemma ktree_init_unused [simp]: "tree_unused (ktree_init flags t)"
  by (simp add: tree_unused_def ktree_init_def)

lemma first_unused_again:
  assumes "first_unused m 0 (Some i)" "length (trees m) = KTREE_MAX_TREES" "trees m' = (trees m)[i := ktree_init flags (trees m ! i)]"
  shows "first_unused m' 0 (Some i)"
  using assms by (auto simp: first_unused_def nth_list_update)

lemma manager_init_run:
  assumes "length (nodes (node_pool m)) = KTREE_MAX_NODES" "length (trees m) = KTREE_MAX_TREES"
  shows "\<exists>m'. ktree_manager_init m = Some (Inr ((), m')) \<and> mgr_ok m' \<and> pool_inv (node_pool m') \<and> tree_count m' = 0 \<and> node_count (node_pool m') = 0 \<and>
    (\<forall>i<KTREE_MAX_TREES. tree_unused (trees m' ! i))"
proof -
  obtain p where p: "ktree_pool_init (node_pool m) = Some (Inr ((), p))" "pool_inv p" "node_count p = 0" using pool_init_run [OF assms(1)] by blast
  have "\<exists>t. forK 0 KTREE_MAX_TREES (\<lambda>i. setnthK trees trees_update i (ktree_init 0)) (m\<lparr>node_pool := p\<rparr>) = Some (Inr ((), t)) \<and>
      (length (trees t) = KTREE_MAX_TREES \<and> node_pool t = p \<and> (\<forall>i<KTREE_MAX_TREES. tree_unused (trees t ! i)))"
    by (rule forK_rule) (use assms(2) in \<open>auto simp: nth_list_update less_Suc_eq\<close>)
  then obtain t where t: "forK 0 KTREE_MAX_TREES (\<lambda>i. setnthK trees trees_update i (ktree_init 0)) (m\<lparr>node_pool := p\<rparr>) = Some (Inr ((), t))"
      "length (trees t) = KTREE_MAX_TREES" "node_pool t = p" "\<forall>i<KTREE_MAX_TREES. tree_unused (trees t ! i)" by blast
  show ?thesis using p t by (simp add: ktree_manager_init_def mgr_ok_def)
qed

section \<open>A concrete manager\<close>

definition junk_node :: ktree_node_t where
  "junk_node = \<lparr>nd_data = 7, nd_hash = 7, nd_left = 3, nd_right = 3, nd_parent = 3, nd_height = 9, nd_flags = 1\<rparr>"

definition junk_manager :: ktree_manager_t where
  "junk_manager = \<lparr>node_pool = \<lparr>nodes = replicate KTREE_MAX_NODES junk_node, free_list = 5, node_count = 9, pool_lock = 1\<rparr>,
     trees = replicate KTREE_MAX_TREES \<lparr>tr_root = 1, tr_size = 1, tree_lock = 1, tr_flags = 1, tr_height = 1\<rparr>,
     tree_count = 5, mgr_lock = 1, mgr_flags = 1\<rparr>"

definition fresh_manager :: ktree_manager_t where
  "fresh_manager = snd (projr (the (ktree_manager_init junk_manager)))"

lemma fresh_manager_ok: "mgr_ok fresh_manager" "pool_inv (node_pool fresh_manager)" "tree_count fresh_manager = 0"
  "node_count (node_pool fresh_manager) = 0" "\<forall>i<KTREE_MAX_TREES. tree_unused (trees fresh_manager ! i)"
  using manager_init_run [of junk_manager] by (auto simp: fresh_manager_def junk_manager_def)

section \<open>Properties\<close>

text \<open>
  C19: The node pool never hands out a node twice: as long as the requests do not exceed the
  free nodes, any number of allocations succeeds, the returned nodes are pairwise different
  and were all free, the counter counts them, and the pool stays well formed.
\<close>

theorem ktree_pool_allocs:
  assumes "pool_inv p" "n \<le> length (free_nodes p)"
  shows "\<exists>is p'. repeatK n (ktree_pool_alloc_node env) p = Some (Inr (map Inr is, p')) \<and> distinct is \<and> length is = n \<and>
    set is \<subseteq> set (free_nodes p) \<and> pool_inv p' \<and> set (free_nodes p') = set (free_nodes p) - set is"
proof -
  let ?F = "Inr ` pool_nodes :: (ktree_error_t + u16) set" and ?U = "\<lambda>p. Inr ` (pool_nodes - set (free_nodes p)) :: (ktree_error_t + u16) set"
  have "?F - ?U p = Inr ` set (free_nodes p)" using free_nodes_in [OF assms(1)] by auto
  then have "card (?F - ?U p) = length (free_nodes p)"
    using assms(1) by (simp add: card_image distinct_card pool_inv_def pool_with_def)
  then obtain fs p' where r: "repeatK n (ktree_pool_alloc_node env) p = Some (Inr (fs, p'))" "list_all (\<lambda>r. \<not> isl r) fs"
    using node_source.allocs_total [OF assms(1), of n env] assms(2) by auto
  note d = node_source.allocs_distinct [OF assms(1) r]
  obtain "is" where fs: "fs = map Inr is"
    using r(2) by (metis (no_types, lifting) isl_def list_all_iff map_idI sum.exhaust ex_map_conv)
  have "set is \<subseteq> set (free_nodes p)" using d free_nodes_in [OF assms(1)] unfolding fs by auto
  moreover have "pool_nodes - set (free_nodes p') = set is \<union> (pool_nodes - set (free_nodes p))"
    using d unfolding fs by (simp add: inj_image_eq_iff flip: image_Un)
  then have "set (free_nodes p') = set (free_nodes p) - set is"
    using d free_nodes_in [OF assms(1)] free_nodes_in [of p'] calculation by auto
  ultimately show ?thesis using r(1) d unfolding fs by (auto simp: distinct_map)
qed

theorem ktree_pool_allocs_witness:
  "\<exists>is p'. repeatK 3 (ktree_pool_alloc_node (\<lambda>_ l. l)) (node_pool fresh_manager) = Some (Inr (map Inr is, p')) \<and> distinct is \<and>
     length is = 3 \<and> set is \<subseteq> set (free_nodes (node_pool fresh_manager)) \<and> pool_inv p' \<and>
     set (free_nodes p') = set (free_nodes (node_pool fresh_manager)) - set is"
proof (rule ktree_pool_allocs [OF fresh_manager_ok(2)])
  show "3 \<le> length (free_nodes (node_pool fresh_manager))"
    using fresh_manager_ok(2,4) by (simp add: pool_inv_def pool_with_def)
qed

text \<open>
  C20: The ring buffer is a first-in first-out queue: an index pushed into a buffer that is
  not full comes out after exactly the indices that were there, in their order, whatever
  the position of head and tail; then the buffer is empty and well formed.
\<close>

theorem ktree_ring_fifo:
  assumes "ring_inv rb" "\<not> ktree_ring_full rb"
  shows "\<exists>r t ys y rb'. ktree_ring_push x rb = Some (Inr (r, t)) \<and>
    repeatK (Suc (length (ring_list rb))) ring_get t = Some (Inr (map Some (ys @ [y]), rb')) \<and>
    ys = ring_list rb \<and> y = x \<and> ring_list rb' = [] \<and> ring_inv rb'"
  using ring.put_then_gets [OF assms, of x] by simp

definition wrapped_ring :: ktree_ring_buffer_t where
  "wrapped_ring = \<lparr>rb_buffer = replicate KTREE_MAX_NODES 0, rb_head = 4095, rb_tail = 1, rb_count = 2\<rparr>"

theorem ktree_ring_fifo_witness:
  "\<exists>r t ys y rb'. ktree_ring_push 42 wrapped_ring = Some (Inr (r, t)) \<and>
    repeatK (Suc (length (ring_list wrapped_ring))) ring_get t = Some (Inr (map Some (ys @ [y]), rb')) \<and>
    ys = ring_list wrapped_ring \<and> y = 42 \<and> ring_list rb' = [] \<and> ring_inv rb'"
  by (rule ktree_ring_fifo) (simp_all add: wrapped_ring_def ring_inv_def ktree_ring_full_def)

text \<open>
  The bitmap implements a set of node indices: for every index below the number of
  nodes, setting adds it, clearing removes it, testing and test-and-set report membership,
  and nothing else changes; the count is the cardinality.
\<close>

theorem ktree_bitmap_refines:
  assumes "bm_ok m" "unat b < KTREE_MAX_NODES"
  shows "(\<exists>m'. ktree_bitmap_set b m = Some (Inr ((), m')) \<and> bm_ok m' \<and> bm_set m' = insert (unat b) (bm_set m)) \<and>
    (\<exists>m'. ktree_bitmap_clear b m = Some (Inr ((), m')) \<and> bm_ok m' \<and> bm_set m' = bm_set m - {unat b}) \<and>
    ktree_bitmap_test b m = Some (Inr (unat b \<in> bm_set m, m)) \<and>
    (\<exists>m'. ktree_bitmap_test_and_set b m = Some (Inr (unat b \<in> bm_set m, m')) \<and> bm_ok m' \<and> bm_set m' = insert (unat b) (bm_set m)) \<and>
    unat (ktree_bitmap_count m) = card (bm_set m)"
  using bitmap_ops [OF assms] bitmap_count [OF assms(1)] by blast

definition one_bitmap :: ktree_bitmap_t where
  "one_bitmap = \<lparr>bits = 5 # replicate 63 0\<rparr>"

theorem ktree_bitmap_refines_witness:
  "(\<exists>m'. ktree_bitmap_set 70 one_bitmap = Some (Inr ((), m')) \<and> bm_ok m' \<and> bm_set m' = insert 70 (bm_set one_bitmap)) \<and>
   ktree_bitmap_test 70 one_bitmap = Some (Inr (70 \<in> bm_set one_bitmap, one_bitmap))"
  using ktree_bitmap_refines [of one_bitmap 70] by (simp add: one_bitmap_def bm_ok_def bm_size_def)

text \<open>
  A tree that has just been created is not distinguished from a free slot: creating
  another one before anything is inserted returns the identifier of the first, so that two
  callers share one tree while the counter says two.
\<close>

theorem create_tree_same_id:
  assumes "mgr_ok m" "ktree_manager_create_tree env flags m = Some (Inr (Inr i, m'))" "unat (tree_count m') < KTREE_MAX_TREES"
    "unat (tree_count m) < KTREE_MAX_TREES"
  shows "\<exists>m''. ktree_manager_create_tree env flags' m' = Some (Inr (Inr i, m'')) \<and> tree_count m'' = tree_count m + 2"
proof -
  obtain k where k: "i = of_nat k" "first_unused m 0 (Some k)" "mgr_ok m'" "tree_count m' = tree_count m + 1"
    "trees m' = (trees m)[k := ktree_init flags (trees m ! k)]"
    using create_tree_run [OF assms(1,4), of env flags] assms(2) by auto
  have u: "first_unused m' 0 (Some k)" by (rule first_unused_again [OF k(2) _ k(5)]) (use assms(1) in \<open>simp add: mgr_ok_def\<close>)
  show ?thesis using create_tree_run [OF k(3) assms(3), of env flags'] first_unused_unique [OF u] k(1,4) by fastforce
qed

theorem create_tree_same_id_witness:
  "\<exists>i m' m''. ktree_manager_create_tree (\<lambda>_ l. l) 1 fresh_manager = Some (Inr (Inr i, m')) \<and>
     ktree_manager_create_tree (\<lambda>_ l. l) 2 m' = Some (Inr (Inr i, m'')) \<and> tree_count m'' = tree_count fresh_manager + 2"
proof -
  have c: "unat (tree_count fresh_manager) < KTREE_MAX_TREES" by (simp add: fresh_manager_ok)
  have "\<not> first_unused fresh_manager 0 None" using fresh_manager_ok(5) by (auto simp: first_unused_def intro: exI [of _ 0])
  then obtain i m' where m: "ktree_manager_create_tree (\<lambda>_ l. l) 1 fresh_manager = Some (Inr (Inr (of_nat i), m'))"
    "tree_count m' = tree_count fresh_manager + 1"
    using create_tree_run [OF fresh_manager_ok(1) c, of "\<lambda>_ l. l" 1] by auto
  then have "unat (tree_count m') < KTREE_MAX_TREES" by (simp add: fresh_manager_ok)
  from create_tree_same_id [OF fresh_manager_ok(1) m(1) this c, of 2] m(1) show ?thesis by blast
qed

end
