(* ===== verification/Elf.thy ===== *)
theory Elf
  imports KPrelude
begin

text \<open>
  The ELF loader \<^verbatim>\<open>src/kernel/startup.c\<close>: mapping the kernel file, the checks of the ELF
  header, and loading the program segments. Memory is one function from addresses to
  mapped bytes, so that a segment mapped over the file image changes what the loader reads
  later. The system is a record of answers. The source ends in the middle of
  \<open>start_kernel\<close>, which is not modelled; text printed on the terminal is not kept.
\<close>

section \<open>State and system\<close>

text \<open>\<open>None\<close> for \<open>kernel_map_base\<close> is \<open>MAP_FAILED\<close>, in \<open>lmem\<close> an address that is not mapped.\<close>

record KernelContext =
  kernel_fd :: int
  kernel_map_base :: "u64 option"
  kernel_map_size :: u64

record loader = KernelContext +
  lmem :: "u64 \<Rightarrow> u8 option"
  lprot :: "u64 \<Rightarrow> u32"

text \<open>
  \<open>stat\<close> gives a size or fails, \<open>open\<close> a descriptor, \<open>mmap\<close> of the file an address or
  fails; \<open>seg_map i\<close> is what \<open>mmap\<close> returns for segment \<open>i\<close>, \<open>seg_protect i\<close> whether
  \<open>mprotect\<close> succeeds.
\<close>

record loader_os =
  file_bytes :: "u8 list"
  os_stat :: "int option"
  os_open :: int
  os_mmap :: "u64 option"
  os_pagesize :: int
  seg_map :: "nat \<Rightarrow> u64 option"
  seg_protect :: "nat \<Rightarrow> bool"

abbreviation PAGE :: nat where "PAGE \<equiv> 4096"
abbreviation SIZE_MAX :: int where "SIZE_MAX \<equiv> 18446744073709551615"
abbreviation PROT_READ :: u32 where "PROT_READ \<equiv> 1"
abbreviation PROT_WRITE :: u32 where "PROT_WRITE \<equiv> 2"
abbreviation PROT_EXEC :: u32 where "PROT_EXEC \<equiv> 4"

definition page_up :: "nat \<Rightarrow> nat" where
  "page_up n = (n + (PAGE - 1)) div PAGE * PAGE"

text \<open>The addresses of the pages that \<open>len\<close> bytes at a page address \<open>v\<close> occupy.\<close>

definition span :: "u64 \<Rightarrow> nat \<Rightarrow> u64 set" where
  "span v len = {a. unat v \<le> unat a \<and> unat a < page_up (unat v + len)}"

text \<open>A mapping at \<open>v\<close> whose \<open>i\<close>-th byte is \<open>c i\<close>; what was mapped there before is gone.\<close>

definition map_pages :: "u64 \<Rightarrow> nat \<Rightarrow> u32 \<Rightarrow> (nat \<Rightarrow> u8) \<Rightarrow> (loader, unit) km" where
  "map_pages v len prot c = modK (\<lambda>s. s\<lparr>
     lmem := (\<lambda>a. if a \<in> span v len then Some (c (unat a - unat v)) else lmem s a),
     lprot := (\<lambda>a. if a \<in> span v len then prot else lprot s a)\<rparr>)"

definition fail :: "(loader, 'a) km" where
  "fail = stopK (Exit 1)"

section \<open>Mapping the kernel file\<close>

definition cleanup_fd :: "(loader, unit) km" where
  "cleanup_fd = bindK (getK kernel_fd) (\<lambda>fd. whenK (0 \<le> fd) (modK (\<lambda>s. s\<lparr>kernel_fd := - 1\<rparr>)))"

definition cleanup_mmap :: "(loader, unit) km" where
  "cleanup_mmap =
     bindK (getK (\<lambda>s. (kernel_map_base s, kernel_map_size s))) (\<lambda>(base, len).
     case base of
       Some b \<Rightarrow>
         whenK (0 < len)
           (modK (\<lambda>s. s\<lparr>lmem := (\<lambda>a. if a \<in> span b (unat len) then None else lmem s a), kernel_map_base := None, kernel_map_size := 0\<rparr>))
     | None \<Rightarrow> retK ())"

definition map_kernel_file :: "loader_os \<Rightarrow> (loader, u64) km" where
  "map_kernel_file os =
     (case os_stat os of
        None \<Rightarrow> fail
      | Some st_size \<Rightarrow>
          if st_size \<le> 0 then fail
          else if SIZE_MAX < st_size then fail
          else
            seqK (modK (\<lambda>s. s\<lparr>kernel_map_size := of_int st_size\<rparr>))
           (seqK (modK (\<lambda>s. s\<lparr>kernel_fd := - 1\<rparr>))
           (seqK (modK (\<lambda>s. s\<lparr>kernel_fd := os_open os\<rparr>))
           (if os_open os < 0 then fail
            else
              seqK (modK (\<lambda>s. s\<lparr>kernel_map_base := os_mmap os\<rparr>))
             (case os_mmap os of
                None \<Rightarrow> seqK cleanup_fd fail
              | Some base \<Rightarrow>
                  seqK (map_pages base (nat st_size) PROT_READ (\<lambda>i. if i < length (file_bytes os) then file_bytes os ! i else 0))
                 (seqK cleanup_fd (retK base)))))))"

section \<open>Reading headers\<close>

definition byte_at :: "u64 \<Rightarrow> (loader, u8) km" where
  "byte_at a = bindK (getK (\<lambda>s. lmem s a)) (\<lambda>b. case b of Some x \<Rightarrow> retK x | None \<Rightarrow> stopK (Fault ''read''))"

text \<open>A little-endian integer of \<open>n\<close> bytes.\<close>

primrec load_le :: "nat \<Rightarrow> u64 \<Rightarrow> (loader, nat) km" where
  "load_le 0 a = retK 0"
| "load_le (Suc n) a = bindK (byte_at a) (\<lambda>b. bindK (load_le n (a + 1)) (\<lambda>r. retK (unat b + 256 * r)))"

text \<open>The fields of \<open>Elf64_Ehdr\<close> and \<open>Elf64_Phdr\<close> the loader uses, with their offsets.\<close>

record Elf64_Ehdr =
  e_magic :: u32
  e_class :: u8
  e_data :: u8
  e_iversion :: u8
  e_type :: u16
  e_machine :: u16
  e_entry :: u64
  e_phoff :: u64
  e_ehsize :: u16
  e_phentsize :: u16
  e_phnum :: u16

record Elf64_Phdr =
  p_type :: u32
  p_flags :: u32
  p_offset :: u64
  p_vaddr :: u64
  p_filesz :: u64
  p_memsz :: u64

definition read_ehdr :: "u64 \<Rightarrow> (loader, Elf64_Ehdr) km" where
  "read_ehdr a =
     bindK (load_le 4 a) (\<lambda>m. bindK (load_le 1 (a + 4)) (\<lambda>c. bindK (load_le 1 (a + 5)) (\<lambda>d. bindK (load_le 1 (a + 6)) (\<lambda>v.
     bindK (load_le 2 (a + 16)) (\<lambda>t. bindK (load_le 2 (a + 18)) (\<lambda>k. bindK (load_le 8 (a + 24)) (\<lambda>e.
     bindK (load_le 8 (a + 32)) (\<lambda>p. bindK (load_le 2 (a + 52)) (\<lambda>eh. bindK (load_le 2 (a + 54)) (\<lambda>ps.
     bindK (load_le 2 (a + 56)) (\<lambda>pn.
     retK \<lparr>e_magic = of_nat m, e_class = of_nat c, e_data = of_nat d, e_iversion = of_nat v, e_type = of_nat t, e_machine = of_nat k,
           e_entry = of_nat e, e_phoff = of_nat p, e_ehsize = of_nat eh, e_phentsize = of_nat ps, e_phnum = of_nat pn\<rparr>)))))))))))"

definition read_phdr :: "u64 \<Rightarrow> (loader, Elf64_Phdr) km" where
  "read_phdr a =
     bindK (load_le 4 a) (\<lambda>t. bindK (load_le 4 (a + 4)) (\<lambda>f. bindK (load_le 8 (a + 8)) (\<lambda>off.
     bindK (load_le 8 (a + 16)) (\<lambda>v. bindK (load_le 8 (a + 32)) (\<lambda>fs. bindK (load_le 8 (a + 40)) (\<lambda>ms.
     retK \<lparr>p_type = of_nat t, p_flags = of_nat f, p_offset = of_nat off, p_vaddr = of_nat v, p_filesz = of_nat fs,
           p_memsz = of_nat ms\<rparr>))))))"

section \<open>Checking the header\<close>

definition validate_elf_header :: "Elf64_Ehdr \<Rightarrow> u64 \<Rightarrow> (loader, unit) km" where
  "validate_elf_header h file_size =
     (if e_magic h \<noteq> 0x464C457F then fail
      else if e_class h \<noteq> 2 then fail
      else if e_data h \<noteq> 1 \<and> e_data h \<noteq> 2 then fail
      else if e_iversion h \<noteq> 1 then fail
      else if e_type h \<noteq> 2 then fail
      else if e_machine h \<noteq> 62 then fail
      else if e_ehsize h < 64 then fail
      else if e_phentsize h < 56 then fail
      else if e_phnum h = 0 then fail
      else if e_phoff h = 0 \<or> file_size < e_phoff h then fail
      else
        (let ph_table_size = unat (e_phnum h) * unat (e_phentsize h) in
         if 2 ^ 64 \<le> ph_table_size then fail
         else
           (let ph_table_end = unat (e_phoff h) + ph_table_size in
            if 2 ^ 64 \<le> ph_table_end then fail
            else if unat file_size < ph_table_end then fail
            else if e_entry h = 0 then fail
            else retK ())))"

section \<open>Loading the segments\<close>

definition copy_byte :: "u64 \<Rightarrow> u64 \<Rightarrow> nat \<Rightarrow> (loader, unit) km" where
  "copy_byte dest src i =
     bindK (byte_at (src + of_nat i)) (\<lambda>b.
     bindK (getK (\<lambda>s. lmem s (dest + of_nat i) \<noteq> None \<and> lprot s (dest + of_nat i) AND PROT_WRITE \<noteq> 0)) (\<lambda>writable.
     if writable then modK (\<lambda>s. s\<lparr>lmem := (lmem s)(dest + of_nat i := Some b)\<rparr>) else stopK (Fault ''write'')))"

definition memcpy_seg :: "u64 \<Rightarrow> u64 \<Rightarrow> nat \<Rightarrow> (loader, unit) km" where
  "memcpy_seg dest src n = forK 0 n (copy_byte dest src)"

definition segment_prot :: "u32 \<Rightarrow> u32" where
  "segment_prot flags =
     (let p0 = 0;
          p1 = (if flags AND 4 \<noteq> 0 then p0 OR PROT_READ else p0);
          p2 = (if flags AND 2 \<noteq> 0 then p1 OR PROT_WRITE else p1)
      in if flags AND 1 \<noteq> 0 then p2 OR PROT_EXEC else p2)"

text \<open>The checks of one loadable segment, and whether it is skipped because it is empty.\<close>

definition check_segment :: "loader_os \<Rightarrow> Elf64_Phdr \<Rightarrow> (loader, bool) km" where
  "check_segment os ph =
     bindK (getK kernel_map_size) (\<lambda>len.
     if len < p_offset ph then stopK (Exit 1)
     else
       (let segment_file_end = unat (p_offset ph) + unat (p_filesz ph) in
        if 2 ^ 64 \<le> segment_file_end then stopK (Exit 1)
        else if unat len < segment_file_end then stopK (Exit 1)
        else if p_memsz ph < p_filesz ph then stopK (Exit 1)
        else if p_memsz ph = 0 then retK False
        else if os_pagesize os \<le> 0 then fail
        else if unat (p_vaddr ph) mod nat (os_pagesize os) \<noteq> 0 then stopK (Exit 1)
        else if 2 ^ 64 \<le> unat (p_vaddr ph) + unat (p_memsz ph) then stopK (Exit 1)
        else retK True))"

definition place_segment :: "loader_os \<Rightarrow> u64 \<Rightarrow> nat \<Rightarrow> Elf64_Phdr \<Rightarrow> (loader, unit) km" where
  "place_segment os ehdr i ph =
     (let prot = segment_prot (p_flags ph); dest = p_vaddr ph; map_size = unat (p_memsz ph) in
      case seg_map os i of
        None \<Rightarrow> stopK (Exit 1)
      | Some mapped_addr \<Rightarrow>
          if mapped_addr \<noteq> dest then stopK (Exit 1)
          else
            seqK (map_pages dest map_size (prot OR PROT_WRITE) (\<lambda>_. 0))
           (seqK (whenK (0 < p_filesz ph) (memcpy_seg dest (ehdr + p_offset ph) (unat (p_filesz ph))))
           (whenK (p_flags ph AND 2 = 0 \<and> seg_protect os i)
              (modK (\<lambda>s. s\<lparr>lprot := (\<lambda>a. if a \<in> span dest map_size then prot else lprot s a)\<rparr>)))))"

text \<open>
  One round of the loop. The offset \<open>i * e_phentsize\<close> is computed in \<open>int\<close>; a product that
  does not fit is undefined.
\<close>

definition load_segment :: "loader_os \<Rightarrow> u64 \<Rightarrow> Elf64_Ehdr \<Rightarrow> nat \<Rightarrow> (loader, unit) km" where
  "load_segment os ehdr h i =
     (if 2 ^ 31 \<le> i * unat (e_phentsize h) then stopK (Fault ''int overflow'')
      else
        bindK (read_phdr (ehdr + e_phoff h + of_nat (i * unat (e_phentsize h)))) (\<lambda>ph.
        whenK (p_type ph = 1)
          (bindK (check_segment os ph) (\<lambda>go. whenK go (place_segment os ehdr i ph)))))"

definition load_kernel_segments :: "loader_os \<Rightarrow> u64 \<Rightarrow> Elf64_Ehdr \<Rightarrow> (loader, unit) km" where
  "load_kernel_segments os ehdr h = forK 0 (unat (e_phnum h)) (load_segment os ehdr h)"

section \<open>The file as a list of bytes\<close>

text \<open>A byte of the mapped image: the rest of the last page reads as zero.\<close>

definition fbyte :: "u8 list \<Rightarrow> nat \<Rightarrow> u8" where
  "fbyte f i = (if i < length f then f ! i else 0)"

primrec le_val :: "nat \<Rightarrow> u8 list \<Rightarrow> nat \<Rightarrow> nat" where
  "le_val 0 f off = 0"
| "le_val (Suc n) f off = unat (fbyte f off) + 256 * le_val n f (Suc off)"

definition parse_ehdr :: "u8 list \<Rightarrow> Elf64_Ehdr" where
  "parse_ehdr f = \<lparr>e_magic = of_nat (le_val 4 f 0), e_class = of_nat (le_val 1 f 4), e_data = of_nat (le_val 1 f 5),
     e_iversion = of_nat (le_val 1 f 6), e_type = of_nat (le_val 2 f 16), e_machine = of_nat (le_val 2 f 18),
     e_entry = of_nat (le_val 8 f 24), e_phoff = of_nat (le_val 8 f 32), e_ehsize = of_nat (le_val 2 f 52),
     e_phentsize = of_nat (le_val 2 f 54), e_phnum = of_nat (le_val 2 f 56)\<rparr>"

definition parse_phdr :: "u8 list \<Rightarrow> nat \<Rightarrow> Elf64_Phdr" where
  "parse_phdr f off = \<lparr>p_type = of_nat (le_val 4 f off), p_flags = of_nat (le_val 4 f (off + 4)), p_offset = of_nat (le_val 8 f (off + 8)),
     p_vaddr = of_nat (le_val 8 f (off + 16)), p_filesz = of_nat (le_val 8 f (off + 32)), p_memsz = of_nat (le_val 8 f (off + 40))\<rparr>"

definition ph_of :: "u8 list \<Rightarrow> nat \<Rightarrow> Elf64_Phdr" where
  "ph_of f i = parse_phdr f (unat (e_phoff (parse_ehdr f)) + i * unat (e_phentsize (parse_ehdr f)))"

text \<open>The file \<open>f\<close> is mapped at \<open>b\<close>.\<close>

definition file_at :: "u64 \<Rightarrow> u8 list \<Rightarrow> 'a loader_scheme \<Rightarrow> bool" where
  "file_at b f s \<longleftrightarrow> (\<forall>i<page_up (length f). lmem s (b + of_nat i) = Some (fbyte f i))"

definition file_span :: "u64 \<Rightarrow> u8 list \<Rightarrow> u64 set" where
  "file_span b f = (\<lambda>i. b + of_nat i) ` {..<page_up (length f)}"

lemma page_up_ge: "n \<le> page_up n"
  unfolding page_up_def using div_mult_mod_eq [of "n + (PAGE - 1)" PAGE] by (simp add: algebra_simps)

lemma byte_at_run: "lmem s a = Some x \<Longrightarrow> byte_at a s = Some (Inr (x, s))"
  by (simp add: byte_at_def)

lemma load_le_run:
  assumes "file_at b f s" "off + n \<le> page_up (length f)"
  shows "load_le n (b + of_nat off) s = Some (Inr (le_val n f off, s))"
  using assms(2)
proof (induction n arbitrary: off)
  case (Suc n)
  then have "byte_at (b + of_nat off) s = Some (Inr (fbyte f off, s))"
    using assms(1) by (intro byte_at_run) (simp add: file_at_def)
  moreover have "load_le n (b + of_nat (Suc off)) s = Some (Inr (le_val n f (Suc off), s))"
    by (rule Suc.IH) (use Suc.prems in simp)
  ultimately show ?case by (simp add: ac_simps)
qed simp

lemma load_le_at:
  assumes "file_at b f s" "off + n \<le> page_up (length f)" "a = b + of_nat off"
  shows "load_le n a s = Some (Inr (le_val n f off, s))"
  using load_le_run [OF assms(1,2)] assms(3) by simp

lemma read_ehdr_run:
  assumes "file_at b f s" "f \<noteq> []"
  shows "read_ehdr b s = Some (Inr (parse_ehdr f, s))"
proof -
  have "1 \<le> length f" using assms(2) by (cases f) simp_all
  then have "PAGE \<le> page_up (length f)" by (simp add: page_up_def)
  then have ld: "load_le n (b + of_nat k) s = Some (Inr (le_val n f k, s))" if "k + n \<le> 64" for n k
    using load_le_run [OF assms(1), of k n] that by simp
  show ?thesis
    using ld [of 0 4] ld [of 4 1] ld [of 5 1] ld [of 6 1] ld [of 16 2] ld [of 18 2] ld [of 24 8] ld [of 32 8] ld [of 52 2]
      ld [of 54 2] ld [of 56 2]
    by (simp add: read_ehdr_def parse_ehdr_def del: load_le.simps)
qed

lemma read_phdr_run:
  assumes "file_at b f s" "off + 56 \<le> length f" "a = b + of_nat off"
  shows "read_phdr a s = Some (Inr (parse_phdr f off, s))"
proof -
  have "off + 56 \<le> page_up (length f)" using assms(2) page_up_ge [of "length f"] by linarith
  then have ld: "load_le n (a + of_nat k) s = Some (Inr (le_val n f (off + k), s))" if "k + n \<le> 56" for n k
    using load_le_at [OF assms(1), of "off + k" n "a + of_nat k"] that assms(3) by (simp add: ac_simps)
  show ?thesis
    using ld [of 0 4] ld [of 4 4] ld [of 8 8] ld [of 16 8] ld [of 32 8] ld [of 40 8]
    by (simp add: read_phdr_def parse_phdr_def del: load_le.simps)
qed

section \<open>The header checks\<close>

definition header_ok :: "Elf64_Ehdr \<Rightarrow> nat \<Rightarrow> bool" where
  "header_ok h n \<longleftrightarrow> e_magic h = 0x464C457F \<and> e_class h = 2 \<and> e_data h \<in> {1, 2} \<and> e_iversion h = 1 \<and> e_type h = 2 \<and>
     e_machine h = 62 \<and> 64 \<le> e_ehsize h \<and> 56 \<le> e_phentsize h \<and> e_phnum h \<noteq> 0 \<and> e_phoff h \<noteq> 0 \<and>
     unat (e_phoff h) + unat (e_phnum h) * unat (e_phentsize h) \<le> n \<and> e_entry h \<noteq> 0"

lemma validate_run:
  "validate_elf_header h file_size s = (if header_ok h (unat file_size) then Some (Inr ((), s)) else Some (Inl (Exit 1)))"
proof -
  let ?T = "unat (e_phnum h) * unat (e_phentsize h)"
  have "?T < 2 ^ 64"
  proof -
    have "?T \<le> 65535 * 65535" using unat_lt2p [of "e_phnum h"] unat_lt2p [of "e_phentsize h"] by (intro mult_mono) simp_all
    then show ?thesis by simp
  qed
  moreover have "unat file_size < 2 ^ 64" using unat_lt2p [of file_size] by simp
  moreover have "file_size < e_phoff h \<longleftrightarrow> unat file_size < unat (e_phoff h)" by (simp add: word_less_nat_alt)
  ultimately show ?thesis
    by (auto simp: validate_elf_header_def header_ok_def fail_def Let_def not_less)
qed

lemma phdr_in_file:
  assumes "header_ok h n" "i < unat (e_phnum h)"
  shows "unat (e_phoff h) + i * unat (e_phentsize h) + 56 \<le> n"
proof -
  have "Suc i * unat (e_phentsize h) \<le> unat (e_phnum h) * unat (e_phentsize h)" using assms(2) by (intro mult_right_mono) auto
  moreover have "56 \<le> unat (e_phentsize h)" using assms(1) by (simp add: header_ok_def word_le_nat_alt)
  ultimately show ?thesis using assms(1) by (simp add: header_ok_def)
qed

section \<open>One segment\<close>

text \<open>The checks of a segment, and the byte and the protection a loaded segment gives to an address.\<close>

definition seg_fits :: "u8 list \<Rightarrow> Elf64_Phdr \<Rightarrow> bool" where
  "seg_fits f ph \<longleftrightarrow> unat (p_offset ph) + unat (p_filesz ph) \<le> length f \<and> p_filesz ph \<le> p_memsz ph \<and>
     (p_memsz ph \<noteq> 0 \<longrightarrow> unat (p_vaddr ph) mod PAGE = 0 \<and> unat (p_vaddr ph) + unat (p_memsz ph) < 2 ^ 64)"

definition seg_span :: "Elf64_Phdr \<Rightarrow> u64 set" where
  "seg_span ph = span (p_vaddr ph) (unat (p_memsz ph))"

definition seg_byte :: "u8 list \<Rightarrow> Elf64_Phdr \<Rightarrow> u64 \<Rightarrow> u8" where
  "seg_byte f ph a =
     (let k = unat a - unat (p_vaddr ph) in if k < unat (p_filesz ph) then f ! (unat (p_offset ph) + k) else 0)"

definition seg_prot :: "bool \<Rightarrow> Elf64_Phdr \<Rightarrow> u32" where
  "seg_prot protected ph =
     (if p_flags ph AND 2 = 0 \<and> protected then segment_prot (p_flags ph) else segment_prot (p_flags ph) OR PROT_WRITE)"

definition seg_loaded :: "loader_os \<Rightarrow> u8 list \<Rightarrow> nat \<Rightarrow> Elf64_Phdr \<Rightarrow> loader \<Rightarrow> loader" where
  "seg_loaded os f i ph s = s\<lparr>
     lmem := (\<lambda>a. if a \<in> seg_span ph then Some (seg_byte f ph a) else lmem s a),
     lprot := (\<lambda>a. if a \<in> seg_span ph then seg_prot (seg_protect os i) ph else lprot s a)\<rparr>"

lemma span_at: "n \<le> len \<Longrightarrow> unat v + n < 2 ^ 64 \<Longrightarrow> n < len \<or> unat v + n < page_up (unat v + len) \<Longrightarrow> v + of_nat n \<in> span v len \<and> unat (v + of_nat n) = unat v + n"
proof -
  assume n: "n \<le> len" "unat v + n < 2 ^ 64" "n < len \<or> unat v + n < page_up (unat v + len)"
  have "unat (v + of_nat n) = unat v + n" using n(2) by (simp add: unat_word_ariths unat_of_nat)
  then show ?thesis using n page_up_ge [of "unat v + len"] by (auto simp: span_def)
qed

lemma check_segment_run:
  assumes "kernel_map_size s = of_nat (length f)" "length f < 2 ^ 63" "os_pagesize os = int PAGE"
  shows "check_segment os ph s = (if seg_fits f ph then Some (Inr (p_memsz ph \<noteq> 0, s)) else Some (Inl (Exit 1)))"
proof -
  have len: "unat (kernel_map_size s) = length f" using assms(1,2) by (simp add: unat_of_nat)
  have lt: "kernel_map_size s < p_offset ph \<longleftrightarrow> length f < unat (p_offset ph)" by (simp add: word_less_nat_alt len)
  have cmp: "p_memsz ph < p_filesz ph \<longleftrightarrow> \<not> p_filesz ph \<le> p_memsz ph" by auto
  show ?thesis using assms(2,3) by (auto simp: check_segment_def seg_fits_def fail_def Let_def lt len cmp)
qed

lemma prot_write: "(p OR PROT_WRITE) AND PROT_WRITE \<noteq> (0 :: u32)"
proof
  assume "(p OR PROT_WRITE) AND PROT_WRITE = 0"
  then have "bit ((p OR 2) AND 2 :: u32) 1 = bit (0 :: u32) 1" by simp
  then show False by (simp add: bit_simps)
qed

text \<open>The copy loop: after \<open>k\<close> rounds the first \<open>k\<close> bytes of the segment are there.\<close>

definition copied :: "u8 list \<Rightarrow> Elf64_Phdr \<Rightarrow> nat \<Rightarrow> loader \<Rightarrow> loader" where
  "copied f ph k s = s\<lparr>lmem := (\<lambda>a. if a \<in> seg_span ph \<and> unat a - unat (p_vaddr ph) < k
     then Some (f ! (unat (p_offset ph) + (unat a - unat (p_vaddr ph)))) else lmem s a)\<rparr>"

lemma copied_Suc:
  assumes "p_vaddr ph + of_nat k \<in> seg_span ph" "unat (p_vaddr ph + of_nat k) = unat (p_vaddr ph) + k"
  shows "(copied f ph k s)\<lparr>lmem := (lmem (copied f ph k s))(p_vaddr ph + of_nat k := Some (f ! (unat (p_offset ph) + k)))\<rparr> =
    copied f ph (Suc k) s"
proof -
  have "((lmem (copied f ph k s))(p_vaddr ph + of_nat k := Some (f ! (unat (p_offset ph) + k)))) a = lmem (copied f ph (Suc k) s) a" for a
  proof (cases "a = p_vaddr ph + of_nat k")
    case True
    then show ?thesis using assms by (simp add: copied_def)
  next
    case False
    then have "unat a \<noteq> unat (p_vaddr ph) + k" using assms(2) by (metis word_unat_eq_iff)
    moreover have "unat (p_vaddr ph) \<le> unat a" if "a \<in> seg_span ph" using that by (simp add: seg_span_def span_def)
    ultimately have "a \<in> seg_span ph \<and> unat a - unat (p_vaddr ph) < Suc k \<longleftrightarrow>
        a \<in> seg_span ph \<and> unat a - unat (p_vaddr ph) < k" by auto
    then show ?thesis using False by (simp add: copied_def)
  qed
  then have "(lmem (copied f ph k s))(p_vaddr ph + of_nat k := Some (f ! (unat (p_offset ph) + k))) = lmem (copied f ph (Suc k) s)"
    by (rule ext)
  then show ?thesis by (simp add: copied_def)
qed

lemma copy_byte_run:
  assumes "seg_fits f ph" "k < unat (p_filesz ph)" "file_at b f s" "seg_span ph \<inter> file_span b f = {}"
    and w: "\<And>a. a \<in> seg_span ph \<Longrightarrow> lmem s a \<noteq> None \<and> lprot s a AND PROT_WRITE \<noteq> 0"
  shows "copy_byte (p_vaddr ph) (b + p_offset ph) k (copied f ph k s) = Some (Inr ((), copied f ph (Suc k) s))"
proof -
  let ?v = "p_vaddr ph" and ?o = "unat (p_offset ph)"
  have m: "p_memsz ph \<noteq> 0" "unat (p_filesz ph) \<le> unat (p_memsz ph)"
    using assms(1,2) by (auto simp: seg_fits_def word_le_nat_alt)
  then have "unat ?v + unat (p_memsz ph) < 2 ^ 64" using assms(1) by (simp add: seg_fits_def)
  then have d: "?v + of_nat k \<in> seg_span ph" "unat (?v + of_nat k) = unat ?v + k"
    using span_at [of k "unat (p_memsz ph)" ?v] assms(2) m(2) by (auto simp: seg_span_def)
  have ok: "?o + k < length f" using assms(1,2) by (simp add: seg_fits_def)
  then have lt: "?o + k < page_up (length f)" using page_up_ge [of "length f"] by linarith
  have eq: "b + of_nat (?o + k) = b + p_offset ph + of_nat k" by simp
  have "b + of_nat (?o + k) \<in> file_span b f" using lt unfolding file_span_def by (intro imageI) simp
  moreover have "lmem s (b + of_nat (?o + k)) = Some (f ! (?o + k))"
    using assms(3) [unfolded file_at_def, rule_format, OF lt] ok by (simp only: fbyte_def if_True)
  ultimately have "b + p_offset ph + of_nat k \<in> file_span b f" "lmem s (b + p_offset ph + of_nat k) = Some (f ! (?o + k))"
    by (simp_all only: eq)
  then have "byte_at (b + p_offset ph + of_nat k) (copied f ph k s) = Some (Inr (f ! (?o + k), copied f ph k s))"
    using assms(4) by (intro byte_at_run) (auto simp: copied_def)
  moreover have "lmem (copied f ph k s) (?v + of_nat k) \<noteq> None \<and> lprot (copied f ph k s) (?v + of_nat k) AND PROT_WRITE \<noteq> 0"
    using w [OF d(1)] by (simp add: copied_def)
  ultimately show ?thesis using copied_Suc [OF d] by (simp add: copy_byte_def)
qed

lemma memcpy_run:
  assumes "seg_fits f ph" "file_at b f s" "seg_span ph \<inter> file_span b f = {}"
    and "\<And>a. a \<in> seg_span ph \<Longrightarrow> lmem s a \<noteq> None \<and> lprot s a AND PROT_WRITE \<noteq> 0"
  shows "memcpy_seg (p_vaddr ph) (b + p_offset ph) (unat (p_filesz ph)) s = Some (Inr ((), copied f ph (unat (p_filesz ph)) s))"
proof -
  have "\<exists>s'. forK 0 (unat (p_filesz ph)) (copy_byte (p_vaddr ph) (b + p_offset ph)) s = Some (Inr ((), s')) \<and>
      s' = copied f ph (unat (p_filesz ph)) s"
    by (rule forK_rule) (use copy_byte_run [OF assms(1) _ assms(2,3)] assms(4) in \<open>auto simp: copied_def [of f ph 0]\<close>)
  then show ?thesis by (simp add: memcpy_seg_def)
qed

lemma place_segment_run:
  assumes "seg_fits f ph" "p_memsz ph \<noteq> 0" "file_at b f s" "seg_span ph \<inter> file_span b f = {}" "seg_map os i = Some (p_vaddr ph)"
  shows "place_segment os b i ph s = Some (Inr ((), seg_loaded os f i ph s))"
proof -
  let ?p = "segment_prot (p_flags ph)" and ?v = "p_vaddr ph" and ?n = "unat (p_filesz ph)"
  let ?s = "s\<lparr>lmem := (\<lambda>a. if a \<in> seg_span ph then Some 0 else lmem s a),
      lprot := (\<lambda>a. if a \<in> seg_span ph then ?p OR PROT_WRITE else lprot s a)\<rparr>"
  have fat: "file_at b f ?s" using assms(3,4) by (auto simp: file_at_def file_span_def)
  have map: "map_pages ?v (unat (p_memsz ph)) (?p OR PROT_WRITE) (\<lambda>_. 0) s = Some (Inr ((), ?s))"
    by (simp add: map_pages_def seg_span_def)
  have mc: "memcpy_seg ?v (b + p_offset ph) ?n ?s = Some (Inr ((), copied f ph ?n ?s))"
    by (rule memcpy_run [OF assms(1) fat assms(4)]) (use prot_write in simp)
  have copy: "whenK (0 < p_filesz ph) (memcpy_seg ?v (b + p_offset ph) ?n) ?s = Some (Inr ((), copied f ph ?n ?s))"
  proof (cases "p_filesz ph = 0")
    case True
    then show ?thesis by (cases s) (simp add: copied_def)
  next
    case False
    then show ?thesis using mc by (simp add: word_neq_0_conv)
  qed
  have mem: "lmem (copied f ph ?n ?s) = (\<lambda>a. if a \<in> seg_span ph then Some (seg_byte f ph a) else lmem s a)"
    by (auto simp: copied_def seg_byte_def Let_def fun_eq_iff)
  let ?c = "copied f ph ?n ?s"
  have fin: "whenK (p_flags ph AND 2 = 0 \<and> seg_protect os i)
      (modK (\<lambda>s. s\<lparr>lprot := (\<lambda>a. if a \<in> span ?v (unat (p_memsz ph)) then ?p else lprot s a)\<rparr>)) ?c = Some (Inr ((), seg_loaded os f i ph s))"
    using mem by (cases "p_flags ph AND 2 = 0 \<and> seg_protect os i")
      (auto simp: seg_loaded_def seg_prot_def copied_def fun_eq_iff simp flip: seg_span_def)
  have "place_segment os b i ph s = seqK (map_pages ?v (unat (p_memsz ph)) (?p OR PROT_WRITE) (\<lambda>_. 0))
      (seqK (whenK (0 < p_filesz ph) (memcpy_seg ?v (b + p_offset ph) ?n))
      (whenK (p_flags ph AND 2 = 0 \<and> seg_protect os i)
        (modK (\<lambda>s. s\<lparr>lprot := (\<lambda>a. if a \<in> span ?v (unat (p_memsz ph)) then ?p else lprot s a)\<rparr>)))) s"
    using assms(5) by (simp add: place_segment_def Let_def)
  also have "\<dots> = Some (Inr ((), seg_loaded os f i ph s))"
    by (simp only: bindK_returns map copy fin)
  finally show ?thesis .
qed

section \<open>All segments\<close>

definition seg_ok :: "loader_os \<Rightarrow> u8 list \<Rightarrow> nat \<Rightarrow> bool" where
  "seg_ok os f i \<longleftrightarrow> (let ph = ph_of f i in
     p_type ph = 1 \<longrightarrow> seg_fits f ph \<and> (p_memsz ph \<noteq> 0 \<longrightarrow> seg_map os i = Some (p_vaddr ph)))"

definition loads :: "u8 list \<Rightarrow> nat \<Rightarrow> bool" where
  "loads f i \<longleftrightarrow> p_type (ph_of f i) = 1 \<and> p_memsz (ph_of f i) \<noteq> 0"

text \<open>The loaded segments lie apart from each other and from the file image.\<close>

definition separate :: "u64 \<Rightarrow> u8 list \<Rightarrow> nat \<Rightarrow> bool" where
  "separate b f n \<longleftrightarrow>
     (\<forall>i<n. loads f i \<longrightarrow> seg_span (ph_of f i) \<inter> file_span b f = {}) \<and>
     (\<forall>i<n. \<forall>j<n. i \<noteq> j \<longrightarrow> loads f i \<longrightarrow> loads f j \<longrightarrow> seg_span (ph_of f i) \<inter> seg_span (ph_of f j) = {})"

text \<open>From \<open>s\<close> to \<open>t\<close> exactly the first \<open>n\<close> segments have been loaded.\<close>

definition image :: "loader_os \<Rightarrow> u8 list \<Rightarrow> nat \<Rightarrow> loader \<Rightarrow> loader \<Rightarrow> bool" where
  "image os f n s t \<longleftrightarrow>
     (\<forall>i<n. loads f i \<longrightarrow> (\<forall>a\<in>seg_span (ph_of f i). lmem t a = Some (seg_byte f (ph_of f i) a) \<and>
        lprot t a = seg_prot (seg_protect os i) (ph_of f i))) \<and>
     (\<forall>a. (\<forall>i<n. loads f i \<longrightarrow> a \<notin> seg_span (ph_of f i)) \<longrightarrow> lmem t a = lmem s a \<and> lprot t a = lprot s a)"

definition loader_inv :: "u64 \<Rightarrow> u8 list \<Rightarrow> loader \<Rightarrow> bool" where
  "loader_inv b f s \<longleftrightarrow> file_at b f s \<and> kernel_map_size s = of_nat (length f)"

lemma load_segment_run:
  assumes "loader_inv b f s" "header_ok (parse_ehdr f) (length f)" "i < unat (e_phnum (parse_ehdr f))" "length f < 2 ^ 31"
    "os_pagesize os = int PAGE" "loads f i \<Longrightarrow> seg_span (ph_of f i) \<inter> file_span b f = {}"
  shows "load_segment os b (parse_ehdr f) i s =
    (if seg_ok os f i then Some (Inr ((), if loads f i then seg_loaded os f i (ph_of f i) s else s)) else Some (Inl (Exit 1)))"
proof -
  let ?h = "parse_ehdr f" and ?ph = "ph_of f i"
  have fat: "file_at b f s" and sz: "kernel_map_size s = of_nat (length f)" using assms(1) by (simp_all add: loader_inv_def)
  have len: "unat (e_phoff ?h) + i * unat (e_phentsize ?h) + 56 \<le> length f" by (rule phdr_in_file [OF assms(2,3)])
  then have no: "\<not> 2 ^ 31 \<le> i * unat (e_phentsize ?h)" using assms(4) by linarith
  have rd: "read_phdr (b + e_phoff ?h + of_nat (i * unat (e_phentsize ?h))) s = Some (Inr (?ph, s))"
    unfolding ph_of_def by (rule read_phdr_run [OF fat len]) simp
  have chk: "check_segment os ?ph s = (if seg_fits f ?ph then Some (Inr (p_memsz ?ph \<noteq> 0, s)) else Some (Inl (Exit 1)))"
    by (rule check_segment_run [OF sz _ assms(5)]) (use assms(4) in simp)
  show ?thesis
  proof (cases "p_type ?ph = 1 \<and> seg_fits f ?ph \<and> p_memsz ?ph \<noteq> 0")
    case True
    show ?thesis
    proof (cases "seg_map os i = Some (p_vaddr ?ph)")
      case m: True
      have "place_segment os b i ?ph s = Some (Inr ((), seg_loaded os f i ?ph s))"
        by (rule place_segment_run [OF _ _ fat _ m]) (use True assms(6) in \<open>auto simp: loads_def\<close>)
      then show ?thesis using True m no rd chk by (simp add: load_segment_def seg_ok_def loads_def)
    next
      case m: False
      then have "place_segment os b i ?ph s = Some (Inl (Exit 1))"
        by (cases "seg_map os i") (auto simp: place_segment_def Let_def)
      then show ?thesis using True m no rd chk by (simp add: load_segment_def seg_ok_def loads_def)
    qed
  next
    case False
    then show ?thesis using no rd chk
      by (cases "p_type ?ph = 1"; cases "seg_fits f ?ph") (simp_all add: load_segment_def seg_ok_def loads_def)
  qed
qed

lemma image_step:
  assumes "image os f i s t" "separate b f n" "i < n" "loads f i"
  shows "image os f (Suc i) s (seg_loaded os f i (ph_of f i) t)"
proof -
  let ?t = "seg_loaded os f i (ph_of f i) t"
  have "lmem ?t a = Some (seg_byte f (ph_of f j) a) \<and> lprot ?t a = seg_prot (seg_protect os j) (ph_of f j)"
    if "j < Suc i" "loads f j" "a \<in> seg_span (ph_of f j)" for j a
  proof (cases "j = i")
    case True
    then show ?thesis using that by (simp add: seg_loaded_def)
  next
    case False
    have sep: "\<forall>i<n. \<forall>j<n. i \<noteq> j \<longrightarrow> loads f i \<longrightarrow> loads f j \<longrightarrow> seg_span (ph_of f i) \<inter> seg_span (ph_of f j) = {}"
      using assms(2) unfolding separate_def by (rule conjunct2)
    have "seg_span (ph_of f i) \<inter> seg_span (ph_of f j) = {}"
      by (rule sep [rule_format]) (use False assms(3,4) that in auto)
    then have "a \<notin> seg_span (ph_of f i)" using that by auto
    moreover have "j < i" using False that by simp
    ultimately show ?thesis using assms(1) that by (simp add: image_def seg_loaded_def)
  qed
  moreover have "lmem ?t a = lmem s a \<and> lprot ?t a = lprot s a" if "\<forall>j<Suc i. loads f j \<longrightarrow> a \<notin> seg_span (ph_of f j)" for a
    using that assms(1,4) by (simp add: image_def seg_loaded_def)
  ultimately show ?thesis unfolding image_def by simp
qed

lemma image_skip: "image os f i s t \<Longrightarrow> \<not> loads f i \<Longrightarrow> image os f (Suc i) s t"
  by (auto simp: image_def less_Suc_eq)

lemma loader_inv_step: "loader_inv b f t \<Longrightarrow> seg_span ph \<inter> file_span b f = {} \<Longrightarrow> loader_inv b f (seg_loaded os f i ph t)"
  by (auto simp: loader_inv_def file_at_def seg_loaded_def file_span_def)

lemma loop_step:
  assumes "loader_inv b f t \<and> image os f i s t" "seg_ok os f i" "i < n" and n: "n = unat (e_phnum (parse_ehdr f))"
    and h: "header_ok (parse_ehdr f) (length f)" "length f < 2 ^ 31" "os_pagesize os = int PAGE" and sep: "separate b f n"
  shows "\<exists>t'. load_segment os b (parse_ehdr f) i t = Some (Inr ((), t')) \<and> (loader_inv b f t' \<and> image os f (Suc i) s t')"
proof -
  have d: "seg_span (ph_of f i) \<inter> file_span b f = {}" if "loads f i" using sep assms(3) that by (simp add: separate_def)
  have run: "load_segment os b (parse_ehdr f) i t = Some (Inr ((), if loads f i then seg_loaded os f i (ph_of f i) t else t))"
    using load_segment_run [of b f t i os] assms(1-3) h d n by simp
  show ?thesis
  proof (cases "loads f i")
    case True
    then show ?thesis using run assms(1) loader_inv_step [OF _ d [OF True]] image_step [OF _ sep assms(3) True] by auto
  next
    case False
    then show ?thesis using run assms(1) image_skip by auto
  qed
qed

lemma image_0: "image os f 0 s s"
  by (simp add: image_def)

lemma map_kernel_file_run:
  assumes "os_stat os = Some (int (length f))" "file_bytes os = f" "f \<noteq> []" "length f < 2 ^ 63" "0 \<le> os_open os" "os_mmap os = Some b"
    "unat b mod PAGE = 0" "unat b + page_up (length f) < 2 ^ 64"
  shows "\<exists>s'. map_kernel_file os s = Some (Inr (b, s')) \<and> loader_inv b f s' \<and> kernel_fd s' = - 1 \<and> kernel_map_base s' = Some b"
proof -
  have "b + of_nat i \<in> span b (length f) \<and> unat (b + of_nat i) = unat b + i" if "i < page_up (length f)" for i
  proof -
    have "unat (b + of_nat i) = unat b + i" using that assms(8) by (simp add: unat_word_ariths unat_of_nat)
    moreover have "page_up (unat b + length f) = unat b + page_up (length f)"
    proof -
      obtain q where q: "unat b = q * PAGE" using assms(7) by (metis mult.commute mod_0_imp_dvd dvdE)
      show ?thesis unfolding page_up_def q by (simp add: add.assoc)
    qed
    ultimately show ?thesis using that by (simp add: span_def)
  qed
  then show ?thesis using assms(1-6)
    by (auto simp: map_kernel_file_def map_pages_def cleanup_fd_def loader_inv_def file_at_def fbyte_def)
qed

section \<open>A concrete kernel file\<close>

text \<open>An ELF header, one program header at 64 and 8 bytes of code at 120, loaded at 0x400000 with 16 bytes of memory.\<close>

definition demo_file :: "u8 list" where
  "demo_file =
     [0x7F, 0x45, 0x4C, 0x46, 2, 1, 1, 0, 0, 0, 0, 0, 0, 0, 0, 0, 2, 0, 62, 0, 1, 0, 0, 0, 0, 0, 0x40, 0, 0, 0, 0, 0,
      64, 0, 0, 0, 0, 0, 0, 0, 0, 0, 0, 0, 0, 0, 0, 0, 0, 0, 0, 0, 64, 0, 56, 0, 1, 0, 0, 0, 0, 0, 0, 0,
      1, 0, 0, 0, 5, 0, 0, 0, 120, 0, 0, 0, 0, 0, 0, 0, 0, 0, 0x40, 0, 0, 0, 0, 0, 0, 0, 0x40, 0, 0, 0, 0, 0,
      8, 0, 0, 0, 0, 0, 0, 0, 16, 0, 0, 0, 0, 0, 0, 0, 0, 0x10, 0, 0, 0, 0, 0, 0, 1, 2, 3, 4, 5, 6, 7, 8]"

abbreviation demo_base :: u64 where "demo_base \<equiv> 0x7F0000000000"

definition demo_os :: loader_os where
  "demo_os = \<lparr>file_bytes = demo_file, os_stat = Some (int (length demo_file)), os_open = 3, os_mmap = Some demo_base, os_pagesize = int PAGE,
     seg_map = (\<lambda>_. Some 0x400000), seg_protect = (\<lambda>_. True)\<rparr>"

definition demo_start :: loader where
  "demo_start = \<lparr>kernel_fd = 0, kernel_map_base = None, kernel_map_size = 0, lmem = (\<lambda>_. None), lprot = (\<lambda>_. 0)\<rparr>"

lemma le_val_split: "le_val (m + n) f k = le_val m f k + 256 ^ m * le_val n f (k + m)"
  by (induction m arbitrary: k) (simp_all add: algebra_simps)

lemma le_val_bytes:
  "le_val 1 f k = unat (fbyte f k)"
  "le_val 2 f k = unat (fbyte f k) + 256 * unat (fbyte f (k + 1))"
  "le_val 4 f k = le_val 2 f k + 65536 * le_val 2 f (k + 2)"
  "le_val 8 f k = le_val 4 f k + 4294967296 * le_val 4 f (k + 4)"
proof -
  show "le_val 1 f k = unat (fbyte f k)" for k by simp
  then show "le_val 2 f k = unat (fbyte f k) + 256 * unat (fbyte f (k + 1))" for k
    using le_val_split [of 1 1 f k] by (simp add: numeral_2_eq_2)
  show "le_val 4 f k = le_val 2 f k + 65536 * le_val 2 f (k + 2)" for k using le_val_split [of 2 2 f k] by simp
  show "le_val 8 f k = le_val 4 f k + 4294967296 * le_val 4 f (k + 4)" using le_val_split [of 4 4 f k] by simp
qed

lemma demo_length: "length demo_file = 128"
  by (simp add: demo_file_def)

lemma demo_byte: "k < 128 \<Longrightarrow> fbyte demo_file k = demo_file ! k"
  by (simp add: fbyte_def demo_length)

lemma demo_ehdr: "parse_ehdr demo_file = \<lparr>e_magic = 0x464C457F, e_class = 2, e_data = 1, e_iversion = 1, e_type = 2, e_machine = 62,
    e_entry = 0x400000, e_phoff = 64, e_ehsize = 64, e_phentsize = 56, e_phnum = 1\<rparr>"
  by (simp add: parse_ehdr_def le_val_bytes demo_byte) (simp add: demo_file_def)

lemma demo_phdr: "ph_of demo_file 0 = \<lparr>p_type = 1, p_flags = 5, p_offset = 120, p_vaddr = 0x400000, p_filesz = 8, p_memsz = 16\<rparr>"
  by (simp add: ph_of_def parse_phdr_def le_val_bytes demo_byte demo_ehdr) (simp add: demo_file_def)

lemma demo_separate: "separate demo_base demo_file 1"
proof -
  have "page_up 128 = 4096" by (simp add: page_up_def)
  then have "0x7F0000000000 \<le> unat a" if "a \<in> file_span demo_base demo_file" for a
    using that by (auto simp: file_span_def demo_length unat_word_ariths unat_of_nat)
  moreover have "unat a < 0x401000" if "a \<in> seg_span (ph_of demo_file 0)" for a
    using that by (simp add: seg_span_def span_def demo_phdr page_up_def)
  ultimately have "seg_span (ph_of demo_file 0) \<inter> file_span demo_base demo_file = {}" by fastforce
  then show ?thesis by (simp add: separate_def)
qed

lemma demo_map:
  "\<exists>s'. map_kernel_file demo_os demo_start = Some (Inr (demo_base, s')) \<and> loader_inv demo_base demo_file s' \<and>
     kernel_fd s' = - 1 \<and> kernel_map_base s' = Some demo_base"
proof (rule map_kernel_file_run)
  show "demo_file \<noteq> []" by (simp add: demo_file_def)
qed (simp_all add: demo_os_def demo_length page_up_def)

section \<open>Properties\<close>





end
