(* ===== verification/MyDevice.thy ===== *)
theory MyDevice
  imports KPrelude
begin

text \<open>
  The buffer device \<^verbatim>\<open>src/kernel/mydevice.c\<close>. Devices live at addresses, 0 is NULL; using an
  address with no device is a fault. What \<open>malloc\<close>, \<open>sysconf\<close> and \<open>pthread_mutex_init\<close>
  return are arguments. A buffer passed in is the list of its bytes, a buffer to fill is its
  capacity and the bytes written to it are a result; \<open>off\<close> is passed by value and its new
  value returned.
\<close>

section \<open>Data\<close>

abbreviation DEFAULT_PAGE_SIZE :: nat where "DEFAULT_PAGE_SIZE \<equiv> 4096"
abbreviation MAX_BUFFER_SIZE_MULTIPLIER :: nat where "MAX_BUFFER_SIZE_MULTIPLIER \<equiv> 10"
abbreviation ENOMEM :: int where "ENOMEM \<equiv> 12"
abbreviation EINVAL :: int where "EINVAL \<equiv> 22"
abbreviation ENOTTY :: int where "ENOTTY \<equiv> 25"

record my_device =
  dbuffer :: "u8 list"
  buffer_size :: u64
  dlock :: bool
  open_count :: u32

type_synonym dev_world = "nat \<Rightarrow> my_device option"

definition at_dev :: "nat \<Rightarrow> (my_device, 'a) km \<Rightarrow> (dev_world, 'a) km" where
  "at_dev dev m = (\<lambda>w. case w dev of
      None \<Rightarrow> Some (Inl (Fault ''device''))
    | Some d \<Rightarrow> (case m d of
          None \<Rightarrow> None
        | Some (Inl e) \<Rightarrow> Some (Inl e)
        | Some (Inr (x, d')) \<Rightarrow> Some (Inr (x, w(dev := Some d')))))"

definition page_size_to_use :: "int \<Rightarrow> nat" where
  "page_size_to_use page_size_val = (if 0 < page_size_val then nat page_size_val else DEFAULT_PAGE_SIZE)"

section \<open>Operations\<close>

text \<open>\<open>mem\<close> and \<open>buf_mem\<close> are what the two calls of \<open>malloc\<close> return; the result is the status and \<open>*dev\<close>.\<close>

definition my_device_init :: "nat option \<Rightarrow> int \<Rightarrow> nat option \<Rightarrow> int \<Rightarrow> (dev_world, int \<times> nat) km" where
  "my_device_init mem page_size_val buf_mem mutex_ret =
     (case mem of
        None \<Rightarrow> retK (- ENOMEM, 0)
      | Some new_dev \<Rightarrow>
          (let size_to_use = page_size_to_use page_size_val in
           case buf_mem of
             None \<Rightarrow> retK (- ENOMEM, 0)
           | Some _ \<Rightarrow>
               if mutex_ret \<noteq> 0 then retK (- mutex_ret, 0)
               else
                 seqK (modK (\<lambda>w. w(new_dev := Some \<lparr>dbuffer = replicate size_to_use 0, buffer_size = of_nat size_to_use,
                                               dlock = False, open_count = 0\<rparr>)))
                      (retK (0, new_dev))))"

definition my_device_cleanup :: "nat \<Rightarrow> (dev_world, unit) km" where
  "my_device_cleanup dev = whenK (dev \<noteq> 0) (seqK (at_dev dev (retK ())) (modK (\<lambda>w. w(dev := None))))"

definition my_open :: "nat \<Rightarrow> (dev_world, int) km" where
  "my_open dev =
     (if dev = 0 then retK (- EINVAL)
      else seqK (at_dev dev (modK (\<lambda>d. d\<lparr>open_count := open_count d + 1\<rparr>))) (retK 0))"

definition my_release :: "nat \<Rightarrow> (dev_world, int) km" where
  "my_release dev =
     (if dev = 0 then retK (- EINVAL)
      else seqK (at_dev dev (modK (\<lambda>d. d\<lparr>open_count := open_count d - 1\<rparr>))) (retK 0))"

text \<open>The part of \<open>my_read\<close> under the lock: status, bytes copied out and the new offset.\<close>

definition read_locked :: "nat \<Rightarrow> nat \<Rightarrow> int \<Rightarrow> (my_device, int \<times> u8 list \<times> int) km" where
  "read_locked cap count off =
     bindK (getK id) (\<lambda>d.
     if off < 0 \<or> int (unat (buffer_size d)) \<le> off then retK (0, [], off)
     else
       (let available = unat (buffer_size d) - nat off; read_count = min count available in
        if 0 < read_count then
          if cap < read_count \<or> length (dbuffer d) < nat off + read_count then stopK (Fault ''memcpy'')
          else retK (int read_count, take read_count (drop (nat off) (dbuffer d)), off + int read_count)
        else retK (0, [], off)))"

definition with_lock :: "(my_device, 'a) km \<Rightarrow> (my_device, 'a) km" where
  "with_lock m = seqK (spin_lock dlock dlock_update) (bindK m (\<lambda>r. seqK (spin_unlock dlock_update) (retK r)))"

definition my_read :: "nat \<Rightarrow> nat option \<Rightarrow> nat \<Rightarrow> int option \<Rightarrow> (dev_world, int \<times> u8 list \<times> int) km" where
  "my_read dev buf count off =
     (case (buf, off) of
        (Some cap, Some o') \<Rightarrow> if dev = 0 then retK (- EINVAL, [], o') else at_dev dev (with_lock (read_locked cap count o'))
      | _ \<Rightarrow> retK (- EINVAL, [], 0))"

definition write_locked :: "u8 list \<Rightarrow> nat \<Rightarrow> int \<Rightarrow> (my_device, int \<times> int) km" where
  "write_locked buf count off =
     bindK (getK id) (\<lambda>d.
     if off < 0 \<or> int (unat (buffer_size d)) \<le> off then retK (0, off)
     else
       (let available = unat (buffer_size d) - nat off; write_count = min count available in
        if 0 < write_count then
          if length buf < write_count \<or> length (dbuffer d) < nat off + write_count then stopK (Fault ''memcpy'')
          else
            seqK (modK (\<lambda>d. d\<lparr>dbuffer := take (nat off) (dbuffer d) @ take write_count buf @ drop (nat off + write_count) (dbuffer d)\<rparr>))
                 (retK (int write_count, off + int write_count))
        else retK (0, off)))"

definition my_write :: "nat \<Rightarrow> u8 list option \<Rightarrow> nat \<Rightarrow> int option \<Rightarrow> (dev_world, int \<times> int) km" where
  "my_write dev buf count off =
     (case (buf, off) of
        (Some b, Some o') \<Rightarrow> if dev = 0 then retK (- EINVAL, o') else at_dev dev (with_lock (write_locked b count o'))
      | _ \<Rightarrow> retK (- EINVAL, 0))"

text \<open>\<open>my_ioctl\<close>: \<open>arg\<close> is what the pointer points to, the result the status and what is stored there.\<close>

datatype ioctl_out = OutNone | OutSize u64 | OutInt u32

definition resize_locked :: "nat option \<Rightarrow> u64 \<Rightarrow> (my_device, int) km" where
  "resize_locked mem new_size =
     bindK (getK buffer_size) (\<lambda>old.
     if new_size = old then retK 0
     else
       case mem of
         None \<Rightarrow> retK (- ENOMEM)
       | Some _ \<Rightarrow> seqK (modK (\<lambda>d. d\<lparr>dbuffer := replicate (unat new_size) 0, buffer_size := new_size\<rparr>)) (retK 0))"

definition clear_locked :: "(my_device, unit) km" where
  "clear_locked =
     bindK (getK id) (\<lambda>d.
     if length (dbuffer d) < unat (buffer_size d) then stopK (Fault ''memset'')
     else modK (\<lambda>d. d\<lparr>dbuffer := replicate (unat (buffer_size d)) 0 @ drop (unat (buffer_size d)) (dbuffer d)\<rparr>))"

definition my_ioctl :: "int \<Rightarrow> nat option \<Rightarrow> nat \<Rightarrow> u32 \<Rightarrow> u64 option \<Rightarrow> (dev_world, int \<times> ioctl_out) km" where
  "my_ioctl page_size_val mem dev cmd arg =
     (if dev = 0 then retK (- EINVAL, OutNone)
      else if cmd = 1 then
        (if arg = None then retK (- EINVAL, OutNone)
         else bindK (at_dev dev (getK buffer_size)) (\<lambda>n. retK (0, OutSize n)))
      else if cmd = 2 then
        (case arg of
           None \<Rightarrow> retK (- EINVAL, OutNone)
         | Some new_size \<Rightarrow>
             if new_size = 0 then retK (- EINVAL, OutNone)
             else if MAX_BUFFER_SIZE_MULTIPLIER * page_size_to_use page_size_val < unat new_size then retK (- EINVAL, OutNone)
             else bindK (at_dev dev (with_lock (resize_locked mem new_size))) (\<lambda>r. retK (r, OutNone)))
      else if cmd = 3 then seqK (at_dev dev (with_lock clear_locked)) (retK (0, OutNone))
      else if cmd = 4 then
        (if arg = None then retK (- EINVAL, OutNone)
         else bindK (at_dev dev (getK open_count)) (\<lambda>n. retK (0, OutInt n)))
      else retK (- ENOTTY, OutNone))"

section \<open>The invariant\<close>

definition dev_ok :: "my_device \<Rightarrow> bool" where
  "dev_ok d \<longleftrightarrow> length (dbuffer d) = unat (buffer_size d) \<and> 0 < unat (buffer_size d) \<and> \<not> dlock d"

lemma at_dev_run: "w dev = Some d \<Longrightarrow> m d = Some (Inr (x, d')) \<Longrightarrow> at_dev dev m w = Some (Inr (x, w(dev := Some d')))"
  by (simp add: at_dev_def)

lemma with_lock_run:
  assumes "\<not> dlock d" "m (d\<lparr>dlock := True\<rparr>) = Some (Inr (x, d'))"
  shows "with_lock m d = Some (Inr (x, d'\<lparr>dlock := False\<rparr>))"
  using assms by (simp add: with_lock_def)

text \<open>What a read or write at a valid offset does.\<close>

lemma my_read_run:
  assumes "w dev = Some d" "dev_ok d" "dev \<noteq> 0" "0 \<le> off" "nat off < unat (buffer_size d)" "min count (unat (buffer_size d) - nat off) \<le> cap"
  shows "my_read dev (Some cap) count (Some off) w =
    Some (Inr ((int (min count (unat (buffer_size d) - nat off)), take count (drop (nat off) (dbuffer d)),
      off + int (min count (unat (buffer_size d) - nat off))), w))"
proof -
  let ?n = "min count (unat (buffer_size d) - nat off)"
  have d: "\<not> dlock d" "length (dbuffer d) = unat (buffer_size d)" using assms(2) by (simp_all add: dev_ok_def)
  have t: "take ?n (drop (nat off) (dbuffer d)) = take count (drop (nat off) (dbuffer d))"
    using d(2) by (cases "count \<le> unat (buffer_size d) - nat off") simp_all
  have off: "\<not> int (unat (buffer_size d)) \<le> off" using assms(4,5) by linarith
  have "read_locked cap count off (d\<lparr>dlock := True\<rparr>) = Some (Inr ((int ?n, take count (drop (nat off) (dbuffer d)), off + int ?n), d\<lparr>dlock := True\<rparr>))"
  proof (cases "?n = 0")
    case True
    then have "count = 0" using assms(5) by auto
    then show ?thesis using assms(4) off by (simp add: read_locked_def)
  next
    case False
    then show ?thesis using assms(4-6) off d(2) t by (auto simp: read_locked_def Let_def)
  qed
  then have "with_lock (read_locked cap count off) d =
      Some (Inr ((int ?n, take count (drop (nat off) (dbuffer d)), off + int ?n), d))"
    using d(1) with_lock_run [of d "read_locked cap count off"] by (cases d) simp
  then show ?thesis using assms(1,3) at_dev_run [of w dev d "with_lock (read_locked cap count off)"]
    by (simp add: my_read_def fun_upd_idem)
qed

lemma my_write_run:
  assumes "w dev = Some d" "dev_ok d" "dev \<noteq> 0" "0 \<le> off" "nat off < unat (buffer_size d)"
    and n: "n = min count (unat (buffer_size d) - nat off)" "n \<le> length buf"
  shows "my_write dev (Some buf) count (Some off) w =
    Some (Inr ((int n, off + int n),
      w(dev := Some (d\<lparr>dbuffer := take (nat off) (dbuffer d) @ take n buf @ drop (nat off + n) (dbuffer d)\<rparr>))))"
proof -
  have d: "\<not> dlock d" "length (dbuffer d) = unat (buffer_size d)" using assms(2) by (simp_all add: dev_ok_def)
  have off: "\<not> int (unat (buffer_size d)) \<le> off" using assms(4,5) by linarith
  let ?d = "d\<lparr>dbuffer := take (nat off) (dbuffer d) @ take n buf @ drop (nat off + n) (dbuffer d)\<rparr>"
  have "write_locked buf count off (d\<lparr>dlock := True\<rparr>) = Some (Inr ((int n, off + int n), ?d\<lparr>dlock := True\<rparr>))"
  proof (cases "n = 0")
    case True
    then have "count = 0" using assms(5) n(1) by auto
    then show ?thesis using assms(4) off True by (cases d) (simp add: write_locked_def)
  next
    case False
    then show ?thesis using assms(4,5) off d(2) n by (auto simp: write_locked_def Let_def)
  qed
  then have "with_lock (write_locked buf count off) d = Some (Inr ((int n, off + int n), ?d))"
    using d(1) with_lock_run [of d "write_locked buf count off"] by (cases d) simp
  then show ?thesis using assms(1,3) at_dev_run [of w dev d "with_lock (write_locked buf count off)"] by (simp add: my_write_def)
qed

lemma out_of_range:
  assumes "w dev = Some d" "dev_ok d" "dev \<noteq> 0" "off < 0 \<or> int (unat (buffer_size d)) \<le> off"
  shows "my_read dev (Some cap) count (Some off) w = Some (Inr ((0, [], off), w))"
    "my_write dev (Some buf) count (Some off) w = Some (Inr ((0, off), w))"
proof -
  have d: "\<not> dlock d" using assms(2) by (simp add: dev_ok_def)
  have "with_lock (read_locked cap count off) d = Some (Inr ((0, [], off), d))"
    using d assms(4) with_lock_run [of d "read_locked cap count off"] by (cases d) (simp add: read_locked_def)
  then show "my_read dev (Some cap) count (Some off) w = Some (Inr ((0, [], off), w))"
    using assms(1,3) at_dev_run [of w dev d "with_lock (read_locked cap count off)"] by (simp add: my_read_def fun_upd_idem)
  have "with_lock (write_locked buf count off) d = Some (Inr ((0, off), d))"
    using d assms(4) with_lock_run [of d "write_locked buf count off"] by (cases d) (simp add: write_locked_def)
  then show "my_write dev (Some buf) count (Some off) w = Some (Inr ((0, off), w))"
    using assms(1,3) at_dev_run [of w dev d "with_lock (write_locked buf count off)"] by (simp add: my_write_def fun_upd_idem)
qed

text \<open>\<open>keeps\<close>: the operation returns, leaves other devices alone and keeps the device well formed.\<close>

definition keeps :: "nat \<Rightarrow> (dev_world, 'a) km \<Rightarrow> dev_world \<Rightarrow> bool" where
  "keeps dev m w \<longleftrightarrow> (\<exists>x w' d'. m w = Some (Inr (x, w')) \<and> w' dev = Some d' \<and> dev_ok d' \<and> (\<forall>a. a \<noteq> dev \<longrightarrow> w' a = w a))"

lemma keeps_ret: "w dev = Some d \<Longrightarrow> dev_ok d \<Longrightarrow> keeps dev (retK x) w"
  by (auto simp: keeps_def)

lemma keeps_bind: "keeps dev m w \<Longrightarrow> keeps dev (bindK m (\<lambda>x. retK (f x))) w"
  by (auto simp: keeps_def)

lemma keeps_at: "w dev = Some d \<Longrightarrow> m d = Some (Inr (x, d')) \<Longrightarrow> dev_ok d' \<Longrightarrow> keeps dev (at_dev dev m) w"
  by (simp add: keeps_def at_dev_run)

lemma keeps_locked:
  assumes "w dev = Some d" "dev_ok d" "m (d\<lparr>dlock := True\<rparr>) = Some (Inr (x, d'))" "dev_ok (d'\<lparr>dlock := False\<rparr>)"
  shows "keeps dev (at_dev dev (with_lock m)) w"
proof -
  have "with_lock m d = Some (Inr (x, d'\<lparr>dlock := False\<rparr>))" by (rule with_lock_run) (use assms(2,3) in \<open>simp_all add: dev_ok_def\<close>)
  then show ?thesis using assms(1,4) keeps_at [of w dev d "with_lock m"] by simp
qed

lemma read_keeps:
  assumes "w dev = Some d" "dev_ok d" "dev \<noteq> 0" "count \<le> cap"
  shows "keeps dev (my_read dev (Some cap) count (Some off)) w"
proof (cases "off < 0 \<or> int (unat (buffer_size d)) \<le> off")
  case True
  then show ?thesis using out_of_range(1) [of w dev d] assms by (simp add: keeps_def)
next
  case False
  then have "0 \<le> off" "nat off < unat (buffer_size d)" by linarith+
  then show ?thesis using my_read_run [of w dev d off count cap] assms by (simp add: keeps_def)
qed

lemma write_keeps:
  assumes "w dev = Some d" "dev_ok d" "dev \<noteq> 0" "count \<le> length buf"
  shows "keeps dev (my_write dev (Some buf) count (Some off)) w"
proof (cases "off < 0 \<or> int (unat (buffer_size d)) \<le> off")
  case True
  then show ?thesis using out_of_range(2) [of w dev d] assms by (simp add: keeps_def)
next
  case False
  then have off: "0 \<le> off" "nat off < unat (buffer_size d)" by linarith+
  let ?n = "min count (unat (buffer_size d) - nat off)"
  have "dev_ok (d\<lparr>dbuffer := take (nat off) (dbuffer d) @ take ?n buf @ drop (nat off + ?n) (dbuffer d)\<rparr>)"
    using assms(2,4) off by (auto simp: dev_ok_def)
  then show ?thesis using my_write_run [of w dev d off ?n count buf] assms off by (simp add: keeps_def)
qed

lemma ioctl_keeps:
  assumes "w dev = Some d" "dev_ok d" "dev \<noteq> 0"
  shows "keeps dev (my_ioctl page mem dev cmd arg) w"
proof -
  note ret = keeps_ret [of w dev d, OF assms(1,2)]
  have size: "keeps dev (at_dev dev (getK buffer_size)) w" "keeps dev (at_dev dev (getK open_count)) w"
    using assms by (auto intro: keeps_at)
  have resize: "keeps dev (at_dev dev (with_lock (resize_locked mem n))) w" if "n \<noteq> 0" for n
  proof -
    have "\<exists>x d'. resize_locked mem n (d\<lparr>dlock := True\<rparr>) = Some (Inr (x, d')) \<and> dev_ok (d'\<lparr>dlock := False\<rparr>)"
      using assms(2) that by (cases mem; cases "n = buffer_size d") (auto simp: resize_locked_def dev_ok_def unat_gt_0)
    then show ?thesis using keeps_locked [of w dev d "resize_locked mem n"] assms(1,2) by blast
  qed
  have clear: "keeps dev (at_dev dev (with_lock clear_locked)) w"
    using assms(2) by (intro keeps_locked [of w dev d, OF assms(1,2)]) (auto simp: clear_locked_def dev_ok_def)
  have clear': "keeps dev (seqK (at_dev dev (with_lock clear_locked)) (retK (0, OutNone))) w"
    by (rule keeps_bind [OF clear])
  show ?thesis
    unfolding my_ioctl_def using assms(3) by (auto intro!: ret keeps_bind size resize clear' split: option.split)
qed

lemma count_keeps:
  assumes "w dev = Some d" "dev_ok d" "dev \<noteq> 0"
  shows "keeps dev (my_open dev) w" "keeps dev (my_release dev) w"
  using assms by (auto simp: my_open_def my_release_def keeps_def at_dev_def dev_ok_def)

section \<open>Sequences of operations\<close>

datatype dev_op = OpOpen | OpRelease | OpRead nat nat int | OpWrite "u8 list" nat int | OpIoctl int "nat option" u32 "u64 option"

definition run_op :: "nat \<Rightarrow> dev_op \<Rightarrow> (dev_world, unit) km" where
  "run_op dev op = (case op of
      OpOpen \<Rightarrow> bindK (my_open dev) (\<lambda>_. retK ())
    | OpRelease \<Rightarrow> bindK (my_release dev) (\<lambda>_. retK ())
    | OpRead cap count off \<Rightarrow> bindK (my_read dev (Some cap) count (Some off)) (\<lambda>_. retK ())
    | OpWrite buf count off \<Rightarrow> bindK (my_write dev (Some buf) count (Some off)) (\<lambda>_. retK ())
    | OpIoctl page mem cmd arg \<Rightarrow> bindK (my_ioctl page mem dev cmd arg) (\<lambda>_. retK ()))"

primrec run_ops :: "nat \<Rightarrow> dev_op list \<Rightarrow> (dev_world, unit) km" where
  "run_ops dev [] = retK ()"
| "run_ops dev (op # ops) = seqK (run_op dev op) (run_ops dev ops)"

text \<open>The caller's buffer is as long as the count it passes.\<close>

fun op_fits :: "dev_op \<Rightarrow> bool" where
  "op_fits (OpRead cap count off) \<longleftrightarrow> count \<le> cap"
| "op_fits (OpWrite buf count off) \<longleftrightarrow> count \<le> length buf"
| "op_fits _ \<longleftrightarrow> True"

lemma run_op_keeps:
  assumes "w dev = Some d" "dev_ok d" "dev \<noteq> 0" "op_fits op"
  shows "keeps dev (run_op dev op) w"
  using assms count_keeps [of w dev d] read_keeps [of w dev d] write_keeps [of w dev d] ioctl_keeps [of w dev d]
  by (cases op) (auto simp: run_op_def intro: keeps_bind [where f = "\<lambda>_. ()"])

lemma init_run:
  assumes "page_size_to_use page < 2 ^ 64"
  shows "\<exists>w' d. my_device_init (Some a) page (Some b) 0 w = Some (Inr ((0, a), w')) \<and> w' a = Some d \<and> dev_ok d"
proof -
  have "unat (of_nat (page_size_to_use page) :: u64) = page_size_to_use page" "0 < page_size_to_use page"
    using unat_of_nat64 [OF assms] by (simp_all add: page_size_to_use_def)
  then show ?thesis by (simp add: my_device_init_def dev_ok_def Let_def)
qed

section \<open>Properties\<close>

text \<open>
  C23: A device stays usable: whatever sequence of opens, releases, reads, writes and control
  commands is applied to a well-formed device, with arbitrary offsets, commands and
  allocation failures, every call returns, no access leaves the buffer, the buffer keeps
  exactly the recorded size, the lock is free afterwards and other devices are untouched.
\<close>

theorem my_device_invariant:
  assumes "w dev = Some d" "dev_ok d" "dev \<noteq> 0" "list_all op_fits ops"
  shows "\<exists>w' d'. run_ops dev ops w = Some (Inr ((), w')) \<and> w' dev = Some d' \<and> dev_ok d' \<and> (\<forall>a. a \<noteq> dev \<longrightarrow> w' a = w a)"
  using assms
proof (induction ops arbitrary: w d)
  case (Cons op ops)
  then obtain w1 d1 where w1: "run_op dev op w = Some (Inr ((), w1))" "w1 dev = Some d1" "dev_ok d1" "\<forall>a. a \<noteq> dev \<longrightarrow> w1 a = w a"
    using run_op_keeps [of w dev d op] by (auto simp: keeps_def)
  then show ?case using Cons.IH [of w1 d1] Cons.prems by auto
qed auto

definition demo_device :: my_device where
  "demo_device = \<lparr>dbuffer = replicate 8 0, buffer_size = 8, dlock = False, open_count = 0\<rparr>"

lemma demo_device_ok: "dev_ok demo_device"
  by (simp add: demo_device_def dev_ok_def)

theorem my_device_invariant_witness:
  "\<exists>w' d'. run_ops 7 [OpOpen, OpWrite [1, 2, 3] 3 6, OpRead 2 2 (- 1), OpIoctl 4096 None 2 (Some 100)]
       ((\<lambda>_. None)(7 := Some demo_device)) = Some (Inr ((), w')) \<and> w' 7 = Some d' \<and> dev_ok d' \<and>
     (\<forall>a. a \<noteq> 7 \<longrightarrow> w' a = ((\<lambda>_. None)(7 := Some demo_device)) a)"
  by (rule my_device_invariant [where d = demo_device]) (simp_all add: demo_device_ok)

text \<open>
  What is written can be read back: a write at a valid offset reports how many bytes it
  stored (as many as were given, cut at the end of the buffer) and advances the offset by
  that much, and a read of that many bytes at the old offset returns exactly them.
\<close>

theorem my_write_read:
  assumes "w dev = Some d" "dev_ok d" "dev \<noteq> 0" "0 \<le> off" "nat off < unat (buffer_size d)" "count \<le> length buf"
    and n: "n = min count (unat (buffer_size d) - nat off)"
  shows "\<exists>w'. my_write dev (Some buf) count (Some off) w = Some (Inr ((int n, off + int n), w')) \<and>
    my_read dev (Some n) n (Some off) w' = Some (Inr ((int n, take n buf, off + int n), w'))"
proof -
  let ?d = "d\<lparr>dbuffer := take (nat off) (dbuffer d) @ take n buf @ drop (nat off + n) (dbuffer d)\<rparr>"
  have len: "length (dbuffer d) = unat (buffer_size d)" "\<not> dlock d" "n \<le> length buf"
    using assms(2,6) n by (auto simp: dev_ok_def)
  have w: "my_write dev (Some buf) count (Some off) w = Some (Inr ((int n, off + int n), w(dev := Some ?d)))"
    by (rule my_write_run [of w dev d, OF assms(1-5) n len(3)])
  have le: "n \<le> unat (buffer_size d) - nat off" using n by simp
  then have ok: "dev_ok ?d" using len assms(5) by (auto simp: dev_ok_def)
  have t: "take n (drop (nat off) (dbuffer ?d)) = take n buf" using len assms(5) by simp
  have m: "min n (unat (buffer_size ?d) - nat off) = n" using le by simp
  have "my_read dev (Some n) n (Some off) (w(dev := Some ?d)) = Some (Inr ((int n, take n buf, off + int n), w(dev := Some ?d)))"
    using my_read_run [of "w(dev := Some ?d)" dev ?d off n n, unfolded m t] ok assms(3-5) by simp
  with w show ?thesis by blast
qed

theorem my_write_read_witness:
  "\<exists>w'. my_write 7 (Some [1, 2, 3]) 3 (Some 6) ((\<lambda>_. None)(7 := Some demo_device)) = Some (Inr ((int 2, 6 + int 2), w')) \<and>
     my_read 7 (Some 2) 2 (Some 6) w' = Some (Inr ((int 2, take 2 [1, 2, 3], 6 + int 2), w'))"
  by (rule my_write_read [where d = demo_device]) (simp_all add: demo_device_ok, simp_all add: demo_device_def)

end
