(* ===== verification/BlockPmm.thy ===== *)
theory BlockPmm
  imports Contracts BitWords
begin

text \<open>
  The block allocator \<^verbatim>\<open>src/kernel/arch/x86_64/mm/pmm.c\<close>: a bitmap of 4 KiB blocks with a
  search that starts at a hint. Addresses, sizes and counters are 64-bit words; a pointer
  is its address, 0 is NULL. The bitmap is an array of its own; an access outside it is a
  fault.
\<close>

section \<open>State and operations\<close>

abbreviation BLOCK_SIZE :: u64 where "BLOCK_SIZE \<equiv> 4096"

record pmm_state_t =
  total_blocks :: u64
  used_blocks :: u64
  memory_size :: u64
  bitmap :: "u64 list"
  bitmap_size :: u64
  last_free_block :: u64
  initialized :: bool
  block_lock :: bool

abbreviation pmm_lock :: "(pmm_state_t, unit) km" where "pmm_lock \<equiv> spin_lock block_lock block_lock_update"
abbreviation pmm_unlock :: "(pmm_state_t, unit) km" where "pmm_unlock \<equiv> spin_unlock block_lock_update"

definition pmm_init :: "u64 \<Rightarrow> (pmm_state_t, unit) km" where
  "pmm_init mem_size =
     bindK (getK initialized) (\<lambda>ini.
     if ini then retK ()
     else
       (let total = mem_size div BLOCK_SIZE; len = (total + 64 - 1) div 64 in
        modK (\<lambda>s. s\<lparr>memory_size := mem_size, total_blocks := total, bitmap_size := len, last_free_block := 0,
          bitmap := replicate (unat len) (- 1), used_blocks := total, initialized := True\<rparr>)))"

definition set_block :: "bool \<Rightarrow> nat \<Rightarrow> (pmm_state_t, unit) km" where
  "set_block used b = setnthK bitmap bitmap_update (b div 64) (\<lambda>w. if used then w OR bmask b else w AND NOT (bmask b))"

definition set_blocks :: "u64 \<Rightarrow> nat \<Rightarrow> bool \<Rightarrow> (pmm_state_t, unit) km" where
  "set_blocks block count used = forK 0 count (\<lambda>i. set_block used (unat (block + of_nat i)))"

text \<open>The search loop: \<open>i\<close> is the block looked at, \<open>consecutive\<close> the free blocks just before it.\<close>

function alloc_scan :: "nat \<Rightarrow> nat \<Rightarrow> nat \<Rightarrow> nat \<Rightarrow> (pmm_state_t, nat option) km" where
  "alloc_scan count limit i consecutive =
     (if i < limit then
        bindK (nthK bitmap (i div 64)) (\<lambda>w.
        if w AND bmask i = 0 then
          if Suc consecutive = count then retK (Some i) else alloc_scan count limit (Suc i) (Suc consecutive)
        else alloc_scan count limit (Suc i) 0)
      else retK None)"
  by pat_completeness auto
termination
  by (relation "measure (\<lambda>(count, limit, i, c). limit - i)") auto

declare alloc_scan.simps [simp del]

definition pmm_alloc_blocks :: "nat \<Rightarrow> (pmm_state_t, u64) km" where
  "pmm_alloc_blocks count =
     bindK (getK initialized) (\<lambda>ini.
     if \<not> ini \<or> count = 0 then retK 0
     else
       seqK pmm_lock
      (bindK (getK (\<lambda>s. (last_free_block s, total_blocks s))) (\<lambda>(start_block, total).
       bindK (alloc_scan count (unat total) (unat start_block) 0) (\<lambda>found.
       case found of
         Some i \<Rightarrow>
           (let first_block = (of_nat i - of_nat count + 1 :: u64) in
            seqK (set_blocks first_block count True)
           (seqK (modK (\<lambda>s. s\<lparr>used_blocks := used_blocks s + of_nat count\<rparr>))
           (seqK (modK (\<lambda>s. s\<lparr>last_free_block := of_nat i + 1\<rparr>))
           (seqK pmm_unlock
                 (retK (first_block * BLOCK_SIZE))))))
       | None \<Rightarrow> seqK pmm_unlock (retK 0)))))"

definition pmm_alloc_block :: "(pmm_state_t, u64) km" where
  "pmm_alloc_block = pmm_alloc_blocks 1"

definition pmm_free_blocks :: "u64 \<Rightarrow> nat \<Rightarrow> (pmm_state_t, unit) km" where
  "pmm_free_blocks block count =
     bindK (getK initialized) (\<lambda>ini.
     if block = 0 \<or> \<not> ini \<or> count = 0 then retK ()
     else
       (let start = block div BLOCK_SIZE in
        bindK (getK total_blocks) (\<lambda>total.
        if total < start + of_nat count then retK ()
        else
          seqK pmm_lock
         (seqK (set_blocks start count False)
         (seqK (modK (\<lambda>s. s\<lparr>used_blocks := used_blocks s - of_nat count\<rparr>))
         (seqK (modK (\<lambda>s. if start < last_free_block s then s\<lparr>last_free_block := start\<rparr> else s))
               pmm_unlock))))))"

definition pmm_free_block :: "u64 \<Rightarrow> (pmm_state_t, unit) km" where
  "pmm_free_block block = pmm_free_blocks block 1"

primrec aligned_attempts :: "nat \<Rightarrow> u64 \<Rightarrow> (pmm_state_t, u64) km" where
  "aligned_attempts 0 alignment = retK 0"
| "aligned_attempts (Suc n) alignment =
     (let align_blocks = unat (alignment div BLOCK_SIZE) in
      bindK (pmm_alloc_blocks align_blocks) (\<lambda>ptr.
      if alignment = 0 then stopK (Fault ''division'')
      else if ptr mod alignment = 0 then retK ptr
      else seqK (pmm_free_blocks ptr align_blocks) (aligned_attempts n alignment)))"

definition pmm_alloc_block_aligned :: "u64 \<Rightarrow> (pmm_state_t, u64) km" where
  "pmm_alloc_block_aligned alignment =
     (if alignment mod BLOCK_SIZE \<noteq> 0 then stopK (Panic ''Alignment must be multiple of BLOCK_SIZE'')
      else aligned_attempts 3 alignment)"

definition pmm_mark_region :: "u64 \<Rightarrow> u64 \<Rightarrow> bool \<Rightarrow> (pmm_state_t, unit) km" where
  "pmm_mark_region base len used =
     (let align_base = (base + BLOCK_SIZE - 1) AND NOT (BLOCK_SIZE - 1);
          align_size = len - (align_base - base);
          blocks = align_size div BLOCK_SIZE;
          start_block = align_base div BLOCK_SIZE in
      seqK pmm_lock
     (seqK (set_blocks start_block (unat blocks) used)
     (seqK (modK (\<lambda>s. s\<lparr>used_blocks := used_blocks s + (if used then blocks else - blocks)\<rparr>))
           pmm_unlock)))"

definition pmm_get_total_memory :: "pmm_state_t \<Rightarrow> u64" where "pmm_get_total_memory s = memory_size s"
definition pmm_get_free_memory :: "pmm_state_t \<Rightarrow> u64" where
  "pmm_get_free_memory s = (total_blocks s - used_blocks s) * BLOCK_SIZE"
definition pmm_get_used_memory :: "pmm_state_t \<Rightarrow> u64" where "pmm_get_used_memory s = used_blocks s * BLOCK_SIZE"
definition pmm_is_initialized :: "pmm_state_t \<Rightarrow> bool" where "pmm_is_initialized s = initialized s"

section \<open>Blocks as a set\<close>

definition blocks_used :: "pmm_state_t \<Rightarrow> nat set" where
  "blocks_used s = wbits (bitmap s) \<inter> {..<unat (total_blocks s)}"

text \<open>
  The invariant: the bitmap covers all blocks, block 0 is in use (its address would be NULL),
  the counter counts the blocks in use, and the hint is a block number.
\<close>

definition block_inv :: "pmm_state_t \<Rightarrow> bool" where
  "block_inv s \<longleftrightarrow> initialized s \<and> \<not> block_lock s \<and> unat (total_blocks s) \<le> 64 * length (bitmap s) \<and>
     unat (total_blocks s) < 2 ^ 52 \<and> 0 \<in> blocks_used s \<and> unat (used_blocks s) = card (blocks_used s) \<and>
     unat (last_free_block s) \<le> unat (total_blocks s)"

lemma set_block_run:
  assumes "b < 64 * length (bitmap s)"
  shows "\<exists>ws. set_block used b s = Some (Inr ((), s\<lparr>bitmap := ws\<rparr>)) \<and> length ws = length (bitmap s) \<and>
    wbits ws = (if used then insert b (wbits (bitmap s)) else wbits (bitmap s) - {b})"
proof -
  have k: "b div 64 < length (bitmap s)" by (rule word_index [OF assms])
  let ?w = "if used then bitmap s ! (b div 64) OR bmask b else bitmap s ! (b div 64) AND NOT (bmask b)"
  have "set_block used b s = Some (Inr ((), s\<lparr>bitmap := (bitmap s)[b div 64 := ?w]\<rparr>))"
    using k by (cases s) (simp add: set_block_def)
  moreover have "wbits ((bitmap s)[b div 64 := ?w]) = (if used then insert b (wbits (bitmap s)) else wbits (bitmap s) - {b})"
    using wbits_set [OF assms] wbits_clear [OF assms] by (cases used) simp_all
  ultimately show ?thesis by (intro exI [of _ "(bitmap s)[b div 64 := ?w]"]) simp
qed

text \<open>Setting a range of blocks, whose numbers do not wrap.\<close>

lemma set_blocks_run:
  assumes "unat block + count \<le> 64 * length (bitmap s)" "unat block + count < 2 ^ 64"
  shows "\<exists>ws. set_blocks block count used s = Some (Inr ((), s\<lparr>bitmap := ws\<rparr>)) \<and> length ws = length (bitmap s) \<and>
    wbits ws = (if used then wbits (bitmap s) \<union> {unat block..<unat block + count} else wbits (bitmap s) - {unat block..<unat block + count})"
proof -
  define I where "I i t \<longleftrightarrow> (\<exists>ws. t = s\<lparr>bitmap := ws\<rparr> \<and> length ws = length (bitmap s) \<and>
     wbits ws = (if used then wbits (bitmap s) \<union> {unat block..<unat block + i} else wbits (bitmap s) - {unat block..<unat block + i}))" for i t
  have "\<exists>t. forK 0 count (\<lambda>i. set_block used (unat (block + of_nat i))) s = Some (Inr ((), t)) \<and> I count t"
  proof (rule forK_rule)
    show "I 0 s" unfolding I_def by (intro exI [of _ "bitmap s"]) (cases s, auto)
    fix i t assume i: "i < count" "I i t"
    then obtain ws where ws: "t = s\<lparr>bitmap := ws\<rparr>" "length ws = length (bitmap s)"
      "wbits ws = (if used then wbits (bitmap s) \<union> {unat block..<unat block + i} else wbits (bitmap s) - {unat block..<unat block + i})"
      by (auto simp: I_def)
    have u: "unat (block + of_nat i) = unat block + i" using i(1) assms(2) by (simp add: unat_word_ariths unat_of_nat)
    have "unat block + i < 64 * length (bitmap t)" using i(1) assms(1) ws by simp
    from set_block_run [OF this, of used] obtain vs where vs: "set_block used (unat block + i) t = Some (Inr ((), t\<lparr>bitmap := vs\<rparr>))"
      "length vs = length ws" "wbits vs = (if used then insert (unat block + i) (wbits ws) else wbits ws - {unat block + i})"
      using ws(1) by auto
    have "I (Suc i) (t\<lparr>bitmap := vs\<rparr>)"
      unfolding I_def using ws vs(2,3) by (intro exI [of _ vs]) (auto simp: atLeastLessThanSuc)
    then show "\<exists>t'. set_block used (unat (block + of_nat i)) t = Some (Inr ((), t')) \<and> I (Suc i) t'" using vs(1) u by simp
  qed simp
  then show ?thesis unfolding set_blocks_def I_def by auto
qed

section \<open>The search\<close>

definition run_free :: "pmm_state_t \<Rightarrow> nat \<Rightarrow> nat \<Rightarrow> bool" where
  "run_free s b n \<longleftrightarrow> {b..<b + n} \<inter> wbits (bitmap s) = {}"

lemma run_free_0 [simp]: "run_free s b 0"
  by (simp add: run_free_def)

definition found_run :: "pmm_state_t \<Rightarrow> nat \<Rightarrow> nat \<Rightarrow> nat \<Rightarrow> nat option \<Rightarrow> bool" where
  "found_run s count limit lo r \<longleftrightarrow> (case r of
      Some j \<Rightarrow> j < limit \<and> count \<le> Suc j \<and> lo \<le> Suc j - count \<and> run_free s (Suc j - count) count
    | None \<Rightarrow> \<forall>b. lo \<le> b \<longrightarrow> b + count \<le> limit \<longrightarrow> \<not> run_free s b count)"

lemma run_free_used: "b + n \<le> unat (total_blocks s) \<Longrightarrow> run_free s b n \<Longrightarrow> {b..<b + n} \<inter> blocks_used s = {}"
  by (auto simp: run_free_def blocks_used_def)

lemma found_run_lock [simp]: "found_run (s\<lparr>block_lock := l\<rparr>) = found_run s"
  by (simp add: fun_eq_iff found_run_def run_free_def split: option.splits)

lemma alloc_scan_run:
  assumes "limit \<le> 64 * length (bitmap s)" "c < count" "c \<le> i" "run_free s (i - c) c"
  shows "\<exists>r. alloc_scan count limit i c s = Some (Inr (r, s)) \<and> found_run s count limit (i - c) r"
  using assms
proof (induction count limit i c rule: alloc_scan.induct)
  case (1 count limit i c)
  show ?case
  proof (cases "i < limit")
    case False
    then show ?thesis using "1.prems" by (auto simp: alloc_scan.simps [of count limit i c] found_run_def)
  next
    case lt: True
    have k: "i div 64 < length (bitmap s)" and b: "bitmap s ! (i div 64) AND bmask i \<noteq> 0 \<longleftrightarrow> i \<in> wbits (bitmap s)"
      using lt "1.prems"(1) word_index wbits_test by (simp_all del: push_bit_of_1)
    show ?thesis
    proof (cases "i \<in> wbits (bitmap s)")
      case used: True
      obtain r where r: "alloc_scan count limit (Suc i) 0 s = Some (Inr (r, s))" "found_run s count limit (Suc i) r"
        using "1.IH"(2) [OF lt, of "bitmap s ! (i div 64)"] used b "1.prems"(1,2) run_free_0 by (auto simp del: push_bit_of_1)
      have "\<not> run_free s b count" if "i - c \<le> b" "b \<le> i" for b
      proof -
        have "i \<in> {b..<b + count}" using that "1.prems"(2,3) by auto
        then show ?thesis using used by (auto simp: run_free_def)
      qed
      then have "found_run s count limit (i - c) r"
        using r(2) by (cases r) (auto simp: found_run_def, metis not_less_eq_eq)
      then show ?thesis using r(1) k b used lt by (simp add: alloc_scan.simps [of count limit i c])
    next
      case free: False
      then have run: "run_free s (i - c) (Suc c)"
        using "1.prems"(3,4) by (auto simp: run_free_def less_Suc_eq)
      show ?thesis
      proof (cases "Suc c = count")
        case True
        then show ?thesis using run k b free lt "1.prems"(3) by (auto simp: alloc_scan.simps [of count limit i c] found_run_def)
      next
        case False
        then obtain r where r: "alloc_scan count limit (Suc i) (Suc c) s = Some (Inr (r, s))" "found_run s count limit (i - c) r"
          using "1.IH"(1) [OF lt, of "bitmap s ! (i div 64)"] run free b "1.prems" by (auto simp del: push_bit_of_1)
        then show ?thesis using k b free lt False by (auto simp: alloc_scan.simps [of count limit i c])
      qed
    qed
  qed
qed

section \<open>Allocation and release\<close>

definition block_addr :: "nat \<Rightarrow> u64" where
  "block_addr b = of_nat b * BLOCK_SIZE"

lemma block_addr_unat: "b < 2 ^ 52 \<Longrightarrow> unat (block_addr b) = b * 4096"
  by (simp add: block_addr_def unat_word_ariths unat_of_nat)

lemma block_addr_div: "b < 2 ^ 52 \<Longrightarrow> unat (block_addr b div BLOCK_SIZE) = b"
  by (simp add: unat_div_distrib block_addr_unat)

lemma block_addr_inj: "inj_on block_addr {..<2 ^ 52}"
  by (rule inj_on_inverseI [where g = "\<lambda>a. unat (a div BLOCK_SIZE)"]) (simp add: block_addr_div)

lemma block_addr_nonzero: "b < 2 ^ 52 \<Longrightarrow> b \<noteq> 0 \<Longrightarrow> block_addr b \<noteq> 0"
  using block_addr_unat [of b] by auto

lemma alloc_blocks_run:
  assumes "block_inv s" "0 < count"
  shows "(pmm_alloc_blocks count s = Some (Inr (0, s)) \<and>
      (\<forall>b. unat (last_free_block s) \<le> b \<longrightarrow> b + count \<le> unat (total_blocks s) \<longrightarrow> \<not> run_free s b count)) \<or>
    (\<exists>b s'. pmm_alloc_blocks count s = Some (Inr (block_addr b, s')) \<and> unat (last_free_block s) \<le> b \<and> 0 < b \<and>
      b + count \<le> unat (total_blocks s) \<and> run_free s b count \<and> block_inv s' \<and> total_blocks s' = total_blocks s \<and>
      blocks_used s' = blocks_used s \<union> {b..<b + count} \<and> unat (last_free_block s') = b + count)"
proof -
  let ?T = "unat (total_blocks s)" and ?L = "unat (last_free_block s)"
  let ?s = "s\<lparr>block_lock := True\<rparr>"
  have s: "initialized s" "\<not> block_lock s" "?T \<le> 64 * length (bitmap s)" "?T < 2 ^ 52" "0 \<in> blocks_used s"
    "unat (used_blocks s) = card (blocks_used s)" using assms(1) by (auto simp: block_inv_def)
  obtain r where r: "alloc_scan count ?T ?L 0 ?s = Some (Inr (r, ?s))" "found_run s count ?T ?L r"
    using alloc_scan_run [of ?T ?s 0 count ?L] s(3) assms(2) by auto
  show ?thesis
  proof (cases r)
    case None
    then show ?thesis using r s(1,2) assms(2) by (cases s) (simp add: pmm_alloc_blocks_def found_run_def)
  next
    case (Some j)
    define b where "b = Suc j - count"
    have j: "j < ?T" "count \<le> Suc j" "?L \<le> b" "run_free s b count" "b + count = Suc j" using r(2) Some by (auto simp: b_def found_run_def)
    have first: "(of_nat j - of_nat count + 1 :: u64) = of_nat b" using j(2) by (simp add: b_def of_nat_diff)
    have firstm: "(of_nat j * BLOCK_SIZE - of_nat count * BLOCK_SIZE + BLOCK_SIZE :: u64) = of_nat b * BLOCK_SIZE"
      using arg_cong [OF first, of "\<lambda>x. x * BLOCK_SIZE"] by (simp add: algebra_simps)
    have ub: "unat (of_nat b :: u64) = b" using j s(4) by (simp add: unat_of_nat)
    obtain ws where ws: "set_blocks (of_nat b) count True ?s = Some (Inr ((), ?s\<lparr>bitmap := ws\<rparr>))" "length ws = length (bitmap s)"
      "wbits ws = wbits (bitmap s) \<union> {b..<b + count}"
      using set_blocks_run [of "of_nat b" count ?s True] ub j s(3,4) by auto
    let ?t = "s\<lparr>bitmap := ws, used_blocks := used_blocks s + of_nat count, last_free_block := of_nat j + 1\<rparr>"
    have run: "pmm_alloc_blocks count s = Some (Inr (block_addr b, ?t))"
      using r(1) Some s(1,2) assms(2) ws(1) by (cases s) (simp add: pmm_alloc_blocks_def Let_def first firstm block_addr_def)
    have disj: "blocks_used s \<inter> {b..<b + count} = {}" using j(4) by (auto simp: blocks_used_def run_free_def)
    have used: "blocks_used ?t = blocks_used s \<union> {b..<b + count}" using ws(3) j(1,5) by (auto simp: blocks_used_def)
    have "card (blocks_used ?t) = card (blocks_used s) + count"
      unfolding used by (subst card_Un_disjoint) (use disj in \<open>auto simp: blocks_used_def\<close>)
    moreover have "card (blocks_used ?t) \<le> ?T"
      using card_mono [of "{..<?T}" "blocks_used ?t"] by (auto simp: blocks_used_def)
    ultimately have "unat (used_blocks s + of_nat count) = card (blocks_used ?t)"
      using s(4,6) by (simp add: unat_word_ariths unat_of_nat)
    moreover have hint: "unat (of_nat j + 1 :: u64) = b + count" using j(1,5) s(4) by (simp add: unat_word_ariths unat_of_nat)
    ultimately have "block_inv ?t" using s ws(2) used j(1,5) by (simp add: block_inv_def)
    moreover have "0 < b"
    proof (rule ccontr)
      assume "\<not> 0 < b"
      then have "0 \<in> {b..<b + count}" using assms(2) by simp
      then show False using disj s(5) by blast
    qed
    ultimately show ?thesis using run j used hint by (intro disjI2 exI [of _ b] exI [of _ ?t]) simp
  qed
qed

lemma free_blocks_run:
  assumes "block_inv s" "0 < b" "0 < count" "{b..<b + count} \<subseteq> blocks_used s"
  shows "\<exists>s'. pmm_free_blocks (block_addr b) count s = Some (Inr ((), s')) \<and> block_inv s' \<and> total_blocks s' = total_blocks s \<and>
    blocks_used s' = blocks_used s - {b..<b + count}"
proof -
  let ?T = "unat (total_blocks s)"
  let ?s = "s\<lparr>block_lock := True\<rparr>"
  have s: "initialized s" "\<not> block_lock s" "?T \<le> 64 * length (bitmap s)" "?T < 2 ^ 52" "0 \<in> blocks_used s"
    "unat (used_blocks s) = card (blocks_used s)" "unat (last_free_block s) \<le> ?T" using assms(1) by (auto simp: block_inv_def)
  have bT: "b + count \<le> ?T"
  proof -
    have "b + count - 1 \<in> blocks_used s" using assms(3,4) by auto
    then show ?thesis using assms(3) by (auto simp: blocks_used_def)
  qed
  then have b52: "b < 2 ^ 52" using s(4) assms(3) by linarith
  have ub: "unat (of_nat b :: u64) = b" using b52 by (simp add: unat_of_nat)
  have start: "block_addr b div BLOCK_SIZE = of_nat b"
    using block_addr_div [OF b52] ub by (simp only: word_unat_eq_iff)
  have "unat (of_nat b + of_nat count :: u64) = b + count" using bT s(4) by (simp add: unat_word_ariths unat_of_nat)
  then have le: "\<not> total_blocks s < of_nat b + of_nat count" using bT by (simp add: word_less_nat_alt)
  obtain ws where ws: "set_blocks (of_nat b) count False ?s = Some (Inr ((), ?s\<lparr>bitmap := ws\<rparr>))" "length ws = length (bitmap s)"
    "wbits ws = wbits (bitmap s) - {b..<b + count}"
    using set_blocks_run [of "of_nat b" count ?s False] ub bT s(3,4) by auto
  let ?l = "if of_nat b < last_free_block s then of_nat b else last_free_block s"
  let ?t = "s\<lparr>bitmap := ws, used_blocks := used_blocks s - of_nat count, last_free_block := ?l\<rparr>"
  have run: "pmm_free_blocks (block_addr b) count s = Some (Inr ((), ?t))"
    using s(1,2) assms(2,3) block_addr_nonzero [OF b52] start le ws(1) by (cases s) (simp add: pmm_free_blocks_def Let_def)
  have used: "blocks_used ?t = blocks_used s - {b..<b + count}" using ws(3) by (auto simp: blocks_used_def)
  have "card (blocks_used ?t) = card (blocks_used s) - count"
    unfolding used by (subst card_Diff_subset) (use assms(4) in auto)
  moreover have "count \<le> card (blocks_used s)" using card_mono [OF _ assms(4)] by (simp add: blocks_used_def)
  moreover have "unat (used_blocks s - of_nat count) = unat (used_blocks s) - count"
    using calculation(2) s(4,6) bT by (subst unat_sub) (auto simp: word_le_nat_alt unat_of_nat)
  ultimately have "unat (used_blocks s - of_nat count) = card (blocks_used ?t)" using s(6) by simp
  moreover have "unat ?l \<le> ?T" using s(7) ub bT by auto
  moreover have "0 \<in> blocks_used ?t" using s(5) used assms(2) by auto
  ultimately have "block_inv ?t" using s ws(2) by (simp add: block_inv_def)
  then show ?thesis using run used by (intro exI [of _ ?t]) simp
qed

text \<open>The allocator is a source of frames: addresses of blocks, with block 0 reserved.\<close>

definition block_frames :: "pmm_state_t \<Rightarrow> u64 set" where
  "block_frames s = block_addr ` {..<unat (total_blocks s)}"

definition frames_used :: "pmm_state_t \<Rightarrow> u64 set" where
  "frames_used s = block_addr ` blocks_used s"

lemma block_addr_eq: "block_inv s \<Longrightarrow> b < unat (total_blocks s) \<Longrightarrow> block_addr b \<in> frames_used s \<longleftrightarrow> b \<in> blocks_used s"
  using inj_onD [OF block_addr_inj] by (fastforce simp: frames_used_def blocks_used_def block_inv_def)

interpretation block_source: frame_source block_inv block_frames frames_used "\<lambda>s. {0}" "\<lambda>f. f \<noteq> 0" pmm_alloc_block pmm_free_block
proof
  fix s f s' assume s: "block_inv s" "pmm_alloc_block s = Some (Inr (f, s'))" "f \<noteq> (0 :: u64)"
  then obtain b where b: "f = block_addr b" "b < unat (total_blocks s)" "run_free s b 1" "block_inv s'" "total_blocks s' = total_blocks s"
    "blocks_used s' = insert b (blocks_used s)"
    using alloc_blocks_run [of s 1] by (auto simp: pmm_alloc_block_def)
  moreover have "b \<notin> blocks_used s" using b(3) by (auto simp: run_free_def blocks_used_def)
  ultimately show "f \<in> block_frames s \<and> f \<notin> frames_used s \<and> frames_used s' = insert f (frames_used s) \<and>
      block_frames s' = block_frames s \<and> {0} = {0 :: u64} \<and> block_inv s'"
    using block_addr_eq [OF s(1) b(2)] by (auto simp: block_frames_def frames_used_def)
next
  fix s f assume s: "block_inv s" "f \<in> frames_used s" "f \<notin> {0 :: u64}"
  then obtain b where b: "f = block_addr b" "b \<in> blocks_used s" by (auto simp: frames_used_def)
  moreover have "0 < b" using s(3) b(1) by (cases b) (simp_all add: block_addr_def)
  ultimately obtain s' where s': "pmm_free_block f s = Some (Inr ((), s'))" "block_inv s'" "total_blocks s' = total_blocks s"
    "blocks_used s' = blocks_used s - {b}"
    using free_blocks_run [of s b 1] s(1) by (auto simp: pmm_free_block_def)
  have "inj_on block_addr (blocks_used s)" using s(1) by (intro inj_on_subset [OF block_addr_inj]) (auto simp: block_inv_def blocks_used_def)
  then have "frames_used s' = frames_used s - {f}"
    using s'(4) b by (auto simp: frames_used_def inj_on_image_set_diff [of _ "blocks_used s"])
  then show "\<exists>s'. pmm_free_block f s = Some (Inr ((), s')) \<and> frames_used s' = frames_used s - {f} \<and> block_frames s' = block_frames s \<and>
      {0} = {0 :: u64} \<and> block_inv s'"
    using s' by (auto simp: block_frames_def)
next
  fix s assume "block_inv s"
  then show "{0} \<subseteq> frames_used s" by (auto simp: block_inv_def frames_used_def block_addr_def intro: rev_image_eqI)
qed

section \<open>A concrete allocator\<close>

text \<open>Eight blocks of which 1, 3 and 4 are free.\<close>

definition holes :: pmm_state_t where
  "holes = \<lparr>total_blocks = 8, used_blocks = 5, memory_size = 32768, bitmap = [0xE5], bitmap_size = 1, last_free_block = 0,
     initialized = True, block_lock = False\<rparr>"

lemma wbits_byte: "b < 8 \<Longrightarrow> b \<in> wbits [w] \<longleftrightarrow> bit w b"
  by (simp add: wbits_def)

lemma below_8: "{..<8 :: nat} = {0, 1, 2, 3, 4, 5, 6, 7}"
  by auto

lemma holes_used: "blocks_used holes = {0, 2, 5, 6, 7}"
  by (auto simp: blocks_used_def holes_def below_8 wbits_byte bit_iff_odd)

lemma holes_inv: "block_inv holes"
  using holes_used by (simp add: block_inv_def) (simp add: holes_def)

section \<open>Properties\<close>

text \<open>
  C24: Allocating \<open>count\<close> blocks returns; the result is NULL with the state unchanged, exactly
  when no run of \<open>count\<close> free blocks lies at or after the hint, or it is the address of a run
  of free blocks within memory which are now in use; no other block changes, the counter
  is right, and the lock is released.
\<close>

theorem pmm_alloc_blocks_correct:
  assumes "block_inv s" "0 < count"
  shows "\<exists>p s'. pmm_alloc_blocks count s = Some (Inr (p, s')) \<and> block_inv s' \<and>
    (if \<exists>b. unat (last_free_block s) \<le> b \<and> b + count \<le> unat (total_blocks s) \<and> run_free s b count
     then \<exists>b. p = block_addr b \<and> p \<noteq> 0 \<and> b + count \<le> unat (total_blocks s) \<and> {b..<b + count} \<inter> blocks_used s = {} \<and>
            blocks_used s' = blocks_used s \<union> {b..<b + count}
     else p = 0 \<and> s' = s)"
  using alloc_blocks_run [OF assms]
proof (elim disjE exE conjE)
  assume "pmm_alloc_blocks count s = Some (Inr (0, s))"
    "\<forall>b. unat (last_free_block s) \<le> b \<longrightarrow> b + count \<le> unat (total_blocks s) \<longrightarrow> \<not> run_free s b count"
  then show ?thesis using assms(1) by auto
next
  fix b s' assume b: "pmm_alloc_blocks count s = Some (Inr (block_addr b, s'))" "unat (last_free_block s) \<le> b" "0 < b"
    "b + count \<le> unat (total_blocks s)" "run_free s b count" "block_inv s'" "blocks_used s' = blocks_used s \<union> {b..<b + count}"
  have "b < 2 ^ 52" using b(4) assms by (simp add: block_inv_def)
  then have "block_addr b \<noteq> 0" using block_addr_nonzero b(3) by simp
  moreover have "{b..<b + count} \<inter> blocks_used s = {}" using b(5) by (auto simp: run_free_def blocks_used_def)
  ultimately show ?thesis using b by (intro exI [of _ "block_addr b"] exI [of _ s']) auto
qed

theorem pmm_alloc_blocks_correct_witness:
  "\<exists>p s'. pmm_alloc_blocks 2 holes = Some (Inr (p, s')) \<and> block_inv s' \<and>
    (if \<exists>b. unat (last_free_block holes) \<le> b \<and> b + 2 \<le> unat (total_blocks holes) \<and> run_free holes b 2
     then \<exists>b. p = block_addr b \<and> p \<noteq> 0 \<and> b + 2 \<le> unat (total_blocks holes) \<and> {b..<b + 2} \<inter> blocks_used holes = {} \<and>
            blocks_used s' = blocks_used holes \<union> {b..<b + 2}
     else p = 0 \<and> s' = holes)"
  by (rule pmm_alloc_blocks_correct [OF holes_inv]) simp

text \<open>
  The hint loses free blocks. After an allocation of two blocks has skipped a single
  free block, the hint points behind it and the next request for one block is refused,
  although the state is well formed and the block is free.
\<close>

theorem pmm_hint_loses_blocks:
  "\<exists>s'. pmm_alloc_blocks 2 holes = Some (Inr (block_addr 3, s')) \<and> block_inv s' \<and> 1 < unat (total_blocks s') \<and>
     1 \<notin> blocks_used s' \<and> pmm_alloc_block s' = Some (Inr (0, s'))"
proof -
  have f: "b = 3" if "b + 2 \<le> 8" "run_free holes b 2" for b
  proof -
    have "b + 2 \<le> unat (total_blocks holes)" using that(1) by (simp add: holes_def)
    then have "{b..<b + 2} \<inter> blocks_used holes = {}" using that(2) by (rule run_free_used)
    moreover have "b \<in> {b..<b + 2}" "Suc b \<in> {b..<b + 2}" by auto
    ultimately have "b \<notin> blocks_used holes" "Suc b \<notin> blocks_used holes" by blast+
    moreover have "b \<in> {..<8}" using that(1) by simp
    ultimately show ?thesis unfolding below_8 holes_used by auto
  qed
  have "run_free holes 3 2"
  proof -
    have "{3..<5 :: nat} = {3, 4}" by auto
    then show ?thesis by (auto simp: run_free_def holes_def wbits_byte bit_iff_odd)
  qed
  then obtain s' where s': "pmm_alloc_blocks 2 holes = Some (Inr (block_addr 3, s'))" "block_inv s'" "total_blocks s' = 8"
    "blocks_used s' = blocks_used holes \<union> {3..<5}" "unat (last_free_block s') = 5"
    using alloc_blocks_run [OF holes_inv, of 2] f by (fastforce simp: holes_def)
  have "\<not> run_free s' b 1" if "5 \<le> b" "b + 1 \<le> 8" for b
  proof
    assume "run_free s' b 1"
    then have "b \<notin> blocks_used s'" using run_free_used [of b 1 s'] that(2) s'(3) by auto
    moreover have "b \<in> {5, 6, 7}" using that by auto
    ultimately show False using s'(4) holes_used by auto
  qed
  then have "pmm_alloc_block s' = Some (Inr (0, s'))"
    using alloc_blocks_run [OF s'(2), of 1] s'(3,5) by (auto simp: pmm_alloc_block_def)
  then show ?thesis using s' holes_used by auto
qed

end
