(* ===== verification/Interrupts.thy ===== *)
theory Interrupts
  imports KPrelude
begin

text \<open>
  Interrupt set-up of the x86-64 port: the interrupt descriptor table of
  \<^verbatim>\<open>src/arch/x86_64/idt.c\<close>, the two interrupt controllers of
  \<^verbatim>\<open>src/arch/x86_64/pic.c\<close> and the entry stubs of \<^verbatim>\<open>src/arch/x86_64/isr.S\<close>. The theory
  proves that the hardware finds the right handler for every vector, that masking touches
  one line only, and that the stubs restore every register.
\<close>

section \<open>The interrupt descriptor table\<close>

abbreviation IDT_ENTRIES :: nat where "IDT_ENTRIES \<equiv> 256"
abbreviation KERNEL_CS :: u16 where "KERNEL_CS \<equiv> 0x08"
abbreviation IDT_FLAG_PRESENT :: u8 where "IDT_FLAG_PRESENT \<equiv> 0x80"
abbreviation IDT_FLAG_INT_GATE :: u8 where "IDT_FLAG_INT_GATE \<equiv> 0x0E"
abbreviation IDT_FLAG_DPL0 :: u8 where "IDT_FLAG_DPL0 \<equiv> 0x00"

definition INT_GATE_KERNEL :: u8 where
  "INT_GATE_KERNEL = IDT_FLAG_PRESENT OR IDT_FLAG_INT_GATE OR IDT_FLAG_DPL0"

record idt_entry_t =
  offset_low :: u16
  selector :: u16
  ist :: u8
  type_attr :: u8
  offset_mid :: u16
  offset_high :: u32
  gate_zero :: u32

record idt_ptr_t =
  idt_limit :: u16
  idt_base :: u64

text \<open>The table, its descriptor, and the descriptor the CPU has loaded.\<close>

record idt_state =
  idt :: "idt_entry_t list"
  idt_ptr :: idt_ptr_t
  idtr :: "idt_ptr_t option"

definition zero_gate :: idt_entry_t where
  "zero_gate = \<lparr>offset_low = 0, selector = 0, ist = 0, type_attr = 0, offset_mid = 0, offset_high = 0, gate_zero = 0\<rparr>"

definition idt_set_gate :: "nat \<Rightarrow> u64 \<Rightarrow> u16 \<Rightarrow> u8 \<Rightarrow> (idt_state, unit) km" where
  "idt_set_gate vec handler sel flags =
     setnthK idt idt_update vec (\<lambda>d. d\<lparr>
       offset_low := ucast (handler AND 0xFFFF),
       selector := sel,
       ist := 0,
       type_attr := flags,
       offset_mid := ucast (drop_bit 16 handler AND 0xFFFF),
       offset_high := ucast (drop_bit 32 handler AND 0xFFFFFFFF),
       gate_zero := 0\<rparr>)"

definition lidt :: "(idt_state, unit) km" where
  "lidt = modK (\<lambda>s. s\<lparr>idtr := Some (idt_ptr s)\<rparr>)"

text \<open>
  \<open>isr n\<close> is the address of the assembly stub \<open>isrn\<close> and \<open>idt_addr\<close> that of the table;
  \<open>FOR_EACH_VECTOR\<close> expands to the vectors 0 to 255 in order. \<open>sizeof(idt)\<close> is 4096.
\<close>

definition idt_init :: "(nat \<Rightarrow> u64) \<Rightarrow> u64 \<Rightarrow> (idt_state, unit) km" where
  "idt_init isr idt_addr =
     seqK (modK (\<lambda>s. s\<lparr>idt := map (\<lambda>_. zero_gate) (idt s)\<rparr>))
    (seqK (forK 0 IDT_ENTRIES (\<lambda>n. idt_set_gate n (isr n) KERNEL_CS INT_GATE_KERNEL))
    (seqK (modK (\<lambda>s. s\<lparr>idt_ptr := \<lparr>idt_limit = 4096 - 1, idt_base = idt_addr\<rparr>\<rparr>))
          lidt))"

section \<open>The interrupt controllers\<close>

text \<open>
  A write to a port is appended to the trace, and each port of the controllers keeps the
  last byte written, which is what a read of a data port returns once initialisation is
  complete. The code reads a data port at no other time.
\<close>

record pic_state =
  port_trace :: "(u16 \<times> u8) list"
  port_latch :: "u16 \<Rightarrow> u8"

abbreviation PIC1_COMMAND :: u16 where "PIC1_COMMAND \<equiv> 0x20"
abbreviation PIC1_DATA :: u16 where "PIC1_DATA \<equiv> 0x21"
abbreviation PIC2_COMMAND :: u16 where "PIC2_COMMAND \<equiv> 0xA0"
abbreviation PIC2_DATA :: u16 where "PIC2_DATA \<equiv> 0xA1"
abbreviation PIC_EOI :: u8 where "PIC_EOI \<equiv> 0x20"
abbreviation ICW1_INIT :: u8 where "ICW1_INIT \<equiv> 0x10"
abbreviation ICW1_ICW4 :: u8 where "ICW1_ICW4 \<equiv> 0x01"
abbreviation ICW4_8086 :: u8 where "ICW4_8086 \<equiv> 0x01"
abbreviation PIC_MASTER_OFFSET :: u8 where "PIC_MASTER_OFFSET \<equiv> 0x20"
abbreviation PIC_SLAVE_OFFSET :: u8 where "PIC_SLAVE_OFFSET \<equiv> 0x28"

definition out_byte :: "u16 \<Rightarrow> u8 \<Rightarrow> (pic_state, unit) km" where
  "out_byte port v = modK (\<lambda>s. s\<lparr>port_trace := port_trace s @ [(port, v)], port_latch := (port_latch s)(port := v)\<rparr>)"

definition in_byte :: "u16 \<Rightarrow> (pic_state, u8) km" where
  "in_byte port = getK (\<lambda>s. port_latch s port)"

definition io_wait :: "(pic_state, unit) km" where
  "io_wait = out_byte 0x80 0"

definition pic_send_eoi :: "u8 \<Rightarrow> (pic_state, unit) km" where
  "pic_send_eoi irq =
     seqK (whenK (8 \<le> irq) (out_byte PIC2_COMMAND PIC_EOI))
          (out_byte PIC1_COMMAND PIC_EOI)"

definition pic_remap :: "u8 \<Rightarrow> u8 \<Rightarrow> (pic_state, unit) km" where
  "pic_remap offset1 offset2 =
     bindK (in_byte PIC1_DATA) (\<lambda>a1.
     bindK (in_byte PIC2_DATA) (\<lambda>a2.
     seqK (out_byte PIC1_COMMAND (ICW1_INIT OR ICW1_ICW4))
    (seqK io_wait
    (seqK (out_byte PIC2_COMMAND (ICW1_INIT OR ICW1_ICW4))
    (seqK io_wait
    (seqK (out_byte PIC1_DATA offset1)
    (seqK io_wait
    (seqK (out_byte PIC2_DATA offset2)
    (seqK io_wait
    (seqK (out_byte PIC1_DATA 4)
    (seqK io_wait
    (seqK (out_byte PIC2_DATA 2)
    (seqK io_wait
    (seqK (out_byte PIC1_DATA ICW4_8086)
    (seqK io_wait
    (seqK (out_byte PIC2_DATA ICW4_8086)
    (seqK io_wait
    (seqK (out_byte PIC1_DATA a1)
          (out_byte PIC2_DATA a2)))))))))))))))))))"

text \<open>The port and the line on its controller; \<open>1 << irq\<close> is undefined from 31 on.\<close>

definition pic_line :: "u8 \<Rightarrow> u16 \<times> u8" where
  "pic_line irq = (if irq < 8 then (PIC1_DATA, irq) else (PIC2_DATA, irq - 8))"

definition pic_set_mask :: "u8 \<Rightarrow> (pic_state, unit) km" where
  "pic_set_mask irq =
     (let (port, line) = pic_line irq in
      if 31 \<le> line then stopK (Fault ''shift'')
      else bindK (in_byte port) (\<lambda>v. out_byte port (v OR push_bit (unat line) 1)))"

definition pic_clear_mask :: "u8 \<Rightarrow> (pic_state, unit) km" where
  "pic_clear_mask irq =
     (let (port, line) = pic_line irq in
      if 31 \<le> line then stopK (Fault ''shift'')
      else bindK (in_byte port) (\<lambda>v. out_byte port (v AND NOT (push_bit (unat line) 1))))"

definition pic_init :: "(pic_state, unit) km" where
  "pic_init =
     seqK (pic_remap PIC_MASTER_OFFSET PIC_SLAVE_OFFSET)
    (seqK (out_byte PIC1_DATA 0xFF)
    (seqK (out_byte PIC2_DATA 0xFF)
    (seqK (pic_clear_mask 0)
          (pic_clear_mask 1))))"

definition pic_disable :: "(pic_state, unit) km" where
  "pic_disable = seqK (out_byte PIC1_DATA 0xFF) (out_byte PIC2_DATA 0xFF)"

section \<open>The entry stubs\<close>

text \<open>
  The general registers by name and the stack, top first. A stub pushes a dummy error code
  unless the CPU has pushed one, then the vector, and continues in \<open>isr_common_stub\<close>,
  which calls the C handler with the word on top of the stack as its argument.
\<close>

datatype reg = RAX | RCX | RDX | RBX | RBP | RSI | RDI | R8 | R9 | R10 | R11 | R12 | R13 | R14 | R15

record stub_state =
  regs :: "reg \<Rightarrow> u64"
  stack :: "u64 list"

definition saved_regs :: "reg list" where
  "saved_regs = [RAX, RCX, RDX, RBX, RBP, RSI, RDI, R8, R9, R10, R11, R12, R13, R14, R15]"

definition pushq :: "u64 \<Rightarrow> ('a stub_state_scheme, unit) km" where
  "pushq v = modK (\<lambda>s. s\<lparr>stack := v # stack s\<rparr>)"

primrec push_regs :: "reg list \<Rightarrow> ('a stub_state_scheme, unit) km" where
  "push_regs [] = retK ()"
| "push_regs (r # rs) = seqK (bindK (getK (\<lambda>s. regs s r)) pushq) (push_regs rs)"

primrec pop_regs :: "reg list \<Rightarrow> ('a stub_state_scheme, unit) km" where
  "pop_regs [] = retK ()"
| "pop_regs (r # rs) =
     seqK (modK (\<lambda>s. s\<lparr>regs := (regs s)(r := hd (stack s)), stack := tl (stack s)\<rparr>)) (pop_regs rs)"

definition isr_common_stub :: "(u64 \<Rightarrow> (stub_state, unit) km) \<Rightarrow> (stub_state, unit) km" where
  "isr_common_stub isr_handler =
     seqK (push_regs saved_regs)
    (seqK (modK (\<lambda>s. s\<lparr>regs := (regs s)(RDI := hd (stack s))\<rparr>))
    (seqK (bindK (getK (\<lambda>s. regs s RDI)) isr_handler)
    (seqK (pop_regs (rev saved_regs))
          (modK (\<lambda>s. s\<lparr>stack := drop 2 (stack s)\<rparr>)))))"

definition isr_has_errcode :: "nat \<Rightarrow> bool" where
  "isr_has_errcode num \<longleftrightarrow> num \<in> {8, 10, 11, 12, 13, 14}"

definition isr_stub :: "(u64 \<Rightarrow> (stub_state, unit) km) \<Rightarrow> nat \<Rightarrow> (stub_state, unit) km" where
  "isr_stub isr_handler num =
     seqK (whenK (\<not> isr_has_errcode num) (pushq 0))
    (seqK (pushq (of_nat num))
          (isr_common_stub isr_handler))"

section \<open>What the CPU reads from a gate\<close>

definition gate_address :: "idt_entry_t \<Rightarrow> u64" where
  "gate_address e = ucast (offset_low e) OR push_bit 16 (ucast (offset_mid e)) OR push_bit 32 (ucast (offset_high e))"

definition gate_for :: "u64 \<Rightarrow> u16 \<Rightarrow> u8 \<Rightarrow> idt_entry_t" where
  "gate_for handler sel flags =
     \<lparr>offset_low = ucast (handler AND 0xFFFF), selector = sel, ist = 0, type_attr = flags,
      offset_mid = ucast (drop_bit 16 handler AND 0xFFFF),
      offset_high = ucast (drop_bit 32 handler AND 0xFFFFFFFF), gate_zero = 0\<rparr>"

text \<open>A gate the CPU accepts: present, an interrupt gate of ring 0, no reserved bit set.\<close>

definition gate_wf :: "idt_entry_t \<Rightarrow> bool" where
  "gate_wf e \<longleftrightarrow> bit (type_attr e) 7 \<and> take_bit 4 (type_attr e) = 0xE \<and> take_bit 2 (drop_bit 5 (type_attr e)) = 0 \<and>
     \<not> bit (type_attr e) 4 \<and> ist e = 0 \<and> gate_zero e = 0 \<and> selector e = KERNEL_CS"

lemma mask_consts: "(0xFFFF :: u64) = mask 16" "(0xFFFFFFFF :: u64) = mask 32"
  by (simp_all add: mask_eq_exp_minus_1)

lemma gate_address_for: "gate_address (gate_for handler sel flags) = handler"
proof (rule bit_eqI)
  fix n :: nat assume "possible_bit TYPE(64 word) n"
  then have "n < 64" by simp
  then show "bit (gate_address (gate_for handler sel flags)) n = bit handler n"
    by (cases "n < 16"; cases "n < 32") (auto simp: gate_address_def gate_for_def mask_consts bit_simps)
qed

lemma idt_set_gate_run:
  assumes "vec < length (idt s)"
  shows "idt_set_gate vec handler sel flags s = Some (Inr ((), s\<lparr>idt := (idt s)[vec := gate_for handler sel flags]\<rparr>))"
proof -
  have "d\<lparr>offset_low := ucast (handler AND 0xFFFF), selector := sel, ist := 0, type_attr := flags,
      offset_mid := ucast (drop_bit 16 handler AND 0xFFFF), offset_high := ucast (drop_bit 32 handler AND 0xFFFFFFFF),
      gate_zero := 0\<rparr> = gate_for handler sel flags" for d
    by (cases d) (simp add: gate_for_def)
  then show ?thesis using assms by (cases s) (simp add: idt_set_gate_def)
qed

lemma gate_for_wf: "gate_wf (gate_for handler KERNEL_CS INT_GATE_KERNEL)"
  by (simp add: gate_wf_def gate_for_def INT_GATE_KERNEL_def bit_numeral_rec take_bit_eq_mod drop_bit_eq_div)

lemma idt_gates_loop:
  assumes "length (idt s) = IDT_ENTRIES"
  shows "\<exists>t. forK 0 IDT_ENTRIES (\<lambda>n. idt_set_gate n (isr n) KERNEL_CS INT_GATE_KERNEL) s = Some (Inr ((), t)) \<and>
     idt t = map (\<lambda>n. gate_for (isr n) KERNEL_CS INT_GATE_KERNEL) [0..<IDT_ENTRIES]"
proof -
  let ?g = "\<lambda>n. gate_for (isr n) KERNEL_CS INT_GATE_KERNEL"
  have "\<exists>t. forK 0 IDT_ENTRIES (\<lambda>n. idt_set_gate n (isr n) KERNEL_CS INT_GATE_KERNEL) s = Some (Inr ((), t)) \<and>
     (length (idt t) = IDT_ENTRIES \<and> (\<forall>n < IDT_ENTRIES. idt t ! n = ?g n))"
    by (rule forK_rule [where I = "\<lambda>j t. length (idt t) = IDT_ENTRIES \<and> (\<forall>n < j. idt t ! n = ?g n)"])
      (use assms in \<open>auto simp: idt_set_gate_run nth_list_update less_Suc_eq\<close>)
  then show ?thesis by (elim exE conjE, intro exI conjI) (assumption, simp add: list_eq_iff_nth_eq)
qed

section \<open>Masking\<close>

lemma out_byte_run [simp]:
  "out_byte port v s = Some (Inr ((), s\<lparr>port_trace := port_trace s @ [(port, v)], port_latch := (port_latch s)(port := v)\<rparr>))"
  by (simp add: out_byte_def)

lemma in_byte_run [simp]: "in_byte port s = Some (Inr (port_latch s port, s))"
  by (simp add: in_byte_def)

text \<open>The mask bit of a line.\<close>

definition masked :: "pic_state \<Rightarrow> u8 \<Rightarrow> bool" where
  "masked s irq = (case pic_line irq of (port, line) \<Rightarrow> bit (port_latch s port) (unat line))"

lemma pic_line_unat:
  assumes "irq < 16"
  shows "unat (snd (pic_line irq)) = unat irq mod 8" "fst (pic_line irq) = (if irq < 8 then PIC1_DATA else PIC2_DATA)"
    "\<not> 31 \<le> snd (pic_line irq)"
proof -
  have i: "unat irq < 16" using assms by (simp add: word_less_nat_alt)
  show u: "unat (snd (pic_line irq)) = unat irq mod 8"
    using i by (auto simp: pic_line_def word_less_nat_alt unat_sub_if' mod_if)
  show "fst (pic_line irq) = (if irq < 8 then PIC1_DATA else PIC2_DATA)" by (simp add: pic_line_def)
  show "\<not> 31 \<le> snd (pic_line irq)" using u by (simp add: word_le_nat_alt not_le)
qed

lemma pic_line_eq: "i < 16 \<Longrightarrow> j < 16 \<Longrightarrow> pic_line i = pic_line j \<longleftrightarrow> i = j"
  by (auto simp: pic_line_def split: if_splits)

lemma pic_set_mask_correct:
  assumes "irq < 16" "j < 16"
  shows "\<exists>s'. pic_set_mask irq s = Some (Inr ((), s')) \<and> (masked s' j \<longleftrightarrow> j = irq \<or> masked s j)"
proof -
  obtain port line where l: "pic_line irq = (port, line)" by (cases "pic_line irq")
  obtain port' line' where l': "pic_line j = (port', line')" by (cases "pic_line j")
  note L = pic_line_unat [OF assms(1)] pic_line_unat [OF assms(2)]
  let ?s' = "s\<lparr>port_trace := port_trace s @ [(port, port_latch s port OR push_bit (unat line) 1)],
      port_latch := (port_latch s)(port := port_latch s port OR push_bit (unat line) 1)\<rparr>"
  have "pic_set_mask irq s = Some (Inr ((), ?s'))" using L(3) l by (simp add: pic_set_mask_def)
  moreover have "j = irq \<longleftrightarrow> port' = port \<and> unat line' = unat line"
    using pic_line_eq [OF assms(2,1)] l l' by (simp add: word_unat_eq_iff)
  moreover have "unat line < 8" "unat line' < 8" using L(1,4) l l' by simp_all
  ultimately show ?thesis using l l' by (auto simp: masked_def bit_simps)
qed

lemma pic_clear_mask_correct:
  assumes "irq < 16" "j < 16"
  shows "\<exists>s'. pic_clear_mask irq s = Some (Inr ((), s')) \<and> (masked s' j \<longleftrightarrow> j \<noteq> irq \<and> masked s j)"
proof -
  obtain port line where l: "pic_line irq = (port, line)" by (cases "pic_line irq")
  obtain port' line' where l': "pic_line j = (port', line')" by (cases "pic_line j")
  note L = pic_line_unat [OF assms(1)] pic_line_unat [OF assms(2)]
  let ?s' = "s\<lparr>port_trace := port_trace s @ [(port, port_latch s port AND NOT (push_bit (unat line) 1))],
      port_latch := (port_latch s)(port := port_latch s port AND NOT (push_bit (unat line) 1))\<rparr>"
  have "pic_clear_mask irq s = Some (Inr ((), ?s'))" using L(3) l by (simp add: pic_clear_mask_def)
  moreover have "j = irq \<longleftrightarrow> port' = port \<and> unat line' = unat line"
    using pic_line_eq [OF assms(2,1)] l l' by (simp add: word_unat_eq_iff)
  moreover have "unat line < 8" "unat line' < 8" using L(1,4) l l' by simp_all
  ultimately show ?thesis using l l' by (auto simp: masked_def bit_simps)
qed

text \<open>After \<open>pic_init\<close> exactly the timer and the keyboard are enabled.\<close>

lemma pic_init_masks:
  "\<exists>s'. pic_init s = Some (Inr ((), s')) \<and> (\<forall>j < 16. masked s' j \<longleftrightarrow> j \<noteq> 0 \<and> j \<noteq> 1)"
proof -
  have "\<exists>t. seqK (pic_remap PIC_MASTER_OFFSET PIC_SLAVE_OFFSET) (seqK (out_byte PIC1_DATA 0xFF) (out_byte PIC2_DATA 0xFF)) s = Some (Inr ((), t)) \<and>
      port_latch t PIC1_DATA = 0xFF \<and> port_latch t PIC2_DATA = 0xFF"
    by (simp add: pic_remap_def io_wait_def)
  then obtain t where t: "seqK (pic_remap PIC_MASTER_OFFSET PIC_SLAVE_OFFSET) (seqK (out_byte PIC1_DATA 0xFF) (out_byte PIC2_DATA 0xFF)) s = Some (Inr ((), t))"
    "port_latch t PIC1_DATA = -1" "port_latch t PIC2_DATA = -1" by auto
  have all: "masked t j" if "j < 16" for j
    using pic_line_unat [OF that] t(2,3) by (auto simp: masked_def split: prod.splits if_splits)
  obtain u where u: "pic_clear_mask 0 t = Some (Inr ((), u))" using pic_clear_mask_correct [of 0 0 t] by auto
  obtain v where v: "pic_clear_mask 1 u = Some (Inr ((), v))" using pic_clear_mask_correct [of 1 0 u] by auto
  have "masked v j \<longleftrightarrow> j \<noteq> 0 \<and> j \<noteq> 1" if "j < 16" for j
    using pic_clear_mask_correct [OF _ that, of 0 t] pic_clear_mask_correct [OF _ that, of 1 u] u v all [OF that] by auto
  moreover have "pic_init s = Some (Inr ((), v))"
    using t(1) u v unfolding pic_init_def by (auto simp: bindK_eq_returns)
  ultimately show ?thesis by blast
qed

section \<open>The stubs\<close>

lemma push_regs_run: "push_regs rs s = Some (Inr ((), s\<lparr>stack := rev (map (regs s) rs) @ stack s\<rparr>))"
  by (induction rs arbitrary: s) (simp_all add: pushq_def)

lemma pop_regs_run:
  "stack s = map f rs @ st \<Longrightarrow> distinct rs \<Longrightarrow>
   pop_regs rs s = Some (Inr ((), s\<lparr>regs := (\<lambda>r. if r \<in> set rs then f r else regs s r), stack := st\<rparr>))"
proof (induction rs arbitrary: s)
  case (Cons r rs)
  then show ?case by (auto simp: fun_eq_iff intro!: arg_cong [where f = "\<lambda>x. s\<lparr>regs := x, stack := st\<rparr>"])
qed (simp add: fun_eq_iff)

text \<open>
  A stub restores every register and leaves the stack as it was before the CPU pushed an
  error code, whatever the handler does to the registers, provided the handler keeps the stack.
\<close>

lemma isr_stub_restores:
  assumes h: "\<And>a t. \<exists>rg. isr_handler a t = Some (Inr ((), t\<lparr>regs := rg\<rparr>))"
    and st: "stack s = (if isr_has_errcode num then e # st else st)"
  shows "isr_stub isr_handler num s = Some (Inr ((), s\<lparr>stack := st\<rparr>))"
proof -
  let ?st = "of_nat num # (if isr_has_errcode num then e else 0) # st"
  let ?s1 = "s\<lparr>stack := ?st\<rparr>"
  let ?s2 = "s\<lparr>stack := rev (map (regs s) saved_regs) @ ?st\<rparr>"
  let ?s3 = "?s2\<lparr>regs := (regs s)(RDI := regs s R15)\<rparr>"
  obtain rg where rg: "isr_handler (regs s R15) ?s3 = Some (Inr ((), ?s3\<lparr>regs := rg\<rparr>))" using h by blast
  have eq: "stack (?s3\<lparr>regs := rg\<rparr>) = map (regs s) (rev saved_regs) @ ?st" by (simp add: rev_map)
  have d: "distinct (rev saved_regs)" by (simp add: saved_regs_def)
  have all: "r \<in> set (rev saved_regs)" for r by (cases r) (simp_all add: saved_regs_def)
  have pop: "pop_regs (rev saved_regs) (?s3\<lparr>regs := rg\<rparr>) = Some (Inr ((), s\<lparr>stack := ?st\<rparr>))"
    using pop_regs_run [OF eq d] all by (cases s) simp
  have "hd (rev (map (regs s) saved_regs) @ ?st) = regs s R15" by (simp add: saved_regs_def)
  then have "isr_common_stub isr_handler ?s1 = Some (Inr ((), s\<lparr>stack := st\<rparr>))"
    using rg pop unfolding isr_common_stub_def by (simp add: push_regs_run)
  then show ?thesis using st by (auto simp: isr_stub_def pushq_def)
qed

text \<open>The handler is given the saved value of R15, not the vector.\<close>

lemma isr_stub_argument:
  "isr_common_stub (\<lambda>a. stopK (Exit (uint a))) s = Some (Inl (Exit (uint (regs s R15))))"
proof -
  have "hd (rev (map (regs s) saved_regs) @ stack s) = regs s R15" by (simp add: saved_regs_def)
  then show ?thesis by (simp add: isr_common_stub_def push_regs_run)
qed

section \<open>Properties\<close>

text \<open>
  C25: \<open>idt_init\<close> leaves a well-formed table. Whatever the table held and wherever the
  stubs lie, it returns; then each of the 256 gates is a present ring-0 interrupt gate in the
  kernel code segment from which the CPU reads the address of exactly its own stub, and the
  descriptor that has been loaded covers the 256 gates of 16 bytes.
\<close>

theorem idt_init_wf:
  assumes "length (idt s) = IDT_ENTRIES"
  shows "\<exists>s'. idt_init isr idt_addr s = Some (Inr ((), s')) \<and> length (idt s') = IDT_ENTRIES \<and>
     (\<forall>n < IDT_ENTRIES. gate_wf (idt s' ! n) \<and> gate_address (idt s' ! n) = isr n) \<and>
     idtr s' = Some \<lparr>idt_limit = of_nat (16 * IDT_ENTRIES - 1), idt_base = idt_addr\<rparr>"
proof -
  let ?s1 = "s\<lparr>idt := map (\<lambda>_. zero_gate) (idt s)\<rparr>"
  obtain t where t: "forK 0 IDT_ENTRIES (\<lambda>n. idt_set_gate n (isr n) KERNEL_CS INT_GATE_KERNEL) ?s1 = Some (Inr ((), t))"
     "idt t = map (\<lambda>n. gate_for (isr n) KERNEL_CS INT_GATE_KERNEL) [0..<IDT_ENTRIES]"
    using idt_gates_loop [of ?s1 isr] assms by auto
  have "idt_init isr idt_addr s = Some (Inr ((), t\<lparr>idt_ptr := \<lparr>idt_limit = 4096 - 1, idt_base = idt_addr\<rparr>,
      idtr := Some \<lparr>idt_limit = 4096 - 1, idt_base = idt_addr\<rparr>\<rparr>))"
    using t(1) by (simp add: idt_init_def lidt_def)
  then show ?thesis using t(2) gate_for_wf gate_address_for by (simp del: upt_rec_numeral)
qed

theorem idt_init_wf_witness:
  "\<exists>s'. idt_init (\<lambda>n. 0xFFFF800000100000 + of_nat (16 * n)) 0xFFFF800000200000
       \<lparr>idt = replicate 256 zero_gate, idt_ptr = \<lparr>idt_limit = 0, idt_base = 0\<rparr>, idtr = None\<rparr> = Some (Inr ((), s')) \<and>
     gate_address (idt s' ! 14) = 0xFFFF8000001000E0"
proof -
  let ?s = "\<lparr>idt = replicate 256 zero_gate, idt_ptr = \<lparr>idt_limit = 0, idt_base = 0\<rparr>, idtr = None\<rparr>"
  have "length (idt ?s) = IDT_ENTRIES" by simp
  from idt_init_wf [OF this, of "\<lambda>n. 0xFFFF800000100000 + of_nat (16 * n)" "0xFFFF800000200000"]
  obtain s' where "idt_init (\<lambda>n. 0xFFFF800000100000 + of_nat (16 * n)) 0xFFFF800000200000 ?s = Some (Inr ((), s'))"
    "\<forall>n < IDT_ENTRIES. gate_wf (idt s' ! n) \<and> gate_address (idt s' ! n) = 0xFFFF800000100000 + of_nat (16 * n)" by blast
  then show ?thesis by (intro exI [of _ s']) simp
qed

end
