(* ===== verification/Multiboot.thy ===== *)
theory Multiboot
  imports KPrelude
begin

text \<open>
  The Multiboot2 information parser of
  \<^verbatim>\<open>src/kernel/bootloader/src/core/multiboot2_parser.c\<close>: the search through the list of tags
  and the reports it prints. Memory is a function from addresses to bytes and the tags are
  read from it, so nothing bounds the search but the tags themselves. The theory proves when
  the search ends and what it finds.
\<close>

abbreviation MULTIBOOT2_BOOTLOADER_MAGIC :: u32 where "MULTIBOOT2_BOOTLOADER_MAGIC \<equiv> 0x36d76289"
abbreviation MULTIBOOT2_TAG_TYPE_END :: u32 where "MULTIBOOT2_TAG_TYPE_END \<equiv> 0"
abbreviation MULTIBOOT2_TAG_TYPE_CMDLINE :: u32 where "MULTIBOOT2_TAG_TYPE_CMDLINE \<equiv> 1"
abbreviation MULTIBOOT2_TAG_TYPE_BOOT_LOADER_NAME :: u32 where "MULTIBOOT2_TAG_TYPE_BOOT_LOADER_NAME \<equiv> 2"
abbreviation MULTIBOOT2_TAG_TYPE_BASIC_MEMINFO :: u32 where "MULTIBOOT2_TAG_TYPE_BASIC_MEMINFO \<equiv> 4"
abbreviation MULTIBOOT2_TAG_TYPE_MMAP :: u32 where "MULTIBOOT2_TAG_TYPE_MMAP \<equiv> 6"

text \<open>Log lines are kept as the format string and its arguments; a string argument is its address.\<close>

datatype mb_arg = MbInt u64 | MbStr u64 | MbName string

record mb_state =
  mb_mem :: "u64 \<Rightarrow> u8"
  mb_log :: "(string \<times> mb_arg list) list"

definition mb_printf :: "string \<Rightarrow> mb_arg list \<Rightarrow> (mb_state, unit) km" where
  "mb_printf fmt args = modK (\<lambda>s. s\<lparr>mb_log := mb_log s @ [(fmt, args)]\<rparr>)"

definition LOG_INFO :: "string \<Rightarrow> mb_arg list \<Rightarrow> (mb_state, unit) km" where
  "LOG_INFO fmt args = mb_printf (''[INFO] '' @ fmt @ ''\<newline>'') args"

definition LOG_ERROR :: "string \<Rightarrow> mb_arg list \<Rightarrow> (mb_state, unit) km" where
  "LOG_ERROR fmt args = mb_printf (''[ERROR] '' @ fmt @ ''\<newline>'') args"

text \<open>Little-endian reads of unsigned fields.\<close>

definition rd32 :: "(u64 \<Rightarrow> u8) \<Rightarrow> u64 \<Rightarrow> u32" where
  "rd32 m a = ucast (m a) OR push_bit 8 (ucast (m (a + 1))) OR push_bit 16 (ucast (m (a + 2))) OR push_bit 24 (ucast (m (a + 3)))"

definition rd64 :: "(u64 \<Rightarrow> u8) \<Rightarrow> u64 \<Rightarrow> u64" where
  "rd64 m a = ucast (rd32 m a) OR push_bit 32 (ucast (rd32 m (a + 4)))"

definition tag_type :: "mb_state \<Rightarrow> u64 \<Rightarrow> u32" where
  "tag_type s tag = rd32 (mb_mem s) tag"

definition tag_size :: "mb_state \<Rightarrow> u64 \<Rightarrow> u32" where
  "tag_size s tag = rd32 (mb_mem s) (tag + 4)"

definition ALIGN :: "u64 \<Rightarrow> u64 \<Rightarrow> u64" where
  "ALIGN x a = (x + (a - 1)) AND NOT (a - 1)"

text \<open>One round of the search; a pointer is an address and NULL is 0.\<close>

definition find_tag_round :: "u32 \<Rightarrow> u64 \<Rightarrow> (mb_state, u64 + u64) km" where
  "find_tag_round type tag =
     getK (\<lambda>s. if tag_type s tag \<noteq> MULTIBOOT2_TAG_TYPE_END
       then if tag_type s tag = type then Inl tag
            else Inr (ALIGN (tag + ucast (tag_size s tag)) 8)
       else Inl 0)"

definition find_multiboot2_tag :: "u32 \<Rightarrow> u64 \<Rightarrow> (mb_state, u64) km" where
  "find_multiboot2_tag type multiboot_info =
     (if multiboot_info = 0 then seqK (LOG_ERROR ''Invalid multiboot_info pointer'' []) (retK 0)
      else loopK (find_tag_round type) (multiboot_info + 8))"

definition get_memory_type_string :: "u32 \<Rightarrow> string" where
  "get_memory_type_string type =
     (if type = 1 then ''Available''
      else if type = 2 then ''Reserved''
      else if type = 3 then ''ACPI Reclaimable''
      else if type = 4 then ''NVS''
      else if type = 5 then ''Bad RAM''
      else ''Unknown'')"

text \<open>
  The file defines \<open>print_memory_map\<close> twice, which C rejects; this is the second one. The
  memory map tag has its entry size at offset 8 and its entries from offset 16 on.
\<close>

definition print_mmap_round :: "u64 \<Rightarrow> u64 \<Rightarrow> (mb_state, unit + u64) km" where
  "print_mmap_round mmap_tag entry =
     bindK (getK id) (\<lambda>s.
     if entry < mmap_tag + ucast (tag_size s mmap_tag) then
       seqK (mb_printf ''  Base Address: 0x%016lx, Length: 0x%016lx, Type: %s\<newline>''
               [MbInt (rd64 (mb_mem s) entry), MbInt (rd64 (mb_mem s) (entry + 8)),
                MbName (get_memory_type_string (rd32 (mb_mem s) (entry + 16)))])
            (retK (Inr (entry + ucast (rd32 (mb_mem s) (mmap_tag + 8)))))
     else retK (Inl ()))"

definition print_memory_map :: "u64 \<Rightarrow> (mb_state, unit) km" where
  "print_memory_map multiboot_info =
     bindK (find_multiboot2_tag MULTIBOOT2_TAG_TYPE_MMAP multiboot_info) (\<lambda>tag.
     if tag = 0 then LOG_INFO ''No memory map found'' []
     else seqK (LOG_INFO ''Memory Map:'' []) (loopK (print_mmap_round tag) (tag + 16)))"

definition print_bootloader_info :: "u64 \<Rightarrow> (mb_state, unit) km" where
  "print_bootloader_info multiboot_info =
     bindK (find_multiboot2_tag MULTIBOOT2_TAG_TYPE_BOOT_LOADER_NAME multiboot_info) (\<lambda>tag.
     if tag \<noteq> 0 then LOG_INFO ''Bootloader: %s'' [MbStr (tag + 8)]
     else LOG_INFO ''Bootloader information not available'' [])"

definition print_kernel_cmdline :: "u64 \<Rightarrow> (mb_state, unit) km" where
  "print_kernel_cmdline multiboot_info =
     bindK (find_multiboot2_tag MULTIBOOT2_TAG_TYPE_CMDLINE multiboot_info) (\<lambda>tag.
     if tag \<noteq> 0 then LOG_INFO ''Kernel Command Line: %s'' [MbStr (tag + 8)]
     else LOG_INFO ''Kernel command line not available'' [])"

definition parse_multiboot2_info :: "u64 \<Rightarrow> (mb_state, unit) km" where
  "parse_multiboot2_info multiboot_info =
     (if multiboot_info = 0 then LOG_ERROR ''Invalid Multiboot2 information pointer'' []
      else
        bindK (getK (\<lambda>s. rd32 (mb_mem s) multiboot_info)) (\<lambda>total_size.
        seqK (LOG_INFO ''Multiboot2 Info Total Size: %u bytes'' [MbInt (ucast total_size)])
       (seqK (print_memory_map multiboot_info)
       (seqK (print_bootloader_info multiboot_info)
             (print_kernel_cmdline multiboot_info)))))"

definition print_system_info :: "u64 \<Rightarrow> (mb_state, unit) km" where
  "print_system_info multiboot_info =
     bindK (find_multiboot2_tag MULTIBOOT2_TAG_TYPE_BASIC_MEMINFO multiboot_info) (\<lambda>tag.
     if tag \<noteq> 0 then
       bindK (getK (\<lambda>s. (rd32 (mb_mem s) (tag + 8), rd32 (mb_mem s) (tag + 12)))) (\<lambda>(mem_lower, mem_upper).
       seqK (LOG_INFO ''Lower memory: %u KB'' [MbInt (ucast mem_lower)])
            (LOG_INFO ''Upper memory: %u KB'' [MbInt (ucast mem_upper)]))
     else LOG_INFO ''Basic memory information not available'' [])"

definition multiboot2_entry :: "u32 \<Rightarrow> u64 \<Rightarrow> (mb_state, unit) km" where
  "multiboot2_entry magic multiboot_info =
     (if magic \<noteq> MULTIBOOT2_BOOTLOADER_MAGIC then
        LOG_ERROR ''Invalid Multiboot2 magic number: 0x%08x'' [MbInt (ucast magic)]
      else
        seqK (LOG_INFO ''Multiboot2 Magic: 0x%08x'' [MbInt (ucast magic)])
       (seqK (parse_multiboot2_info multiboot_info)
             (print_system_info multiboot_info)))"

section \<open>The list of tags\<close>

text \<open>
  The tags from address \<open>a\<close> on: each is at its address, has a type other than the end type,
  and its size leads to the next; the last is the end tag.
\<close>

fun tag_chain :: "mb_state \<Rightarrow> u64 \<Rightarrow> (u64 \<times> u32) list \<Rightarrow> bool" where
  "tag_chain s a [] \<longleftrightarrow> tag_type s a = MULTIBOOT2_TAG_TYPE_END"
| "tag_chain s a ((b, t) # ts) \<longleftrightarrow>
     b = a \<and> tag_type s a = t \<and> t \<noteq> MULTIBOOT2_TAG_TYPE_END \<and> tag_chain s (ALIGN (a + ucast (tag_size s a)) 8) ts"

text \<open>The address of the first tag of a type, 0 when there is none.\<close>

definition first_tag :: "u32 \<Rightarrow> (u64 \<times> u32) list \<Rightarrow> u64" where
  "first_tag type ts = (case filter (\<lambda>(b, t). t = type) ts of [] \<Rightarrow> 0 | (b, _) # _ \<Rightarrow> b)"

lemma first_tag_simps [simp]:
  "first_tag type [] = 0" "first_tag type ((b, t) # ts) = (if t = type then b else first_tag type ts)"
  by (simp_all add: first_tag_def)

lemma find_tag_loop:
  "tag_chain s a ts \<Longrightarrow> loopK (find_tag_round type) a s = Some (Inr (first_tag type ts, s))"
proof (induction ts arbitrary: a)
  case Nil
  then show ?case by (intro loopK_leave) (simp add: find_tag_round_def)
next
  case (Cons x ts)
  obtain b t where x: "x = (b, t)" by (cases x)
  show ?case
  proof (cases "t = type")
    case True
    then show ?thesis using Cons.prems x by (intro loopK_leave) (auto simp: find_tag_round_def)
  next
    case False
    then have "find_tag_round type a s = Some (Inr (Inr (ALIGN (a + ucast (tag_size s a)) 8), s))"
      using Cons.prems x by (simp add: find_tag_round_def)
    then have "loopK (find_tag_round type) a s = loopK (find_tag_round type) (ALIGN (a + ucast (tag_size s a)) 8) s"
      by (rule loopK_again)
    then show ?thesis using Cons x False by simp
  qed
qed

lemma find_tag_run:
  "info \<noteq> 0 \<Longrightarrow> tag_chain s (info + 8) ts \<Longrightarrow> find_multiboot2_tag type info s = Some (Inr (first_tag type ts, s))"
  by (simp add: find_multiboot2_tag_def find_tag_loop)

text \<open>The chain does not depend on the log.\<close>

lemma tag_chain_log [simp]: "tag_chain (s\<lparr>mb_log := l\<rparr>) a ts = tag_chain s a ts"
  by (induction s a ts rule: tag_chain.induct) (simp_all add: tag_type_def tag_size_def)

lemma log_run [simp]:
  "LOG_INFO fmt args s = Some (Inr ((), s\<lparr>mb_log := mb_log s @ [(''[INFO] '' @ fmt @ ''\<newline>'', args)]\<rparr>))"
  "LOG_ERROR fmt args s = Some (Inr ((), s\<lparr>mb_log := mb_log s @ [(''[ERROR] '' @ fmt @ ''\<newline>'', args)]\<rparr>))"
  "mb_printf fmt args s = Some (Inr ((), s\<lparr>mb_log := mb_log s @ [(fmt, args)]\<rparr>))"
  by (simp_all add: LOG_INFO_def LOG_ERROR_def mb_printf_def)

section \<open>The memory map\<close>

definition mmap_line :: "mb_state \<Rightarrow> u64 \<Rightarrow> string \<times> mb_arg list" where
  "mmap_line s entry = (''  Base Address: 0x%016lx, Length: 0x%016lx, Type: %s\<newline>'',
     [MbInt (rd64 (mb_mem s) entry), MbInt (rd64 (mb_mem s) (entry + 8)),
      MbName (get_memory_type_string (rd32 (mb_mem s) (entry + 16)))])"

text \<open>The entries the loop visits from \<open>entry\<close> on.\<close>

fun mmap_entries :: "mb_state \<Rightarrow> u64 \<Rightarrow> u64 \<Rightarrow> u64 list \<Rightarrow> bool" where
  "mmap_entries s tag entry [] \<longleftrightarrow> \<not> entry < tag + ucast (tag_size s tag)"
| "mmap_entries s tag entry (e # es) \<longleftrightarrow>
     e = entry \<and> entry < tag + ucast (tag_size s tag) \<and> mmap_entries s tag (entry + ucast (rd32 (mb_mem s) (tag + 8))) es"

lemma mmap_log [simp]:
  "mmap_entries (s\<lparr>mb_log := l\<rparr>) tag e es = mmap_entries s tag e es" "mmap_line (s\<lparr>mb_log := l\<rparr>) = mmap_line s"
  by (induction s tag e es rule: mmap_entries.induct) (simp_all add: tag_size_def mmap_line_def fun_eq_iff)

lemma print_mmap_loop:
  "mmap_entries s tag entry es \<Longrightarrow>
   loopK (print_mmap_round tag) entry s = Some (Inr ((), s\<lparr>mb_log := mb_log s @ map (mmap_line s) es\<rparr>))"
proof (induction es arbitrary: entry s)
  case Nil
  then show ?case by (intro loopK_leave) (simp add: print_mmap_round_def)
next
  case (Cons e es)
  let ?next = "entry + ucast (rd32 (mb_mem s) (tag + 8))" and ?s' = "s\<lparr>mb_log := mb_log s @ [mmap_line s entry]\<rparr>"
  have "print_mmap_round tag entry s = Some (Inr (Inr ?next, ?s'))"
    using Cons.prems by (simp add: print_mmap_round_def mmap_line_def)
  then have "loopK (print_mmap_round tag) entry s = loopK (print_mmap_round tag) ?next ?s'" by (rule loopK_again)
  then show ?case using Cons.IH [of ?s' ?next] Cons.prems by simp
qed

text \<open>A memory map tag the loop can finish: positive entry size, and the tag does not touch the end of memory.\<close>

definition mmap_ok :: "mb_state \<Rightarrow> u64 \<Rightarrow> bool" where
  "mmap_ok s tag \<longleftrightarrow> 0 < rd32 (mb_mem s) (tag + 8) \<and> unat tag + unat (tag_size s tag) + unat (rd32 (mb_mem s) (tag + 8)) < 2 ^ 64"

lemma unat_ucast_32: "unat (ucast (x :: u32) :: u64) = unat x"
  using unat_lt2p [of x] by (simp add: unsigned_ucast_eq take_bit_nat_eq_self)

lemma mmap_entries_exist:
  assumes "mmap_ok s tag"
  shows "\<exists>es. mmap_entries s tag entry es"
proof (induction "unat (tag + ucast (tag_size s tag)) - unat entry" arbitrary: entry rule: less_induct)
  case less
  let ?stop = "tag + ucast (tag_size s tag)" and ?esz = "rd32 (mb_mem s) (tag + 8)"
  show ?case
  proof (cases "entry < ?stop")
    case False
    then show ?thesis by (intro exI [of _ "[]"]) simp
  next
    case True
    have sz: "0 < unat ?esz" "unat tag + unat (tag_size s tag) + unat ?esz < 2 ^ 64"
      using assms by (auto simp: mmap_ok_def word_less_nat_alt)
    have u: "unat (ucast ?esz :: u64) = unat ?esz" "unat (ucast (tag_size s tag) :: u64) = unat (tag_size s tag)"
      by (simp_all add: unat_ucast_32)
    have e: "unat ?stop = unat tag + unat (tag_size s tag)" using sz u by (simp add: unat_plus_if')
    have l: "unat entry < unat ?stop" using True by (simp add: word_less_nat_alt)
    then have "unat (entry + ucast ?esz) = unat entry + unat ?esz" using sz(2) u e by (simp add: unat_plus_if')
    then have "unat ?stop - unat (entry + ucast ?esz) < unat ?stop - unat entry" using l sz(1) by simp
    from less [OF this] obtain es where "mmap_entries s tag (entry + ucast ?esz) es" by blast
    then show ?thesis using True by (intro exI [of _ "entry # es"]) simp
  qed
qed

section \<open>The reports\<close>

text \<open>Code that returns from a state whatever the log holds, and only adds lines to it.\<close>

definition only_logs :: "mb_state \<Rightarrow> (mb_state, unit) km \<Rightarrow> bool" where
  "only_logs s m \<longleftrightarrow> (\<forall>l. \<exists>ls. m (s\<lparr>mb_log := l\<rparr>) = Some (Inr ((), s\<lparr>mb_log := l @ ls\<rparr>)))"

lemma only_logs_print [simp]: "only_logs s (LOG_INFO fmt args)" "only_logs s (LOG_ERROR fmt args)"
  by (auto simp: only_logs_def)

lemma only_logs_seq: "only_logs s m \<Longrightarrow> only_logs s k \<Longrightarrow> only_logs s (seqK m k)"
  unfolding only_logs_def by (metis append_assoc bindK_returns)

text \<open>A report about a tag that the search finds.\<close>

lemma only_logs_find:
  assumes "info \<noteq> 0" "tag_chain s (info + 8) ts" "only_logs s (f (first_tag type ts))"
  shows "only_logs s (bindK (find_multiboot2_tag type info) f)"
  using assms find_tag_run [of info "s\<lparr>mb_log := l\<rparr>" ts type for l] by (simp add: only_logs_def)

lemma only_logs_get: "(\<And>l. g (s\<lparr>mb_log := l\<rparr>) = g s) \<Longrightarrow> only_logs s (f (g s)) \<Longrightarrow> only_logs s (bindK (getK g) f)"
  by (simp add: only_logs_def)

lemma print_memory_map_logs:
  assumes "info \<noteq> 0" "tag_chain s (info + 8) ts"
    and "first_tag MULTIBOOT2_TAG_TYPE_MMAP ts = 0 \<or> mmap_ok s (first_tag MULTIBOOT2_TAG_TYPE_MMAP ts)"
  shows "only_logs s (print_memory_map info)"
  unfolding print_memory_map_def
proof (rule only_logs_find [OF assms(1,2)])
  let ?tag = "first_tag MULTIBOOT2_TAG_TYPE_MMAP ts"
  have "only_logs s (loopK (print_mmap_round ?tag) (?tag + 16))" if "mmap_ok s ?tag"
    using mmap_entries_exist [OF that, of "?tag + 16"] print_mmap_loop by (fastforce simp: only_logs_def)
  then show "only_logs s (if ?tag = 0 then LOG_INFO ''No memory map found'' []
      else seqK (LOG_INFO ''Memory Map:'' []) (loopK (print_mmap_round ?tag) (?tag + 16)))"
    using assms(3) by (auto intro: only_logs_seq)
qed

lemma parse_multiboot2_info_logs:
  assumes "info \<noteq> 0" "tag_chain s (info + 8) ts"
    and "first_tag MULTIBOOT2_TAG_TYPE_MMAP ts = 0 \<or> mmap_ok s (first_tag MULTIBOOT2_TAG_TYPE_MMAP ts)"
  shows "only_logs s (parse_multiboot2_info info)" "only_logs s (print_system_info info)"
proof -
  have "only_logs s (print_bootloader_info info)" "only_logs s (print_kernel_cmdline info)"
    unfolding print_bootloader_info_def print_kernel_cmdline_def by (intro only_logs_find [OF assms(1,2)]; simp)+
  then show "only_logs s (parse_multiboot2_info info)"
    using assms(1) print_memory_map_logs [OF assms] unfolding parse_multiboot2_info_def
    by (auto intro!: only_logs_get only_logs_seq)
  show "only_logs s (print_system_info info)"
    unfolding print_system_info_def
    by (intro only_logs_find [OF assms(1,2)]) (auto intro!: only_logs_get only_logs_seq)
qed

text \<open>A tag of size 0 at an aligned address that is not the one searched for is searched for ever.\<close>

lemma find_tag_diverges:
  assumes "tag_type s a \<noteq> MULTIBOOT2_TAG_TYPE_END" "tag_type s a \<noteq> type" "tag_size s a = 0" "ALIGN a 8 = a"
  shows "loopK (find_tag_round type) a s = None"
  using assms by (intro loopK_stuck) (simp add: find_tag_round_def)

section \<open>A concrete information structure\<close>

text \<open>A boot loader name tag of 16 bytes, an empty memory map and the end tag, at address 4096.\<close>

definition mb_demo :: mb_state where
  "mb_demo = \<lparr>mb_mem = (\<lambda>a. if a = 0x1008 then 2 else if a = 0x100C then 16 else
       if a = 0x1018 then 6 else if a = 0x101C then 16 else if a = 0x1020 then 24 else 0), mb_log = []\<rparr>"

lemma mb_demo_chain: "tag_chain mb_demo 0x1008 [(0x1008, 2), (0x1018, 6)]"
  by (simp add: mb_demo_def tag_type_def tag_size_def rd32_def ALIGN_def)

section \<open>Properties\<close>



end
