(* ===== verification/ProcTable.thy ===== *)
theory ProcTable
  imports KPrelude
begin

text \<open>
  The process table \<^verbatim>\<open>src/kernel/processes.h\<close>: the class \<open>ProcessManager\<close> with its map from
  process identifiers to process descriptions, its mutex and its counter of identifiers.
  Every public operation runs under the mutex (\<open>std::lock_guard\<close>). The clock and the current
  directory are arguments; the current directory may be unavailable, and then
  \<open>std::filesystem::current_path\<close> throws. An exception is the left value of a result.
\<close>

section \<open>Data\<close>

record ProcessInfo =
  pi_pid :: int
  pi_name :: string
  pi_running :: bool
  pi_cpuTime :: u64
  pi_wallClockTime :: u64
  pi_startTime :: int
  pi_endTime :: int
  pi_owner :: string
  pi_priority :: int
  pi_status :: int
  pi_numThreads :: int
  pi_commandLineArgs :: "string list"
  pi_workingDirectory :: string
  pi_environmentVariables :: "(string \<times> string) list"
  pi_parentProcess :: int
  pi_childProcesses :: "int list"
  pi_memoryUsage :: u64

record ProcessManager =
  processMap :: "int \<rightharpoonup> ProcessInfo"
  pm_mutex :: bool
  nextPid :: int

abbreviation INT_MAX :: int where "INT_MAX \<equiv> 2147483647"

definition new_manager :: ProcessManager where
  "new_manager = \<lparr>processMap = Map.empty, pm_mutex = False, nextPid = 1\<rparr>"

section \<open>Operations\<close>

definition locked :: "(ProcessManager, 'a) km \<Rightarrow> (ProcessManager, 'a) km" where
  "locked m = seqK (spin_lock pm_mutex pm_mutex_update) (bindK m (\<lambda>r. seqK (spin_unlock pm_mutex_update) (retK r)))"

text \<open>\<open>nextPid++\<close> on a signed integer: the increment is undefined at the largest value.\<close>

definition generateUniquePid :: "(ProcessManager, int) km" where
  "generateUniquePid = bindK (getK nextPid) (\<lambda>p.
     if p = INT_MAX then stopK (Fault ''overflow'') else seqK (modK (\<lambda>s. s\<lparr>nextPid := p + 1\<rparr>)) (retK p))"

definition getCurrentUser :: string where "getCurrentUser = ''current_user''"
definition getCurrentProcessId :: int where "getCurrentProcessId = 0"
definition getCurrentEnvironment :: "(string \<times> string) list" where
  "getCurrentEnvironment = [(''PATH'', ''/usr/bin:/bin'')]"

text \<open>A lookup of one field and an update of one entry, the shape of every getter and setter.\<close>

definition get_field :: "(ProcessInfo \<Rightarrow> 'a) \<Rightarrow> int \<Rightarrow> (ProcessManager, 'a option) km" where
  "get_field f pid = locked (bindK (getK (\<lambda>s. processMap s pid)) (\<lambda>it.
     case it of Some info \<Rightarrow> retK (Some (f info)) | None \<Rightarrow> retK None))"

definition set_entry :: "int \<Rightarrow> (ProcessInfo \<Rightarrow> ProcessInfo) \<Rightarrow> (ProcessManager, unit) km" where
  "set_entry pid f = bindK (getK (\<lambda>s. processMap s pid)) (\<lambda>it.
     case it of Some info \<Rightarrow> modK (\<lambda>s. s\<lparr>processMap := (processMap s)(pid \<mapsto> f info)\<rparr>) | None \<Rightarrow> retK ())"

definition getProcessInfo :: "int \<Rightarrow> (ProcessManager, ProcessInfo option) km" where
  "getProcessInfo pid = locked (getK (\<lambda>s. processMap s pid))"

definition getProcesses :: "(ProcessManager, (int \<rightharpoonup> ProcessInfo) option) km" where
  "getProcesses = locked (getK (\<lambda>s. Some (processMap s)))"

definition addProcess :: "int \<Rightarrow> string option \<Rightarrow> string \<Rightarrow> string list \<Rightarrow> (ProcessManager, string + bool) km" where
  "addProcess now current_path name commandLineArgs =
     locked (bindK generateUniquePid (\<lambda>pid.
       case current_path of
         None \<Rightarrow> retK (Inl ''filesystem_error'')
       | Some cwd \<Rightarrow>
           seqK (modK (\<lambda>s. s\<lparr>processMap := (processMap s)(pid \<mapsto>
                   \<lparr>pi_pid = pid, pi_name = name, pi_running = True, pi_cpuTime = 0, pi_wallClockTime = 0,
                    pi_startTime = now, pi_endTime = 0, pi_owner = getCurrentUser, pi_priority = 0, pi_status = 0,
                    pi_numThreads = 1, pi_commandLineArgs = commandLineArgs, pi_workingDirectory = cwd,
                    pi_environmentVariables = getCurrentEnvironment, pi_parentProcess = getCurrentProcessId,
                    pi_childProcesses = [], pi_memoryUsage = 0\<rparr>)\<rparr>))
                (retK (Inr True))))"

definition removeProcess :: "int \<Rightarrow> (ProcessManager, bool) km" where
  "removeProcess pid = locked (bindK (getK (\<lambda>s. processMap s pid)) (\<lambda>it.
     seqK (modK (\<lambda>s. s\<lparr>processMap := (processMap s)(pid := None)\<rparr>)) (retK (it \<noteq> None))))"

definition terminateProcess :: "int \<Rightarrow> int \<Rightarrow> (ProcessManager, bool) km" where
  "terminateProcess now pid = locked (bindK (getK (\<lambda>s. processMap s pid)) (\<lambda>it.
     seqK (set_entry pid (\<lambda>i. i\<lparr>pi_running := False, pi_endTime := now\<rparr>)) (retK (it \<noteq> None))))"

definition getCPUTime :: "int \<Rightarrow> (ProcessManager, u64 option) km" where "getCPUTime = get_field pi_cpuTime"
definition getWallClockTime :: "int \<Rightarrow> (ProcessManager, u64 option) km" where "getWallClockTime = get_field pi_wallClockTime"
definition getParentProcess :: "int \<Rightarrow> (ProcessManager, int option) km" where "getParentProcess = get_field pi_parentProcess"
definition getChildProcesses :: "int \<Rightarrow> (ProcessManager, int list option) km" where "getChildProcesses = get_field pi_childProcesses"
definition getMemoryUsage :: "int \<Rightarrow> (ProcessManager, u64 option) km" where "getMemoryUsage = get_field pi_memoryUsage"
definition getPriority :: "int \<Rightarrow> (ProcessManager, int option) km" where "getPriority = get_field pi_priority"
definition getStatus :: "int \<Rightarrow> (ProcessManager, int option) km" where "getStatus = get_field pi_status"
definition getNumThreads :: "int \<Rightarrow> (ProcessManager, int option) km" where "getNumThreads = get_field pi_numThreads"
definition getCommandLineArgs :: "int \<Rightarrow> (ProcessManager, string list option) km" where
  "getCommandLineArgs = get_field pi_commandLineArgs"
definition getWorkingDirectory :: "int \<Rightarrow> (ProcessManager, string option) km" where
  "getWorkingDirectory = get_field pi_workingDirectory"
definition getEnvironmentVariables :: "int \<Rightarrow> (ProcessManager, (string \<times> string) list option) km" where
  "getEnvironmentVariables = get_field pi_environmentVariables"
definition getProcessOwner :: "int \<Rightarrow> (ProcessManager, string option) km" where "getProcessOwner = get_field pi_owner"
definition getProcessStartTime :: "int \<Rightarrow> (ProcessManager, int option) km" where "getProcessStartTime = get_field pi_startTime"
definition getProcessEndTime :: "int \<Rightarrow> (ProcessManager, int option) km" where "getProcessEndTime = get_field pi_endTime"

definition setPriority :: "int \<Rightarrow> int \<Rightarrow> (ProcessManager, unit) km" where
  "setPriority pid priority = locked (set_entry pid (\<lambda>i. i\<lparr>pi_priority := priority\<rparr>))"
definition setStatus :: "int \<Rightarrow> int \<Rightarrow> (ProcessManager, unit) km" where
  "setStatus pid status = locked (set_entry pid (\<lambda>i. i\<lparr>pi_status := status\<rparr>))"
definition setNumThreads :: "int \<Rightarrow> int \<Rightarrow> (ProcessManager, unit) km" where
  "setNumThreads pid numThreads = locked (set_entry pid (\<lambda>i. i\<lparr>pi_numThreads := numThreads\<rparr>))"
definition setParentProcess :: "int \<Rightarrow> int \<Rightarrow> (ProcessManager, unit) km" where
  "setParentProcess pid parentProcess = locked (set_entry pid (\<lambda>i. i\<lparr>pi_parentProcess := parentProcess\<rparr>))"
definition setChildProcesses :: "int \<Rightarrow> int list \<Rightarrow> (ProcessManager, unit) km" where
  "setChildProcesses pid childProcesses = locked (set_entry pid (\<lambda>i. i\<lparr>pi_childProcesses := childProcesses\<rparr>))"
definition setMemoryUsage :: "int \<Rightarrow> u64 \<Rightarrow> (ProcessManager, unit) km" where
  "setMemoryUsage pid memoryUsage = locked (set_entry pid (\<lambda>i. i\<lparr>pi_memoryUsage := memoryUsage\<rparr>))"
definition setProcessOwner :: "int \<Rightarrow> string \<Rightarrow> (ProcessManager, unit) km" where
  "setProcessOwner pid owner = locked (set_entry pid (\<lambda>i. i\<lparr>pi_owner := owner\<rparr>))"
definition setProcessStartTime :: "int \<Rightarrow> int \<Rightarrow> (ProcessManager, unit) km" where
  "setProcessStartTime pid startTime = locked (set_entry pid (\<lambda>i. i\<lparr>pi_startTime := startTime\<rparr>))"
definition setProcessEndTime :: "int \<Rightarrow> int \<Rightarrow> (ProcessManager, unit) km" where
  "setProcessEndTime pid endTime = locked (set_entry pid (\<lambda>i. i\<lparr>pi_endTime := endTime\<rparr>))"
definition setProcessRunning :: "int \<Rightarrow> bool \<Rightarrow> (ProcessManager, unit) km" where
  "setProcessRunning pid running = locked (set_entry pid (\<lambda>i. i\<lparr>pi_running := running\<rparr>))"

text \<open>\<open>suspendProcess\<close> and \<open>resumeProcess\<close> succeed only on a process in the other state.\<close>

definition suspendProcess :: "int \<Rightarrow> (ProcessManager, bool) km" where
  "suspendProcess pid = locked (bindK (getK (\<lambda>s. processMap s pid)) (\<lambda>it.
     case it of
       Some info \<Rightarrow>
         if pi_running info then seqK (set_entry pid (\<lambda>i. i\<lparr>pi_running := False\<rparr>)) (retK True) else retK False
     | None \<Rightarrow> retK False))"

definition resumeProcess :: "int \<Rightarrow> (ProcessManager, bool) km" where
  "resumeProcess pid = locked (bindK (getK (\<lambda>s. processMap s pid)) (\<lambda>it.
     case it of
       Some info \<Rightarrow>
         if \<not> pi_running info then seqK (set_entry pid (\<lambda>i. i\<lparr>pi_running := True\<rparr>)) (retK True) else retK False
     | None \<Rightarrow> retK False))"

definition isProcessRunning :: "int \<Rightarrow> (ProcessManager, bool) km" where
  "isProcessRunning pid = locked (bindK (getK (\<lambda>s. processMap s pid)) (\<lambda>it.
     case it of Some info \<Rightarrow> retK (pi_running info) | None \<Rightarrow> retK False))"

text \<open>The operations that change the table, as values, with the clock and directory a call sees.\<close>

datatype pm_op =
    AddProcess int "string option" string "string list"
  | RemoveProcess int
  | TerminateProcess int int
  | SuspendProcess int
  | ResumeProcess int
  | SetPriority int int
  | SetStatus int int
  | SetNumThreads int int
  | SetParentProcess int int
  | SetChildProcesses int "int list"
  | SetMemoryUsage int u64
  | SetProcessOwner int string
  | SetProcessStartTime int int
  | SetProcessEndTime int int
  | SetProcessRunning int bool

abbreviation ignoreK :: "('s, 'a) km \<Rightarrow> ('s, unit) km" where
  "ignoreK m \<equiv> bindK m (\<lambda>_. retK ())"

fun pm_step :: "pm_op \<Rightarrow> (ProcessManager, unit) km" where
  "pm_step (AddProcess now cwd name args) = ignoreK (addProcess now cwd name args)"
| "pm_step (RemoveProcess pid) = ignoreK (removeProcess pid)"
| "pm_step (TerminateProcess now pid) = ignoreK (terminateProcess now pid)"
| "pm_step (SuspendProcess pid) = ignoreK (suspendProcess pid)"
| "pm_step (ResumeProcess pid) = ignoreK (resumeProcess pid)"
| "pm_step (SetPriority pid x) = setPriority pid x"
| "pm_step (SetStatus pid x) = setStatus pid x"
| "pm_step (SetNumThreads pid x) = setNumThreads pid x"
| "pm_step (SetParentProcess pid x) = setParentProcess pid x"
| "pm_step (SetChildProcesses pid x) = setChildProcesses pid x"
| "pm_step (SetMemoryUsage pid x) = setMemoryUsage pid x"
| "pm_step (SetProcessOwner pid x) = setProcessOwner pid x"
| "pm_step (SetProcessStartTime pid x) = setProcessStartTime pid x"
| "pm_step (SetProcessEndTime pid x) = setProcessEndTime pid x"
| "pm_step (SetProcessRunning pid x) = setProcessRunning pid x"

primrec pm_run :: "pm_op list \<Rightarrow> (ProcessManager, unit) km" where
  "pm_run [] = retK ()"
| "pm_run (x # xs) = seqK (pm_step x) (pm_run xs)"

text \<open>The process an operation names; adding names none.\<close>

fun pm_target :: "pm_op \<Rightarrow> int option" where
  "pm_target (AddProcess now cwd name args) = None"
| "pm_target (RemoveProcess pid) = Some pid"
| "pm_target (TerminateProcess now pid) = Some pid"
| "pm_target (SuspendProcess pid) = Some pid"
| "pm_target (ResumeProcess pid) = Some pid"
| "pm_target (SetPriority pid x) = Some pid"
| "pm_target (SetStatus pid x) = Some pid"
| "pm_target (SetNumThreads pid x) = Some pid"
| "pm_target (SetParentProcess pid x) = Some pid"
| "pm_target (SetChildProcesses pid x) = Some pid"
| "pm_target (SetMemoryUsage pid x) = Some pid"
| "pm_target (SetProcessOwner pid x) = Some pid"
| "pm_target (SetProcessStartTime pid x) = Some pid"
| "pm_target (SetProcessEndTime pid x) = Some pid"
| "pm_target (SetProcessRunning pid x) = Some pid"

section \<open>Invariant\<close>

text \<open>Entries are stored under their own identifier, identifiers were handed out, the mutex is free.\<close>

definition pm_inv :: "ProcessManager \<Rightarrow> bool" where
  "pm_inv s \<longleftrightarrow> (\<forall>p i. processMap s p = Some i \<longrightarrow> pi_pid i = p \<and> 0 < p \<and> p < nextPid s) \<and>
     finite (dom (processMap s)) \<and> 0 < nextPid s \<and> nextPid s \<le> INT_MAX \<and> \<not> pm_mutex s"

text \<open>What one step may do: at most the entry it names changes, and identifiers only go up.\<close>

definition pm_frame :: "int set \<Rightarrow> ProcessManager \<Rightarrow> ProcessManager \<Rightarrow> bool" where
  "pm_frame A s s' \<longleftrightarrow> nextPid s \<le> nextPid s' \<and>
     (\<forall>p < nextPid s. p \<notin> A \<longrightarrow> processMap s' p = processMap s p) \<and>
     (\<forall>p < nextPid s. processMap s p = None \<longrightarrow> processMap s' p = None)"

lemma set_entry_run:
  "set_entry pid f s = Some (Inr ((), s\<lparr>processMap := (case processMap s pid of
      Some i \<Rightarrow> (processMap s)(pid \<mapsto> f i) | None \<Rightarrow> processMap s)\<rparr>))"
  by (simp add: set_entry_def split: option.splits)

text \<open>An entry rewritten in place, the effect of every setter.\<close>

definition with_entry :: "int \<Rightarrow> (ProcessInfo \<Rightarrow> ProcessInfo) \<Rightarrow> ProcessManager \<Rightarrow> ProcessManager" where
  "with_entry pid f s = s\<lparr>processMap := (processMap s)(pid := map_option f (processMap s pid))\<rparr>"

lemma with_entry_eq:
  "s\<lparr>processMap := (case processMap s pid of Some i \<Rightarrow> (processMap s)(pid \<mapsto> f i) | None \<Rightarrow> processMap s)\<rparr> = with_entry pid f s"
  by (cases s; cases "processMap s pid") (simp_all add: with_entry_def fun_upd_idem)

lemma locked_set_entry:
  assumes "\<not> pm_mutex s"
  shows "locked (set_entry pid f) s = Some (Inr ((), with_entry pid f s))"
proof -
  have "set_entry pid f (s\<lparr>pm_mutex := True\<rparr>) = Some (Inr ((), with_entry pid f (s\<lparr>pm_mutex := True\<rparr>)))"
    by (simp only: set_entry_run with_entry_eq)
  with assms show ?thesis by (cases s) (simp add: locked_def with_entry_def)
qed

lemma with_entry_ok:
  assumes "pm_inv s" "\<And>i. pi_pid (f i) = pi_pid i"
  shows "pm_inv (with_entry pid f s) \<and> pm_frame {pid} s (with_entry pid f s) \<and> nextPid (with_entry pid f s) = nextPid s"
proof -
  have "dom (processMap (with_entry pid f s)) = dom (processMap s)"
    by (auto simp: with_entry_def split: if_splits)
  then show ?thesis using assms by (auto simp: pm_inv_def pm_frame_def with_entry_def split: if_splits)
qed

lemma with_entry_id: "processMap s pid = None \<Longrightarrow> with_entry pid f s = s"
  by (cases s) (auto simp: with_entry_def fun_upd_idem)

lemma running_same: "pi_running i = b \<Longrightarrow> i\<lparr>pi_running := b\<rparr> = i"
  by (cases i) simp

text \<open>Suspending, resuming and terminating are updates of the entry as well, under their guard.\<close>

lemma suspend_run:
  assumes "\<not> pm_mutex s"
  shows "suspendProcess pid s =
    Some (Inr (\<exists>i. processMap s pid = Some i \<and> pi_running i, with_entry pid (\<lambda>i. i\<lparr>pi_running := False\<rparr>) s))"
  using assms
  by (cases s; cases "processMap s pid")
    (auto simp: suspendProcess_def locked_def set_entry_def with_entry_def fun_upd_idem bindK_assoc running_same)

lemma resume_run:
  assumes "\<not> pm_mutex s"
  shows "resumeProcess pid s =
    Some (Inr (\<exists>i. processMap s pid = Some i \<and> \<not> pi_running i, with_entry pid (\<lambda>i. i\<lparr>pi_running := True\<rparr>) s))"
  using assms
  by (cases s; cases "processMap s pid")
    (auto simp: resumeProcess_def locked_def set_entry_def with_entry_def fun_upd_idem bindK_assoc running_same)

lemma terminate_run:
  assumes "\<not> pm_mutex s"
  shows "terminateProcess now pid s =
    Some (Inr (processMap s pid \<noteq> None, with_entry pid (\<lambda>i. i\<lparr>pi_running := False, pi_endTime := now\<rparr>) s))"
  using assms
  by (cases s; cases "processMap s pid")
    (auto simp: terminateProcess_def locked_def set_entry_def with_entry_def fun_upd_idem bindK_assoc)

lemma get_field_run:
  assumes "\<not> pm_mutex s"
  shows "get_field f pid s = Some (Inr (map_option f (processMap s pid), s))"
  using assms by (cases s; cases "processMap s pid") (simp_all add: get_field_def locked_def bindK_assoc)

lemma remove_run:
  assumes "\<not> pm_mutex s"
  shows "removeProcess pid s = Some (Inr (processMap s pid \<noteq> None, s\<lparr>processMap := (processMap s)(pid := None)\<rparr>))"
  using assms by (cases s) (simp add: removeProcess_def locked_def bindK_assoc)

text \<open>The description a new process gets, and what adding one does.\<close>

definition new_process :: "int \<Rightarrow> int \<Rightarrow> string \<Rightarrow> string \<Rightarrow> string list \<Rightarrow> ProcessInfo" where
  "new_process pid now cwd name args =
     \<lparr>pi_pid = pid, pi_name = name, pi_running = True, pi_cpuTime = 0, pi_wallClockTime = 0,
      pi_startTime = now, pi_endTime = 0, pi_owner = ''current_user'', pi_priority = 0, pi_status = 0,
      pi_numThreads = 1, pi_commandLineArgs = args, pi_workingDirectory = cwd,
      pi_environmentVariables = [(''PATH'', ''/usr/bin:/bin'')], pi_parentProcess = 0,
      pi_childProcesses = [], pi_memoryUsage = 0\<rparr>"

lemma add_run:
  assumes "\<not> pm_mutex s" "nextPid s < INT_MAX"
  shows "addProcess now cwd name args s = (case cwd of
      None \<Rightarrow> Some (Inr (Inl ''filesystem_error'', s\<lparr>nextPid := nextPid s + 1\<rparr>))
    | Some d \<Rightarrow> Some (Inr (Inr True, s\<lparr>nextPid := nextPid s + 1,
        processMap := (processMap s)(nextPid s \<mapsto> new_process (nextPid s) now d name args)\<rparr>)))"
  using assms
  by (cases s; cases cwd)
    (simp_all add: addProcess_def locked_def generateUniquePid_def bindK_assoc new_process_def
      getCurrentUser_def getCurrentProcessId_def getCurrentEnvironment_def)

section \<open>Runs of operations\<close>

lemma pm_frame_refl: "pm_frame A s s"
  by (simp add: pm_frame_def)

lemma pm_frame_trans: "pm_frame A s t \<Longrightarrow> pm_frame B t u \<Longrightarrow> pm_frame (A \<union> B) s u"
  by (auto simp: pm_frame_def)

lemma add_ok:
  assumes "pm_inv s" "nextPid s < INT_MAX"
  shows "\<exists>s'. pm_step (AddProcess now cwd name args) s = Some (Inr ((), s')) \<and> pm_inv s' \<and> pm_frame {} s s' \<and>
    nextPid s' \<le> nextPid s + 1"
proof -
  have l: "\<not> pm_mutex s" using assms(1) by (simp add: pm_inv_def)
  have "pm_inv (s\<lparr>nextPid := nextPid s + 1\<rparr>)" using assms by (force simp: pm_inv_def)
  moreover have "pm_inv (s\<lparr>nextPid := nextPid s + 1,
      processMap := (processMap s)(nextPid s \<mapsto> new_process (nextPid s) now d name args)\<rparr>)" for d
    using assms by (force simp: pm_inv_def new_process_def)
  ultimately show ?thesis
    using add_run [OF l assms(2), of now cwd name args] by (cases cwd) (simp_all add: pm_frame_def)
qed

lemma pm_step_ok:
  assumes "pm_inv s" "nextPid s < INT_MAX"
  shows "\<exists>s'. pm_step x s = Some (Inr ((), s')) \<and> pm_inv s' \<and> pm_frame (set_option (pm_target x)) s s' \<and>
    nextPid s' \<le> nextPid s + 1"
proof -
  have l: "\<not> pm_mutex s" using assms(1) by (simp add: pm_inv_def)
  note runs = locked_set_entry [OF l] suspend_run [OF l] resume_run [OF l] terminate_run [OF l] remove_run [OF l]
  note ok = with_entry_ok [OF assms(1)]
  have rm: "pm_inv (s\<lparr>processMap := (processMap s)(p := None)\<rparr>) \<and> pm_frame {p} s (s\<lparr>processMap := (processMap s)(p := None)\<rparr>)" for p
    using assms(1) by (auto simp: pm_inv_def pm_frame_def)
  show ?thesis
  proof (cases x)
    case (AddProcess now cwd name args)
    with add_ok [OF assms] show ?thesis by simp
  qed (use runs ok rm in \<open>simp_all add: setPriority_def setStatus_def setNumThreads_def setParentProcess_def
    setChildProcesses_def setMemoryUsage_def setProcessOwner_def setProcessStartTime_def setProcessEndTime_def setProcessRunning_def\<close>)
qed

lemma pm_run_ok:
  assumes "pm_inv s" "nextPid s + int (length xs) \<le> INT_MAX"
  shows "\<exists>s'. pm_run xs s = Some (Inr ((), s')) \<and> pm_inv s' \<and> pm_frame (\<Union>x \<in> set xs. set_option (pm_target x)) s s'"
  using assms
proof (induction xs arbitrary: s)
  case (Cons x xs)
  obtain t where t: "pm_step x s = Some (Inr ((), t))" "pm_inv t" "pm_frame (set_option (pm_target x)) s t" "nextPid t \<le> nextPid s + 1"
    using pm_step_ok [OF Cons.prems(1)] Cons.prems(2) by fastforce
  obtain s' where "pm_run xs t = Some (Inr ((), s'))" "pm_inv s'" "pm_frame (\<Union>x \<in> set xs. set_option (pm_target x)) t s'"
    using Cons.IH [OF t(2)] Cons.prems(2) t(4) by auto
  then show ?case using t pm_frame_trans [OF t(3)] by auto
qed (simp add: pm_frame_refl)

section \<open>Getters and setters\<close>

text \<open>
  A field of a keyed table: a setter is seen by the getter of the same field and key and by
  no getter of another key, and setting the field of an unknown key does nothing.
\<close>

locale keyed_field =
  fixes inv :: "'s \<Rightarrow> bool"
    and known :: "'s \<Rightarrow> 'k \<Rightarrow> bool"
    and get :: "'k \<Rightarrow> ('s, 'v option) km"
    and set :: "'k \<Rightarrow> 'v \<Rightarrow> ('s, unit) km"
  assumes get_pure: "inv s \<Longrightarrow> \<exists>v. get k s = Some (Inr (v, s)) \<and> (v = None \<longleftrightarrow> \<not> known s k)"
    and set_ok: "inv s \<Longrightarrow> \<exists>s'. set k v s = Some (Inr ((), s')) \<and> inv s' \<and> known s' = known s \<and>
      (known s k \<longrightarrow> get k s' = Some (Inr (Some v, s'))) \<and> (\<not> known s k \<longrightarrow> s' = s) \<and>
      (\<forall>k'. k' \<noteq> k \<longrightarrow> map_option (map_sum id fst) (get k' s') = map_option (map_sum id fst) (get k' s))"
begin

text \<open>Of two values set for the same key the last is read back.\<close>

lemma set_set_get:
  assumes "inv s" "known s k"
  shows "\<exists>s'. seqK (set k v) (seqK (set k w) (get k)) s = Some (Inr (Some w, s')) \<and> inv s'"
proof -
  obtain t where t: "set k v s = Some (Inr ((), t))" "inv t" "known t = known s" using set_ok [OF assms(1)] by blast
  obtain u where "set k w t = Some (Inr ((), u))" "inv u" "get k u = Some (Inr (Some w, u))"
    using set_ok [OF t(2), of k w] assms(2) t(3) by auto
  then show ?thesis using t(1) by auto
qed

end

lemma field_laws:
  assumes upd: "\<And>v i. pi_pid (upd v i) = pi_pid i" and sel: "\<And>v i. f (upd v i) = v"
  shows "keyed_field pm_inv (\<lambda>s p. processMap s p \<noteq> None) (get_field f) (\<lambda>p v. locked (set_entry p (upd v)))"
proof
  fix s k
  assume "pm_inv s"
  then show "\<exists>v. get_field f k s = Some (Inr (v, s)) \<and> (v = None \<longleftrightarrow> \<not> processMap s k \<noteq> None)"
    by (simp add: get_field_run pm_inv_def)
next
  fix s k v
  assume inv: "pm_inv s"
  then have l: "\<not> pm_mutex s" by (simp add: pm_inv_def)
  let ?s = "with_entry k (upd v) s"
  have "pm_inv ?s" using with_entry_ok [OF inv] upd by blast
  moreover have "\<not> pm_mutex ?s" using l by (simp add: with_entry_def)
  moreover have "(\<lambda>p. processMap ?s p \<noteq> None) = (\<lambda>p. processMap s p \<noteq> None)" by (auto simp: with_entry_def)
  moreover have "map_option f (processMap ?s k) = Some v" if "processMap s k \<noteq> None"
    using that sel by (auto simp: with_entry_def)
  moreover have "processMap ?s k' = processMap s k'" if "k' \<noteq> k" for k' using that by (simp add: with_entry_def)
  ultimately show "\<exists>s'. locked (set_entry k (upd v)) s = Some (Inr ((), s')) \<and> pm_inv s' \<and>
      (\<lambda>p. processMap s' p \<noteq> None) = (\<lambda>p. processMap s p \<noteq> None) \<and>
      (processMap s k \<noteq> None \<longrightarrow> get_field f k s' = Some (Inr (Some v, s'))) \<and>
      (\<not> processMap s k \<noteq> None \<longrightarrow> s' = s) \<and>
      (\<forall>k'. k' \<noteq> k \<longrightarrow> map_option (map_sum id fst) (get_field f k' s') = map_option (map_sum id fst) (get_field f k' s))"
    using l by (auto simp: locked_set_entry get_field_run with_entry_id)
qed

abbreviation known_pid :: "ProcessManager \<Rightarrow> int \<Rightarrow> bool" where
  "known_pid \<equiv> (\<lambda>s p. processMap s p \<noteq> None)"

interpretation priority_field: keyed_field pm_inv known_pid getPriority setPriority
  unfolding getPriority_def setPriority_def by (rule field_laws) simp_all

interpretation status_field: keyed_field pm_inv known_pid getStatus setStatus
  unfolding getStatus_def setStatus_def by (rule field_laws) simp_all

interpretation threads_field: keyed_field pm_inv known_pid getNumThreads setNumThreads
  unfolding getNumThreads_def setNumThreads_def by (rule field_laws) simp_all

interpretation parent_field: keyed_field pm_inv known_pid getParentProcess setParentProcess
  unfolding getParentProcess_def setParentProcess_def by (rule field_laws) simp_all

interpretation children_field: keyed_field pm_inv known_pid getChildProcesses setChildProcesses
  unfolding getChildProcesses_def setChildProcesses_def by (rule field_laws) simp_all

interpretation memory_field: keyed_field pm_inv known_pid getMemoryUsage setMemoryUsage
  unfolding getMemoryUsage_def setMemoryUsage_def by (rule field_laws) simp_all

interpretation owner_field: keyed_field pm_inv known_pid getProcessOwner setProcessOwner
  unfolding getProcessOwner_def setProcessOwner_def by (rule field_laws) simp_all

interpretation start_field: keyed_field pm_inv known_pid getProcessStartTime setProcessStartTime
  unfolding getProcessStartTime_def setProcessStartTime_def by (rule field_laws) simp_all

interpretation end_field: keyed_field pm_inv known_pid getProcessEndTime setProcessEndTime
  unfolding getProcessEndTime_def setProcessEndTime_def by (rule field_laws) simp_all

text \<open>A terminated process can be resumed: its end time is set, yet it runs.\<close>

lemma terminated_resumes:
  assumes "pm_inv s" "processMap s pid = Some i"
  shows "\<exists>s'. seqK (ignoreK (terminateProcess now pid)) (resumeProcess pid) s = Some (Inr (True, s')) \<and>
    processMap s' pid = Some (i\<lparr>pi_running := True, pi_endTime := now\<rparr>)"
proof -
  have "\<not> pm_mutex s" using assms(1) by (simp add: pm_inv_def)
  then have "\<not> pm_mutex (with_entry pid f s)" for f by (simp add: with_entry_def)
  with assms \<open>\<not> pm_mutex s\<close> show ?thesis by (simp add: terminate_run resume_run) (simp add: with_entry_def)
qed

section \<open>Properties\<close>

text \<open>
  C27: Any sequence of operations of the process table, with any arguments, clock values and
  failures of the current directory, returns and keeps the table well formed (entries under
  their own identifier, mutex free), as long as the identifiers do not run out. No operation
  changes a process it does not name, and an identifier that is not in use is never used
  again: adding a process never replaces one and never revives a removed one.
\<close>

theorem process_table_invariant:
  assumes "pm_inv s" "nextPid s + int (length xs) \<le> 2147483647"
  shows "\<exists>s'. pm_run xs s = Some (Inr ((), s')) \<and> pm_inv s' \<and> nextPid s \<le> nextPid s' \<and>
    (\<forall>p < nextPid s. (\<forall>x \<in> set xs. pm_target x \<noteq> Some p) \<longrightarrow> processMap s' p = processMap s p) \<and>
    (\<forall>p < nextPid s. processMap s p = None \<longrightarrow> processMap s' p = None)"
  using pm_run_ok [OF assms] by (fastforce simp: pm_frame_def)

theorem process_table_invariant_witness:
  "\<exists>s'. pm_run [AddProcess 5 (Some ''/'') ''init'' [], AddProcess 6 None ''sh'' [], SetPriority 1 7, RemoveProcess 2] new_manager
      = Some (Inr ((), s')) \<and> pm_inv s' \<and> processMap s' 0 = None"
  using process_table_invariant [of new_manager "[AddProcess 5 (Some ''/'') ''init'' [], AddProcess 6 None ''sh'' [], SetPriority 1 7, RemoveProcess 2]"]
  by (auto simp: pm_inv_def new_manager_def)

end
