(* ===== verification/Reaper.thy ===== *)
theory Reaper
  imports KPrelude
begin

text \<open>
  The reaper thread of \<^verbatim>\<open>src/kernel/processes.cpp\<close>: the table of child processes, the counters
  of active processes and threads, logging, and the loop that waits for children and removes
  them. The system calls (\<open>pselect\<close>, \<open>read\<close>, \<open>waitpid\<close>) and the flag another thread sets are
  functions of the number of calls made so far. The file ends inside \<open>addProcess\<close>; what
  follows it is not there to be modelled.
\<close>

section \<open>Data\<close>

datatype ProcessState = RUNNING | PAUSED | EXITED | TERMINATED

record ProcessData =
  pd_pid :: int
  pd_priority :: int
  pd_state :: ProcessState

text \<open>A log line is its text with the numbers in it.\<close>

datatype log_part = LStr string | LInt int

record reaper_world =
  m_processes :: "int \<rightharpoonup> ProcessData"
  m_activeProcessCount :: u64
  m_activeThreadCount :: u64
  m_mutex :: bool
  m_logMutex :: bool
  log_is_open :: bool
  log_file :: "log_part list list"
  cerr :: "log_part list list"
  finished_signals :: nat
  os_calls_made :: nat

text \<open>What \<open>waitpid\<close> reports of a child, and what it returns: a child, nothing to report, or an error.\<close>

datatype wait_status = WExited int | WSignaled int | WOther
datatype wait_result = WChild int wait_status | WNothing | WError int

record reaper_os =
  ro_stop :: "nat \<Rightarrow> bool"
  ro_pselect :: "nat \<Rightarrow> int \<times> int \<times> bool"
  ro_read :: "nat \<Rightarrow> int"
  ro_waitpid :: "nat \<Rightarrow> wait_result"

abbreviation EINTR :: int where "EINTR \<equiv> 4"
abbreviation ECHILD :: int where "ECHILD \<equiv> 10"

definition os_call :: "(nat \<Rightarrow> 'a) \<Rightarrow> (reaper_world, 'a) km" where
  "os_call f = (\<lambda>s. Some (Inr (f (os_calls_made s), s\<lparr>os_calls_made := Suc (os_calls_made s)\<rparr>)))"

section \<open>Operations\<close>

definition new_ProcessData :: "int \<Rightarrow> int \<Rightarrow> ProcessData" where
  "new_ProcessData p prio = \<lparr>pd_pid = p, pd_priority = prio, pd_state = RUNNING\<rparr>"

definition logEvent :: "log_part list \<Rightarrow> (reaper_world, unit) km" where
  "logEvent message =
     seqK (spin_lock m_logMutex m_logMutex_update)
    (seqK (modK (\<lambda>s. if log_is_open s then s\<lparr>log_file := log_file s @ [message]\<rparr> else s))
          (spin_unlock m_logMutex_update))"

definition logProcessEvent :: "int \<Rightarrow> log_part list \<Rightarrow> (reaper_world, unit) km" where
  "logProcessEvent pid event = logEvent ([LStr ''Process ['', LInt pid, LStr '']: ''] @ event)"

text \<open>
  A fatal error throws, which is the result \<open>False\<close>; \<open>current_exception\<close> says that an
  exception is being handled already, and then the process is terminated. \<open>err\<close> is \<open>errno\<close>.
\<close>

definition handleSyscallError :: "string \<Rightarrow> int \<Rightarrow> bool \<Rightarrow> bool \<Rightarrow> (reaper_world, bool) km" where
  "handleSyscallError message err fatal current_exception =
     (let errorMsg = [LStr message, LStr '': '', LInt err] in
      seqK (logEvent (LStr ''Error: '' # errorMsg))
     (if fatal then
        seqK (modK (\<lambda>s. s\<lparr>cerr := cerr s @ [LStr ''Fatal Error: '' # errorMsg]\<rparr>))
       (if \<not> current_exception then retK False
        else seqK (modK (\<lambda>s. s\<lparr>cerr := cerr s @ [[LStr ''Terminating due to fatal error during potential cleanup/exception handling.'']]\<rparr>))
                  (stopK (Panic ''terminate'')))
      else
        seqK (modK (\<lambda>s. s\<lparr>cerr := cerr s @ [LStr ''Warning: '' # errorMsg]\<rparr>)) (retK True)))"

definition exit_state :: "wait_status \<Rightarrow> ProcessState \<Rightarrow> ProcessState" where
  "exit_state status old = (case status of WExited _ \<Rightarrow> EXITED | WSignaled _ \<Rightarrow> TERMINATED | WOther \<Rightarrow> old)"

definition exit_reason :: "wait_status \<Rightarrow> log_part list" where
  "exit_reason status = (case status of
     WExited c \<Rightarrow> [LStr ''exited normally with status '', LInt c]
   | WSignaled g \<Rightarrow> [LStr ''terminated by signal '', LInt g]
   | WOther \<Rightarrow> [LStr ''stopped or continued (unexpected)''])"

text \<open>A child that has ended: removed from the table and counted out, or logged as unknown.\<close>

definition reap_child :: "int \<Rightarrow> wait_status \<Rightarrow> (reaper_world, unit) km" where
  "reap_child pid status =
     seqK (spin_lock m_mutex m_mutex_update)
    (bindK (getK (\<lambda>s. m_processes s pid)) (\<lambda>it.
     seqK (case it of
        Some d \<Rightarrow>
          seqK (modK (\<lambda>s. s\<lparr>m_processes := (m_processes s)(pid \<mapsto> d\<lparr>pd_state := exit_state status (pd_state d)\<rparr>)\<rparr>))
         (seqK (logProcessEvent pid (LStr ''Reaped. Status: '' # exit_reason status))
         (seqK (modK (\<lambda>s. s\<lparr>m_processes := (m_processes s)(pid := None)\<rparr>))
         (bindK (getK m_activeProcessCount) (\<lambda>prev_count.
          seqK (modK (\<lambda>s. s\<lparr>m_activeProcessCount := prev_count - 1\<rparr>))
         (bindK (getK m_activeThreadCount) (\<lambda>threads.
          whenK (prev_count = 1 \<and> threads = 0) (modK (\<lambda>s. s\<lparr>finished_signals := Suc (finished_signals s)\<rparr>))))))))
      | None \<Rightarrow>
          logEvent [LStr ''Warning: Reaped unknown or already removed process PID: '', LInt pid])
      (spin_unlock m_mutex_update)))"

text \<open>One round of the inner loop: \<open>Inl\<close> leaves it.\<close>

definition waitpid_round :: "reaper_os \<Rightarrow> unit \<Rightarrow> (reaper_world, unit + unit) km" where
  "waitpid_round os _ = bindK (os_call (ro_waitpid os)) (\<lambda>r.
     case r of
       WChild pid status \<Rightarrow> seqK (reap_child pid status) (retK (Inr ()))
     | WNothing \<Rightarrow> retK (Inl ())
     | WError e \<Rightarrow>
         if e = ECHILD then retK (Inl ())
         else if e = EINTR then retK (Inr ())
         else bindK (handleSyscallError ''waitpid error in reaper loop'' e False False) (\<lambda>_. retK (Inl ())))"

definition reap_zombies :: "reaper_os \<Rightarrow> (reaper_world, unit) km" where
  "reap_zombies os = loopK (waitpid_round os) ()"

text \<open>\<open>while (read(pipe_read_fd, buf, sizeof(buf)) > 0);\<close>\<close>

definition drain_pipe :: "reaper_os \<Rightarrow> (reaper_world, unit) km" where
  "drain_pipe os = loopK (\<lambda>_. bindK (os_call (ro_read os)) (\<lambda>n. retK (if 0 < n then Inr () else Inl ()))) ()"

text \<open>One round of the outer loop, from the test of \<open>m_stopReaper\<close> on.\<close>

definition reaper_round :: "reaper_os \<Rightarrow> unit \<Rightarrow> (reaper_world, unit + unit) km" where
  "reaper_round os _ =
     bindK (os_call (ro_stop os)) (\<lambda>stop.
     if stop then retK (Inl ())
     else
       bindK (os_call (ro_pselect os)) (\<lambda>(result, err, ready).
       bindK (os_call (ro_stop os)) (\<lambda>stop.
       if stop then retK (Inl ())
       else if result = - 1 \<and> err \<noteq> EINTR then
         bindK (handleSyscallError ''pselect error in reaper loop'' err False False) (\<lambda>_. retK (Inr ()))
       else if ready then
         seqK (drain_pipe os)
        (bindK (os_call (ro_stop os)) (\<lambda>stop.
         if stop then retK (Inl ()) else seqK (reap_zombies os) (retK (Inr ()))))
       else seqK (reap_zombies os) (retK (Inr ())))))"

definition reaperLoop :: "reaper_os \<Rightarrow> (reaper_world, unit) km" where
  "reaperLoop os =
     seqK (logEvent [LStr ''Reaper thread started.''])
    (seqK (loopK (reaper_round os) ())
          (logEvent [LStr ''Reaper thread finished.'']))"

section \<open>Invariant\<close>

text \<open>Every entry is under its own identifier, the counter counts the table, and the mutexes are free.\<close>

definition reaper_inv :: "reaper_world \<Rightarrow> bool" where
  "reaper_inv s \<longleftrightarrow> finite (dom (m_processes s)) \<and> (\<forall>p d. m_processes s p = Some d \<longrightarrow> pd_pid d = p) \<and>
     card (dom (m_processes s)) < 2 ^ 64 \<and> unat (m_activeProcessCount s) = card (dom (m_processes s)) \<and>
     \<not> m_mutex s \<and> \<not> m_logMutex s"

text \<open>\<open>reaped P s s'\<close>: exactly the processes in \<open>P\<close> are gone, and a signal was sent if the last one left.\<close>

definition reaped :: "int set \<Rightarrow> reaper_world \<Rightarrow> reaper_world \<Rightarrow> bool" where
  "reaped P s s' \<longleftrightarrow> m_processes s' = (m_processes s) |` (- P) \<and> reaper_inv s' \<and>
     m_activeThreadCount s' = m_activeThreadCount s \<and>
     finished_signals s' = finished_signals s +
       (if m_activeThreadCount s = 0 \<and> dom (m_processes s) \<noteq> {} \<and> dom (m_processes s) \<subseteq> P then 1 else 0)"

lemma logEvent_run:
  assumes "\<not> m_logMutex s"
  shows "logEvent m s = Some (Inr ((), s\<lparr>log_file := log_file s @ (if log_is_open s then [m] else [])\<rparr>))"
  using assms by (cases s) (simp add: logEvent_def)

lemma reaper_inv_log [simp]:
  "reaper_inv (s\<lparr>log_file := l\<rparr>) = reaper_inv s" "reaper_inv (s\<lparr>cerr := c\<rparr>) = reaper_inv s"
  "reaper_inv (s\<lparr>os_calls_made := n\<rparr>) = reaper_inv s"
  by (simp_all add: reaper_inv_def)

lemma reaped_log [simp]:
  "reaped P (s\<lparr>os_calls_made := n\<rparr>) s' = reaped P s s'" "reaped P s (s'\<lparr>os_calls_made := n\<rparr>) = reaped P s s'"
  "reaped P s (s'\<lparr>log_file := l\<rparr>) = reaped P s s'" "reaped P s (s'\<lparr>cerr := c\<rparr>) = reaped P s s'"
  by (simp_all add: reaped_def)

lemma reaped_refl: "reaper_inv s \<Longrightarrow> P \<inter> dom (m_processes s) = {} \<Longrightarrow> reaped P s s"
  by (auto simp: reaped_def restrict_map_def fun_eq_iff)

lemma reaped_trans:
  assumes "reaped P s t" "reaped Q t u"
  shows "reaped (P \<union> Q) s u"
proof -
  let ?last = "\<lambda>D E. if m_activeThreadCount s = 0 \<and> D \<noteq> {} \<and> D \<subseteq> E then 1 else (0::nat)" and ?D = "dom (m_processes s)"
  have t: "m_processes t = m_processes s |` (- P)" "m_activeThreadCount t = m_activeThreadCount s"
    "finished_signals t = finished_signals s + ?last ?D P"
    using assms(1) by (simp_all add: reaped_def)
  have d: "dom (m_processes t) = ?D - P" using t(1) by auto
  have u: "m_processes u = m_processes t |` (- Q)" "m_activeThreadCount u = m_activeThreadCount s" "reaper_inv u"
    "finished_signals u = finished_signals t + ?last (?D - P) Q"
    using assms(2) t(2) d by (simp_all only: reaped_def)
  have l: "?last D (P \<union> Q) = ?last D P + ?last (D - P) Q" for D :: "int set" by auto
  have "finished_signals u = finished_signals s + ?last ?D (P \<union> Q)" by (simp only: l t(3) u(4) add.assoc)
  moreover have "m_processes u = m_processes s |` (- (P \<union> Q))" using t(1) u(1) by (auto simp: restrict_map_def fun_eq_iff)
  ultimately show ?thesis using u by (simp only: reaped_def)
qed

text \<open>An error that is not fatal leaves a line in the log and one on \<open>cerr\<close>.\<close>

definition noted :: "string \<Rightarrow> int \<Rightarrow> reaper_world \<Rightarrow> reaper_world" where
  "noted m e s = s\<lparr>log_file := log_file s @ (if log_is_open s then [[LStr ''Error: '', LStr m, LStr '': '', LInt e]] else []),
     cerr := cerr s @ [[LStr ''Warning: '', LStr m, LStr '': '', LInt e]]\<rparr>"

lemma nonfatal_run:
  "\<not> m_logMutex s \<Longrightarrow> handleSyscallError m e False x s = Some (Inr (True, noted m e s))"
  by (cases s) (simp add: handleSyscallError_def Let_def logEvent_run noted_def)

lemma noted_simps [simp]:
  "reaper_inv (noted m e s) = reaper_inv s" "reaped P s (noted m e s') = reaped P s s'" "os_calls_made (noted m e s) = os_calls_made s"
  by (simp_all add: noted_def)

lemma reap_child_run:
  assumes "reaper_inv s"
  shows "\<exists>s'. reap_child pid st s = Some (Inr ((), s')) \<and> reaped {pid} s s' \<and> os_calls_made s' = os_calls_made s"
proof (cases "m_processes s pid")
  case None
  let ?m = "[LStr ''Warning: Reaped unknown or already removed process PID: '', LInt pid]"
  have "reap_child pid st s = Some (Inr ((), s\<lparr>log_file := log_file s @ (if log_is_open s then [?m] else [])\<rparr>))"
    using assms None by (cases s) (simp add: reap_child_def logEvent_run reaper_inv_def)
  moreover have "reaped {pid} s s" using reaped_refl [OF assms] None by auto
  ultimately show ?thesis by auto
next
  case (Some d)
  let ?m = "[LStr ''Process ['', LInt pid, LStr '']: ''] @ LStr ''Reaped. Status: '' # exit_reason st"
  let ?c = "m_activeProcessCount s"
  let ?s = "s\<lparr>m_processes := (m_processes s)(pid := None), m_activeProcessCount := ?c - 1,
      log_file := log_file s @ (if log_is_open s then [?m] else []),
      finished_signals := finished_signals s + (if ?c = 1 \<and> m_activeThreadCount s = 0 then 1 else 0)\<rparr>"
  have "reap_child pid st s = Some (Inr ((), ?s))"
    using assms Some by (cases s) (simp add: reap_child_def logProcessEvent_def logEvent_run reaper_inv_def bindK_assoc)
  moreover have D: "finite (dom (m_processes s))" "pid \<in> dom (m_processes s)" "unat ?c = card (dom (m_processes s))"
    using assms Some by (auto simp: reaper_inv_def)
  have c: "card (dom (m_processes s) - {pid}) = unat ?c - 1" "0 < unat ?c"
    using D card_gt_0_iff by (auto simp: card_Diff_singleton)
  have "unat (?c - 1) = unat ?c - 1" using c(2) by (simp add: unat_minus_one unat_gt_0)
  then have "reaper_inv ?s" using assms c D by (auto simp: reaper_inv_def)
  moreover have "?c = 1 \<longleftrightarrow> dom (m_processes s) \<subseteq> {pid}"
  proof -
    have "?c = 1 \<longleftrightarrow> card (dom (m_processes s)) = 1" using D(3) by (metis unat_1 unsigned_word_eqI)
    also have "\<dots> \<longleftrightarrow> dom (m_processes s) = {pid}" using D(2) by (metis card_1_singletonE is_singletonI is_singleton_altdef singletonD)
    also have "\<dots> \<longleftrightarrow> dom (m_processes s) \<subseteq> {pid}" using D(2) by blast
    finally show ?thesis .
  qed
  ultimately show ?thesis using D(2) by (auto simp: reaped_def restrict_map_def fun_eq_iff)
qed

text \<open>The children among a list of results, and the results after which the inner loop goes round again.\<close>

fun goes_on :: "wait_result \<Rightarrow> bool" where
  "goes_on (WChild pid st) = True"
| "goes_on WNothing = False"
| "goes_on (WError e) = (e = EINTR)"

definition children :: "wait_result list \<Rightarrow> int set" where
  "children rs = {pid. \<exists>st. WChild pid st \<in> set rs}"

lemma children_simps [simp]:
  "children [] = {}" "children (WChild pid st # rs) = insert pid (children rs)"
  "children (WNothing # rs) = children rs" "children (WError e # rs) = children rs"
  by (auto simp: children_def)

lemma waitpid_ends:
  assumes "reaper_inv s" "\<not> goes_on (ro_waitpid os (os_calls_made s))"
  shows "\<exists>s'. waitpid_round os () s = Some (Inr (Inl (), s')) \<and> reaped {} s s' \<and> os_calls_made s' = Suc (os_calls_made s)"
proof -
  have "reaped {} s s" using reaped_refl [OF assms(1)] by simp
  moreover have "\<not> m_logMutex s" using assms(1) by (simp add: reaper_inv_def)
  ultimately show ?thesis using assms(2)
    by (cases "ro_waitpid os (os_calls_made s)") (auto simp: waitpid_round_def os_call_def nonfatal_run)
qed

lemma waitpid_goes_on:
  assumes "reaper_inv s" "goes_on (ro_waitpid os (os_calls_made s))"
  shows "\<exists>s'. waitpid_round os () s = Some (Inr (Inr (), s')) \<and> reaped (children [ro_waitpid os (os_calls_made s)]) s s' \<and>
    os_calls_made s' = Suc (os_calls_made s)"
proof (cases "ro_waitpid os (os_calls_made s)")
  case (WChild pid st)
  obtain s' where "reap_child pid st (s\<lparr>os_calls_made := Suc (os_calls_made s)\<rparr>) = Some (Inr ((), s'))"
    "reaped {pid} s s'" "os_calls_made s' = Suc (os_calls_made s)"
    using reap_child_run [of "s\<lparr>os_calls_made := Suc (os_calls_made s)\<rparr>" pid st] assms(1) by auto
  then show ?thesis using WChild by (simp add: waitpid_round_def os_call_def)
qed (use assms reaped_refl [OF assms(1)] in \<open>auto simp: waitpid_round_def os_call_def\<close>)

text \<open>The inner loop removes exactly the children the calls report before the first result that ends it.\<close>

lemma reap_zombies_run:
  assumes "reaper_inv s" "\<forall>i < length rs. ro_waitpid os (os_calls_made s + i) = rs ! i" "list_all goes_on rs"
    "\<not> goes_on (ro_waitpid os (os_calls_made s + length rs))"
  shows "\<exists>s'. reap_zombies os s = Some (Inr ((), s')) \<and> reaped (children rs) s s' \<and>
    os_calls_made s' = os_calls_made s + length rs + 1"
  using assms unfolding reap_zombies_def
proof (induction rs arbitrary: s)
  case Nil
  then show ?case using waitpid_ends [of s os] by (auto simp: loopK_leave)
next
  case (Cons r rs)
  have r: "ro_waitpid os (os_calls_made s) = r" using Cons.prems(2) by fastforce
  then obtain t where t: "waitpid_round os () s = Some (Inr (Inr (), t))" "reaped (children [r]) s t" "os_calls_made t = Suc (os_calls_made s)"
    using waitpid_goes_on [OF Cons.prems(1), of os] Cons.prems(3) by auto
  have "\<forall>i < length rs. ro_waitpid os (os_calls_made t + i) = rs ! i"
    using Cons.prems(2) t(3) by (metis add_Suc_shift length_Cons not_less_eq nth_Cons_Suc)
  then obtain s' where s': "loopK (waitpid_round os) () t = Some (Inr ((), s'))" "reaped (children rs) t s'"
    "os_calls_made s' = os_calls_made t + length rs + 1"
    using Cons.IH [of t] Cons.prems(3,4) t(2,3) by (auto simp: reaped_def)
  have "children (r # rs) = children [r] \<union> children rs" by (auto simp: children_def)
  then show ?case using reaped_trans [OF t(2) s'(2)] s' t by (auto simp: loopK_again)
qed

section \<open>The whole loop\<close>

text \<open>A system in which the stop flag is set at some time and neither children nor pipe data come for ever without a pause.\<close>

definition fair_os :: "reaper_os \<Rightarrow> nat \<Rightarrow> bool" where
  "fair_os os N \<longleftrightarrow> (\<forall>n \<ge> N. ro_stop os n) \<and> (\<forall>n. \<exists>m \<ge> n. \<not> goes_on (ro_waitpid os m)) \<and> (\<forall>n. \<exists>m \<ge> n. ro_read os m \<le> 0)"

definition reported :: "reaper_os \<Rightarrow> int set" where
  "reported os = {pid. \<exists>n st. ro_waitpid os n = WChild pid st}"

text \<open>\<open>progress os s s'\<close>: calls were made, and only processes the system reported were removed.\<close>

definition progress :: "reaper_os \<Rightarrow> reaper_world \<Rightarrow> reaper_world \<Rightarrow> bool" where
  "progress os s s' \<longleftrightarrow> os_calls_made s < os_calls_made s' \<and> (\<exists>P \<subseteq> reported os. reaped P s s')"

lemma progress_inv: "progress os s s' \<Longrightarrow> reaper_inv s'"
  by (auto simp: progress_def reaped_def)

lemma progress_trans: "progress os s t \<Longrightarrow> progress os t u \<Longrightarrow> progress os s u"
  unfolding progress_def by (meson Un_least order.strict_trans reaped_trans)

lemma progress_call: "reaper_inv s \<Longrightarrow> progress os s (s\<lparr>os_calls_made := Suc (os_calls_made s)\<rparr>)"
  using reaped_refl [of s "{}"] by (auto simp: progress_def)

lemma progress_noted: "progress os s t \<Longrightarrow> progress os s (noted m e t)"
  by (auto simp: progress_def)

lemma reap_zombies_ends:
  assumes "fair_os os N" "reaper_inv s"
  shows "\<exists>s'. reap_zombies os s = Some (Inr ((), s')) \<and> progress os s s'"
proof -
  let ?n = "os_calls_made s"
  define k where "k = (LEAST k. \<not> goes_on (ro_waitpid os (?n + k)))"
  have "\<exists>k. \<not> goes_on (ro_waitpid os (?n + k))" using assms(1) unfolding fair_os_def by (metis le_Suc_ex)
  then have k: "\<not> goes_on (ro_waitpid os (?n + k))" unfolding k_def by (rule LeastI_ex)
  let ?rs = "map (\<lambda>i. ro_waitpid os (?n + i)) [0..<k]"
  have "list_all goes_on ?rs" using not_less_Least by (fastforce simp: list_all_iff k_def)
  then obtain s' where "reap_zombies os s = Some (Inr ((), s'))" "reaped (children ?rs) s s'" "os_calls_made s' = ?n + k + 1"
    using reap_zombies_run [OF assms(2), of ?rs os] k by auto
  moreover have "children ?rs \<subseteq> reported os" by (auto simp: children_def reported_def) metis
  ultimately show ?thesis by (auto simp: progress_def)
qed

lemma drain_pipe_ends:
  assumes "fair_os os N" "reaper_inv s"
  shows "\<exists>s'. drain_pipe os s = Some (Inr ((), s')) \<and> progress os s s'"
proof -
  obtain m where m: "os_calls_made s \<le> m" "ro_read os m \<le> 0" using assms(1) unfolding fair_os_def by blast
  have "\<exists>y s'. loopK (\<lambda>_. bindK (os_call (ro_read os)) (\<lambda>n. retK (if 0 < n then Inr () else Inl ()))) () s = Some (Inr (y, s')) \<and> progress os s s'"
  proof (rule loopK_rule [where I = "\<lambda>_ t. (t = s \<or> progress os s t) \<and> os_calls_made t \<le> m" and V = "\<lambda>_ t. m - os_calls_made t"])
    fix x :: unit and t
    assume t: "(t = s \<or> progress os s t) \<and> os_calls_made t \<le> m"
    let ?t = "t\<lparr>os_calls_made := Suc (os_calls_made t)\<rparr>"
    have p: "progress os s ?t" using t assms(2) progress_call progress_trans progress_inv by blast
    have "os_calls_made t \<noteq> m" if "0 < ro_read os (os_calls_made t)" using that m(2) by auto
    then show "(\<exists>y s'. bindK (os_call (ro_read os)) (\<lambda>n. retK (if 0 < n then Inr () else Inl ())) t = Some (Inr (Inl y, s')) \<and> progress os s s') \<or>
       (\<exists>x' s'. bindK (os_call (ro_read os)) (\<lambda>n. retK (if 0 < n then Inr () else Inl ())) t = Some (Inr (Inr x', s')) \<and>
          ((s' = s \<or> progress os s s') \<and> os_calls_made s' \<le> m) \<and> m - os_calls_made s' < m - os_calls_made t)"
      using p t by (auto simp: os_call_def)
  qed (use m in simp)
  then show ?thesis by (auto simp: drain_pipe_def)
qed

lemma reaper_round_run:
  assumes "fair_os os N" "reaper_inv s"
  shows "\<exists>r s'. reaper_round os () s = Some (Inr (r, s')) \<and> progress os s s' \<and> (r = Inr () \<longrightarrow> os_calls_made s < N)"
proof -
  let ?c = "\<lambda>k s. s\<lparr>os_calls_made := Suc (os_calls_made s)\<rparr>"
  have stop: "os_calls_made s < N" if "\<not> ro_stop os (os_calls_made s)"
    using that assms(1) unfolding fair_os_def by (meson not_le)
  let ?s1 = "s\<lparr>os_calls_made := Suc (os_calls_made s)\<rparr>"
  let ?s3 = "s\<lparr>os_calls_made := Suc (Suc (Suc (os_calls_made s)))\<rparr>"
  have p1: "progress os s ?s1" and p3: "progress os s ?s3"
    using reaped_refl [OF assms(2), of "{}"] by (auto simp: progress_def)
  have l: "\<not> m_logMutex ?s3" using assms(2) by (simp add: reaper_inv_def)
  obtain d where d: "drain_pipe os ?s3 = Some (Inr ((), d))" "progress os s d"
    using drain_pipe_ends [OF assms(1) progress_inv [OF p3]] progress_trans [OF p3] by blast
  let ?d = "d\<lparr>os_calls_made := Suc (os_calls_made d)\<rparr>"
  have pd: "progress os s ?d" using progress_trans [OF d(2)] progress_call progress_inv [OF d(2)] by blast
  have z: "\<exists>s'. reap_zombies os t = Some (Inr ((), s')) \<and> progress os s s'" if "progress os s t" for t
    using reap_zombies_ends [OF assms(1) progress_inv [OF that]] progress_trans [OF that] by blast
  obtain e1 e2 where e: "reap_zombies os ?s3 = Some (Inr ((), e1))" "progress os s e1"
    "reap_zombies os ?d = Some (Inr ((), e2))" "progress os s e2" using z p3 pd by meson
  obtain result err ready where sel: "ro_pselect os (Suc (os_calls_made s)) = (result, err, ready)" by (cases "ro_pselect os (Suc (os_calls_made s))")
  let ?r = "if ro_stop os (os_calls_made s) then (Inl (), ?s1)
    else if ro_stop os (Suc (Suc (os_calls_made s))) then (Inl (), ?s3)
    else if result = - 1 \<and> err \<noteq> EINTR then (Inr (), noted ''pselect error in reaper loop'' err ?s3)
    else if ready then if ro_stop os (os_calls_made d) then (Inl (), ?d) else (Inr (), e2)
    else (Inr (), e1)"
  have "reaper_round os () s = Some (Inr ?r)"
    by (simp add: reaper_round_def os_call_def sel d(1) e(1,3) nonfatal_run [OF l])
  moreover have "progress os s (snd ?r)" using p1 p3 pd e(2,4) progress_noted [OF p3] by (simp split: if_split)
  moreover have "fst ?r = Inr () \<longrightarrow> os_calls_made s < N" using stop by (simp split: if_split)
  ultimately show ?thesis by (metis prod.collapse)
qed

lemma reaper_loop_ends:
  assumes "fair_os os N" "reaper_inv s"
  shows "\<exists>s'. loopK (reaper_round os) () s = Some (Inr ((), s')) \<and> progress os s s'"
proof -
  have "\<exists>y s'. loopK (reaper_round os) () s = Some (Inr (y, s')) \<and> progress os s s'"
  proof (rule loopK_rule [where I = "\<lambda>_ t. t = s \<or> progress os s t" and V = "\<lambda>_ t. N - os_calls_made t"])
    fix x :: unit and t
    assume t: "t = s \<or> progress os s t"
    then have i: "reaper_inv t" using assms(2) progress_inv by blast
    obtain r u where u: "reaper_round os () t = Some (Inr (r, u))" "progress os t u" "r = Inr () \<longrightarrow> os_calls_made t < N"
      using reaper_round_run [OF assms(1) i] by blast
    have "progress os s u" using t u(2) progress_trans by blast
    moreover have "os_calls_made t < os_calls_made u" using u(2) by (simp add: progress_def)
    ultimately show "(\<exists>y s'. reaper_round os x t = Some (Inr (Inl y, s')) \<and> progress os s s') \<or>
       (\<exists>x' s'. reaper_round os x t = Some (Inr (Inr x', s')) \<and> (s' = s \<or> progress os s s') \<and> N - os_calls_made s' < N - os_calls_made t)"
      using u by (cases r) auto
  qed simp
  then show ?thesis by auto
qed

section \<open>Properties\<close>

text \<open>
  C28: The inner loop of the reaper removes exactly the children that \<open>waitpid\<close> reports until
  it has nothing more to report, whatever interruptions occur in between: the table loses
  these processes and no others, the counter of active processes is the size of the table
  again, the mutexes are free, and the waiters are signalled exactly when the last process
  leaves while no thread is active.
\<close>

theorem reap_zombies_exact:
  assumes "reaper_inv s" "\<forall>i < length rs. ro_waitpid os (os_calls_made s + i) = rs ! i" "list_all goes_on rs"
    and "\<not> goes_on (ro_waitpid os (os_calls_made s + length rs))"
  shows "\<exists>s'. reap_zombies os s = Some (Inr ((), s')) \<and> reaper_inv s' \<and>
    m_processes s' = m_processes s |` (- children rs) \<and> unat (m_activeProcessCount s') = card (dom (m_processes s) - children rs) \<and>
    finished_signals s' = finished_signals s +
      (if m_activeThreadCount s = 0 \<and> dom (m_processes s) \<noteq> {} \<and> dom (m_processes s) \<subseteq> children rs then 1 else 0)"
proof -
  obtain s' where s': "reap_zombies os s = Some (Inr ((), s'))" "reaped (children rs) s s'" using reap_zombies_run [OF assms] by blast
  have "dom (m_processes s |` (- children rs)) = dom (m_processes s) - children rs" by auto
  then show ?thesis using s' by (auto simp: reaped_def reaper_inv_def)
qed

definition reaper_demo :: reaper_world where
  "reaper_demo = \<lparr>m_processes = [7 \<mapsto> new_ProcessData 7 0], m_activeProcessCount = 1, m_activeThreadCount = 0, m_mutex = False,
     m_logMutex = False, log_is_open = True, log_file = [], cerr = [], finished_signals = 0, os_calls_made = 0\<rparr>"

definition reaper_os_demo :: reaper_os where
  "reaper_os_demo = \<lparr>ro_stop = (\<lambda>n. 5 \<le> n), ro_pselect = (\<lambda>n. (1, 0, False)), ro_read = (\<lambda>n. 0),
     ro_waitpid = (\<lambda>n. if n = 0 then WError 4 else if n = 1 then WChild 7 (WExited 0) else WNothing)\<rparr>"

lemma reaper_demo_inv: "reaper_inv reaper_demo"
  by (simp add: reaper_inv_def reaper_demo_def new_ProcessData_def)

theorem reap_zombies_exact_witness:
  "\<exists>s'. reap_zombies reaper_os_demo reaper_demo = Some (Inr ((), s')) \<and> m_processes s' 7 = None \<and> finished_signals s' = 1"
proof -
  let ?rs = "[WError 4, WChild 7 (WExited 0)]"
  have "\<forall>i < length ?rs. ro_waitpid reaper_os_demo (os_calls_made reaper_demo + i) = ?rs ! i"
    by (auto simp: less_Suc_eq reaper_os_demo_def reaper_demo_def)
  from reap_zombies_exact [OF reaper_demo_inv this] show ?thesis
    by (auto simp: reaper_os_demo_def reaper_demo_def)
qed



end
