(* ===== verification/DevFs.thy ===== *)
theory DevFs
  imports KPrelude
begin

text \<open>
  The in-memory file system \<^verbatim>\<open>src/fs/devfs.c\<close>: one directory with one file whose bytes live in
  a buffer of one page. Inodes live at addresses; using an address without an inode is a
  fault. The functions of the surrounding kernel (\<open>new_inode\<close>, \<open>iput\<close>, \<open>d_make_root\<close>,
  \<open>copy_to_user\<close>, \<open>copy_from_user\<close>) and what its allocators return are arguments; what their
  documentation promises is stated as \<open>vfs_ok\<close>, \<open>fresh_ok\<close> and \<open>copy_ok\<close>. Log lines are left out. A
  position is the 64-bit value of \<open>loff_t\<close>; the comparisons with \<open>size_t\<close> are unsigned, as C
  converts them, and the comparison of two \<open>loff_t\<close> is signed.
\<close>

section \<open>Data\<close>

abbreviation PAGE_BYTES :: nat where "PAGE_BYTES \<equiv> 4096"
abbreviation E_IO :: int where "E_IO \<equiv> 5"
abbreviation E_NOMEM :: int where "E_NOMEM \<equiv> 12"
abbreviation E_FAULT :: int where "E_FAULT \<equiv> 14"
abbreviation E_INVAL :: int where "E_INVAL \<equiv> 22"
abbreviation E_NOSPC :: int where "E_NOSPC \<equiv> 28"

abbreviation DEVFS_SUPER_MAGIC :: u64 where "DEVFS_SUPER_MAGIC \<equiv> 0x20240500"
abbreviation DEVFS_FILENAME :: string where "DEVFS_FILENAME \<equiv> ''buffer''"

record devfs_inode_info =
  info_buffer :: "u8 list option"
  info_size :: u64
  info_lock :: bool

datatype iop = NoIop | DirIop
datatype fop = NoFop | FileFop | DirFop

record inode =
  i_ino :: u64
  i_mode :: u32
  i_uid :: u32
  i_gid :: u32
  i_blocks :: u64
  i_nlink :: nat
  i_count :: nat
  i_op :: iop
  i_fop :: fop
  i_atime :: int
  i_mtime :: int
  i_ctime :: int
  i_size :: u64
  i_private :: "devfs_inode_info option"

record super_block =
  inodes :: "nat \<rightharpoonup> inode"
  s_maxbytes :: u64
  s_blocksize :: u64
  s_blocksize_bits :: nat
  s_magic :: u64
  s_time_gran :: nat
  s_root :: "nat option"
  dentries :: "(string \<times> nat) list"

abbreviation S_IFMT :: u32 where "S_IFMT \<equiv> 0xF000"
abbreviation S_IFDIR :: u32 where "S_IFDIR \<equiv> 0x4000"
abbreviation S_IFREG :: u32 where "S_IFREG \<equiv> 0x8000"

text \<open>\<open>S_IFDIR | 0755\<close> and \<open>S_IFREG | 0666\<close>.\<close>

abbreviation DIR_MODE :: u32 where "DIR_MODE \<equiv> 0x41ED"
abbreviation FILE_MODE :: u32 where "FILE_MODE \<equiv> 0x81B6"

section \<open>Inodes\<close>

definition at_inode :: "nat \<Rightarrow> (inode, 'a) km \<Rightarrow> (super_block, 'a) km" where
  "at_inode p m = (\<lambda>s. case inodes s p of
      None \<Rightarrow> Some (Inl (Fault ''inode''))
    | Some i \<Rightarrow> (case m i of
          None \<Rightarrow> None
        | Some (Inl e) \<Rightarrow> Some (Inl e)
        | Some (Inr (x, i')) \<Rightarrow> Some (Inr (x, s\<lparr>inodes := (inodes s)(p \<mapsto> i')\<rparr>))))"

text \<open>A NULL dereference is a fault.\<close>

definition at_ptr :: "nat option \<Rightarrow> (inode, 'a) km \<Rightarrow> (super_block, 'a) km" where
  "at_ptr p m = (case p of None \<Rightarrow> stopK (Fault ''NULL'') | Some a \<Rightarrow> at_inode a m)"

text \<open>The inode goes away together with its private data and the buffer.\<close>

definition devfs_evict_inode :: "nat \<Rightarrow> (super_block, unit) km" where
  "devfs_evict_inode p = seqK (at_inode p (retK ())) (modK (\<lambda>s. s\<lparr>inodes := (inodes s)(p := None)\<rparr>))"

text \<open>
  \<open>mem\<close> is the inode \<open>new_inode\<close> returns, with its address, and \<open>now\<close> the time. The result is a
  valid pointer, NULL (\<open>Inr None\<close>) or an error pointer (\<open>Inl\<close>).
\<close>

definition devfs_get_inode :: "(nat \<times> inode) option \<Rightarrow> int \<Rightarrow> u32 \<Rightarrow> (super_block, int + nat option) km" where
  "devfs_get_inode mem now mode =
     (case mem of
        None \<Rightarrow> retK (Inr None)
      | Some (a, i) \<Rightarrow>
          seqK (modK (\<lambda>s. s\<lparr>inodes := (inodes s)(a \<mapsto>
             i\<lparr>i_mode := mode, i_uid := 0, i_gid := 0, i_blocks := 0, i_atime := now, i_mtime := now, i_ctime := now\<rparr>)\<rparr>))
         (if mode AND S_IFMT = S_IFREG then
            seqK (at_inode a (modK (\<lambda>i. i\<lparr>i_op := DirIop, i_fop := FileFop\<rparr>))) (retK (Inr (Some a)))
          else if mode AND S_IFMT = S_IFDIR then
            seqK (at_inode a (modK (\<lambda>i. i\<lparr>i_op := DirIop, i_fop := DirFop, i_nlink := Suc (i_nlink i)\<rparr>))) (retK (Inr (Some a)))
          else retK (Inl (- E_INVAL))))"

section \<open>Reading and writing\<close>

definition lock_info :: "(inode, unit) km" where
  "lock_info = spin_lock (\<lambda>i. \<exists>d. i_private i = Some d \<and> info_lock d) (\<lambda>f. i_private_update (map_option (info_lock_update f)))"

definition unlock_info :: "(inode, unit) km" where
  "unlock_info = spin_unlock (\<lambda>f. i_private_update (map_option (info_lock_update f)))"

text \<open>\<open>if (count > available) count = available;\<close>\<close>

definition clip :: "u64 \<Rightarrow> u64 \<Rightarrow> u64" where
  "clip count available = (if available < count then available else count)"

text \<open>
  \<open>copy_to_user n\<close> is what that call returns for \<open>n\<close> bytes, the number of bytes it could not
  copy. The result is the status, the bytes delivered on success and \<open>*ppos\<close>.
\<close>

definition devfs_read :: "(nat \<Rightarrow> nat) \<Rightarrow> u64 \<Rightarrow> u64 \<Rightarrow> (inode, int \<times> u8 list \<times> u64) km" where
  "devfs_read copy_to_user count ppos =
     bindK (getK i_private) (\<lambda>info.
     case Option.bind info info_buffer of
       None \<Rightarrow> retK (- E_IO, [], ppos)
     | Some _ \<Rightarrow>
         seqK lock_info
        (bindK (getK id) (\<lambda>i.
         let file_size = i_size i; buffer = the (info_buffer (the (i_private i))) in
         if file_size \<le> ppos then seqK unlock_info (retK (0, [], ppos))
         else
           (let count = clip count (file_size - ppos) in
            if length buffer < unat ppos + unat count then stopK (Fault ''buffer'')
            else if copy_to_user (unat count) \<noteq> 0 then seqK unlock_info (retK (- E_FAULT, [], ppos))
            else seqK unlock_info
                   (retK (int (unat count), take (unat count) (drop (unat ppos) buffer), ppos + count))))))"

text \<open>
  \<open>copy_from_user n\<close> is what that call does for \<open>n\<close> bytes: the bytes the destination holds
  afterwards, and the number of bytes it could not copy.
\<close>

type_synonym user_source = "nat \<Rightarrow> u8 list \<times> nat"

definition overwrite :: "u8 list \<Rightarrow> nat \<Rightarrow> u8 list \<Rightarrow> u8 list" where
  "overwrite xs n ys = take n xs @ ys @ drop (n + length ys) xs"

definition store_bytes :: "u64 \<Rightarrow> u8 list \<Rightarrow> (inode, unit) km" where
  "store_bytes ppos bs = modK (i_private_update (map_option (info_buffer_update (map_option (\<lambda>b. overwrite b (unat ppos) bs)))))"

definition devfs_write :: "int \<Rightarrow> user_source \<Rightarrow> u64 \<Rightarrow> u64 \<Rightarrow> (inode, int \<times> u64) km" where
  "devfs_write now copy_from_user count ppos =
     bindK (getK i_private) (\<lambda>info.
     case Option.bind info info_buffer of
       None \<Rightarrow> retK (- E_IO, ppos)
     | Some _ \<Rightarrow>
         seqK lock_info
        (bindK (getK id) (\<lambda>i.
         let buffer_size = info_size (the (i_private i)); buffer = the (info_buffer (the (i_private i))) in
         if buffer_size \<le> ppos then seqK unlock_info (retK (- E_NOSPC, ppos))
         else
           (let count = clip count (buffer_size - ppos) in
            if length buffer < unat ppos + unat count then stopK (Fault ''buffer'')
            else
              seqK (store_bytes ppos (fst (copy_from_user (unat count))))
             (if snd (copy_from_user (unat count)) \<noteq> 0 then seqK unlock_info (retK (- E_FAULT, ppos))
              else
                (let ppos' = ppos + count in
                 seqK (whenK (sint (i_size i) < sint ppos') (modK (\<lambda>i. i\<lparr>i_size := ppos'\<rparr>)))
                (seqK (modK (\<lambda>i. i\<lparr>i_mtime := now, i_ctime := now\<rparr>))
                (seqK unlock_info (retK (int (unat count), ppos'))))))))))"

section \<open>Mounting\<close>

text \<open>What the allocations of one mount return, and the two functions of the VFS it calls.\<close>

record mount_env =
  me_root :: "(nat \<times> inode) option"
  me_file :: "(nat \<times> inode) option"
  me_info :: bool
  me_buffer :: bool
  me_dentry :: bool
  me_now :: int

record vfs =
  iput :: "(nat \<Rightarrow> (super_block, unit) km) \<Rightarrow> nat option \<Rightarrow> (super_block, unit) km"
  d_make_root :: "nat option \<Rightarrow> (super_block, bool) km"

definition fresh_info :: devfs_inode_info where
  "fresh_info = \<lparr>info_buffer = Some (replicate PAGE_BYTES 0), info_size = of_nat PAGE_BYTES, info_lock = False\<rparr>"

definition failed_iput_file :: "vfs \<Rightarrow> nat option \<Rightarrow> (super_block, int) km" where
  "failed_iput_file v file_inode = seqK (iput v devfs_evict_inode file_inode) (retK (- E_NOMEM))"

definition failed_iput_root :: "vfs \<Rightarrow> nat option \<Rightarrow> (super_block, int) km" where
  "failed_iput_root v root_inode = seqK (iput v devfs_evict_inode root_inode) (retK (- E_NOMEM))"

text \<open>From the creation of the file inode on.\<close>

definition fill_file :: "vfs \<Rightarrow> mount_env \<Rightarrow> nat option \<Rightarrow> (super_block, int) km" where
  "fill_file v env file_inode =
     seqK (at_ptr file_inode (modK (\<lambda>i. i\<lparr>i_ino := 2\<rparr>)))
    (if \<not> me_info env then failed_iput_file v file_inode
     else if \<not> me_buffer env then failed_iput_file v file_inode
     else
       seqK (at_ptr file_inode (modK (\<lambda>i. i\<lparr>i_private := Some fresh_info\<rparr>)))
      (seqK (at_ptr file_inode (modK (\<lambda>i. i\<lparr>i_size := 0\<rparr>)))
      (if \<not> me_dentry env then failed_iput_file v file_inode
       else
         seqK (modK (\<lambda>s. s\<lparr>dentries := dentries s @ [(DEVFS_FILENAME, the file_inode)]\<rparr>))
              (retK 0))))"

definition devfs_fill_super :: "vfs \<Rightarrow> mount_env \<Rightarrow> (super_block, int) km" where
  "devfs_fill_super v env =
     seqK (modK (\<lambda>s. s\<lparr>s_maxbytes := 0x7FFFFFFFFFFFFFFF, s_blocksize := of_nat PAGE_BYTES, s_blocksize_bits := 12,
                        s_magic := DEVFS_SUPER_MAGIC, s_time_gran := 1\<rparr>))
    (bindK (devfs_get_inode (me_root env) (me_now env) DIR_MODE) (\<lambda>r.
     case r of
       Inl err \<Rightarrow> retK err
     | Inr root_inode \<Rightarrow>
         seqK (at_ptr root_inode (modK (\<lambda>i. i\<lparr>i_ino := 1\<rparr>)))
        (bindK (d_make_root v root_inode) (\<lambda>root_dentry.
         if \<not> root_dentry then failed_iput_root v root_inode
         else
           seqK (modK (\<lambda>s. s\<lparr>s_root := root_inode\<rparr>))
          (bindK (devfs_get_inode (me_file env) (me_now env) FILE_MODE) (\<lambda>f.
           case f of Inl err \<Rightarrow> retK err | Inr file_inode \<Rightarrow> fill_file v env file_inode))))))"

section \<open>The file as a sequence of bytes\<close>

text \<open>
  A well-formed file inode: the buffer has its size, the file ends inside the buffer, the
  lock is free. Its contents are the first \<open>i_size\<close> bytes of the buffer.
\<close>

definition file_ok :: "inode \<Rightarrow> bool" where
  "file_ok i \<longleftrightarrow> (\<exists>b d. i_private i = Some d \<and> info_buffer d = Some b \<and> \<not> info_lock d \<and> unat (info_size d) = length b \<and>
     length b < 2 ^ 63 \<and> unat (i_size i) \<le> length b)"

definition file_buffer :: "inode \<Rightarrow> u8 list" where
  "file_buffer i = the (info_buffer (the (i_private i)))"

definition contents :: "inode \<Rightarrow> u8 list" where
  "contents i = take (unat (i_size i)) (file_buffer i)"

text \<open>The abstract operations: read a range, write a range of a buffer that cannot grow.\<close>

definition read_at :: "u8 list \<Rightarrow> nat \<Rightarrow> nat \<Rightarrow> u8 list" where
  "read_at xs pos n = take n (drop pos xs)"

lemma length_overwrite [simp]: "n + length ys \<le> length xs \<Longrightarrow> length (overwrite xs n ys) = length xs"
  by (simp add: overwrite_def)

lemma nth_overwrite:
  assumes "n + length ys \<le> length xs" "k < length xs"
  shows "overwrite xs n ys ! k = (if n \<le> k \<and> k < n + length ys then ys ! (k - n) else xs ! k)"
  using assms by (auto simp: overwrite_def nth_append)

lemma read_overwrite: "n + length ys \<le> length xs \<Longrightarrow> read_at (overwrite xs n ys) n (length ys) = ys"
  by (simp add: read_at_def overwrite_def)

text \<open>The inode after bytes were stored, and what the two operations do on a well-formed file.\<close>

definition with_buffer :: "u8 list \<Rightarrow> inode \<Rightarrow> inode" where
  "with_buffer b i = i\<lparr>i_private := map_option (\<lambda>d. d\<lparr>info_buffer := Some b\<rparr>) (i_private i)\<rparr>"

definition with_size :: "int \<Rightarrow> u64 \<Rightarrow> inode \<Rightarrow> inode" where
  "with_size now n i = i\<lparr>i_size := (if unat (i_size i) < unat n then n else i_size i), i_mtime := now, i_ctime := now\<rparr>"

lemma file_okE:
  assumes "file_ok i"
  obtains d where "i_private i = Some d" "info_buffer d = Some (file_buffer i)" "\<not> info_lock d"
    "unat (info_size d) = length (file_buffer i)" "length (file_buffer i) < 2 ^ 63" "unat (i_size i) \<le> length (file_buffer i)"
  using assms by (auto simp: file_ok_def file_buffer_def)

lemma word_of_unat: "unat (x :: u64) = n \<Longrightarrow> x = of_nat n"
  by auto

lemma clip_count:
  fixes n pos count :: u64
  assumes "pos < n"
  shows "unat (clip count (n - pos)) = min (unat count) (unat n - unat pos)"
proof -
  have "unat (n - pos) = unat n - unat pos" using assms by (simp add: unat_sub)
  then show ?thesis by (auto simp: word_less_nat_alt clip_def)
qed

lemma clip_end:
  fixes n pos count :: u64
  assumes "pos < n"
  shows "unat (pos + (clip count (n - pos))) = unat pos + min (unat count) (unat n - unat pos)"
proof -
  let ?c = "clip count (n - pos)"
  have "unat pos < unat n" using assms by (simp add: word_less_nat_alt)
  then have "unat pos + unat ?c < 2 ^ 64" using clip_count [OF assms, of count] unat_lt2p [of n] by simp
  then show ?thesis using clip_count [OF assms, of count] by (simp add: unat_plus_if')
qed

lemma signed_less:
  fixes a b :: u64
  assumes "unat a < 2 ^ 63" "unat b < 2 ^ 63"
  shows "sint a < sint b \<longleftrightarrow> unat a < unat b"
proof -
  have "sint x = int (unat x)" if "unat x < 2 ^ 63" for x :: u64
  proof -
    have "int (unat x) < int (2 ^ 63)" using that by (simp only: of_nat_less_iff)
    then have "uint x < 2 ^ 63" by simp
    moreover have "0 \<le> uint x" by simp
    ultimately have "signed_take_bit 63 (uint x) = uint x" by (intro signed_take_bit_int_eq_self) linarith+
    then show ?thesis by (simp add: sint_uint)
  qed
  from this [OF assms(1)] this [OF assms(2)] show ?thesis by (simp only: of_nat_less_iff)
qed

lemma lock_roundtrip_info:
  "i_private i = Some d \<Longrightarrow> \<not> info_lock d \<Longrightarrow> i\<lparr>i_private := Some (d\<lparr>info_lock := False\<rparr>)\<rparr> = i"
  by (cases i; cases d) simp

lemma lock_run:
  assumes "i_private i = Some d" "\<not> info_lock d"
  shows "lock_info i = Some (Inr ((), i\<lparr>i_private := Some (d\<lparr>info_lock := True\<rparr>)\<rparr>))"
    and "unlock_info (i\<lparr>i_private := Some (d\<lparr>info_lock := True\<rparr>)\<rparr>) = Some (Inr ((), i))"
  using assms by (simp_all add: lock_info_def unlock_info_def lock_roundtrip_info)

lemma read_eof:
  assumes "file_ok i" "i_size i \<le> ppos"
  shows "devfs_read ctu count ppos i = Some (Inr ((0, [], ppos), i))"
  using assms(1)
proof (rule file_okE)
  fix d
  assume "i_private i = Some d" "info_buffer d = Some (file_buffer i)" "\<not> info_lock d"
  then show ?thesis using assms(2)
    by (simp add: devfs_read_def lock_info_def unlock_info_def lock_roundtrip_info Let_def)
qed

lemma read_run:
  assumes "file_ok i" "ppos < i_size i" and n_def: "n = min (unat count) (unat (i_size i) - unat ppos)"
  shows "devfs_read ctu count ppos i = Some (Inr (
    if ctu n \<noteq> 0 then (- E_FAULT, [], ppos)
    else (int n, read_at (contents i) (unat ppos) n, ppos + of_nat n), i))"
  using assms(1)
proof (rule file_okE)
  fix d
  assume d: "i_private i = Some d" "info_buffer d = Some (file_buffer i)" "\<not> info_lock d" "unat (i_size i) \<le> length (file_buffer i)"
  let ?c = "clip count (i_size i - ppos)"
  have c: "unat ?c = n" using clip_count [OF assms(2)] by (simp add: n_def)
  have oc: "?c = of_nat n" using c by (rule word_of_unat)
  have un: "unat (of_nat n :: u64) = n" using c oc by metis
  have p: "unat ppos < unat (i_size i)" using assms(2) by (simp add: word_less_nat_alt)
  then have len: "\<not> length (file_buffer i) < unat ppos + n" using d(4) by (simp add: n_def)
  have t: "read_at (contents i) (unat ppos) n = take n (drop (unat ppos) (file_buffer i))"
    by (simp add: read_at_def contents_def drop_take n_def min_def)
  have ns: "\<not> i_size i \<le> ppos" using assms(2) by simp
  show ?thesis using d(1,2) ns len
    by (cases "ctu n = 0") (simp_all add: devfs_read_def Let_def oc un t lock_run [OF d(1,3)] del: if_split of_nat_min)
qed

lemma write_full:
  assumes "file_ok i" "of_nat (length (file_buffer i)) \<le> ppos"
  shows "devfs_write now src count ppos i = Some (Inr ((- E_NOSPC, ppos), i))"
  using assms(1)
proof (rule file_okE)
  fix d
  assume d: "i_private i = Some d" "info_buffer d = Some (file_buffer i)" "\<not> info_lock d" "unat (info_size d) = length (file_buffer i)"
  have "info_size d = of_nat (length (file_buffer i))" using d(4) by (rule word_of_unat)
  then show ?thesis using d assms(2)
    by (simp add: devfs_write_def lock_info_def unlock_info_def lock_roundtrip_info Let_def)
qed

lemma write_run:
  assumes "file_ok i" "unat ppos < length (file_buffer i)" and n_def: "n = min (unat count) (length (file_buffer i) - unat ppos)"
  shows "devfs_write now src count ppos i = Some (Inr (
    if snd (src n) \<noteq> 0
    then ((- E_FAULT, ppos), with_buffer (overwrite (file_buffer i) (unat ppos) (fst (src n))) i)
    else ((int n, ppos + of_nat n),
          with_size now (ppos + of_nat n) (with_buffer (overwrite (file_buffer i) (unat ppos) (fst (src n))) i))))"
  using assms(1)
proof (rule file_okE)
  fix d
  assume d: "i_private i = Some d" "info_buffer d = Some (file_buffer i)" "\<not> info_lock d" "unat (info_size d) = length (file_buffer i)"
    "length (file_buffer i) < 2 ^ 63" "unat (i_size i) \<le> length (file_buffer i)"
  have lt: "ppos < info_size d" using assms(2) d(4) by (simp add: word_less_nat_alt)
  let ?c = "clip count (info_size d - ppos)"
  have c: "unat ?c = n" using clip_count [OF lt] d(4) by (simp add: n_def)
  have oc: "?c = of_nat n" using c by (rule word_of_unat)
  have un: "unat (of_nat n :: u64) = n" using c oc by metis
  have e: "unat (ppos + of_nat n) = unat ppos + n" using clip_end [OF lt, of count] d(4) oc by (simp add: n_def)
  have r: "unat ppos + n \<le> length (file_buffer i)" using assms(2) by (simp add: n_def)
  have sg: "sint (i_size i) < sint (ppos + of_nat n) \<longleftrightarrow> unat (i_size i) < unat (ppos + of_nat n)"
    using signed_less d(5,6) e r by simp
  have ns: "\<not> info_size d \<le> ppos" "\<not> length (file_buffer i) < unat ppos + n" using lt r by simp_all
  have w: "with_buffer b i = i\<lparr>i_private := Some (d\<lparr>info_buffer := Some b\<rparr>)\<rparr>" for b using d(1) by (simp add: with_buffer_def)
  have un2: "d\<lparr>info_buffer := Some b, info_lock := False\<rparr> = d\<lparr>info_buffer := Some b\<rparr>" for b using d(3) by (cases d) simp
  have rest: "devfs_write now src count ppos i = seqK (store_bytes ppos (fst (src n)))
      (if snd (src n) \<noteq> 0 then seqK unlock_info (retK (- E_FAULT, ppos))
       else seqK (whenK (sint (i_size i) < sint (ppos + of_nat n)) (modK (\<lambda>i. i\<lparr>i_size := ppos + of_nat n\<rparr>)))
         (seqK (modK (\<lambda>i. i\<lparr>i_mtime := now, i_ctime := now\<rparr>)) (seqK unlock_info (retK (int n, ppos + of_nat n)))))
      (i\<lparr>i_private := Some (d\<lparr>info_lock := True\<rparr>)\<rparr>)"
    using d(1,2) ns(1,2) by (simp add: devfs_write_def Let_def oc un lock_run(1) [OF d(1,3)] del: of_nat_min)
  have st: "store_bytes ppos bs (i\<lparr>i_private := Some (d\<lparr>info_lock := True\<rparr>)\<rparr>) =
      Some (Inr ((), i\<lparr>i_private := Some (d\<lparr>info_lock := True, info_buffer := Some (overwrite (file_buffer i) (unat ppos) bs)\<rparr>)\<rparr>))" for bs
    using d(2) by (cases d) (simp add: store_bytes_def)
  show ?thesis unfolding rest sg w
    by (cases "snd (src n) = 0"; cases "unat (i_size i) < unat (ppos + of_nat n)") (simp_all add: st unlock_info_def un2 with_size_def)
qed

text \<open>Both results of a write are well-formed files again.\<close>

lemma with_buffer_ok:
  assumes "file_ok i" "length b = length (file_buffer i)"
  shows "file_ok (with_buffer b i)" "file_buffer (with_buffer b i) = b" "i_size (with_buffer b i) = i_size i"
  using assms by (auto simp: file_ok_def with_buffer_def file_buffer_def)

lemma with_size_ok:
  assumes "file_ok i" "unat n \<le> length (file_buffer i)"
  shows "file_ok (with_size now n i)" "file_buffer (with_size now n i) = file_buffer i"
    "unat (i_size (with_size now n i)) = max (unat (i_size i)) (unat n)"
  using assms by (auto simp: file_ok_def with_size_def file_buffer_def)

text \<open>\<open>copy_from_user\<close> fills the whole range, with the bytes of the user when it succeeds.\<close>

definition copy_ok :: "user_source \<Rightarrow> u8 list \<Rightarrow> bool" where
  "copy_ok src buf \<longleftrightarrow> (\<forall>n. length (fst (src n)) = n \<and> (snd (src n) = 0 \<longrightarrow> n \<le> length buf \<and> fst (src n) = take n buf))"

lemma write_result:
  assumes "file_ok i" "unat ppos < length (file_buffer i)" and n: "n = min (unat count) (length (file_buffer i) - unat ppos)"
    and src: "length (fst (src n)) = n"
  shows "\<exists>j. devfs_write now src count ppos i = Some (Inr (if snd (src n) = 0 then (int n, ppos + of_nat n) else (- E_FAULT, ppos), j)) \<and>
    file_ok j \<and> file_buffer j = overwrite (file_buffer i) (unat ppos) (fst (src n)) \<and>
    unat (i_size j) = (if snd (src n) = 0 then max (unat (i_size i)) (unat ppos + n) else unat (i_size i)) \<and>
    unat (ppos + of_nat n) = unat ppos + n"
proof -
  let ?b = "overwrite (file_buffer i) (unat ppos) (fst (src n))"
  have r: "unat ppos + n \<le> length (file_buffer i)" using assms(2) by (simp add: n)
  have "length (file_buffer i) < 2 ^ 63" using assms(1) by (auto elim: file_okE)
  then have b64: "unat ppos + n < 2 ^ 64" using r by simp
  then have e: "unat (ppos + of_nat n) = unat ppos + n"
    using unat_of_nat64 [of n] by (simp add: unat_plus_if')
  have len: "length ?b = length (file_buffer i)" using r src by simp
  note b = with_buffer_ok [OF assms(1) len]
  have "unat (ppos + of_nat n) \<le> length (file_buffer (with_buffer ?b i))" using b(2) len e r by simp
  note w = with_size_ok [OF b(1) this]
  show ?thesis using write_run [OF assms(1-3), of now src] w b e by (cases "snd (src n) = 0") auto
qed

text \<open>Sequences of calls on one file.\<close>

datatype file_op = ReadOp "nat \<Rightarrow> nat" u64 u64 | WriteOp int user_source u64 u64

fun file_step :: "file_op \<Rightarrow> (inode, unit) km" where
  "file_step (ReadOp ctu count ppos) = bindK (devfs_read ctu count ppos) (\<lambda>_. retK ())"
| "file_step (WriteOp now src count ppos) = bindK (devfs_write now src count ppos) (\<lambda>_. retK ())"

primrec file_run :: "file_op list \<Rightarrow> (inode, unit) km" where
  "file_run [] = retK ()"
| "file_run (x # xs) = seqK (file_step x) (file_run xs)"

fun op_ok :: "file_op \<Rightarrow> bool" where
  "op_ok (ReadOp ctu count ppos) = True"
| "op_ok (WriteOp now src count ppos) = (\<exists>buf. copy_ok src buf)"

definition grown :: "inode \<Rightarrow> inode \<Rightarrow> bool" where
  "grown i j \<longleftrightarrow> file_ok j \<and> length (file_buffer j) = length (file_buffer i) \<and> unat (i_size i) \<le> unat (i_size j)"

lemma devfs_write_keeps:
  assumes "file_ok i" "copy_ok src buf"
  shows "\<exists>r j. devfs_write now src count ppos i = Some (Inr (r, j)) \<and> grown i j"
proof (cases "unat ppos < length (file_buffer i)")
  case True
  let ?n = "min (unat count) (length (file_buffer i) - unat ppos)"
  have "length (fst (src ?n)) = ?n" using assms(2) by (simp add: copy_ok_def)
  then obtain r j where j: "devfs_write now src count ppos i = Some (Inr (r, j))" "file_ok j"
    "file_buffer j = overwrite (file_buffer i) (unat ppos) (fst (src ?n))" "unat (i_size i) \<le> unat (i_size j)"
    using write_result [OF assms(1) True refl, of src count now] by (auto split: if_splits)
  moreover have "length (file_buffer j) = length (file_buffer i)" using j(3) True \<open>length (fst (src ?n)) = ?n\<close> by simp
  ultimately show ?thesis by (auto simp: grown_def)
next
  case False
  have "length (file_buffer i) < 2 ^ 63" using assms(1) by (auto elim: file_okE)
  then have "of_nat (length (file_buffer i)) \<le> ppos" using False unat_of_nat64 [of "length (file_buffer i)"] by (simp add: word_le_nat_alt)
  from write_full [OF assms(1) this] assms(1) show ?thesis by (auto simp: grown_def)
qed

lemma devfs_read_keeps:
  assumes "file_ok i"
  shows "\<exists>r. devfs_read ctu count ppos i = Some (Inr (r, i))"
  using read_eof [OF assms] read_run [OF assms _ refl] by (cases "ppos < i_size i") (auto simp: not_less)

lemma file_run_ok:
  assumes "file_ok i" "list_all op_ok xs"
  shows "\<exists>j. file_run xs i = Some (Inr ((), j)) \<and> grown i j"
  using assms
proof (induction xs arbitrary: i)
  case (Cons x xs)
  have "\<exists>j. file_step x i = Some (Inr ((), j)) \<and> grown i j"
  proof (cases x)
    case (ReadOp ctu count ppos)
    then show ?thesis using devfs_read_keeps [OF Cons.prems(1), of ctu count ppos] Cons.prems(1) by (auto simp: grown_def)
  next
    case (WriteOp now src count ppos)
    then obtain buf where "copy_ok src buf" using Cons.prems(2) by auto
    from devfs_write_keeps [OF Cons.prems(1) this, of now count ppos] WriteOp show ?thesis by auto
  qed
  then obtain j where j: "file_step x i = Some (Inr ((), j))" "grown i j" by blast
  obtain k where "file_run xs j = Some (Inr ((), k))" "grown j k" using Cons.IH [of j] Cons.prems(2) j(2) by (auto simp: grown_def)
  then show ?case using j by (auto simp: grown_def)
qed (simp add: grown_def)

section \<open>Mounting\<close>

text \<open>
  What the VFS promises: \<open>iput\<close> of the last reference evicts the inode, \<open>iput\<close> of an inode that
  is gone is undefined, and \<open>d_make_root\<close> either succeeds (\<open>ok\<close>) or puts the inode and fails.
\<close>

definition vfs_ok :: "vfs \<Rightarrow> bool \<Rightarrow> bool" where
  "vfs_ok v ok \<longleftrightarrow>
     (\<forall>evict a s i. inodes s a = Some i \<and> i_count i = 1 \<longrightarrow> iput v evict (Some a) s = evict a s) \<and>
     (\<forall>evict a s. inodes s a = None \<longrightarrow> iput v evict (Some a) s = Some (Inl (Fault ''inode''))) \<and>
     (\<forall>a s i. inodes s a = Some i \<longrightarrow> d_make_root v (Some a) s =
        (if ok then Some (Inr (True, s)) else bindK (iput v devfs_evict_inode (Some a)) (\<lambda>_. retK False) s))"

text \<open>A pointer to a new inode: one reference, no private data, at an address not in use.\<close>

definition fresh_ok :: "super_block \<Rightarrow> nat \<times> inode \<Rightarrow> bool" where
  "fresh_ok s m \<longleftrightarrow> inodes s (fst m) = None \<and> i_count (snd m) = 1 \<and> i_private (snd m) = None"

definition mount_complete :: "mount_env \<Rightarrow> bool" where
  "mount_complete env \<longleftrightarrow> me_info env \<and> me_buffer env \<and> me_dentry env"

lemma vfs_okD:
  assumes "vfs_ok v ok"
  shows "inodes s a = Some i \<Longrightarrow> i_count i = 1 \<Longrightarrow> iput v evict (Some a) s = evict a s"
    and "inodes s a = None \<Longrightarrow> iput v evict (Some a) s = Some (Inl (Fault ''inode''))"
    and "inodes s a = Some i \<Longrightarrow> d_make_root v (Some a) s =
      (if ok then Some (Inr (True, s)) else bindK (iput v devfs_evict_inode (Some a)) (\<lambda>_. retK False) s)"
  using assms unfolding vfs_ok_def by blast+

lemma at_inode_run [simp]: "inodes s a = Some i \<Longrightarrow> m i = Some (Inr (x, i')) \<Longrightarrow>
    at_inode a m s = Some (Inr (x, s\<lparr>inodes := (inodes s)(a \<mapsto> i')\<rparr>))"
  by (simp add: at_inode_def)

lemma get_dir_run:
  "devfs_get_inode (Some (a, i)) now DIR_MODE s = Some (Inr (Inr (Some a), s\<lparr>inodes := (inodes s)(a \<mapsto>
     i\<lparr>i_mode := DIR_MODE, i_uid := 0, i_gid := 0, i_blocks := 0, i_atime := now, i_mtime := now, i_ctime := now,
       i_op := DirIop, i_fop := DirFop, i_nlink := Suc (i_nlink i)\<rparr>)\<rparr>))"
  unfolding devfs_get_inode_def by simp

lemma get_file_run:
  "devfs_get_inode (Some (a, i)) now FILE_MODE s = Some (Inr (Inr (Some a), s\<lparr>inodes := (inodes s)(a \<mapsto>
     i\<lparr>i_mode := FILE_MODE, i_uid := 0, i_gid := 0, i_blocks := 0, i_atime := now, i_mtime := now, i_ctime := now,
       i_op := DirIop, i_fop := FileFop\<rparr>)\<rparr>))"
  unfolding devfs_get_inode_def by simp

lemma evict_run:
  "inodes s a = Some i \<Longrightarrow> devfs_evict_inode a s = Some (Inr ((), s\<lparr>inodes := (inodes s)(a := None)\<rparr>))"
  by (simp add: devfs_evict_inode_def)

text \<open>From the file inode on: the file is there, or its inode is gone again.\<close>

lemma fill_file_run:
  assumes "vfs_ok v ok" "inodes s f = Some i" "i_count i = 1"
  shows "\<exists>s'. fill_file v env (Some f) s = Some (Inr (if mount_complete env then 0 else - E_NOMEM, s')) \<and>
    (\<forall>a. a \<noteq> f \<longrightarrow> inodes s' a = inodes s a) \<and> s_root s' = s_root s \<and> s_magic s' = s_magic s \<and>
    (if mount_complete env
     then dentries s' = dentries s @ [(DEVFS_FILENAME, f)] \<and> (\<exists>j. inodes s' f = Some j \<and> i_fop j = i_fop i \<and> file_ok j \<and> contents j = [] \<and>
            file_buffer j = replicate PAGE_BYTES 0)
     else dentries s' = dentries s \<and> inodes s' f = None)"
proof -
  have put: "iput v devfs_evict_inode (Some f) t = Some (Inr ((), t\<lparr>inodes := (inodes t)(f := None)\<rparr>))"
    if "inodes t f = Some j" "i_count j = 1" for t j
    using vfs_okD(1) [OF assms(1) that] evict_run [OF that(1)] by simp
  have "unat (of_nat PAGE_BYTES :: u64) = PAGE_BYTES" by simp
  then have "file_ok (i\<lparr>i_ino := 2, i_private := Some fresh_info, i_size := 0\<rparr>)"
    "contents (i\<lparr>i_ino := 2, i_private := Some fresh_info, i_size := 0\<rparr>) = []"
    "file_buffer (i\<lparr>i_ino := 2, i_private := Some fresh_info, i_size := 0\<rparr>) = replicate PAGE_BYTES 0"
    by (simp_all add: file_ok_def fresh_info_def contents_def file_buffer_def)
  then show ?thesis using assms(2,3)
    by (cases "me_info env"; cases "me_buffer env"; cases "me_dentry env")
      (simp_all add: fill_file_def at_ptr_def failed_iput_file_def put mount_complete_def)
qed

section \<open>Properties\<close>

text \<open>
  C30: Any sequence of reads and writes of the file, at any positions, with any counts and any
  user buffers, including those that fault, returns and keeps the file well formed: no access
  leaves the buffer, the buffer keeps its length, the file never shrinks and never exceeds it,
  and the lock is free after every call.
\<close>

theorem devfs_file_invariant:
  assumes "file_ok i" "list_all op_ok xs"
  shows "\<exists>j. file_run xs i = Some (Inr ((), j)) \<and> file_ok j \<and> length (file_buffer j) = length (file_buffer i) \<and>
    unat (i_size i) \<le> unat (i_size j)"
  using file_run_ok [OF assms] by (auto simp: grown_def)

definition demo_inode :: inode where
  "demo_inode = \<lparr>i_ino = 2, i_mode = 0, i_uid = 0, i_gid = 0, i_blocks = 0, i_nlink = 1, i_count = 1, i_op = DirIop, i_fop = FileFop,
     i_atime = 0, i_mtime = 0, i_ctime = 0, i_size = 0, i_private = Some \<lparr>info_buffer = Some [0, 0, 0, 0], info_size = 4, info_lock = False\<rparr>\<rparr>"

definition demo_source :: user_source where
  "demo_source n = (take n [1, 2, 3] @ replicate (n - 3) 0, n - 3)"

lemma demo_file: "file_ok demo_inode" "copy_ok demo_source [1, 2, 3]"
  by (auto simp: file_ok_def demo_inode_def copy_ok_def demo_source_def)

theorem devfs_file_invariant_witness:
  "\<exists>j. file_run [WriteOp 1 demo_source 3 1, WriteOp 2 demo_source 9 0, ReadOp (\<lambda>n. 0) 9 2] demo_inode = Some (Inr ((), j)) \<and> file_ok j"
  using devfs_file_invariant [OF demo_file(1), of "[WriteOp 1 demo_source 3 1, WriteOp 2 demo_source 9 0, ReadOp (\<lambda>n. 0) 9 2]"]
    demo_file(2) by auto

text \<open>
  Bytes written to the file are read back: when a write reports \<open>n\<close> bytes, \<open>n\<close> is the count
  cut to the room in the buffer, and a read of \<open>n\<close> bytes at the same position delivers exactly
  the first \<open>n\<close> bytes of the user; every byte of the file outside the range is unchanged.
\<close>

theorem devfs_write_read:
  assumes "file_ok i" "copy_ok src buf" "unat ppos < length (file_buffer i)"
    and "n = min (unat count) (length (file_buffer i) - unat ppos)" "0 < n" "snd (src n) = 0"
  shows "\<exists>j. devfs_write now src count ppos i = Some (Inr ((int n, ppos + of_nat n), j)) \<and>
    devfs_read (\<lambda>_. 0) (of_nat n) ppos j = Some (Inr ((int n, take n buf, ppos + of_nat n), j)) \<and>
    (\<forall>k < unat (i_size i). k < unat ppos \<or> unat ppos + n \<le> k \<longrightarrow> contents j ! k = contents i ! k)"
proof -
  have src: "length (fst (src n)) = n" "fst (src n) = take n buf" "n \<le> length buf" using assms(2,6) by (auto simp: copy_ok_def)
  obtain j where j: "devfs_write now src count ppos i = Some (Inr ((int n, ppos + of_nat n), j))" "file_ok j"
    "file_buffer j = overwrite (file_buffer i) (unat ppos) (take n buf)"
    "unat (i_size j) = max (unat (i_size i)) (unat ppos + n)"
    using write_result [OF assms(1,3,4), of src now] assms(6) src(1,2) by auto
  have r: "unat ppos + n \<le> length (file_buffer i)" using assms(3,4) by simp
  have s: "unat (i_size i) \<le> length (file_buffer i)" "length (file_buffer i) < 2 ^ 63" using assms(1) by (auto elim: file_okE)
  then have un: "unat (of_nat n :: u64) = n" using unat_of_nat64 [of n] r by simp
  have lt: "ppos < i_size j" using j(4) assms(5) by (simp add: word_less_nat_alt)
  have m: "n = min (unat (of_nat n :: u64)) (unat (i_size j) - unat ppos)" using un j(4) by simp
  have "read_at (contents j) (unat ppos) n = read_at (file_buffer j) (unat ppos) n"
    using j(4) by (simp add: read_at_def contents_def drop_take min_def)
  also have "\<dots> = take n buf" using read_overwrite [of "unat ppos" "take n buf" "file_buffer i"] j(3) r src(3) by simp
  finally have "devfs_read (\<lambda>_. 0) (of_nat n) ppos j = Some (Inr ((int n, take n buf, ppos + of_nat n), j))"
    using read_run [OF j(2) lt m, of "\<lambda>_. 0"] by simp
  moreover have "contents j ! k = contents i ! k" if "k < unat (i_size i)" "k < unat ppos \<or> unat ppos + n \<le> k" for k
    using that j(3,4) s r src(3) nth_overwrite [of "unat ppos" "take n buf" "file_buffer i" k] by (auto simp: contents_def)
  ultimately show ?thesis using j(1) by blast
qed

theorem devfs_write_read_witness:
  "\<exists>j. devfs_write 7 demo_source 3 1 demo_inode = Some (Inr ((3, 4), j)) \<and>
    devfs_read (\<lambda>_. 0) 3 1 j = Some (Inr ((3, [1, 2, 3], 4), j))"
  using devfs_write_read [OF demo_file, of 1 3 3 7]
  by (auto simp: demo_source_def demo_inode_def file_buffer_def)

text \<open>
  C31: Every outcome of filling the super block. When all allocations succeed the result is 0,
  the root is set and the directory holds the file, well formed, empty and backed by one zeroed
  page. When the private data, the buffer or the directory entry cannot be allocated the
  result is \<open>-ENOMEM\<close> and the inode of the file is gone. When \<open>d_make_root\<close> fails, the error
  path puts the root inode a second time, which is undefined; and a failure of \<open>new_inode\<close> is
  not recognised, its NULL is dereferenced.
\<close>

theorem devfs_fill_super_outcomes:
  assumes "vfs_ok v ok" "fresh_ok s (r, ri)" "fresh_ok s (f, fi)" "r \<noteq> f"
    and env: "env = \<lparr>me_root = Some (r, ri), me_file = Some (f, fi), me_info = b1, me_buffer = b2, me_dentry = b3, me_now = now\<rparr>"
  shows "(if ok then
       (\<exists>s'. devfs_fill_super v env s = Some (Inr (if b1 \<and> b2 \<and> b3 then 0 else - E_NOMEM, s')) \<and> s_root s' = Some r \<and>
          s_magic s' = DEVFS_SUPER_MAGIC \<and> (\<forall>a. a \<noteq> r \<and> a \<noteq> f \<longrightarrow> inodes s' a = inodes s a) \<and>
          (if b1 \<and> b2 \<and> b3
           then dentries s' = dentries s @ [(''buffer'', f)] \<and> (\<exists>j. inodes s' f = Some j \<and> i_fop j = FileFop \<and> file_ok j \<and>
                  contents j = [] \<and> file_buffer j = replicate 4096 0)
           else dentries s' = dentries s \<and> inodes s' f = None)) \<and>
       devfs_fill_super v (env\<lparr>me_file := None\<rparr>) s = Some (Inl (Fault ''NULL''))
     else devfs_fill_super v env s = Some (Inl (Fault ''inode''))) \<and>
     devfs_fill_super v (env\<lparr>me_root := None\<rparr>) s = Some (Inl (Fault ''NULL''))"
proof -
  let ?s0 = "s\<lparr>s_maxbytes := 0x7FFFFFFFFFFFFFFF, s_blocksize := of_nat PAGE_BYTES, s_blocksize_bits := 12,
    s_magic := DEVFS_SUPER_MAGIC, s_time_gran := 1\<rparr>"
  let ?ri = "ri\<lparr>i_mode := DIR_MODE, i_uid := 0, i_gid := 0, i_blocks := 0, i_atime := now, i_mtime := now, i_ctime := now,
       i_op := DirIop, i_fop := DirFop, i_nlink := Suc (i_nlink ri), i_ino := 1\<rparr>"
  let ?s1 = "?s0\<lparr>inodes := (inodes s)(r \<mapsto> ?ri)\<rparr>"
  let ?fi = "fi\<lparr>i_mode := FILE_MODE, i_uid := 0, i_gid := 0, i_blocks := 0, i_atime := now, i_mtime := now, i_ctime := now,
       i_op := DirIop, i_fop := FileFop\<rparr>"
  let ?s2 = "?s1\<lparr>s_root := Some r, inodes := (inodes ?s1)(f \<mapsto> ?fi)\<rparr>"
  have null: "devfs_fill_super v (env\<lparr>me_root := None\<rparr>) s = Some (Inl (Fault ''NULL''))"
    by (simp add: devfs_fill_super_def devfs_get_inode_def at_ptr_def env)
  have start: "devfs_fill_super v e s = bindK (d_make_root v (Some r)) (\<lambda>root_dentry.
       if \<not> root_dentry then failed_iput_root v (Some r)
       else seqK (modK (\<lambda>s. s\<lparr>s_root := Some r\<rparr>))
          (bindK (devfs_get_inode (me_file e) (me_now e) FILE_MODE) (\<lambda>x.
           case x of Inl err \<Rightarrow> retK err | Inr file_inode \<Rightarrow> fill_file v e file_inode))) ?s1"
    if "me_root e = Some (r, ri)" "me_now e = now" for e
    unfolding devfs_fill_super_def using that by (simp add: get_dir_run at_ptr_def)
  have root: "inodes ?s1 r = Some ?ri" by simp
  show ?thesis
  proof (cases ok)
    case True
    then have d: "d_make_root v (Some r) ?s1 = Some (Inr (True, ?s1))" using vfs_okD(3) [OF assms(1) root] by simp
    have "inodes ?s2 f = Some ?fi" "i_count ?fi = 1" using assms(3) by (simp_all add: fresh_ok_def)
    note ff = fill_file_run [OF assms(1) this, of env]
    have "devfs_fill_super v env s = fill_file v env (Some f) ?s2"
      using start [of env] d by (simp add: env get_file_run)
    moreover have "devfs_fill_super v (env\<lparr>me_file := None\<rparr>) s = Some (Inl (Fault ''NULL''))"
      using start [of "env\<lparr>me_file := None\<rparr>"] d by (simp add: env devfs_get_inode_def fill_file_def at_ptr_def)
    ultimately show ?thesis using True null ff by (auto simp: mount_complete_def env)
  next
    case False
    let ?t = "?s1\<lparr>inodes := (inodes ?s1)(r := None)\<rparr>"
    have "i_count ?ri = 1" using assms(2) by (simp add: fresh_ok_def)
    then have "iput v devfs_evict_inode (Some r) ?s1 = Some (Inr ((), ?t))"
      using vfs_okD(1) [OF assms(1) root] evict_run [OF root] by simp
    then have d: "d_make_root v (Some r) ?s1 = Some (Inr (False, ?t))"
      using vfs_okD(3) [OF assms(1) root] False by simp
    have e: "me_root env = Some (r, ri)" "me_now env = now" by (simp_all add: env)
    have "devfs_fill_super v env s = failed_iput_root v (Some r) ?t"
      unfolding start [OF e] by (subst bindK_returns [where m = "d_make_root v (Some r)", OF d]) simp
    moreover have "iput v devfs_evict_inode (Some r) ?t = Some (Inl (Fault ''inode''))" by (rule vfs_okD(2) [OF assms(1)]) simp
    ultimately have "devfs_fill_super v env s = Some (Inl (Fault ''inode''))"
      unfolding failed_iput_root_def by simp
    then show ?thesis using False null by simp
  qed
qed

definition demo_vfs :: vfs where
  "demo_vfs = \<lparr>iput = (\<lambda>evict p. case p of None \<Rightarrow> retK () | Some a \<Rightarrow> (\<lambda>s. case inodes s a of
       None \<Rightarrow> Some (Inl (Fault ''inode''))
     | Some i \<Rightarrow> if i_count i = 1 then evict a s else Some (Inr ((), s\<lparr>inodes := (inodes s)(a \<mapsto> i\<lparr>i_count := i_count i - 1\<rparr>)\<rparr>)))),
     d_make_root = (\<lambda>p. retK True)\<rparr>"

definition demo_super :: super_block where
  "demo_super = \<lparr>inodes = Map.empty, s_maxbytes = 0, s_blocksize = 0, s_blocksize_bits = 0, s_magic = 0, s_time_gran = 0, s_root = None, dentries = []\<rparr>"

definition demo_mount :: mount_env where
  "demo_mount = \<lparr>me_root = Some (1, demo_inode\<lparr>i_private := None\<rparr>), me_file = Some (2, demo_inode\<lparr>i_private := None\<rparr>),
     me_info = True, me_buffer = True, me_dentry = True, me_now = 5\<rparr>"

theorem devfs_fill_super_outcomes_witness:
  "\<exists>s'. devfs_fill_super demo_vfs demo_mount demo_super = Some (Inr (0, s')) \<and> s_root s' = Some 1 \<and> dentries s' = [(''buffer'', 2)]"
proof -
  let ?i = "demo_inode\<lparr>i_private := None\<rparr>"
  have v: "vfs_ok demo_vfs True" by (simp add: vfs_ok_def demo_vfs_def)
  have "fresh_ok demo_super (1, ?i)" "fresh_ok demo_super (2, ?i)" by (simp_all add: fresh_ok_def demo_super_def demo_inode_def)
  from devfs_fill_super_outcomes [OF v this _ demo_mount_def] show ?thesis by (auto simp: demo_super_def)
qed

end
