(* ===== verification/FileTask.thy ===== *)
theory FileTask
  imports KPrelude "HOL-Library.Sublist"
begin

text \<open>
  The file task of \<^verbatim>\<open>src/fs/read_write.c\<close>: a thread writes a string to a file, in as many calls
  as the system needs, reads the file back and prints it. What each system call returns is a
  function of the number of calls made so far; a call of \<open>write\<close> or \<open>read\<close> either fails with an
  \<open>errno\<close> or transfers some of the bytes asked for. Informational output is left out; error
  reports and the bytes printed with \<open>fwrite\<close> are part of the state.
\<close>

section \<open>Data\<close>

record file_task_t =
  ft_filename :: string
  ft_data :: "u8 list"
  ft_buffer_size :: nat

datatype xfer = XErr int | XBytes nat

record file_os =
  fo_calloc :: "nat \<Rightarrow> bool"
  fo_open :: "nat \<Rightarrow> int"
  fo_write :: "nat \<Rightarrow> xfer"
  fo_read :: "nat \<Rightarrow> xfer"
  fo_lseek :: "nat \<Rightarrow> int"
  fo_close :: "nat \<Rightarrow> int"
  fo_fopen :: "nat \<Rightarrow> bool"

record file_world =
  fw_bytes :: "u8 list"
  fw_pos :: nat
  fw_open :: "int list"
  fw_buffers :: nat
  fw_stdout :: "u8 list"
  fw_log :: "string list"
  fw_stderr :: "string list"
  fw_calls :: nat

abbreviation MAX_RETRIES :: nat where "MAX_RETRIES \<equiv> 3"
abbreviation INTR :: int where "INTR \<equiv> 4"

definition call :: "(nat \<Rightarrow> 'a) \<Rightarrow> (file_world, 'a) km" where
  "call f = (\<lambda>s. Some (Inr (f (fw_calls s), s\<lparr>fw_calls := Suc (fw_calls s)\<rparr>)))"

section \<open>Operations\<close>

definition log_error :: "file_os \<Rightarrow> string \<Rightarrow> (file_world, unit) km" where
  "log_error os msg =
     bindK (call (fo_fopen os)) (\<lambda>log_file.
     seqK (if log_file then modK (\<lambda>s. s\<lparr>fw_log := fw_log s @ [msg]\<rparr>)
           else modK (\<lambda>s. s\<lparr>fw_stderr := fw_stderr s @ [''Log Error: Could not open log file'', msg]\<rparr>))
          (modK (\<lambda>s. s\<lparr>fw_stderr := fw_stderr s @ [msg]\<rparr>)))"

text \<open>A successful \<open>write\<close> of some bytes at the file position, and a \<open>read\<close> of some bytes from there.\<close>

definition put_bytes :: "u8 list \<Rightarrow> (file_world, unit) km" where
  "put_bytes bs = modK (\<lambda>s. s\<lparr>fw_bytes := take (fw_pos s) (fw_bytes s) @ bs @ drop (fw_pos s + length bs) (fw_bytes s),
                              fw_pos := fw_pos s + length bs\<rparr>)"

definition get_bytes :: "nat \<Rightarrow> (file_world, u8 list) km" where
  "get_bytes n = bindK (getK (\<lambda>s. take n (drop (fw_pos s) (fw_bytes s)))) (\<lambda>bs.
     seqK (modK (\<lambda>s. s\<lparr>fw_pos := fw_pos s + length bs\<rparr>)) (retK bs))"

text \<open>
  One round of the write loop over \<open>bytes_written_total\<close> and \<open>retries\<close>; it is left with
  \<open>True\<close> when everything is written and with \<open>False\<close> by \<open>goto cleanup\<close>.
\<close>

definition write_round :: "file_os \<Rightarrow> u8 list \<Rightarrow> nat \<times> nat \<Rightarrow> (file_world, bool + nat \<times> nat) km" where
  "write_round os data = (\<lambda>(tot, retries).
     if \<not> tot < length data then retK (Inl True)
     else
       bindK (call (fo_write os)) (\<lambda>bytes_op. case bytes_op of
         XErr e \<Rightarrow>
           if e = INTR then retK (Inr (tot, retries))
           else if retries < MAX_RETRIES then seqK (log_error os ''Retry writing to file'') (retK (Inr (tot, Suc retries)))
           else seqK (log_error os ''Error writing to file after retries'') (retK (Inl False))
       | XBytes k \<Rightarrow>
           (let n = min k (length data - tot) in
            if n = 0 then
              seqK (modK (\<lambda>s. s\<lparr>fw_stderr := fw_stderr s @ [''Wrote 0 bytes, potential issue (disk full?).'']\<rparr>))
             (seqK (log_error os ''Wrote 0 bytes unexpectedly'') (retK (Inl False)))
            else seqK (put_bytes (take n (drop tot data))) (retK (Inr (tot + n, 0))))))"

text \<open>One round of the read loop over \<open>retries\<close>: at least one byte is read unless the file is at its end.\<close>

definition read_round :: "file_os \<Rightarrow> nat \<Rightarrow> nat \<Rightarrow> (file_world, bool + nat) km" where
  "read_round os buffer_size retries =
     bindK (call (fo_read os)) (\<lambda>bytes_op. case bytes_op of
       XErr e \<Rightarrow>
         if e = INTR then retK (Inr retries)
         else if retries < MAX_RETRIES then seqK (log_error os ''Retry reading from file'') (retK (Inr (Suc retries)))
         else seqK (log_error os ''Error reading from file after retries'') (retK (Inl False))
     | XBytes k \<Rightarrow>
         bindK (get_bytes (min (max 1 k) buffer_size)) (\<lambda>buffer.
         if buffer = [] then retK (Inl True)
         else seqK (modK (\<lambda>s. s\<lparr>fw_stdout := fw_stdout s @ buffer\<rparr>)) (retK (Inr 0))))"

definition cleanup :: "file_os \<Rightarrow> int \<Rightarrow> (file_world, unit) km" where
  "cleanup os fd =
     seqK (whenK (fd \<noteq> - 1)
       (bindK (call (fo_close os)) (\<lambda>r.
        seqK (modK (\<lambda>s. s\<lparr>fw_open := remove1 fd (fw_open s)\<rparr>))
             (whenK (r = - 1) (log_error os ''Error closing file'')))))
     (modK (\<lambda>s. s\<lparr>fw_buffers := fw_buffers s - 1\<rparr>))"

text \<open>The task after the file is open: write, seek to the start, read back, clean up.\<close>

definition transfer :: "file_os \<Rightarrow> file_task_t \<Rightarrow> int \<Rightarrow> (file_world, unit) km" where
  "transfer os task fd =
     bindK (loopK (write_round os (ft_data task)) (0, 0)) (\<lambda>written.
     if \<not> written then cleanup os fd
     else
       bindK (call (fo_lseek os)) (\<lambda>r.
       if r = - 1 then seqK (log_error os ''Error seeking in file'') (cleanup os fd)
       else
         seqK (modK (\<lambda>s. s\<lparr>fw_pos := 0\<rparr>))
        (bindK (loopK (read_round os (ft_buffer_size task)) 0) (\<lambda>_. cleanup os fd))))"

definition process_file :: "file_os \<Rightarrow> file_task_t \<Rightarrow> (file_world, unit) km" where
  "process_file os task =
     bindK (call (fo_calloc os)) (\<lambda>buffer.
     if \<not> buffer then
       seqK (modK (\<lambda>s. s\<lparr>fw_stderr := fw_stderr s @ [''Memory allocation failed for buffer'']\<rparr>)) (stopK (Exit 1))
     else
       seqK (modK (\<lambda>s. s\<lparr>fw_buffers := Suc (fw_buffers s)\<rparr>))
      (bindK (call (fo_open os)) (\<lambda>fd.
       if fd = - 1 then seqK (log_error os ''Error opening file'') (cleanup os fd)
       else
         seqK (modK (\<lambda>s. s\<lparr>fw_bytes := [], fw_pos := 0, fw_open := fd # fw_open s\<rparr>))
              (transfer os task fd))))"

section \<open>The loops\<close>

text \<open>From call \<open>N\<close> on no call is interrupted any more.\<close>

definition calm_after :: "file_os \<Rightarrow> nat \<Rightarrow> bool" where
  "calm_after os N \<longleftrightarrow> (\<forall>n \<ge> N. fo_write os n \<noteq> XErr INTR \<and> fo_read os n \<noteq> XErr INTR)"

text \<open>What no step of a task changes, and how error reports grow.\<close>

definition kept :: "file_world \<Rightarrow> file_world \<Rightarrow> bool" where
  "kept s s' \<longleftrightarrow> fw_open s' = fw_open s \<and> fw_buffers s' = fw_buffers s \<and> prefix (fw_stderr s) (fw_stderr s') \<and> fw_calls s \<le> fw_calls s'"

lemma kept_refl [simp]: "kept s s"
  by (simp add: kept_def)

lemma kept_trans: "kept s t \<Longrightarrow> kept t u \<Longrightarrow> kept s u"
  by (auto simp: kept_def)

text \<open>The state after an error report.\<close>

definition reported_error :: "file_os \<Rightarrow> string \<Rightarrow> file_world \<Rightarrow> file_world" where
  "reported_error os msg s = s\<lparr>fw_calls := Suc (fw_calls s),
     fw_log := fw_log s @ (if fo_fopen os (fw_calls s) then [msg] else []),
     fw_stderr := fw_stderr s @ (if fo_fopen os (fw_calls s) then [] else [''Log Error: Could not open log file'', msg]) @ [msg]\<rparr>"

lemma log_error_run: "log_error os msg s = Some (Inr ((), reported_error os msg s))"
  by (cases s) (simp add: log_error_def call_def reported_error_def)

lemma reported_sel [simp]:
  "fw_bytes (reported_error os msg s) = fw_bytes s" "fw_pos (reported_error os msg s) = fw_pos s"
  "fw_stdout (reported_error os msg s) = fw_stdout s" "fw_calls (reported_error os msg s) = Suc (fw_calls s)"
  "fw_open (reported_error os msg s) = fw_open s" "fw_buffers (reported_error os msg s) = fw_buffers s"
  "fw_stderr (reported_error os msg s) \<noteq> fw_stderr s" "prefix (fw_stderr s) (fw_stderr (reported_error os msg s))"
  by (auto simp: reported_error_def)

lemma call_bind [simp]: "bindK (call f) g s = g (f (fw_calls s)) (s\<lparr>fw_calls := Suc (fw_calls s)\<rparr>)"
  by (simp add: call_def bindK_def)

lemma transfer_measure:
  fixes len p n r N c :: nat
  assumes "0 < n" "p + n \<le> len"
  shows "(len - (p + n)) * 5 + MAX_RETRIES + (N - Suc c) < (len - p) * 5 + r + (N - c)"
proof -
  have "(len - p) * 5 = (len - (p + n)) * 5 + n * 5" using assms by (simp add: diff_mult_distrib)
  then show ?thesis using assms(1) by linarith
qed

text \<open>Between two rounds of the write loop the file holds the bytes written so far.\<close>

definition writing :: "file_world \<Rightarrow> u8 list \<Rightarrow> nat \<times> nat \<Rightarrow> file_world \<Rightarrow> bool" where
  "writing s data x t \<longleftrightarrow> (case x of (tot, retries) \<Rightarrow>
     tot \<le> length data \<and> retries \<le> MAX_RETRIES \<and> fw_bytes t = take tot data \<and> fw_pos t = tot \<and>
     fw_stdout t = fw_stdout s \<and> kept s t)"

definition written :: "file_world \<Rightarrow> u8 list \<Rightarrow> bool \<Rightarrow> file_world \<Rightarrow> bool" where
  "written s data ok t \<longleftrightarrow> prefix (fw_bytes t) data \<and> fw_stdout t = fw_stdout s \<and> kept s t \<and>
     (if ok then fw_bytes t = data else fw_stderr t \<noteq> fw_stderr s)"

lemma write_loop:
  assumes "calm_after os N" "fw_bytes s = []" "fw_pos s = 0"
  shows "\<exists>ok t. loopK (write_round os data) (0, 0) s = Some (Inr (ok, t)) \<and> written s data ok t"
proof (rule loopK_rule [where I = "writing s data" and
      V = "\<lambda>(tot, retries) t. (length data - tot) * 5 + (MAX_RETRIES - retries) + (N - fw_calls t)"])
  show "writing s data (0, 0) s" using assms by (simp add: writing_def)
next
  fix x t
  assume "writing s data x t"
  then obtain tot retries where x: "x = (tot, retries)" and t: "tot \<le> length data" "retries \<le> MAX_RETRIES"
    "fw_bytes t = take tot data" "fw_pos t = tot" "fw_stdout t = fw_stdout s" "kept s t"
    by (auto simp: writing_def split: prod.splits)
  let ?t = "t\<lparr>fw_calls := Suc (fw_calls t)\<rparr>"
  have k: "kept s ?t" using t(6) by (simp add: kept_def)
  have ke: "kept s (reported_error os m ?t)" "fw_stderr (reported_error os m ?t) \<noteq> fw_stderr s" for m
    using k reported_sel(8) [of ?t os m] reported_sel(7) [of os m ?t] by (auto simp: kept_def prefix_def)
  let ?goal = "\<lambda>x t. (\<exists>y s'. write_round os data x t = Some (Inr (Inl y, s')) \<and> written s data y s') \<or>
       (\<exists>x' s'. write_round os data x t = Some (Inr (Inr x', s')) \<and> writing s data x' s' \<and>
          (case x' of (tot, retries) \<Rightarrow> \<lambda>t. (length data - tot) * 5 + (MAX_RETRIES - retries) + (N - fw_calls t)) s'
          < (case x of (tot, retries) \<Rightarrow> \<lambda>t. (length data - tot) * 5 + (MAX_RETRIES - retries) + (N - fw_calls t)) t)"
  show "?goal x t"
  proof (cases "tot < length data")
    case False
    then show ?thesis using t x by (auto simp: write_round_def written_def)
  next
    case more: True
    show ?thesis
    proof (cases "fo_write os (fw_calls t)")
      case (XErr e)
      have "fw_calls t < N" if "e = INTR" using assms(1) XErr that unfolding calm_after_def by (meson not_le)
      then show ?thesis
        using XErr more t x k ke take_is_prefix [of tot data]
        by (cases "e = INTR"; cases "retries < MAX_RETRIES")
          (auto simp: write_round_def call_def log_error_run writing_def written_def)
    next
      case (XBytes b)
      let ?n = "min b (length data - tot)"
      show ?thesis
      proof (cases "?n = 0")
        case True
        let ?e = "?t\<lparr>fw_stderr := fw_stderr t @ [''Wrote 0 bytes, potential issue (disk full?).'']\<rparr>"
        have "write_round os data x t = Some (Inr (Inl False, reported_error os ''Wrote 0 bytes unexpectedly'' ?e))"
          using XBytes more x True by (simp add: write_round_def call_def log_error_run Let_def)
        moreover have "kept s (reported_error os m ?e)" "fw_stderr (reported_error os m ?e) \<noteq> fw_stderr s" for m
          using t(6) reported_sel(8) [of ?e os m] by (auto simp: kept_def prefix_def)
        ultimately show ?thesis using t take_is_prefix [of tot data] by (auto simp: written_def)
      next
        case False
        let ?u = "?t\<lparr>fw_bytes := take (tot + ?n) data, fw_pos := tot + ?n\<rparr>"
        have "take tot data @ take ?n (drop tot data) = take (tot + ?n) data" by (simp add: take_add)
        then have "write_round os data x t = Some (Inr (Inr (tot + ?n, 0), ?u))"
          using XBytes more x False t(3,4) by (simp add: write_round_def call_def put_bytes_def Let_def)
        moreover have "writing s data (tot + ?n, 0) ?u" using t more by (simp add: writing_def kept_def)
        moreover have "0 < ?n" "tot + ?n \<le> length data" using False more by simp_all
        ultimately show ?thesis using x transfer_measure [of ?n tot "length data"] by auto
      qed
    qed
  qed
qed

text \<open>Between two rounds of the read loop the bytes before the position have been printed.\<close>

definition reading :: "file_world \<Rightarrow> nat \<Rightarrow> file_world \<Rightarrow> bool" where
  "reading s retries t \<longleftrightarrow> retries \<le> MAX_RETRIES \<and> fw_bytes t = fw_bytes s \<and> fw_pos t \<le> length (fw_bytes s) \<and>
     fw_stdout t = fw_stdout s @ take (fw_pos t) (fw_bytes s) \<and> kept s t"

definition read_back :: "file_world \<Rightarrow> bool \<Rightarrow> file_world \<Rightarrow> bool" where
  "read_back s ok t \<longleftrightarrow> fw_bytes t = fw_bytes s \<and> kept s t \<and> (\<exists>n. fw_stdout t = fw_stdout s @ take n (fw_bytes s)) \<and>
     (if ok then fw_stdout t = fw_stdout s @ fw_bytes s else fw_stderr t \<noteq> fw_stderr s)"

lemma read_loop:
  assumes "calm_after os N" "0 < bsz" "fw_pos s = 0"
  shows "\<exists>ok t. loopK (read_round os bsz) 0 s = Some (Inr (ok, t)) \<and> read_back s ok t"
proof (rule loopK_rule [where I = "reading s" and
      V = "\<lambda>retries t. (length (fw_bytes s) - fw_pos t) * 5 + (MAX_RETRIES - retries) + (N - fw_calls t)"])
  show "reading s 0 s" using assms by (simp add: reading_def)
next
  fix retries t
  assume t: "reading s retries t"
  let ?t = "t\<lparr>fw_calls := Suc (fw_calls t)\<rparr>"
  have k: "kept s ?t" using t by (simp add: reading_def kept_def)
  have ke: "kept s (reported_error os m ?t)" "fw_stderr (reported_error os m ?t) \<noteq> fw_stderr s" for m
    using k reported_sel(8) [of ?t os m] reported_sel(7) [of os m ?t] by (auto simp: kept_def prefix_def)
  show "(\<exists>y s'. read_round os bsz retries t = Some (Inr (Inl y, s')) \<and> read_back s y s') \<or>
      (\<exists>x' s'. read_round os bsz retries t = Some (Inr (Inr x', s')) \<and> reading s x' s' \<and>
        (length (fw_bytes s) - fw_pos s') * 5 + (MAX_RETRIES - x') + (N - fw_calls s')
        < (length (fw_bytes s) - fw_pos t) * 5 + (MAX_RETRIES - retries) + (N - fw_calls t))"
  proof (cases "fo_read os (fw_calls t)")
    case (XErr e)
    have "fw_calls t < N" if "e = INTR" using assms(1) XErr that unfolding calm_after_def by (meson not_le)
    then show ?thesis using XErr t k ke
      by (cases "e = INTR"; cases "retries < MAX_RETRIES")
        (auto simp: read_round_def call_def log_error_run reading_def read_back_def)
  next
    case (XBytes b)
    let ?m = "min (max 1 b) bsz" and ?p = "fw_pos t" and ?f = "fw_bytes s"
    let ?bs = "take ?m (drop ?p ?f)"
    let ?u = "?t\<lparr>fw_pos := ?p + length ?bs\<rparr>"
    have m: "0 < ?m" using assms(2) by simp
    have r: "read_round os bsz retries t = Some (Inr (if ?bs = [] then (Inl True, ?u) else (Inr 0, ?u\<lparr>fw_stdout := fw_stdout t @ ?bs\<rparr>)))"
      using XBytes t m by (auto simp: read_round_def get_bytes_def reading_def bindK_assoc)
    show ?thesis
    proof (cases "?bs = []")
      case True
      then have "?p = length ?f" using m t by (auto simp: reading_def)
      then have "fw_stdout t = fw_stdout s @ fw_bytes s" using t by (simp add: reading_def)
      moreover have "\<exists>n. fw_bytes s = take n (fw_bytes s)" by (intro exI [of _ "length (fw_bytes s)"]) simp
      ultimately have "read_back s True ?u" using t k by (simp add: read_back_def reading_def kept_def)
      moreover have "read_round os bsz retries t = Some (Inr (Inl True, ?u))" using r unfolding if_P [OF True] .
      ultimately show ?thesis by blast
    next
      case False
      have l: "0 < length ?bs" "?p + length ?bs \<le> length ?f" using False t by (auto simp: reading_def)
      have "take ?p ?f @ ?bs = take (?p + length ?bs) ?f" by (simp add: take_add min_def)
      then have "reading s 0 (?u\<lparr>fw_stdout := fw_stdout t @ ?bs\<rparr>)"
        using t k l by (simp add: reading_def kept_def del: length_take)
      moreover have "read_round os bsz retries t = Some (Inr (Inr 0, ?u\<lparr>fw_stdout := fw_stdout t @ ?bs\<rparr>))"
        using r unfolding if_not_P [OF False] .
      ultimately show ?thesis using transfer_measure [OF l] by (intro disjI2 exI conjI) (assumption | simp del: length_take)+
    qed
  qed
qed

text \<open>The cleanup closes the file and frees the buffer, whatever \<open>close\<close> returns.\<close>

lemma cleanup_run:
  "\<exists>t. cleanup os fd s = Some (Inr ((), t)) \<and> fw_bytes t = fw_bytes s \<and> fw_stdout t = fw_stdout s \<and> fw_buffers t = fw_buffers s - 1 \<and>
    fw_open t = (if fd = - 1 then fw_open s else remove1 fd (fw_open s)) \<and> prefix (fw_stderr s) (fw_stderr t)"
  by (cases "fd = - 1"; cases "fo_close os (fw_calls s) = - 1") (auto simp: cleanup_def bindK_assoc log_error_run reported_error_def)

text \<open>How a task ends: descriptor and buffer released, and the file and the output as they may be.\<close>

definition task_done :: "file_task_t \<Rightarrow> file_world \<Rightarrow> file_world \<Rightarrow> bool" where
  "task_done task s s' \<longleftrightarrow> fw_open s' = fw_open s \<and> fw_buffers s' = fw_buffers s \<and>
     (fw_bytes s' = fw_bytes s \<or> prefix (fw_bytes s') (ft_data task)) \<and>
     (\<exists>n. fw_stdout s' = fw_stdout s @ take n (ft_data task)) \<and>
     (fw_stderr s' = fw_stderr s \<longrightarrow> fw_bytes s' = ft_data task \<and> fw_stdout s' = fw_stdout s @ ft_data task)"

lemma cleanup_done:
  assumes "fw_open t = fd # fw_open s" "fd \<noteq> - 1" "fw_buffers t = Suc (fw_buffers s)" "prefix (fw_stderr s) (fw_stderr t)"
    and "prefix (fw_bytes t) (ft_data task)" "fw_stdout t = fw_stdout s @ take n (ft_data task)"
    and "fw_stderr t = fw_stderr s \<Longrightarrow> fw_bytes t = ft_data task \<and> fw_stdout t = fw_stdout s @ ft_data task"
  shows "\<exists>s'. cleanup os fd t = Some (Inr ((), s')) \<and> task_done task s s'"
proof -
  obtain u where u: "cleanup os fd t = Some (Inr ((), u))" "fw_bytes u = fw_bytes t" "fw_stdout u = fw_stdout t"
    "fw_buffers u = fw_buffers s" "fw_open u = fw_open s" "prefix (fw_stderr t) (fw_stderr u)"
    using cleanup_run [of os fd t] assms(1-3) by auto
  have "fw_stderr t = fw_stderr s" if "fw_stderr u = fw_stderr s" using that u(6) assms(4) by (simp add: prefix_order.antisym)
  then show ?thesis using u assms(5-7) by (auto simp: task_done_def)
qed

lemma transfer_done:
  assumes "calm_after os N" "0 < ft_buffer_size task" and fd: "fd \<noteq> - 1"
    and w: "fw_bytes w = []" "fw_pos w = 0" "fw_open w = fd # fw_open s" "fw_buffers w = Suc (fw_buffers s)"
      "fw_stderr w = fw_stderr s" "fw_stdout w = fw_stdout s"
  shows "\<exists>s'. transfer os task fd w = Some (Inr ((), s')) \<and> task_done task s s'"
proof -
  obtain ok t where t: "loopK (write_round os (ft_data task)) (0, 0) w = Some (Inr (ok, t))" "written w (ft_data task) ok t"
    using write_loop [OF assms(1) w(1,2)] by blast
  have wt: "fw_open t = fd # fw_open s" "fw_buffers t = Suc (fw_buffers s)" "prefix (fw_stderr s) (fw_stderr t)"
    "prefix (fw_bytes t) (ft_data task)" "fw_stdout t = fw_stdout s @ take 0 (ft_data task)"
    using t(2) w by (simp_all add: written_def kept_def)
  let ?t = "t\<lparr>fw_calls := Suc (fw_calls t)\<rparr>"
  let ?e = "reported_error os ''Error seeking in file'' ?t" and ?p = "?t\<lparr>fw_pos := 0\<rparr>"
  have fail: "\<exists>s'. cleanup os fd t = Some (Inr ((), s')) \<and> task_done task s s'" if "\<not> ok"
    using that t(2) w(5) cleanup_done [OF wt(1) fd wt(2-5)] by (simp add: written_def)
  have "prefix (fw_stderr s) (fw_stderr ?e)" "fw_stderr ?e \<noteq> fw_stderr s"
    using wt(3) by (auto simp: reported_error_def prefix_def)
  then have seek: "\<exists>s'. cleanup os fd ?e = Some (Inr ((), s')) \<and> task_done task s s'"
    using wt fd by (intro cleanup_done [where n = 0]) auto
  obtain ok' u where u: "loopK (read_round os (ft_buffer_size task)) 0 ?p = Some (Inr (ok', u))" "read_back ?p ok' u"
    using read_loop [OF assms(1,2), of ?p] by auto
  have last: "\<exists>s'. cleanup os fd u = Some (Inr ((), s')) \<and> task_done task s s'" if ok
  proof -
    have full: "fw_bytes t = ft_data task" using t(2) that by (simp add: written_def)
    then obtain n where n: "fw_stdout u = fw_stdout s @ take n (ft_data task)" "fw_bytes u = ft_data task" "kept ?p u"
      using u(2) wt(5) by (auto simp: read_back_def)
    have pu: "prefix (fw_stderr t) (fw_stderr u)" using n(3) by (simp add: kept_def)
    have "fw_stdout u = fw_stdout s @ ft_data task" if "fw_stderr u = fw_stderr s"
    proof -
      have "fw_stderr u = fw_stderr t" using that pu wt(3) by (simp add: prefix_order.antisym)
      then show ?thesis using u(2) full wt(5) by (simp add: read_back_def split: if_splits)
    qed
    then show ?thesis using n wt(1-3) fd pu
      by (intro cleanup_done [where n = n]) (auto simp: kept_def)
  qed
  show ?thesis using t(1) fail seek last u(1)
    by (cases ok; cases "fo_lseek os (fw_calls t) = - 1") (simp_all add: transfer_def log_error_run)
qed

section \<open>Properties\<close>

text \<open>
  C32: A file task returns whatever fails, once calls are no longer interrupted, unless its
  buffer cannot be allocated, in which case the process exits. It releases its descriptor and
  its buffer on every path, prints only a prefix of its data, leaves a prefix of the data in
  the file (or the file untouched when it cannot be opened), and if no error was reported the
  file holds exactly the data and exactly the data was printed.
\<close>

theorem process_file_correct:
  assumes "calm_after os N" "0 < ft_buffer_size task"
  shows "if fo_calloc os (fw_calls s) then \<exists>s'. process_file os task s = Some (Inr ((), s')) \<and> task_done task s s'
    else process_file os task s = Some (Inl (Exit 1))"
proof (cases "fo_calloc os (fw_calls s)")
  case False
  then show ?thesis by (simp add: process_file_def)
next
  case True
  let ?s = "s\<lparr>fw_buffers := Suc (fw_buffers s), fw_calls := Suc (Suc (fw_calls s))\<rparr>"
  let ?fd = "fo_open os (Suc (fw_calls s))"
  let ?e = "reported_error os ''Error opening file'' ?s"
  let ?w = "?s\<lparr>fw_bytes := [], fw_pos := 0, fw_open := ?fd # fw_open s\<rparr>"
  have start: "process_file os task s = (if ?fd = - 1 then cleanup os (- 1) ?e else transfer os task ?fd ?w)"
    using True by (simp add: process_file_def log_error_run)
  obtain u where u: "cleanup os (- 1) ?e = Some (Inr ((), u))" "fw_bytes u = fw_bytes s" "fw_stdout u = fw_stdout s"
    "fw_buffers u = fw_buffers s" "fw_open u = fw_open s" "prefix (fw_stderr ?e) (fw_stderr u)"
    using cleanup_run [of os "- 1" ?e] by auto
  have "fw_stderr u \<noteq> fw_stderr s" using u(6) by (auto simp: reported_error_def prefix_def)
  moreover have "\<exists>n. fw_stdout u = fw_stdout s @ take n (ft_data task)" using u(3) by (intro exI [of _ 0]) simp
  ultimately have "task_done task s u" using u by (simp add: task_done_def)
  moreover have "\<exists>s'. transfer os task ?fd ?w = Some (Inr ((), s')) \<and> task_done task s s'" if "?fd \<noteq> - 1"
    using that by (intro transfer_done [OF assms]) simp_all
  ultimately show ?thesis using True start u(1) by (cases "?fd = - 1") simp_all
qed

definition demo_task :: file_task_t where
  "demo_task = \<lparr>ft_filename = ''f'', ft_data = [1, 2, 3], ft_buffer_size = 2\<rparr>"

definition demo_task_os :: file_os where
  "demo_task_os = \<lparr>fo_calloc = (\<lambda>n. True), fo_open = (\<lambda>n. 3), fo_write = (\<lambda>n. if n = 2 then XErr 4 else XBytes 2), fo_read = (\<lambda>n. XBytes 1),
     fo_lseek = (\<lambda>n. 0), fo_close = (\<lambda>n. 0), fo_fopen = (\<lambda>n. True)\<rparr>"

definition demo_files :: file_world where
  "demo_files = \<lparr>fw_bytes = [], fw_pos = 0, fw_open = [], fw_buffers = 0, fw_stdout = [], fw_log = [], fw_stderr = [], fw_calls = 0\<rparr>"

theorem process_file_correct_witness:
  "\<exists>s'. process_file demo_task_os demo_task demo_files = Some (Inr ((), s')) \<and> task_done demo_task demo_files s'"
proof -
  have "calm_after demo_task_os 3" by (simp add: calm_after_def demo_task_os_def)
  from process_file_correct [OF this, of demo_task demo_files] show ?thesis by (simp add: demo_task_os_def demo_task_def)
qed

end
