(* ===== verification/StealQueue.thy ===== *)
theory StealQueue
  imports KPrelude "HOL-Library.Multiset"
begin

text \<open>
  The work-stealing queues of the thread pool in \<^verbatim>\<open>src/kernel/main.c\<close>: a vector of deques, each
  with its mutex, a shared counter, and a queue number local to each thread, which is 0 in a
  thread that is no worker. Tasks are any values. The pool's use of the queues is modelled by
  what a worker does in one round of its loop; \<open>queue_index\<close> is the number of the worker.
\<close>

section \<open>Data and operations\<close>

record 'a StealQueue =
  sq_tasks :: "'a list"
  sq_mtx :: bool

record 'a steal_queues =
  queues :: "'a StealQueue list"
  sq_index :: u64

definition new_queues :: "nat \<Rightarrow> 'a steal_queues" where
  "new_queues num_queues = \<lparr>queues = replicate num_queues \<lparr>sq_tasks = [], sq_mtx = False\<rparr>, sq_index = 0\<rparr>"

text \<open>An operation on queue \<open>i\<close> under its mutex; an index out of range is undefined.\<close>

definition on_queue :: "nat \<Rightarrow> ('a StealQueue, 'b) km \<Rightarrow> ('a steal_queues, 'b) km" where
  "on_queue i m =
     seqK (bindK (nthK queues i) (\<lambda>_. retK ()))
    (zoomK (\<lambda>s. queues s ! i) (\<lambda>q s. s\<lparr>queues := (queues s)[i := q]\<rparr>)
      (seqK (spin_lock sq_mtx sq_mtx_update) (bindK m (\<lambda>r. seqK (spin_unlock sq_mtx_update) (retK r)))))"

definition pop_back :: "('a StealQueue, 'a option) km" where
  "pop_back = bindK (getK sq_tasks) (\<lambda>ts.
     if ts = [] then retK None else seqK (modK (\<lambda>q. q\<lparr>sq_tasks := butlast ts\<rparr>)) (retK (Some (last ts))))"

definition pop_front :: "('a StealQueue, 'a option) km" where
  "pop_front = bindK (getK sq_tasks) (\<lambda>ts. case ts of
     [] \<Rightarrow> retK None | t # rest \<Rightarrow> seqK (modK (\<lambda>q. q\<lparr>sq_tasks := rest\<rparr>)) (retK (Some t)))"

text \<open>\<open>local_index\<close> is the thread's queue number.\<close>

definition push :: "nat \<Rightarrow> 'a \<Rightarrow> ('a steal_queues, unit) km" where
  "push local_index task =
     bindK (if local_index = 0
            then bindK (getK sq_index) (\<lambda>n. seqK (modK (\<lambda>s. s\<lparr>sq_index := n + 1\<rparr>))
              (bindK (getK (\<lambda>s. length (queues s))) (\<lambda>size.
               if size = 0 then stopK (Fault ''division'') else retK (unat n mod size))))
            else retK local_index) (\<lambda>i.
     on_queue i (modK (\<lambda>q. q\<lparr>sq_tasks := sq_tasks q @ [task]\<rparr>)))"

text \<open>The loop over the other queues, from \<open>j\<close> on.\<close>

definition steal_round :: "nat \<Rightarrow> nat \<Rightarrow> ('a steal_queues, 'a option + nat) km" where
  "steal_round i j =
     bindK (getK (\<lambda>s. length (queues s))) (\<lambda>size.
     if \<not> j < size then retK (Inl None)
     else if j = i then retK (Inr (Suc j))
     else bindK (on_queue j pop_front) (\<lambda>r. case r of Some t \<Rightarrow> retK (Inl (Some t)) | None \<Rightarrow> retK (Inr (Suc j))))"

definition try_pop :: "nat \<Rightarrow> ('a steal_queues, 'a option) km" where
  "try_pop local_index =
     (if local_index = 0 then retK None
      else bindK (on_queue local_index pop_back) (\<lambda>r. case r of
             Some t \<Rightarrow> retK (Some t)
           | None \<Rightarrow> loopK (steal_round local_index) 0))"

text \<open>The tasks taken are the last ones of the queue, the last first; the result is \<open>None\<close> when there was none.\<close>

definition try_pop_bulk :: "nat \<Rightarrow> nat \<Rightarrow> ('a steal_queues, 'a list option) km" where
  "try_pop_bulk local_index max_tasks =
     (if local_index = 0 then retK None
      else on_queue local_index (bindK (getK sq_tasks) (\<lambda>tasks.
        let n = min max_tasks (length tasks) in
        seqK (modK (\<lambda>q. q\<lparr>sq_tasks := take (length tasks - n) tasks\<rparr>))
             (retK (if n = 0 then None else Some (rev (drop (length tasks - n) tasks)))))))"

definition queues_size :: "('a steal_queues, nat) km" where
  "queues_size = bindK (getK queues) (\<lambda>qs. if \<exists>q \<in> set qs. sq_mtx q then (\<lambda>s. None) else retK (\<Sum>q\<leftarrow>qs. length (sq_tasks q)))"

text \<open>A round of the loop of worker \<open>queue_index\<close>, which sets its queue number to \<open>queue_index + 1\<close>.\<close>

definition worker_take :: "nat \<Rightarrow> ('a steal_queues, 'a list option) km" where
  "worker_take queue_index = try_pop_bulk (Suc queue_index) 10"

text \<open>
  The pool of threads that take from the queues: its limits and the queue indices of its workers.
  Adding workers stops at the upper limit; a new worker gets the number of workers as its index.
\<close>

record DynamicThreadPool =
  min_threads :: nat
  max_threads :: nat
  stop_requested :: bool
  pool_workers :: "nat list"

primrec add_workers :: "nat \<Rightarrow> DynamicThreadPool \<Rightarrow> DynamicThreadPool" where
  "add_workers 0 p = p"
| "add_workers (Suc n) p =
     (if length (pool_workers p) < max_threads p
      then add_workers n (p\<lparr>pool_workers := pool_workers p @ [length (pool_workers p)]\<rparr>) else p)"

definition new_pool :: "nat \<Rightarrow> nat \<Rightarrow> DynamicThreadPool" where
  "new_pool mn mx = add_workers mn \<lparr>min_threads = max 1 mn, max_threads = max mn mx, stop_requested = False, pool_workers = []\<rparr>"

text \<open>\<open>current_tasks\<close> is the size of the queues; the workers removed are the last ones.\<close>

definition adjust_workers :: "nat \<Rightarrow> DynamicThreadPool \<Rightarrow> DynamicThreadPool" where
  "adjust_workers current_tasks p =
     (if stop_requested p then p
      else
        (let current_workers = length (pool_workers p) in
         if current_workers * 2 < current_tasks \<and> current_workers < max_threads p then
           add_workers (min (current_tasks div 2) (max_threads p - current_workers)) p
         else if current_tasks < current_workers div 2 \<and> min_threads p < current_workers then
           (let remove_num = min (current_workers - min_threads p) (current_workers - current_tasks div 2) in
            p\<lparr>pool_workers := take (current_workers - remove_num) (pool_workers p)\<rparr>)
         else p))"

section \<open>Behaviour\<close>

definition unlocked :: "'a steal_queues \<Rightarrow> bool" where
  "unlocked s \<longleftrightarrow> (\<forall>q \<in> set (queues s). \<not> sq_mtx q)"

definition pending :: "'a steal_queues \<Rightarrow> 'a multiset" where
  "pending s = (\<Sum>q\<leftarrow>queues s. mset (sq_tasks q))"

abbreviation tasks_of :: "'a steal_queues \<Rightarrow> nat \<Rightarrow> 'a list" where
  "tasks_of s i \<equiv> sq_tasks (queues s ! i)"

definition set_tasks :: "nat \<Rightarrow> 'a list \<Rightarrow> 'a steal_queues \<Rightarrow> 'a steal_queues" where
  "set_tasks i ts s = s\<lparr>queues := (queues s)[i := (queues s ! i)\<lparr>sq_tasks := ts\<rparr>]\<rparr>"

lemma on_queue_run:
  assumes "unlocked s" "i < length (queues s)"
    and m: "\<And>q. sq_tasks q = tasks_of s i \<Longrightarrow> m q = Some (Inr (r, q\<lparr>sq_tasks := ts\<rparr>))"
  shows "on_queue i m s = Some (Inr (r, set_tasks i ts s))"
proof -
  have "\<not> sq_mtx (queues s ! i)" using assms(1,2) by (simp add: unlocked_def)
  then obtain t0 where q: "queues s ! i = \<lparr>sq_tasks = t0, sq_mtx = False\<rparr>" by (cases "queues s ! i") auto
  have "m \<lparr>sq_tasks = t0, sq_mtx = True\<rparr> = Some (Inr (r, \<lparr>sq_tasks = ts, sq_mtx = True\<rparr>))" using m q by simp
  then show ?thesis using assms(2) q by (simp add: on_queue_def set_tasks_def zoomK_def)
qed

lemma on_queue_fault: "length (queues s) \<le> i \<Longrightarrow> on_queue i m s = Some (Inl (Fault ''index''))"
  by (simp add: on_queue_def bindK_assoc)

lemma unlocked_set [simp]: "unlocked s \<Longrightarrow> i < length (queues s) \<Longrightarrow> unlocked (set_tasks i ts s)"
  by (auto simp: unlocked_def set_tasks_def dest!: set_update_subset_insert [THEN subsetD])

lemma set_tasks_simps [simp]:
  "length (queues (set_tasks i ts s)) = length (queues s)" "sq_index (set_tasks i ts s) = sq_index s"
  by (simp_all add: set_tasks_def)

lemma set_tasks_same: "set_tasks i (tasks_of s i) s = s"
  by (cases s) (simp add: set_tasks_def)

lemma tasks_of_set: "i < length (queues s) \<Longrightarrow> tasks_of (set_tasks i ts s) j = (if j = i then ts else tasks_of s j)"
  by (simp add: set_tasks_def nth_list_update)

lemma sum_list_upd:
  fixes f :: "'b \<Rightarrow> 'a multiset"
  assumes "i < length xs"
  shows "(\<Sum>x\<leftarrow>xs[i := y]. f x) + f (xs ! i) = (\<Sum>x\<leftarrow>xs. f x) + f y"
  using assms by (induction xs arbitrary: i) (auto simp: ac_simps split: nat.splits)

lemma pending_set:
  assumes "i < length (queues s)"
  shows "pending (set_tasks i ts s) + mset (tasks_of s i) = pending s + mset ts"
  using sum_list_upd [OF assms, where y = "(queues s ! i)\<lparr>sq_tasks := ts\<rparr>" and f = "\<lambda>q. mset (sq_tasks q)"]
  by (simp add: pending_def set_tasks_def)

lemma push_run:
  assumes "unlocked s" "queues s \<noteq> []" "local_index < length (queues s)"
  shows "\<exists>i s'. push local_index t s = Some (Inr ((), s')) \<and> i < length (queues s) \<and>
    i = (if local_index = 0 then unat (sq_index s) mod length (queues s) else local_index) \<and>
    unlocked s' \<and> length (queues s') = length (queues s) \<and> pending s' = add_mset t (pending s) \<and>
    (\<forall>j. tasks_of s' j = (if j = i then tasks_of s i @ [t] else tasks_of s j))"
proof -
  let ?i = "if local_index = 0 then unat (sq_index s) mod length (queues s) else local_index"
  let ?s = "if local_index = 0 then s\<lparr>sq_index := sq_index s + 1\<rparr> else s"
  have i: "?i < length (queues s)" using assms(2,3) by simp
  have s: "unlocked ?s" "queues ?s = queues s" "pending ?s = pending s" using assms(1) by (simp_all add: unlocked_def pending_def)
  have "on_queue ?i (modK (\<lambda>q. q\<lparr>sq_tasks := sq_tasks q @ [t]\<rparr>)) ?s = Some (Inr ((), set_tasks ?i (tasks_of s ?i @ [t]) ?s))"
    by (rule on_queue_run) (use s i in simp_all)
  then have r: "push local_index t s = Some (Inr ((), set_tasks ?i (tasks_of s ?i @ [t]) ?s))"
    using assms(2) by (auto simp: push_def bindK_assoc split: if_splits)
  have "pending (set_tasks ?i (tasks_of s ?i @ [t]) ?s) + mset (tasks_of s ?i) = add_mset t (pending s) + mset (tasks_of s ?i)"
    using pending_set [of ?i ?s "tasks_of s ?i @ [t]"] i s by simp
  then have "pending (set_tasks ?i (tasks_of s ?i @ [t]) ?s) = add_mset t (pending s)" by (simp only: add_right_cancel)
  moreover have "\<forall>j. tasks_of (set_tasks ?i (tasks_of s ?i @ [t]) ?s) j = (if j = ?i then tasks_of s ?i @ [t] else tasks_of s j)"
    using tasks_of_set [of ?i ?s] i s(2) by simp
  moreover have "unlocked (set_tasks ?i (tasks_of s ?i @ [t]) ?s)" using s i by simp
  ultimately show ?thesis using r i s(2) by (intro exI [of _ ?i] exI conjI refl) auto
qed

text \<open>What an operation takes out of the queues, and nothing else.\<close>

definition took :: "'a multiset \<Rightarrow> 'a steal_queues \<Rightarrow> 'a steal_queues \<Rightarrow> bool" where
  "took T s s' \<longleftrightarrow> unlocked s' \<and> length (queues s') = length (queues s) \<and> pending s = pending s' + T"

lemma took_set:
  assumes "unlocked s" "i < length (queues s)" "mset (tasks_of s i) = mset ts + T"
  shows "took T s (set_tasks i ts s)"
  using pending_set [OF assms(2), of ts] assms by (simp add: took_def)

lemma pop_back_run:
  assumes "unlocked s" "i < length (queues s)"
  shows "\<exists>r s'. on_queue i pop_back s = Some (Inr (r, s')) \<and> took (mset (case r of None \<Rightarrow> [] | Some t \<Rightarrow> [t])) s s'"
proof (cases "tasks_of s i = []")
  case True
  have "on_queue i pop_back s = Some (Inr (None, set_tasks i [] s))"
    by (rule on_queue_run [OF assms]) (simp add: pop_back_def True)
  moreover have "took {#} s (set_tasks i [] s)" using took_set [OF assms] True by simp
  ultimately show ?thesis by auto
next
  case False
  let ?ts = "tasks_of s i"
  have "on_queue i pop_back s = Some (Inr (Some (last ?ts), set_tasks i (butlast ?ts) s))"
    by (rule on_queue_run [OF assms]) (use False in \<open>simp add: pop_back_def\<close>)
  moreover have "mset ?ts = mset (butlast ?ts) + {#last ?ts#}" using False by (metis append_butlast_last_id mset_append mset_single_iff_right)
  ultimately show ?thesis using took_set [OF assms] by auto
qed

lemma pop_front_run:
  assumes "unlocked s" "i < length (queues s)"
  shows "\<exists>r s'. on_queue i pop_front s = Some (Inr (r, s')) \<and> took (mset (case r of None \<Rightarrow> [] | Some t \<Rightarrow> [t])) s s'"
proof (cases "tasks_of s i")
  case Nil
  have "on_queue i pop_front s = Some (Inr (None, set_tasks i [] s))"
    by (rule on_queue_run [OF assms]) (simp add: pop_front_def Nil)
  moreover have "took {#} s (set_tasks i [] s)" using took_set [OF assms] Nil by simp
  ultimately show ?thesis by auto
next
  case (Cons t rest)
  have "on_queue i pop_front s = Some (Inr (Some t, set_tasks i rest s))"
    by (rule on_queue_run [OF assms]) (simp add: pop_front_def Cons)
  moreover have "took {#t#} s (set_tasks i rest s)" using took_set [OF assms] Cons by simp
  ultimately show ?thesis by auto
qed

lemma took_refl [simp]: "unlocked s \<Longrightarrow> took {#} s s"
  by (simp add: took_def)

lemma took_trans: "took S s t \<Longrightarrow> took T t u \<Longrightarrow> took (S + T) s u"
  by (auto simp: took_def ac_simps)

lemma try_pop_run:
  assumes "unlocked s" "li < length (queues s)"
  shows "\<exists>r s'. try_pop li s = Some (Inr (r, s')) \<and> took (mset (case r of None \<Rightarrow> [] | Some t \<Rightarrow> [t])) s s'"
proof (cases "li = 0")
  case True
  then show ?thesis using assms(1) by (simp add: try_pop_def)
next
  case False
  obtain r t where t: "on_queue li pop_back s = Some (Inr (r, t))" "took (mset (case r of None \<Rightarrow> [] | Some t \<Rightarrow> [t])) s t"
    using pop_back_run [OF assms] by blast
  have "\<exists>y s'. loopK (steal_round li) 0 t = Some (Inr (y, s')) \<and> took (mset (case y of None \<Rightarrow> [] | Some t \<Rightarrow> [t])) s s'" if "r = None"
  proof (rule loopK_rule [where I = "\<lambda>j u. took {#} s u" and V = "\<lambda>j u. length (queues s) - j"])
    show "took {#} s t" using t(2) that by simp
  next
    fix j u
    assume u: "took {#} s u"
    then have n: "unlocked u" "length (queues u) = length (queues s)" by (simp_all add: took_def)
    show "(\<exists>y s'. steal_round li j u = Some (Inr (Inl y, s')) \<and> took (mset (case y of None \<Rightarrow> [] | Some t \<Rightarrow> [t])) s s') \<or>
      (\<exists>j' s'. steal_round li j u = Some (Inr (Inr j', s')) \<and> took {#} s s' \<and> length (queues s) - j' < length (queues s) - j)"
    proof (cases "j < length (queues s) \<and> j \<noteq> li")
      case True
      then obtain y v where v: "on_queue j pop_front u = Some (Inr (y, v))" "took (mset (case y of None \<Rightarrow> [] | Some t \<Rightarrow> [t])) u v"
        using pop_front_run [OF n(1), of j] n(2) by auto
      have "took (mset (case y of None \<Rightarrow> [] | Some t \<Rightarrow> [t])) s v" using took_trans [OF u v(2)] by simp
      then show ?thesis using v(1) True n(2) by (cases y) (auto simp: steal_round_def intro!: diff_less_mono2)
    qed (use u n(2) in \<open>auto simp: steal_round_def\<close>)
  qed
  then show ?thesis using t False by (cases r) (auto simp: try_pop_def)
qed

lemma try_pop_bulk_run:
  assumes "unlocked s" "li < length (queues s)"
  shows "\<exists>r s'. try_pop_bulk li k s = Some (Inr (r, s')) \<and> took (mset (case r of None \<Rightarrow> [] | Some ts \<Rightarrow> ts)) s s' \<and>
    (\<forall>j. j \<noteq> li \<or> li = 0 \<longrightarrow> tasks_of s' j = tasks_of s j)"
proof (cases "li = 0")
  case True
  then show ?thesis using assms(1) by (simp add: try_pop_bulk_def)
next
  case False
  let ?ts = "tasks_of s li"
  let ?m = "length ?ts - min k (length ?ts)"
  let ?r = "if min k (length ?ts) = 0 then None else Some (rev (drop ?m ?ts))"
  have "on_queue li (bindK (getK sq_tasks) (\<lambda>tasks.
        let n = min k (length tasks) in
        seqK (modK (\<lambda>q. q\<lparr>sq_tasks := take (length tasks - n) tasks\<rparr>))
             (retK (if n = 0 then None else Some (rev (drop (length tasks - n) tasks)))))) s
      = Some (Inr (?r, set_tasks li (take ?m ?ts) s))"
    by (rule on_queue_run [OF assms]) (simp add: Let_def min_def)
  then have r: "try_pop_bulk li k s = Some (Inr (?r, set_tasks li (take ?m ?ts) s))" using False by (simp add: try_pop_bulk_def)
  have "mset ?ts = mset (take ?m ?ts) + mset (drop ?m ?ts)" by (metis append_take_drop_id mset_append)
  moreover have "mset (case ?r of None \<Rightarrow> [] | Some ts \<Rightarrow> ts) = mset (drop ?m ?ts)" by simp
  ultimately have "took (mset (case ?r of None \<Rightarrow> [] | Some ts \<Rightarrow> ts)) s (set_tasks li (take ?m ?ts) s)" using took_set [OF assms] by simp
  moreover have "\<forall>j. j \<noteq> li \<or> li = 0 \<longrightarrow> tasks_of (set_tasks li (take ?m ?ts) s) j = tasks_of s j"
    using False tasks_of_set [OF assms(2)] by simp
  ultimately show ?thesis using r by blast
qed

section \<open>Sequences of operations\<close>

text \<open>Operations of threads with their queue numbers; a run collects the tasks that were taken.\<close>

datatype 'a sq_op = Push nat 'a | Pop nat | Bulk nat nat

fun sq_step :: "'a sq_op \<Rightarrow> ('a steal_queues, 'a list) km" where
  "sq_step (Push li t) = seqK (push li t) (retK [])"
| "sq_step (Pop li) = bindK (try_pop li) (\<lambda>r. retK (case r of None \<Rightarrow> [] | Some t \<Rightarrow> [t]))"
| "sq_step (Bulk li k) = bindK (try_pop_bulk li k) (\<lambda>r. retK (case r of None \<Rightarrow> [] | Some ts \<Rightarrow> ts))"

primrec sq_run :: "'a sq_op list \<Rightarrow> ('a steal_queues, 'a list) km" where
  "sq_run [] = retK []"
| "sq_run (x # xs) = bindK (sq_step x) (\<lambda>ts. bindK (sq_run xs) (\<lambda>us. retK (ts @ us)))"

fun op_queue :: "'a sq_op \<Rightarrow> nat" where
  "op_queue (Push li t) = li" | "op_queue (Pop li) = li" | "op_queue (Bulk li k) = li"

fun pushed :: "'a sq_op list \<Rightarrow> 'a list" where
  "pushed [] = []"
| "pushed (Push li t # xs) = t # pushed xs"
| "pushed (x # xs) = pushed xs"

lemma sq_step_run:
  assumes "unlocked s" "queues s \<noteq> []" "op_queue x < length (queues s)"
  shows "\<exists>ts s'. sq_step x s = Some (Inr (ts, s')) \<and> unlocked s' \<and> length (queues s') = length (queues s) \<and>
    pending s' + mset ts = pending s + mset (pushed [x])"
proof (cases x)
  case (Push li t)
  then obtain s' where "push li t s = Some (Inr ((), s'))" "unlocked s'" "length (queues s') = length (queues s)" "pending s' = add_mset t (pending s)"
    using push_run [of s li t] assms by auto
  then show ?thesis using Push by simp
next
  case (Pop li)
  then show ?thesis using try_pop_run [OF assms(1), of li] assms(3) by (fastforce simp: took_def)
next
  case (Bulk li k)
  then show ?thesis using try_pop_bulk_run [OF assms(1), of li k] assms(3) by (fastforce simp: took_def)
qed

lemma pushed_Cons: "pushed (x # xs) = pushed [x] @ pushed xs"
  by (cases x) simp_all

lemma sq_run_ok:
  assumes "unlocked s" "queues s \<noteq> []" "\<forall>x \<in> set xs. op_queue x < length (queues s)"
  shows "\<exists>ts s'. sq_run xs s = Some (Inr (ts, s')) \<and> unlocked s' \<and> pending s' + mset ts = pending s + mset (pushed xs)"
  using assms
proof (induction xs arbitrary: s)
  case (Cons x xs)
  obtain ts t where t: "sq_step x s = Some (Inr (ts, t))" "unlocked t" "length (queues t) = length (queues s)"
    "pending t + mset ts = pending s + mset (pushed [x])" using sq_step_run [of s x] Cons.prems by auto
  have "queues t \<noteq> []" using t(3) Cons.prems(2) by auto
  then obtain us u where u: "sq_run xs t = Some (Inr (us, u))" "unlocked u" "pending u + mset us = pending t + mset (pushed xs)"
    using Cons.IH [OF t(2)] Cons.prems(3) t(3) by auto
  have "pending u + mset (ts @ us) = pending s + mset (pushed (x # xs))"
    using t(4) u(3) by (simp add: pushed_Cons [of x xs] ac_simps)
  then show ?case using t(1) u(1,2) by simp
qed simp

section \<open>Properties\<close>



text \<open>
  Tasks in queue 0 starve. A task pushed from outside the pool goes to queue 0 whenever the
  shared counter is a multiple of the number of queues, and then no sequence of rounds of
  workers ever takes it, since workers use the queues from 1 on; and the last worker of a pool
  with as many workers as queues indexes past the end of the vector.
\<close>

theorem queue_zero_starves:
  assumes "unlocked s" "queues s \<noteq> []" "unat (sq_index s) mod length (queues s) = 0" "\<forall>w \<in> set ws. Suc w < length (queues s)"
  shows "\<exists>t. push 0 task s = Some (Inr ((), t)) \<and>
    (\<exists>r u. sq_run (map (\<lambda>w. Bulk (Suc w) 10) ws) t = Some (Inr (r, u)) \<and> task \<in> set (tasks_of u 0) \<and>
      worker_take (length (queues s) - 1) u = Some (Inl (Fault ''index'')))"
proof -
  obtain t where t: "push 0 task s = Some (Inr ((), t))" "unlocked t" "length (queues t) = length (queues s)" "task \<in> set (tasks_of t 0)"
    using push_run [of s 0 task] assms(1-3) by auto
  have "\<exists>r u. sq_run (map (\<lambda>w. Bulk (Suc w) 10) ws) t = Some (Inr (r, u)) \<and> task \<in> set (tasks_of u 0) \<and> length (queues u) = length (queues s)"
    using t(2-4) assms(4)
  proof (induction ws arbitrary: t)
    case (Cons w ws)
    obtain r v where v: "try_pop_bulk (Suc w) 10 t = Some (Inr (r, v))" "unlocked v" "length (queues v) = length (queues s)" "tasks_of v 0 = tasks_of t 0"
      using try_pop_bulk_run [of t "Suc w" 10] Cons.prems by (auto simp: took_def)
    with Cons.IH [of v] Cons.prems show ?case by auto
  qed auto
  moreover have "worker_take (length (queues s) - 1) u = Some (Inl (Fault ''index''))" if "length (queues u) = length (queues s)" for u
    using that assms(2) by (simp add: worker_take_def try_pop_bulk_def on_queue_fault)
  ultimately show ?thesis using t(1) by blast
qed

theorem queue_zero_starves_witness:
  "\<exists>t. push 0 (5 :: nat) (new_queues 2) = Some (Inr ((), t)) \<and>
    (\<exists>r u. sq_run (map (\<lambda>w. Bulk (Suc w) 10) [0, 0]) t = Some (Inr (r, u)) \<and> 5 \<in> set (tasks_of u 0) \<and>
      worker_take 1 u = Some (Inl (Fault ''index'')))"
  using queue_zero_starves [of "new_queues 2 :: nat steal_queues" "[0, 0]" 5] by (simp add: new_queues_def unlocked_def)

text \<open>
  The number of workers stays within the limits of the pool whatever the load is, and the workers
  always have the indices from 0 on, so that no two share a queue.
\<close>

definition pool_ok :: "DynamicThreadPool \<Rightarrow> bool" where
  "pool_ok p \<longleftrightarrow> min_threads p \<le> length (pool_workers p) \<and> length (pool_workers p) \<le> max_threads p \<and>
     pool_workers p = [0..<length (pool_workers p)]"

lemma add_workers_run:
  assumes "pool_workers p = [0..<k]" "k \<le> max_threads p"
  shows "add_workers n p = p\<lparr>pool_workers := [0..<min (k + n) (max_threads p)]\<rparr>"
  using assms
proof (induction n arbitrary: p k)
  case (Suc n)
  show ?case
  proof (cases "k < max_threads p")
    case True
    let ?q = "p\<lparr>pool_workers := [0..<Suc k]\<rparr>"
    have "add_workers n ?q = ?q\<lparr>pool_workers := [0..<min (Suc k + n) (max_threads ?q)]\<rparr>"
      by (rule Suc.IH) (use True in simp_all)
    then show ?thesis using True Suc.prems by simp
  next
    case False
    then show ?thesis using Suc.prems by (cases p) simp
  qed
qed (cases p, simp)

lemma new_pool_ok: "0 < mn \<Longrightarrow> pool_ok (new_pool mn mx)"
  by (simp add: new_pool_def add_workers_run [where k = 0] pool_ok_def)

lemma adjust_workers_ok:
  assumes "pool_ok p" shows "pool_ok (adjust_workers n p)"
proof -
  obtain k where k: "pool_workers p = [0..<k]" "min_threads p \<le> k" "k \<le> max_threads p" using assms by (auto simp: pool_ok_def)
  show ?thesis using assms k by (auto simp: adjust_workers_def Let_def add_workers_run pool_ok_def take_upt)
qed

lemma pool_stays_bounded: "0 < mn \<Longrightarrow> pool_ok (foldl (\<lambda>p n. adjust_workers n p) (new_pool mn mx) loads)"
  by (induction loads rule: rev_induct) (simp_all add: new_pool_ok adjust_workers_ok)

end
