(* ===== verification/FileObj.thy ===== *)
theory FileObj
  imports KPrelude
begin

text \<open>
  The class \<open>File\<close> of \<^verbatim>\<open>src/fs/file.cpp\<close>: a file handle over \<open>std::fstream\<close>. The stream has the
  state the C++ library gives it: whether it is open, the joint position of its buffer, and the
  bits \<open>eofbit\<close> and \<open>failbit\<close> (\<open>failbit\<close> also stands for \<open>badbit\<close>); the functions of
  \<open>std::fstream\<close> that the class calls are modelled with their effect on these. Exceptions are the
  left values of results. The files are a map from paths to contents; a file that is open is
  not removed. What the operating system may refuse is an argument; the description of the
  system's error that the code appends to some messages is left out.
\<close>

section \<open>Data\<close>

datatype Mode = Read | Write | Append | ReadWrite
datatype SeekOrigin = Begin | Current | End

datatype file_exc = FileException string | LengthError | FilesystemError

record Impl =
  st_open :: bool
  st_eof :: bool
  st_fail :: bool
  st_pos :: nat
  filePath :: string
  im_mode :: Mode

record file_env =
  pImpl :: "Impl option"
  fs_files :: "string \<rightharpoonup> string"
  fs_dirs :: "string set"

type_synonym 'a fileM = "(file_env, file_exc + 'a) km"

section \<open>The stream\<close>

definition good :: "Impl \<Rightarrow> bool" where "good i \<longleftrightarrow> \<not> st_eof i \<and> \<not> st_fail i"

text \<open>The sentry of an input function: on a stream that is not good it sets \<open>failbit\<close>.\<close>

definition sentry :: "Impl \<Rightarrow> Impl" where "sentry i = (if good i then i else i\<lparr>st_fail := True\<rparr>)"

definition clear :: "Impl \<Rightarrow> Impl" where "clear i = i\<lparr>st_eof := False, st_fail := False\<rparr>"

text \<open>\<open>tellg\<close> and \<open>seekg\<close> to an absolute position; \<open>None\<close> is the position -1.\<close>

definition tellg :: "Impl \<Rightarrow> nat option \<times> Impl" where
  "tellg i = (let j = sentry i in (if st_fail j then None else Some (st_pos j), j))"

definition seekg :: "nat option \<Rightarrow> Impl \<Rightarrow> Impl" where
  "seekg p i = (let j = sentry (i\<lparr>st_eof := False\<rparr>) in
     if st_fail j then j else case p of None \<Rightarrow> j\<lparr>st_fail := True\<rparr> | Some n \<Rightarrow> j\<lparr>st_pos := n\<rparr>)"

text \<open>The target of a seek relative to an origin, \<open>None\<close> when it is before the start of the file.\<close>

definition seek_target :: "int \<Rightarrow> SeekOrigin \<Rightarrow> nat \<Rightarrow> nat \<Rightarrow> nat option" where
  "seek_target offset origin pos len =
     (let t = offset + (case origin of Begin \<Rightarrow> 0 | Current \<Rightarrow> int pos | End \<Rightarrow> int len) in if t < 0 then None else Some (nat t))"

definition seekp :: "nat option \<Rightarrow> Impl \<Rightarrow> Impl" where
  "seekp p i = (if st_fail i then i else case p of None \<Rightarrow> i\<lparr>st_fail := True\<rparr> | Some n \<Rightarrow> i\<lparr>st_pos := n\<rparr>)"

abbreviation NL :: char where "NL \<equiv> CHR 0x0A"
abbreviation CR :: char where "CR \<equiv> CHR 0x0D"

text \<open>
  \<open>getline\<close> on the contents of the file: the line, whether one was read, and the stream. At the
  end of the file \<open>eofbit\<close> is set, and \<open>failbit\<close> as well when nothing was extracted.
\<close>

definition getline :: "string \<Rightarrow> Impl \<Rightarrow> string \<times> bool \<times> Impl" where
  "getline content i =
     (if \<not> good i then ([], False, sentry i)
      else
        (let rest = drop (st_pos i) content; line = takeWhile (\<lambda>c. c \<noteq> NL) rest in
         if length line < length rest then (line, True, i\<lparr>st_pos := st_pos i + length line + 1\<rparr>)
         else if rest = [] then ([], False, i\<lparr>st_eof := True, st_fail := True\<rparr>)
         else (line, True, i\<lparr>st_pos := st_pos i + length line, st_eof := True\<rparr>)))"

text \<open>\<open>read\<close> of \<open>n\<close> characters.\<close>

definition read_stream :: "string \<Rightarrow> nat \<Rightarrow> Impl \<Rightarrow> string \<times> Impl" where
  "read_stream content n i =
     (if \<not> good i then ([], sentry i)
      else
        (let bs = take n (drop (st_pos i) content); j = i\<lparr>st_pos := st_pos i + length bs\<rparr> in
         (bs, if length bs < n then j\<lparr>st_eof := True, st_fail := True\<rparr> else j)))"

text \<open>
  \<open>write\<close> at the position, at the end when the stream appends; a gap is filled with zeros.
  \<open>ok\<close> says whether the system takes the bytes.
\<close>

definition write_stream :: "bool \<Rightarrow> string \<Rightarrow> string \<Rightarrow> Impl \<Rightarrow> string \<times> Impl" where
  "write_stream ok bs content i =
     (if \<not> good i then (content, i)
      else if \<not> ok then (content, i\<lparr>st_fail := True\<rparr>)
      else
        (let pos = (if im_mode i = Append then length content else st_pos i) in
         (take pos content @ replicate (pos - length content) (CHR 0x00) @ bs @ drop (pos + length bs) content,
          i\<lparr>st_pos := pos + length bs\<rparr>)))"

section \<open>Operations of the class\<close>

definition getImpl :: "Impl fileM" where
  "getImpl = bindK (getK pImpl) (\<lambda>p. case p of
     None \<Rightarrow> throwE (FileException ''File object not properly initialized'') | Some i \<Rightarrow> returnE i)"

definition putImpl :: "Impl \<Rightarrow> unit fileM" where
  "putImpl i = seqK (modK (\<lambda>s. s\<lparr>pImpl := Some i\<rparr>)) (returnE ())"

definition getContent :: "Impl \<Rightarrow> string fileM" where
  "getContent i = bindK (getK (\<lambda>s. case fs_files s (filePath i) of None \<Rightarrow> [] | Some c \<Rightarrow> c)) returnE"

definition putContent :: "Impl \<Rightarrow> string \<Rightarrow> unit fileM" where
  "putContent i c = seqK (modK (\<lambda>s. s\<lparr>fs_files := (fs_files s)(filePath i \<mapsto> c)\<rparr>)) (returnE ())"

definition isOpen :: "file_env \<Rightarrow> bool" where
  "isOpen s = (case pImpl s of None \<Rightarrow> False | Some i \<Rightarrow> st_open i)"

text \<open>\<open>close\<close>: flushing changes nothing that can be seen here; closing a stream keeps its bits.\<close>

definition close :: "unit fileM" where
  "close = bindK (getK pImpl) (\<lambda>p. case p of
     None \<Rightarrow> returnE ()
   | Some i \<Rightarrow> if st_open i then putImpl (i\<lparr>st_open := False\<rparr>) else returnE ())"

definition parent_path :: "string \<Rightarrow> string" where
  "parent_path p =
     (let q = dropWhile (\<lambda>c. c \<noteq> CHR ''/'') (rev p); r = rev (dropWhile (\<lambda>c. c = CHR ''/'') q) in
      if q \<noteq> [] \<and> r = [] then ''/'' else r)"

text \<open>
  \<open>mk_ok\<close>: the directory can be created; \<open>os_ok\<close>: the system lets the file be opened. Without
  \<open>trunc\<close> or \<open>app\<close> a file must exist to be opened. Opening resets the bits of the stream.
\<close>

definition opens :: "bool \<Rightarrow> Mode \<Rightarrow> Impl \<Rightarrow> file_env \<Rightarrow> bool" where
  "opens os_ok mode i s = (os_ok \<and> (mode = Write \<or> mode = Append \<or> fs_files s (filePath i) \<noteq> None))"

definition open_file :: "bool \<Rightarrow> bool \<Rightarrow> Mode \<Rightarrow> unit fileM" where
  "open_file mk_ok os_ok mode =
     bindE getImpl (\<lambda>_.
     bindE (bindK (getK isOpen) (\<lambda>b. if b then close else returnE ())) (\<lambda>_.
     bindE getImpl (\<lambda>i.
     seqE (if mode \<noteq> Read then
             bindK (getK fs_dirs) (\<lambda>ds.
             let parent = parent_path (filePath i) in
             if parent \<noteq> [] \<and> parent \<notin> ds then
               if mk_ok then seqK (modK (\<lambda>s. s\<lparr>fs_dirs := insert parent ds\<rparr>)) (returnE ()) else throwE FilesystemError
             else returnE ())
           else returnE ())
    (bindK (getK (opens os_ok mode i)) (\<lambda>ok.
     if \<not> ok then seqE (putImpl (i\<lparr>st_open := False, st_fail := True\<rparr>)) (throwE (FileException ''Failed to open file''))
     else
       bindE (getContent i) (\<lambda>c.
       seqE (putContent i (if mode = Write then [] else c))
            (putImpl (i\<lparr>st_open := True, st_eof := False, st_fail := False, st_pos := 0, im_mode := mode\<rparr>))))))))"

text \<open>The guards in front of every operation on an open file.\<close>

definition openImpl :: "Impl fileM" where
  "openImpl = bindE getImpl (\<lambda>i. if \<not> st_open i then throwE (FileException ''File is not open'') else returnE i)"

definition readImpl :: "Impl fileM" where
  "readImpl = bindE openImpl (\<lambda>i.
     if im_mode i = Write \<or> im_mode i = Append then throwE (FileException ''File not opened for reading'') else returnE i)"

definition writeImpl :: "Impl fileM" where
  "writeImpl = bindE openImpl (\<lambda>i.
     if im_mode i = Read then throwE (FileException ''File not opened for writing'') else returnE i)"

text \<open>\<open>reserve\<close> with the size -1 throws; the iterator reads from the buffer without touching the bits.\<close>

definition readAll :: "string fileM" where
  "readAll =
     bindE readImpl (\<lambda>i. bindE (getContent i) (\<lambda>c.
     let (currentPos, i1) = tellg i; i2 = seekg (Some (length c)) i1; (fileSize, i3) = tellg i2; i4 = seekg (Some 0) i3 in
     case fileSize of
       None \<Rightarrow> seqE (putImpl i4) (throwE LengthError)
     | Some _ \<Rightarrow>
         (let content = drop (st_pos i4) c; i5 = clear (i4\<lparr>st_pos := max (st_pos i4) (length c)\<rparr>) in
          seqE (putImpl (seekg currentPos i5)) (returnE content))))"

definition strip_cr :: "string \<Rightarrow> string" where
  "strip_cr line = (if line \<noteq> [] \<and> last line = CR then butlast line else line)"

text \<open>The loop over \<open>getline\<close>: the lines and the stream after the failing call. It ends because the position grows.\<close>

function read_lines :: "string \<Rightarrow> Impl \<Rightarrow> string list \<times> Impl" where
  "read_lines content i =
     (case getline content i of (line, ok, j) \<Rightarrow>
        if ok then (case read_lines content j of (ls, k) \<Rightarrow> (strip_cr line # ls, k)) else ([], j))"
  by pat_completeness auto
termination
  by (relation "measure (\<lambda>(c, i). if st_eof i then 0 else Suc (length c - st_pos i))")
    (auto simp: getline_def Let_def good_def split: if_splits)

declare read_lines.simps [simp del]

definition readLines :: "string list fileM" where
  "readLines =
     bindE readImpl (\<lambda>i. bindE (getContent i) (\<lambda>c.
     let (currentPos, i1) = tellg i; (lines, i2) = read_lines c (seekg (Some 0) i1) in
     seqE (putImpl (seekg currentPos (clear i2))) (returnE lines)))"

definition readLine :: "string fileM" where
  "readLine =
     bindE readImpl (\<lambda>i. bindE (getContent i) (\<lambda>c.
     let (line, ok, j) = getline c i in
     seqE (putImpl j) (returnE (if ok then strip_cr line else line))))"

definition readBytes :: "nat \<Rightarrow> string fileM" where
  "readBytes count =
     bindE readImpl (\<lambda>i. bindE (getContent i) (\<lambda>c.
     let (bs, j) = read_stream c count i in seqE (putImpl j) (returnE bs)))"

text \<open>One call of the stream's \<open>write\<close> or \<open>put\<close>, on the handle.\<close>

definition stream_write :: "bool \<Rightarrow> string \<Rightarrow> Impl fileM" where
  "stream_write ok bs = bindE getImpl (\<lambda>i. bindE (getContent i) (\<lambda>c.
     let (c', j) = write_stream ok bs c i in seqE (putContent i c') (seqE (putImpl j) (returnE j))))"

definition write_file :: "bool \<Rightarrow> string \<Rightarrow> unit fileM" where
  "write_file ok data =
     bindE writeImpl (\<lambda>_. bindE (stream_write ok data) (\<lambda>j.
     if \<not> good j then throwE (FileException ''Write operation failed'') else returnE ()))"

definition writeLine :: "bool \<Rightarrow> string \<Rightarrow> unit fileM" where
  "writeLine ok line =
     bindE writeImpl (\<lambda>_. bindE (stream_write ok line) (\<lambda>_. bindE (stream_write ok [NL]) (\<lambda>j.
     if \<not> good j then throwE (FileException ''Write operation failed'') else returnE ())))"

primrec write_lines :: "bool \<Rightarrow> string list \<Rightarrow> unit fileM" where
  "write_lines ok [] = returnE ()"
| "write_lines ok (line # lines) =
     bindE (stream_write ok line) (\<lambda>_. bindE (stream_write ok [NL]) (\<lambda>j.
     if \<not> good j then throwE (FileException (''Write operation failed at line: '' @ line)) else write_lines ok lines))"

definition writeLines :: "bool \<Rightarrow> string list \<Rightarrow> unit fileM" where
  "writeLines ok lines = bindE writeImpl (\<lambda>_. write_lines ok lines)"

definition writeBytes :: "bool \<Rightarrow> string \<Rightarrow> unit fileM" where
  "writeBytes ok bytes =
     bindE writeImpl (\<lambda>_. if bytes \<noteq> [] then
       bindE (stream_write ok bytes) (\<lambda>j.
       if \<not> good j then throwE (FileException ''Write operation failed'') else returnE ())
     else returnE ())"

definition seek :: "int \<Rightarrow> SeekOrigin \<Rightarrow> unit fileM" where
  "seek offset origin =
     bindE openImpl (\<lambda>i. bindE (getContent i) (\<lambda>c.
     let i1 = clear i;
         i2 = (if im_mode i = Read \<or> im_mode i = ReadWrite then seekg (seek_target offset origin (st_pos i1) (length c)) i1 else i1) in
     if (im_mode i = Read \<or> im_mode i = ReadWrite) \<and> \<not> good i2 \<and> \<not> st_eof i2 then
       seqE (putImpl i2) (throwE (FileException ''Seek operation failed for reading''))
     else
       (let i3 = (if im_mode i \<noteq> Read then seekp (seek_target offset origin (st_pos i2) (length c)) i2 else i2) in
        seqE (putImpl i3)
       (if im_mode i \<noteq> Read \<and> \<not> good i3 then throwE (FileException ''Seek operation failed for writing'') else returnE ()))))"

definition tell :: "nat fileM" where
  "tell =
     bindE openImpl (\<lambda>i.
     let (pos, j) = (if im_mode i = Read \<or> im_mode i = ReadWrite then tellg i else (if st_fail i then None else Some (st_pos i), i)) in
     seqE (putImpl j) (case pos of None \<Rightarrow> throwE (FileException ''Tell operation failed'') | Some p \<Rightarrow> returnE p))"

definition flush :: "unit fileM" where
  "flush = bindE openImpl (\<lambda>i. if \<not> good i then throwE (FileException ''Flush operation failed'') else returnE ())"

definition getPath :: "string fileM" where "getPath = bindE getImpl (\<lambda>i. returnE (filePath i))"

definition getSize :: "nat fileM" where
  "getSize = bindE getImpl (\<lambda>i. bindK (getK (\<lambda>s. fs_files s (filePath i))) (\<lambda>c.
     case c of None \<Rightarrow> throwE (FileException ''Failed to get file size'') | Some b \<Rightarrow> returnE (length b)))"

text \<open>The static functions. \<open>ok\<close> says whether the system allows the operation.\<close>

definition exists_file :: "string \<Rightarrow> bool fileM" where
  "exists_file path = bindK (getK (\<lambda>s. fs_files s path \<noteq> None \<or> path \<in> fs_dirs s)) returnE"

definition copy_file :: "bool \<Rightarrow> string \<Rightarrow> string \<Rightarrow> bool \<Rightarrow> unit fileM" where
  "copy_file ok from to overwrite =
     bindK (getK fs_files) (\<lambda>fs. case fs from of
       Some c \<Rightarrow> if ok \<and> (overwrite \<or> fs to = None) \<and> from \<noteq> to then seqK (modK (\<lambda>s. s\<lparr>fs_files := fs(to \<mapsto> c)\<rparr>)) (returnE ())
                 else throwE (FileException ''Failed to copy file'')
     | None \<Rightarrow> throwE (FileException ''Failed to copy file''))"

definition move_file :: "bool \<Rightarrow> string \<Rightarrow> string \<Rightarrow> unit fileM" where
  "move_file ok from to =
     bindK (getK fs_files) (\<lambda>fs. case fs from of
       Some c \<Rightarrow> if ok then seqK (modK (\<lambda>s. s\<lparr>fs_files := (fs(from := None))(to \<mapsto> c)\<rparr>)) (returnE ())
                 else throwE (FileException ''Failed to move file'')
     | None \<Rightarrow> throwE (FileException ''Failed to move file''))"

definition remove_file :: "bool \<Rightarrow> string \<Rightarrow> unit fileM" where
  "remove_file ok path =
     bindE (exists_file path) (\<lambda>b. if \<not> b then throwE (FileException (''File does not exist: '' @ path))
       else if ok then seqK (modK (\<lambda>s. s\<lparr>fs_files := (fs_files s)(path := None), fs_dirs := fs_dirs s - {path}\<rparr>)) (returnE ())
       else throwE (FileException ''Failed to remove file''))"

text \<open>The constructor, and \<open>withFile\<close>: the handle is closed whether the callback returns or throws.\<close>

definition new_file :: "bool \<Rightarrow> bool \<Rightarrow> string \<Rightarrow> Mode \<Rightarrow> unit fileM" where
  "new_file mk_ok os_ok path mode =
     seqK (modK (\<lambda>s. s\<lparr>pImpl := Some \<lparr>st_open = False, st_eof = False, st_fail = False, st_pos = 0, filePath = path, im_mode = mode\<rparr>\<rparr>))
          (open_file mk_ok os_ok mode)"

definition withFile :: "bool \<Rightarrow> bool \<Rightarrow> string \<Rightarrow> Mode \<Rightarrow> unit fileM \<Rightarrow> unit fileM" where
  "withFile mk_ok os_ok path mode callback =
     bindE (new_file mk_ok os_ok path mode) (\<lambda>_.
     bindK callback (\<lambda>r. case r of
       Inl e \<Rightarrow> seqE close (throwE e)
     | Inr _ \<Rightarrow> bindK (getK isOpen) (\<lambda>b. if b then close else returnE ())))"

section \<open>Behaviour\<close>

text \<open>The handle \<open>i\<close> is open on a file with contents \<open>c\<close>.\<close>

definition handle :: "file_env \<Rightarrow> Impl \<Rightarrow> string \<Rightarrow> bool" where
  "handle s i c \<longleftrightarrow> pImpl s = Some i \<and> st_open i \<and> fs_files s (filePath i) = Some c"

definition with_handle :: "Impl \<Rightarrow> string \<Rightarrow> file_env \<Rightarrow> file_env" where
  "with_handle i c s = s\<lparr>pImpl := Some i, fs_files := (fs_files s)(filePath i \<mapsto> c)\<rparr>"

lemma file_prims [simp]:
  "putImpl i s = Some (Inr (Inr (), s\<lparr>pImpl := Some i\<rparr>))"
  "putContent i c s = Some (Inr (Inr (), s\<lparr>fs_files := (fs_files s)(filePath i \<mapsto> c)\<rparr>))"
  by (simp_all add: putImpl_def putContent_def)

lemma guards [simp]:
  assumes "handle s i c"
  shows "getImpl s = Some (Inr (Inr i, s))" "getContent i s = Some (Inr (Inr c, s))" "openImpl s = Some (Inr (Inr i, s))"
    "im_mode i = Read \<or> im_mode i = ReadWrite \<Longrightarrow> readImpl s = Some (Inr (Inr i, s))"
    "im_mode i \<noteq> Read \<Longrightarrow> writeImpl s = Some (Inr (Inr i, s))"
proof -
  show a: "getImpl s = Some (Inr (Inr i, s))" using assms by (simp add: handle_def getImpl_def)
  show "getContent i s = Some (Inr (Inr c, s))" using assms by (simp add: handle_def getContent_def)
  show b: "openImpl s = Some (Inr (Inr i, s))" using assms a by (simp add: handle_def openImpl_def)
  show "im_mode i = Read \<or> im_mode i = ReadWrite \<Longrightarrow> readImpl s = Some (Inr (Inr i, s))"
    using b by (auto simp: readImpl_def)
  show "im_mode i \<noteq> Read \<Longrightarrow> writeImpl s = Some (Inr (Inr i, s))" using b by (simp add: writeImpl_def)
qed

lemma handle_same: "handle s i c \<Longrightarrow> s\<lparr>pImpl := Some i\<rparr> = s"
  by (cases s) (simp add: handle_def)

lemma with_handle_ok: "st_open i \<Longrightarrow> handle (with_handle i c s) i c"
  by (simp add: handle_def with_handle_def)

lemma with_handle_twice: "filePath j = filePath i \<Longrightarrow> with_handle j d (with_handle i c s) = with_handle j d s"
  by (cases s) (simp add: with_handle_def)

lemma stream_write_run:
  assumes "handle s i c" "good i" "im_mode i \<noteq> Append" "st_pos i = length c"
  shows "stream_write True bs s = Some (Inr (Inr (i\<lparr>st_pos := length c + length bs\<rparr>),
    with_handle (i\<lparr>st_pos := length c + length bs\<rparr>) (c @ bs) s))"
  using assms by (cases s) (simp add: stream_write_def write_stream_def Let_def with_handle_def)

definition joined :: "string list \<Rightarrow> string" where
  "joined lines = concat (map (\<lambda>l. l @ [NL]) lines)"

lemma write_lines_run:
  assumes "handle s i c" "good i" "im_mode i \<noteq> Append" "st_pos i = length c"
  shows "write_lines True lines s = Some (Inr (Inr (),
    with_handle (i\<lparr>st_pos := length c + length (joined lines)\<rparr>) (c @ joined lines) s))"
  using assms
proof (induction lines arbitrary: s i c)
  case Nil
  then show ?case by (cases s; cases i) (auto simp: with_handle_def joined_def handle_def fun_upd_idem)
next
  case (Cons l ls)
  let ?i = "i\<lparr>st_pos := length c + length l\<rparr>" and ?j = "i\<lparr>st_pos := length c + length l + 1\<rparr>"
  let ?s = "with_handle ?i (c @ l) s" and ?t = "with_handle ?j (c @ l @ [NL]) s"
  have o: "st_open i" using Cons.prems(1) by (simp add: handle_def)
  have a: "stream_write True l s = Some (Inr (Inr ?i, ?s))" using stream_write_run [OF Cons.prems] by simp
  have "handle ?s ?i (c @ l)" using o by (simp add: with_handle_ok)
  from stream_write_run [OF this, of "[NL]"] have b: "stream_write True [NL] ?s = Some (Inr (Inr ?j, ?t))"
    using Cons.prems(2,3) by (simp add: good_def with_handle_twice)
  have "handle ?t ?j (c @ l @ [NL])" using o by (simp add: with_handle_ok)
  from Cons.IH [OF this] have "write_lines True ls ?t = Some (Inr (Inr (),
      with_handle (i\<lparr>st_pos := length c + length (joined (l # ls))\<rparr>) (c @ joined (l # ls)) s))"
    using Cons.prems(2,3) by (simp add: good_def with_handle_twice joined_def add.assoc)
  then show ?case using a b Cons.prems(2) by (simp add: good_def)
qed

lemma read_lines_run:
  assumes "good i" "st_pos i = length pre" "\<forall>l \<in> set ls. NL \<notin> set l"
  shows "read_lines (pre @ joined ls) i =
    (map strip_cr ls, i\<lparr>st_eof := True, st_fail := True, st_pos := length (pre @ joined ls)\<rparr>)"
  using assms
proof (induction ls arbitrary: pre i)
  case Nil
  then have "getline pre i = ([], False, i\<lparr>st_eof := True, st_fail := True\<rparr>)" by (simp add: getline_def)
  then show ?case using Nil by (cases i) (simp add: read_lines.simps joined_def)
next
  case (Cons l ls)
  let ?j = "i\<lparr>st_pos := length (pre @ l @ [NL])\<rparr>" and ?c = "pre @ joined (l # ls)"
  have "takeWhile (\<lambda>c. c \<noteq> NL) (l @ NL # joined ls) = l" using Cons.prems(3) by (auto simp: takeWhile_append)
  then have "getline ?c i = (l, True, ?j)" using Cons.prems(1,2) by (simp add: getline_def Let_def joined_def)
  moreover have "read_lines ((pre @ l @ [NL]) @ joined ls) ?j =
      (map strip_cr ls, ?j\<lparr>st_eof := True, st_fail := True, st_pos := length ((pre @ l @ [NL]) @ joined ls)\<rparr>)"
    by (rule Cons.IH) (use Cons.prems in \<open>simp_all add: good_def\<close>)
  ultimately show ?case by (subst read_lines.simps) (simp add: joined_def)
qed

section \<open>Properties\<close>

text \<open>
  C34: Lines written to an empty file open for reading and writing are read back: writing the
  lines and reading all lines returns the same lines, provided that none contains a newline
  and none ends in a carriage return, which reading strips; the position is where writing left
  it, the stream is good and the file holds each line followed by a newline.
\<close>

theorem writeLines_readLines:
  assumes "handle s i []" "good i" "im_mode i = ReadWrite" "st_pos i = 0"
    and "\<forall>l \<in> set lines. NL \<notin> set l \<and> strip_cr l = l"
  shows "seqE (writeLines True lines) readLines s = Some (Inr (Inr lines,
    with_handle (i\<lparr>st_pos := length (joined lines)\<rparr>) (joined lines) s))"
proof -
  let ?i = "i\<lparr>st_pos := length (joined lines)\<rparr>"
  let ?s = "with_handle ?i (joined lines) s"
  have o: "st_open i" using assms(1) by (simp add: handle_def)
  have h: "handle ?s ?i (joined lines)" using o by (simp add: with_handle_ok)
  have w: "writeLines True lines s = Some (Inr (Inr (), ?s))"
    using write_lines_run [OF assms(1,2), of lines] assms(1,3,4) by (simp add: writeLines_def)
  have g: "good ?i" "good (?i\<lparr>st_pos := 0\<rparr>)" using assms(2) by (simp_all add: good_def)
  have r: "read_lines (joined lines) (?i\<lparr>st_pos := 0\<rparr>) =
      (lines, ?i\<lparr>st_eof := True, st_fail := True, st_pos := length (joined lines)\<rparr>)"
    using read_lines_run [OF g(2), of "[]" lines] assms(5) by (simp add: map_idI)
  have "tellg ?i = (Some (length (joined lines)), ?i)" "seekg (Some 0) ?i = ?i\<lparr>st_pos := 0\<rparr>"
    using g(1) by (cases i; simp add: tellg_def seekg_def sentry_def good_def Let_def)+
  moreover have "seekg (Some (length (joined lines)))
      (clear (?i\<lparr>st_eof := True, st_fail := True, st_pos := length (joined lines)\<rparr>)) = ?i"
    using g(1) by (cases i) (simp add: seekg_def sentry_def good_def clear_def Let_def)
  ultimately have "readLines ?s = Some (Inr (Inr lines, ?s))"
    using h r assms(3) handle_same [OF h] by (simp add: readLines_def)
  then show ?thesis using w by simp
qed

definition demo_impl :: Impl where
  "demo_impl = \<lparr>st_open = True, st_eof = False, st_fail = False, st_pos = 0, filePath = ''f'', im_mode = ReadWrite\<rparr>"

definition demo_fs :: file_env where
  "demo_fs = \<lparr>pImpl = Some demo_impl, fs_files = [''f'' \<mapsto> []], fs_dirs = {}\<rparr>"

lemma demo_handle: "handle demo_fs demo_impl []" "good demo_impl"
  by (simp_all add: handle_def good_def demo_fs_def demo_impl_def)

theorem writeLines_readLines_witness:
  "seqE (writeLines True [''ab'', [], ''c'']) readLines demo_fs = Some (Inr (Inr [''ab'', [], ''c''],
    with_handle (demo_impl\<lparr>st_pos := 6\<rparr>) (joined [''ab'', [], ''c'']) demo_fs))"
  using writeLines_readLines [OF demo_handle, of "[''ab'', [], ''c'']"]
  by (simp add: demo_impl_def strip_cr_def joined_def numeral_eq_Suc)

text \<open>
  On a good stream \<open>readAll\<close> returns the whole file and leaves the handle, its position and
  the file as they were. On a stream whose end was reached, or that failed, it throws
  \<open>std::length_error\<close> instead, because the size it asks for is then -1; and \<open>readLines\<close> then
  returns no line whatever the file holds.
\<close>

theorem readAll_correct:
  assumes "handle s i c" "im_mode i = Read \<or> im_mode i = ReadWrite"
  shows "if good i then readAll s = Some (Inr (Inr c, s))
    else (\<exists>s'. readAll s = Some (Inr (Inl LengthError, s'))) \<and> (\<exists>s'. readLines s = Some (Inr (Inr [], s')))"
proof (cases "good i")
  case True
  then have t: "tellg (i\<lparr>st_pos := n\<rparr>) = (Some n, i\<lparr>st_pos := n\<rparr>)" "tellg i = (Some (st_pos i), i)"
      "seekg (Some n) (i\<lparr>st_pos := k\<rparr>) = i\<lparr>st_pos := n\<rparr>" "seekg (Some n) i = i\<lparr>st_pos := n\<rparr>" for n k
    by (cases i; simp add: tellg_def seekg_def sentry_def good_def Let_def)+
  have "seekg (Some (st_pos i)) (clear (i\<lparr>st_pos := length c\<rparr>)) = i"
    using True by (cases i) (simp add: seekg_def sentry_def good_def clear_def Let_def)
  then show ?thesis using True assms handle_same [OF assms(1)] by (simp add: readAll_def t)
next
  case False
  have t: "tellg i = (None, i\<lparr>st_fail := True\<rparr>)" using False by (simp add: tellg_def sentry_def Let_def)
  let ?j = "i\<lparr>st_eof := False, st_fail := True\<rparr>"
  have k: "seekg (Some n) (i\<lparr>st_fail := True\<rparr>) = ?j" "seekg (Some n) ?j = ?j" "tellg ?j = (None, ?j)" for n
    by (cases i; simp add: seekg_def tellg_def sentry_def Let_def good_def)+
  have "read_lines c ?j = ([], ?j)"
    by (simp add: read_lines.simps [of c] getline_def good_def sentry_def)
  then show ?thesis using False assms by (simp add: readAll_def readLines_def t k)
qed

theorem readAll_correct_witness:
  "readAll demo_fs = Some (Inr (Inr [], demo_fs))"
  using readAll_correct [OF demo_handle(1)] demo_handle(2) by (simp add: demo_impl_def)

definition seek_end :: "int \<Rightarrow> SeekOrigin \<Rightarrow> Impl \<Rightarrow> nat \<Rightarrow> int" where
  "seek_end offset origin i len =
     (case origin of Begin \<Rightarrow> offset | End \<Rightarrow> int len + offset
      | Current \<Rightarrow> int (st_pos i) + (if im_mode i = ReadWrite then 2 * offset else offset))"

text \<open>
  C35: Where a seek ends. Whatever the bits of the stream were, a seek clears them and moves to
  the origin plus the offset, and throws when that is before the start of the file. The one
  exception is a seek from the current position on a file open for reading and writing: the
  stream has one position for both directions and \<open>seekg\<close> and \<open>seekp\<close> each move it, so that it
  moves by twice the offset.
\<close>

theorem seek_correct:
  assumes "handle s i c"
  shows "if 0 \<le> seek_end offset origin i (length c)
    then seek offset origin s =
      Some (Inr (Inr (), s\<lparr>pImpl := Some ((clear i)\<lparr>st_pos := nat (seek_end offset origin i (length c))\<rparr>)\<rparr>))
    else \<exists>e s'. seek offset origin s = Some (Inr (Inl e, s'))"
  using assms
  by (cases i; cases origin; cases "im_mode i")
    (auto simp: seek_def seek_end_def seek_target_def seekg_def seekp_def sentry_def good_def clear_def Let_def)

theorem seek_correct_witness:
  "seek 2 Current demo_fs = Some (Inr (Inr (), demo_fs\<lparr>pImpl := Some (demo_impl\<lparr>st_pos := 4\<rparr>)\<rparr>))"
  using seek_correct [OF demo_handle(1), of 2 Current] by (simp add: seek_end_def demo_impl_def clear_def)

text \<open>
  \<open>withFile\<close> never leaves the file open: whether the file cannot be opened, the callback
  returns or the callback throws, the handle is closed afterwards; and it throws exactly what
  opening the file or the callback throws.
\<close>

lemma file_close_run: "\<exists>t. close s = Some (Inr (Inr (), t)) \<and> \<not> isOpen t"
  by (cases "pImpl s") (auto simp: close_def isOpen_def)

lemma close_if_run: "\<exists>t. (if isOpen s then close else returnE ()) s = Some (Inr (Inr (), t)) \<and> \<not> isOpen t"
  using file_close_run [of s] by auto

lemma open_file_run:
  assumes "pImpl s = Some i" "\<not> st_open i"
  shows "\<exists>r t. open_file mk os m s = Some (Inr (r, t)) \<and> (\<forall>e. r = Inl e \<longrightarrow> \<not> isOpen t)"
proof -
  have c: "isOpen s = False" "getImpl s = Some (Inr (Inr i, s))" using assms by (simp_all add: isOpen_def getImpl_def)
  let ?t = "s\<lparr>fs_dirs := insert (parent_path (filePath i)) (fs_dirs s)\<rparr>"
  show ?thesis using assms c
    by (cases "m \<noteq> Read \<and> parent_path (filePath i) \<noteq> [] \<and> parent_path (filePath i) \<notin> fs_dirs s"; cases mk;
        cases "opens os m i s"; cases "opens os m i ?t")
      (auto simp: open_file_def Let_def isOpen_def getContent_def)
qed

theorem withFile_closes:
  assumes "\<And>t. \<exists>r t'. callback t = Some (Inr (r, t'))"
  shows "\<exists>r t. withFile mk_ok os_ok path mode callback s = Some (Inr (r, t)) \<and> \<not> isOpen t \<and>
    (case new_file mk_ok os_ok path mode s of
       Some (Inr (Inl e, _)) \<Rightarrow> r = Inl e
     | Some (Inr (Inr _, t1)) \<Rightarrow> (\<exists>t2. callback t1 = Some (Inr (r, t2)))
     | _ \<Rightarrow> False)"
proof -
  let ?i = "\<lparr>st_open = False, st_eof = False, st_fail = False, st_pos = 0, filePath = path, im_mode = mode\<rparr>"
  obtain r1 t1 where n: "new_file mk_ok os_ok path mode s = Some (Inr (r1, t1))" "\<forall>e. r1 = Inl e \<longrightarrow> \<not> isOpen t1"
    using open_file_run [of "s\<lparr>pImpl := Some ?i\<rparr>" ?i mk_ok os_ok mode] by (auto simp: new_file_def)
  show ?thesis
  proof (cases r1)
    case (Inl e)
    then show ?thesis using n by (simp add: withFile_def)
  next
    case (Inr u)
    obtain r2 t2 where c: "callback t1 = Some (Inr (r2, t2))" using assms by blast
    obtain t3 where k: "close t2 = Some (Inr (Inr (), t3))" "\<not> isOpen t3" using file_close_run by blast
    obtain t4 where d: "(if isOpen t2 then close else returnE ()) t2 = Some (Inr (Inr (), t4))" "\<not> isOpen t4"
      using close_if_run by blast
    show ?thesis using n(1) Inr c k d by (cases r2) (auto simp: withFile_def)
  qed
qed

theorem withFile_closes_witness:
  "\<exists>r t. withFile True True ''g'' Write (throwE (FileException ''stop'')) demo_fs = Some (Inr (r, t)) \<and> \<not> isOpen t"
proof -
  have "\<exists>r t'. throwE (FileException ''stop'') t = Some (Inr (r :: file_exc + unit, t'))" for t by simp
  from withFile_closes [of "throwE (FileException ''stop'')", OF this, of True True "''g''" Write demo_fs]
  show ?thesis by blast
qed

end
