(* ===== verification/Apic.thy ===== *)
theory Apic
  imports Interrupts
begin

text \<open>
  Interrupt handling on the local APIC, \<^verbatim>\<open>src/kernel/interrupts.c\<close>: the interrupt descriptor
  table, the entry stubs that the macro \<open>ISR_STUB\<close> generates, the C handler behind them and the
  entry point of the other processors. What the registers of the APIC hold when they are read is
  an argument, a function of the number of reads made so far; writes to them are a trace. Output
  of \<open>kprintf\<close> is a log of format and arguments. Halting in \<open>cli; hlt\<close> for ever is the value
  \<open>Panic\<close>. The file ends inside \<open>smp_init\<close>, which is not modelled.
\<close>

section \<open>Data\<close>

abbreviation IDT_SIZE :: nat where "IDT_SIZE \<equiv> 256"
abbreviation SPURIOUS_VECTOR_NUM :: nat where "SPURIOUS_VECTOR_NUM \<equiv> 255"
abbreviation APIC_REG_ID :: u32 where "APIC_REG_ID \<equiv> 0x20"
abbreviation APIC_REG_EOI :: u32 where "APIC_REG_EOI \<equiv> 0xB0"
abbreviation APIC_REG_SPURIOUS :: u32 where "APIC_REG_SPURIOUS \<equiv> 0xF0"
abbreviation APIC_REG_ICR_LOW :: u32 where "APIC_REG_ICR_LOW \<equiv> 0x300"
abbreviation APIC_SPURIOUS_APIC_ENABLE :: u32 where "APIC_SPURIOUS_APIC_ENABLE \<equiv> 0x100"
abbreviation APIC_DELIVERY_STATUS_PENDING :: u32 where "APIC_DELIVERY_STATUS_PENDING \<equiv> 0x1000"

text \<open>A gate with its bit fields \<open>ist\<close>, \<open>type\<close>, \<open>dpl\<close> and \<open>present\<close> taken apart.\<close>

record gate =
  g_offset_low :: u16
  g_selector :: u16
  g_ist :: u8
  g_type :: u8
  g_dpl :: u8
  g_present :: bool
  g_offset_mid :: u16
  g_offset_high :: u32

record processor_info_t =
  acpi_processor_id :: u32
  apic_id :: u32
  active :: bool
  bsp :: bool

record apic_state =
  gates :: "gate list"
  apic_idtr :: "u16 \<times> u64"
  apic_loaded :: "(u16 \<times> u64) option"
  global_keep_running :: bool
  processors :: "processor_info_t list"
  active_processor_count :: u32
  apic_writes :: "(u32 \<times> u32) list"
  apic_reads :: nat
  apic_log :: "(string \<times> u64 list) list"

type_synonym apic_hw = "nat \<Rightarrow> u32 \<Rightarrow> u32"

section \<open>The registers of the APIC\<close>

definition apic_read :: "apic_hw \<Rightarrow> u32 \<Rightarrow> (apic_state, u32) km" where
  "apic_read hw reg_offset =
     bindK (getK apic_reads) (\<lambda>n. seqK (modK (\<lambda>s. s\<lparr>apic_reads := Suc n\<rparr>)) (retK (hw n reg_offset)))"

definition apic_write :: "u32 \<Rightarrow> u32 \<Rightarrow> (apic_state, unit) km" where
  "apic_write reg_offset value = modK (\<lambda>s. s\<lparr>apic_writes := apic_writes s @ [(reg_offset, value)]\<rparr>)"

definition apic_wait_ipi_idle :: "apic_hw \<Rightarrow> (apic_state, unit) km" where
  "apic_wait_ipi_idle hw = loopK (\<lambda>_ :: unit. bindK (apic_read hw APIC_REG_ICR_LOW) (\<lambda>v.
     retK (if v AND APIC_DELIVERY_STATUS_PENDING \<noteq> 0 then Inr () else Inl ()))) ()"

definition apic_send_eoi :: "(apic_state, unit) km" where
  "apic_send_eoi = apic_write APIC_REG_EOI 0"

section \<open>The interrupt descriptor table\<close>

definition absent_gate :: gate where
  "absent_gate = \<lparr>g_offset_low = 0, g_selector = 0, g_ist = 0, g_type = 0, g_dpl = 0, g_present = False,
     g_offset_mid = 0, g_offset_high = 0\<rparr>"

definition set_idt_entry :: "nat \<Rightarrow> u64 \<Rightarrow> u8 \<Rightarrow> (apic_state, unit) km" where
  "set_idt_entry vec handler dpl =
     (if handler = 0 then setnthK gates gates_update vec (\<lambda>_. absent_gate)
      else setnthK gates gates_update vec (\<lambda>_.
        \<lparr>g_offset_low = ucast (handler AND 0xFFFF), g_selector = KERNEL_CS, g_ist = 0, g_type = 0xE, g_dpl = dpl,
         g_present = True, g_offset_mid = ucast (drop_bit 16 handler AND 0xFFFF),
         g_offset_high = ucast (drop_bit 32 handler)\<rparr>))"

text \<open>\<open>isr_stubs\<close>: the addresses of the stubs that exist, given by \<open>stub\<close>; the other entries are NULL.\<close>

definition isr_stubs :: "(nat \<Rightarrow> u64) \<Rightarrow> nat \<Rightarrow> u64" where
  "isr_stubs stub n = (if n < 32 \<or> n = SPURIOUS_VECTOR_NUM then stub n else 0)"

definition init_idt :: "(nat \<Rightarrow> u64) \<Rightarrow> u64 \<Rightarrow> (apic_state, unit) km" where
  "init_idt stub idt_addr =
     seqK (modK (\<lambda>s. s\<lparr>apic_idtr := (of_nat (16 * IDT_SIZE - 1), idt_addr)\<rparr>))
    (seqK (forK 0 IDT_SIZE (\<lambda>i.
       if i < Suc SPURIOUS_VECTOR_NUM \<and> isr_stubs stub i \<noteq> 0 then set_idt_entry i (isr_stubs stub i) 0
       else set_idt_entry i 0 0))
    (seqK (apic_write APIC_REG_SPURIOUS (of_nat SPURIOUS_VECTOR_NUM OR APIC_SPURIOUS_APIC_ENABLE))
          (modK (\<lambda>s. s\<lparr>apic_loaded := Some (apic_idtr s)\<rparr>))))"

section \<open>The C handler\<close>

text \<open>The words of \<open>interrupt_frame_t\<close> from the top of the stack on.\<close>

record interrupt_frame_t =
  fr_regs :: "u64 list"
  vector_number :: u64
  error_code :: u64
  fr_rip :: u64
  fr_cs :: u64
  fr_rflags :: u64
  fr_rsp :: u64
  fr_ss :: u64

definition frame_of :: "u64 list \<Rightarrow> interrupt_frame_t" where
  "frame_of st = \<lparr>fr_regs = take 15 st, vector_number = st ! 15, error_code = st ! 16, fr_rip = st ! 17, fr_cs = st ! 18,
     fr_rflags = st ! 19, fr_rsp = st ! 20, fr_ss = st ! 21\<rparr>"

definition klog :: "string \<Rightarrow> u64 list \<Rightarrow> (apic_state, unit) km" where
  "klog fmt args = modK (\<lambda>s. s\<lparr>apic_log := apic_log s @ [(fmt, args)]\<rparr>)"

text \<open>The registers of the frame in the order of the struct: r15 down to r8, rbp, rdi, rsi, rdx, rcx, rbx, rax.\<close>

definition generic_interrupt_handler_c :: "interrupt_frame_t \<Rightarrow> (apic_state, unit) km" where
  "generic_interrupt_handler_c frame =
     (let vec = vector_number frame; r = (\<lambda>i. fr_regs frame ! i) in
      if vec < 32 then
        seqK (klog ''!!! CPU EXCEPTION %lld (ERROR CODE: 0x%llx) !!!'' [vec, error_code frame])
       (seqK (klog ''  RIP=0x%016llx CS=0x%llx RFLAGS=0x%016llx'' [fr_rip frame, fr_cs frame, fr_rflags frame])
       (seqK (klog ''  RAX=0x%016llx RBX=0x%016llx RCX=0x%016llx RDX=0x%016llx'' [r 14, r 13, r 12, r 11])
       (seqK (klog ''  RSI=0x%016llx RDI=0x%016llx RBP=0x%016llx RSP=0x%016llx'' [r 10, r 9, r 8, fr_rsp frame])
       (seqK (klog ''  R8 =0x%016llx R9 =0x%016llx R10=0x%016llx R11=0x%016llx'' [r 7, r 6, r 5, r 4])
       (seqK (klog ''  R12=0x%016llx R13=0x%016llx R14=0x%016llx R15=0x%016llx'' [r 3, r 2, r 1, r 0])
       (if vec \<noteq> 8 \<and> vec \<noteq> 14 then
          seqK (klog ''Unhandled CPU exception. Halting.'' [])
         (seqK (modK (\<lambda>s. s\<lparr>global_keep_running := False\<rparr>))
               (stopK (Panic ''Unhandled CPU exception'')))
        else apic_send_eoi))))))
      else if vec = of_nat SPURIOUS_VECTOR_NUM then
        klog ''Spurious interrupt (vector 0x%llx) received.'' [vec]
      else
        seqK (klog ''IRQ received: vector %lld'' [vec]) apic_send_eoi)"

section \<open>The entry stubs\<close>

text \<open>The processor of the stubs together with the state of the C code.\<close>

record apic_cpu = stub_state +
  kernel :: apic_state

definition popq :: "reg \<Rightarrow> ('a stub_state_scheme, unit) km" where
  "popq r = pop_regs [r]"

definition stub_regs :: "reg list" where
  "stub_regs = [RAX, RBX, RCX, RDX, RSI, RDI, RBP, R8, R9, R10, R11, R12, R13, R14, R15]"

text \<open>\<open>iretq\<close> pops the instruction pointer, code segment, flags, stack pointer and stack segment.\<close>

definition iretq :: "('a stub_state_scheme, u64 list) km" where
  "iretq = bindK (getK (\<lambda>s. take 5 (stack s))) (\<lambda>ws. seqK (modK (\<lambda>s. s\<lparr>stack := drop 5 (stack s)\<rparr>)) (retK ws))"

text \<open>Calling the C handler with the stack as its frame; \<open>clobber\<close> is what it does to the registers.\<close>

definition call_handler :: "((reg \<Rightarrow> u64) \<Rightarrow> reg \<Rightarrow> u64) \<Rightarrow> (apic_cpu, unit) km" where
  "call_handler clobber =
     bindK (getK (\<lambda>s. frame_of (stack s))) (\<lambda>frame.
     seqK (zoomK kernel (\<lambda>k. kernel_update (\<lambda>_. k)) (generic_interrupt_handler_c frame))
          (modK (\<lambda>s. s\<lparr>regs := clobber (regs s)\<rparr>)))"

definition ISR_STUB :: "((reg \<Rightarrow> u64) \<Rightarrow> reg \<Rightarrow> u64) \<Rightarrow> nat \<Rightarrow> bool \<Rightarrow> (apic_cpu, u64 list) km" where
  "ISR_STUB clobber vec_num has_error_code =
     seqK (pushq 0)
    (seqK (whenK (\<not> has_error_code) (seqK (popq RAX) (pushq 0)))
    (seqK (pushq (of_nat vec_num))
    (seqK (push_regs stub_regs)
    (seqK (call_handler clobber)
    (seqK (pop_regs (rev stub_regs))
    (seqK (modK (\<lambda>s. s\<lparr>stack := drop 2 (stack s)\<rparr>))
          iretq))))))"

definition has_error_code :: "nat \<Rightarrow> bool" where
  "has_error_code n \<longleftrightarrow> n \<in> {8, 10, 11, 12, 13, 14, 17, 21, 29, 30}"

definition isr_entry :: "((reg \<Rightarrow> u64) \<Rightarrow> reg \<Rightarrow> u64) \<Rightarrow> nat \<Rightarrow> (apic_cpu, u64 list) km" where
  "isr_entry clobber n = ISR_STUB clobber n (has_error_code n)"

section \<open>The other processors\<close>

text \<open>The main function of a processor, \<open>cpu_main\<close>, is missing in the source and an argument.\<close>

definition find_processor :: "u32 \<Rightarrow> u32 \<Rightarrow> (apic_state, u32 + u32) km" where
  "find_processor my_apic_id i =
     bindK (getK active_processor_count) (\<lambda>count.
     if i < count then bindK (nthK processors (unat i)) (\<lambda>p. retK (if apic_id p = my_apic_id then Inl i else Inr (i + 1)))
     else retK (Inl 0xFFFFFFFF))"

definition ap_entry_point :: "apic_hw \<Rightarrow> (u32 \<Rightarrow> (apic_state, unit) km) \<Rightarrow> (apic_state, unit) km" where
  "ap_entry_point hw cpu_main =
     bindK (apic_read hw APIC_REG_ID) (\<lambda>v.
     let my_apic_id = drop_bit 24 v in
     bindK (loopK (find_processor my_apic_id) 0) (\<lambda>my_processor_index.
     if my_processor_index = 0xFFFFFFFF then
       seqK (klog ''AP Error: Could not find processor entry for APIC ID %u'' [ucast my_apic_id])
            (stopK (Panic ''AP Error''))
     else cpu_main my_processor_index))"

section \<open>Behaviour\<close>

definition apic_gate_address :: "gate \<Rightarrow> u64" where
  "apic_gate_address g = ucast (g_offset_low g) OR push_bit 16 (ucast (g_offset_mid g)) OR push_bit 32 (ucast (g_offset_high g))"

definition stub_gate :: "u64 \<Rightarrow> u8 \<Rightarrow> gate" where
  "stub_gate handler dpl =
     (if handler = 0 then absent_gate
      else \<lparr>g_offset_low = ucast (handler AND 0xFFFF), g_selector = KERNEL_CS, g_ist = 0, g_type = 0xE, g_dpl = dpl,
         g_present = True, g_offset_mid = ucast (drop_bit 16 handler AND 0xFFFF),
         g_offset_high = ucast (drop_bit 32 handler)\<rparr>)"

lemma set_idt_entry_run:
  "vec < length (gates s) \<Longrightarrow> set_idt_entry vec handler dpl s = Some (Inr ((), s\<lparr>gates := (gates s)[vec := stub_gate handler dpl]\<rparr>))"
  by (cases s) (simp add: set_idt_entry_def stub_gate_def)

lemma stub_gate_address: "apic_gate_address (stub_gate handler dpl) = handler"
proof (cases "handler = 0")
  case False
  show ?thesis
  proof (rule bit_eqI)
    fix n :: nat assume "possible_bit TYPE(64 word) n"
    then have "n < 64" by simp
    with False show "bit (apic_gate_address (stub_gate handler dpl)) n = bit handler n"
      by (cases "n < 16"; cases "n < 32") (auto simp: apic_gate_address_def stub_gate_def mask_consts bit_simps)
  qed
qed (simp add: stub_gate_def apic_gate_address_def absent_gate_def)

lemma init_gates_loop:
  assumes "length (gates s) = IDT_SIZE"
  shows "forK 0 IDT_SIZE (\<lambda>i. if i < Suc SPURIOUS_VECTOR_NUM \<and> isr_stubs stub i \<noteq> 0
       then set_idt_entry i (isr_stubs stub i) 0 else set_idt_entry i 0 0) s =
     Some (Inr ((), s\<lparr>gates := map (\<lambda>i. stub_gate (isr_stubs stub i) 0) [0..<IDT_SIZE]\<rparr>))"
    (is "forK 0 IDT_SIZE ?body s = _")
proof -
  let ?I = "\<lambda>j t. length (gates t) = IDT_SIZE \<and> (\<forall>i < j. gates t ! i = stub_gate (isr_stubs stub i) 0) \<and>
    t = s\<lparr>gates := gates t\<rparr>"
  have step: "\<exists>t'. ?body j t = Some (Inr ((), t')) \<and> ?I (Suc j) t'" if j: "j < IDT_SIZE" and I: "?I j t" for j t
  proof -
    let ?t = "t\<lparr>gates := (gates t)[j := stub_gate (isr_stubs stub j) 0]\<rparr>"
    have "?body j t = Some (Inr ((), ?t))" using j I by (simp add: set_idt_entry_run)
    moreover have "?I (Suc j) ?t" using j I by (cases s; cases t) (auto simp: nth_list_update less_Suc_eq)
    ultimately show ?thesis by blast
  qed
  have "\<exists>t. forK 0 IDT_SIZE ?body s = Some (Inr ((), t)) \<and> ?I IDT_SIZE t"
    by (rule forK_rule [where I = ?I]) (use assms step in auto)
  then obtain t where t: "forK 0 IDT_SIZE ?body s = Some (Inr ((), t))" "?I IDT_SIZE t" by blast
  then have "gates t = map (\<lambda>i. stub_gate (isr_stubs stub i) 0) [0..<IDT_SIZE]"
    by (simp add: list_eq_iff_nth_eq del: upt_rec_numeral)
  then show ?thesis using t by metis
qed

text \<open>
  The table after \<open>init_idt\<close>: a gate is present exactly for the vectors with a stub, and then
  leads to it in ring 0; the APIC is enabled with the spurious vector and the table is loaded.
\<close>

lemma init_idt_correct:
  assumes "length (gates s) = IDT_SIZE" "\<forall>n. stub n \<noteq> 0"
  shows "\<exists>s'. init_idt stub idt_addr s = Some (Inr ((), s')) \<and> length (gates s') = IDT_SIZE \<and>
     (\<forall>n < IDT_SIZE. (g_present (gates s' ! n) \<longleftrightarrow> n < 32 \<or> n = SPURIOUS_VECTOR_NUM) \<and>
        (g_present (gates s' ! n) \<longrightarrow> apic_gate_address (gates s' ! n) = stub n \<and> g_dpl (gates s' ! n) = 0 \<and> g_type (gates s' ! n) = 0xE)) \<and>
     apic_writes s' = apic_writes s @ [(APIC_REG_SPURIOUS, 0x1FF)] \<and> apic_loaded s' = Some (0xFFF, idt_addr)"
proof -
  let ?s1 = "s\<lparr>apic_idtr := (of_nat (16 * IDT_SIZE - 1), idt_addr)\<rparr>"
  let ?g = "\<lambda>i. stub_gate (isr_stubs stub i) 0"
  let ?t = "?s1\<lparr>gates := map ?g [0..<IDT_SIZE]\<rparr>"
  have "forK 0 IDT_SIZE (\<lambda>i. if i < Suc SPURIOUS_VECTOR_NUM \<and> isr_stubs stub i \<noteq> 0
       then set_idt_entry i (isr_stubs stub i) 0 else set_idt_entry i 0 0) ?s1 = Some (Inr ((), ?t))"
    using init_gates_loop [of ?s1 stub] assms(1) by (simp del: upt_rec_numeral)
  then have "init_idt stub idt_addr s = Some (Inr ((), ?t\<lparr>apic_writes := apic_writes s @ [(APIC_REG_SPURIOUS, 0x1FF)],
      apic_loaded := Some (0xFFF, idt_addr)\<rparr>))"
    unfolding init_idt_def by (simp add: apic_write_def del: upt_rec_numeral)
  moreover have "g_present (?g n) \<longleftrightarrow> n < 32 \<or> n = SPURIOUS_VECTOR_NUM" for n
    using assms(2) by (simp add: stub_gate_def isr_stubs_def absent_gate_def)
  moreover have "g_present (?g n) \<Longrightarrow> apic_gate_address (?g n) = stub n \<and> g_dpl (?g n) = 0 \<and> g_type (?g n) = 0xE" for n
    using stub_gate_address [of "isr_stubs stub n" 0] assms(2)
    by (auto simp: isr_stubs_def stub_gate_def absent_gate_def split: if_splits)
  ultimately show ?thesis by (simp del: upt_rec_numeral)
qed

section \<open>The stubs\<close>

definition entry_regs :: "nat \<Rightarrow> (reg \<Rightarrow> u64) \<Rightarrow> reg \<Rightarrow> u64" where
  "entry_regs n rg = (if has_error_code n then rg else rg(RAX := 0))"

definition entry_stack :: "nat \<Rightarrow> apic_cpu \<Rightarrow> u64 list" where
  "entry_stack n s = rev (map (entry_regs n (regs s)) stub_regs) @ of_nat n # 0 # stack s"

lemma stub_enters:
  "seqK (pushq 0) (seqK (whenK (\<not> has_error_code n) (seqK (popq RAX) (pushq 0)))
     (seqK (pushq (of_nat n)) (seqK (push_regs stub_regs) k))) s =
   k (s\<lparr>regs := entry_regs n (regs s), stack := entry_stack n s\<rparr>)"
  by (cases s) (simp add: pushq_def popq_def push_regs_run entry_regs_def entry_stack_def)

lemma stub_leaves:
  assumes "stack t = rev (map rg stub_regs) @ v # e # st"
  shows "seqK (pop_regs (rev stub_regs)) (seqK (modK (\<lambda>s. s\<lparr>stack := drop 2 (stack s)\<rparr>)) iretq) t =
    Some (Inr (take 5 st, t\<lparr>regs := rg, stack := drop 5 st\<rparr>))"
proof -
  have d: "distinct (rev stub_regs)" by (simp add: stub_regs_def)
  have all: "r \<in> set (rev stub_regs)" for r by (cases r) (simp_all add: stub_regs_def)
  have "pop_regs (rev stub_regs) t = Some (Inr ((), t\<lparr>regs := rg, stack := v # e # st\<rparr>))"
    using pop_regs_run [of t rg "rev stub_regs" "v # e # st", OF _ d] assms all by (simp add: rev_map)
  then show ?thesis by (simp add: iretq_def)
qed

lemma isr_entry_returns:
  assumes "generic_interrupt_handler_c (frame_of (entry_stack n s)) (kernel s) = Some (Inr ((), k))"
  shows "isr_entry clobber n s = Some (Inr (take 5 (stack s),
    s\<lparr>regs := entry_regs n (regs s), stack := drop 5 (stack s), kernel := k\<rparr>))"
proof -
  let ?s = "s\<lparr>regs := entry_regs n (regs s), stack := entry_stack n s\<rparr>"
  let ?t = "?s\<lparr>kernel := k, regs := clobber (entry_regs n (regs s))\<rparr>"
  have "call_handler clobber ?s = Some (Inr ((), ?t))" using assms by (simp add: call_handler_def)
  moreover have "seqK (pop_regs (rev stub_regs)) (seqK (modK (\<lambda>s. s\<lparr>stack := drop 2 (stack s)\<rparr>)) iretq) ?t =
      Some (Inr (take 5 (stack s), ?t\<lparr>regs := entry_regs n (regs s), stack := drop 5 (stack s)\<rparr>))"
    by (rule stub_leaves) (simp add: entry_stack_def)
  ultimately show ?thesis unfolding isr_entry_def ISR_STUB_def stub_enters by (cases s) simp
qed

lemma isr_entry_stops:
  assumes "generic_interrupt_handler_c (frame_of (entry_stack n s)) (kernel s) = Some (Inl e)"
  shows "isr_entry clobber n s = Some (Inl e)"
  using assms unfolding isr_entry_def ISR_STUB_def stub_enters by (simp add: call_handler_def)

lemma frame_of_entry:
  "vector_number (frame_of (entry_stack n s)) = of_nat n" "error_code (frame_of (entry_stack n s)) = 0"
  by (simp_all add: frame_of_def entry_stack_def stub_regs_def numeral_eq_Suc)

section \<open>The other processors\<close>

definition first_with_id :: "apic_state \<Rightarrow> u32 \<Rightarrow> u32 \<Rightarrow> bool" where
  "first_with_id s my_id r \<longleftrightarrow> (\<forall>j < unat r. apic_id (processors s ! j) \<noteq> my_id) \<and> apic_id (processors s ! unat r) = my_id"

lemma find_processor_loop:
  assumes "unat (active_processor_count s) \<le> length (processors s)"
  shows "\<exists>r s'. loopK (find_processor my_id) 0 s = Some (Inr (r, s')) \<and> s' = s \<and>
    (r < active_processor_count s \<and> first_with_id s my_id r \<or>
     r = 0xFFFFFFFF \<and> (\<forall>j < unat (active_processor_count s). apic_id (processors s ! j) \<noteq> my_id))"
proof (rule loopK_rule [where I = "\<lambda>i t. t = s \<and> i \<le> active_processor_count s \<and> (\<forall>j < unat i. apic_id (processors s ! j) \<noteq> my_id)"
      and V = "\<lambda>i t. unat (active_processor_count s - i)"])
  fix i t
  assume I: "t = s \<and> i \<le> active_processor_count s \<and> (\<forall>j < unat i. apic_id (processors s ! j) \<noteq> my_id)"
  show "(\<exists>y s'. find_processor my_id i t = Some (Inr (Inl y, s')) \<and> s' = s \<and>
       (y < active_processor_count s \<and> first_with_id s my_id y \<or>
        y = 0xFFFFFFFF \<and> (\<forall>j < unat (active_processor_count s). apic_id (processors s ! j) \<noteq> my_id))) \<or>
    (\<exists>x' s'. find_processor my_id i t = Some (Inr (Inr x', s')) \<and>
       (s' = s \<and> x' \<le> active_processor_count s \<and> (\<forall>j < unat x'. apic_id (processors s ! j) \<noteq> my_id)) \<and>
       unat (active_processor_count s - x') < unat (active_processor_count s - i))"
  proof (cases "i < active_processor_count s")
    case True
    then have "unat i < length (processors s)" using assms by (simp add: word_less_nat_alt)
    with I True show ?thesis
      using inc_le [OF True] word_up_measure [OF True] unat_inc [OF True]
      by (auto simp: find_processor_def first_with_id_def less_Suc_eq)
  next
    case False
    then show ?thesis using I by (auto simp: find_processor_def)
  qed
qed simp

text \<open>
  A processor that starts runs \<open>cpu_main\<close> with the index of the first entry that has its APIC
  identifier, and halts when there is none.
\<close>

lemma ap_entry_point_correct:
  assumes "unat (active_processor_count s) \<le> length (processors s)" "my_id = drop_bit 24 (hw (apic_reads s) APIC_REG_ID)"
    and "s' = s\<lparr>apic_reads := Suc (apic_reads s)\<rparr>"
  shows "(\<exists>r < active_processor_count s. first_with_id s my_id r \<and> ap_entry_point hw cpu_main s = cpu_main r s') \<or>
    (\<forall>j < unat (active_processor_count s). apic_id (processors s ! j) \<noteq> my_id) \<and>
      ap_entry_point hw cpu_main s = Some (Inl (Panic ''AP Error''))"
proof -
  obtain r where r: "loopK (find_processor my_id) 0 s' = Some (Inr (r, s'))"
    "r < active_processor_count s \<and> first_with_id s my_id r \<or>
     r = 0xFFFFFFFF \<and> (\<forall>j < unat (active_processor_count s). apic_id (processors s ! j) \<noteq> my_id)"
    using find_processor_loop [of s' my_id] assms(1,3) by (auto simp: first_with_id_def)
  have "ap_entry_point hw cpu_main s = (if r = 0xFFFFFFFF then Some (Inl (Panic ''AP Error'')) else cpu_main r s')"
    using r(1) assms(2,3) by (simp add: ap_entry_point_def apic_read_def klog_def Let_def)
  moreover have "r \<noteq> 0xFFFFFFFF" if "r < active_processor_count s" using that unat_lt2p [of "active_processor_count s"]
    by (auto simp: word_less_nat_alt)
  ultimately show ?thesis using r(2) by auto
qed

section \<open>Properties\<close>

text \<open>
  C36: What every entry of the interrupt table does to the interrupted program, whatever the
  handler does to the registers. The spurious interrupt returns to the interrupted program
  without signalling the end of an interrupt, but with the register \<open>rax\<close> cleared: the stub
  pops its dummy error code into it before it saves it. A double fault or a page fault, which
  the handler means to survive, reports the error code 0 and returns to the error code as if it
  were the address of the interrupted instruction, since the dummy code is pushed on top of the
  one the processor pushed. Every other exception halts the machine.
\<close>

theorem isr_entry_outcomes:
  assumes "n < 32 \<or> n = SPURIOUS_VECTOR_NUM"
    and "stack s = (if has_error_code n then code # [rip, cs, rflags, rsp, ss] else [rip, cs, rflags, rsp, ss]) @ rest"
  shows "if n = SPURIOUS_VECTOR_NUM then
      (\<exists>s'. isr_entry clobber n s = Some (Inr ([rip, cs, rflags, rsp, ss], s')) \<and> stack s' = rest \<and>
         regs s' = (regs s)(RAX := 0) \<and> apic_writes (kernel s') = apic_writes (kernel s))
    else if n = 8 \<or> n = 14 then
      (\<exists>s'. isr_entry clobber n s = Some (Inr ([code, rip, cs, rflags, rsp], s')) \<and> stack s' = ss # rest \<and>
         regs s' = regs s \<and> apic_writes (kernel s') = apic_writes (kernel s) @ [(APIC_REG_EOI, 0)] \<and>
         (''!!! CPU EXCEPTION %lld (ERROR CODE: 0x%llx) !!!'', [of_nat n, 0]) \<in> set (apic_log (kernel s')))
    else isr_entry clobber n s = Some (Inl (Panic ''Unhandled CPU exception''))"
proof -
  have big: "of_nat n < (32 :: u64) \<longleftrightarrow> n < 32" "(of_nat n :: u64) = 8 \<longleftrightarrow> n = 8" "(of_nat n :: u64) = 14 \<longleftrightarrow> n = 14"
    using assms(1) by (auto simp: word_less_nat_alt word_unat_eq_iff unat_of_nat)
  note H = generic_interrupt_handler_c_def frame_of_entry klog_def apic_send_eoi_def apic_write_def Let_def big
  consider "n = SPURIOUS_VECTOR_NUM" | "n = 8 \<or> n = 14" | "n < 32" "n \<noteq> 8" "n \<noteq> 14" using assms(1) by blast
  then show ?thesis
  proof cases
    case 1
    then show ?thesis using assms(2) by (simp add: isr_entry_returns H entry_regs_def has_error_code_def)
  next
    case 2
    then show ?thesis using assms(2) by (auto simp: isr_entry_returns H entry_regs_def has_error_code_def)
  next
    case 3
    have "generic_interrupt_handler_c (frame_of (entry_stack n s)) (kernel s) = Some (Inl (Panic ''Unhandled CPU exception''))"
      using 3 by (simp add: H)
    then show ?thesis using 3 by (simp add: isr_entry_stops)
  qed
qed

definition demo_cpu :: apic_cpu where
  "demo_cpu = \<lparr>regs = (\<lambda>_. 7), stack = [6, 0x400000, 8, 0x202, 0x7000, 0x10],
     kernel = \<lparr>gates = [], apic_idtr = (0, 0), apic_loaded = None, global_keep_running = True, processors = [],
       active_processor_count = 0, apic_writes = [], apic_reads = 0, apic_log = []\<rparr>\<rparr>"

theorem isr_entry_outcomes_witness:
  "\<exists>s'. isr_entry id 14 demo_cpu = Some (Inr ([6, 0x400000, 8, 0x202, 0x7000], s')) \<and> stack s' = [0x10]"
  using isr_entry_outcomes [of 14 demo_cpu 6 "0x400000" 8 "0x202" "0x7000" "0x10" "[]" id]
  by (auto simp: demo_cpu_def has_error_code_def)

end
