(* ===== verification/DirMove.thy ===== *)
theory DirMove
  imports KPrelude
begin

text \<open>
  Moving files and directories, \<^verbatim>\<open>src/fs/dir_functions.cpp\<close>: the retry loop, the move across
  file systems, the guard that keeps a backup of the destination, and the cache of file sizes.
  The file system is a map from paths to entries; a directory is one entry with all it contains.
  Whether an operation of the system succeeds is a function of the number of operations made so
  far; a copy or a removal that fails may leave anything at its path. Exceptions are left values; the description of
  the system's error in a message is left out, and so is the waiting between two attempts.
\<close>

section \<open>Data\<close>

datatype entry = FileEntry string | DirEntry "(string \<times> entry) list"

datatype dir_exc = Error string | filesystem_error

record MoveOptions =
  preserve_permissions :: bool
  overwrite_existing :: bool
  retry_attempts :: nat

record dir_world =
  entries :: "string \<rightharpoonup> entry"
  size_cache :: "string \<rightharpoonup> nat"
  fs_calls :: nat

text \<open>\<open>os_rename n\<close> says whether call \<open>n\<close> succeeds; a failed copy or removal leaves the given entry.\<close>

record dir_os =
  os_rename :: "nat \<Rightarrow> bool"
  os_copy :: "nat \<Rightarrow> entry option option"
  os_remove :: "nat \<Rightarrow> entry option option"
  os_size :: "nat \<Rightarrow> bool"

type_synonym 'a dirM = "(dir_world, dir_exc + 'a) km"

section \<open>Operations of the file system\<close>

definition fs_call :: "(nat \<Rightarrow> 'a) \<Rightarrow> (dir_world, 'a) km" where
  "fs_call f = bindK (getK fs_calls) (\<lambda>n. seqK (modK (\<lambda>s. s\<lparr>fs_calls := Suc n\<rparr>)) (retK (f n)))"

definition fs_exists :: "string \<Rightarrow> (dir_world, bool) km" where
  "fs_exists p = getK (\<lambda>s. entries s p \<noteq> None)"

text \<open>Each returns whether it succeeded, as the overloads with an error code do.\<close>

definition fs_rename :: "dir_os \<Rightarrow> string \<Rightarrow> string \<Rightarrow> (dir_world, bool) km" where
  "fs_rename os p q =
     bindK (fs_call (os_rename os)) (\<lambda>ok. bindK (getK (\<lambda>s. entries s p)) (\<lambda>e.
     if ok \<and> e \<noteq> None then seqK (modK (\<lambda>s. s\<lparr>entries := (entries s)(p := None, q := e)\<rparr>)) (retK True) else retK False))"

definition fs_copy :: "dir_os \<Rightarrow> string \<Rightarrow> string \<Rightarrow> bool \<Rightarrow> (dir_world, bool) km" where
  "fs_copy os p q overwrite =
     bindK (fs_call (os_copy os)) (\<lambda>r. bindK (getK entries) (\<lambda>m.
     if m p = None \<or> (m q \<noteq> None \<and> \<not> overwrite) then retK False
     else case r of
       None \<Rightarrow> seqK (modK (\<lambda>s. s\<lparr>entries := m(q := m p)\<rparr>)) (retK True)
     | Some junk \<Rightarrow> seqK (modK (\<lambda>s. s\<lparr>entries := m(q := junk)\<rparr>)) (retK False)))"

definition fs_remove_all :: "dir_os \<Rightarrow> string \<Rightarrow> (dir_world, bool) km" where
  "fs_remove_all os p =
     bindK (fs_call (os_remove os)) (\<lambda>r. case r of
       None \<Rightarrow> seqK (modK (\<lambda>s. s\<lparr>entries := (entries s)(p := None)\<rparr>)) (retK True)
     | Some junk \<Rightarrow> seqK (modK (\<lambda>s. s\<lparr>entries := (entries s)(p := junk)\<rparr>)) (retK False))"

section \<open>Moving\<close>

text \<open>The loop of \<open>tryOperation\<close>; \<open>ec\<close> says whether the error code is set, which a failed attempt does.\<close>

primrec try_rounds :: "nat \<Rightarrow> bool \<Rightarrow> (dir_world, bool) km \<Rightarrow> bool dirM" where
  "try_rounds 0 ec operation = (if ec then throwE (Error ''Operation failed after retries'') else returnE False)"
| "try_rounds (Suc k) ec operation = bindK operation (\<lambda>ok. if ok then returnE True else try_rounds k True operation)"

definition tryOperation :: "(dir_world, bool) km \<Rightarrow> MoveOptions \<Rightarrow> bool dirM" where
  "tryOperation operation options = try_rounds (retry_attempts options) False operation"

definition moveAcrossFs :: "dir_os \<Rightarrow> string \<Rightarrow> string \<Rightarrow> MoveOptions \<Rightarrow> unit dirM" where
  "moveAcrossFs os src dst options =
     bindE (tryOperation (fs_copy os src dst (overwrite_existing options)) options) (\<lambda>_.
     bindE (tryOperation (fs_remove_all os src) options) (\<lambda>_. returnE ()))"

text \<open>The constructor of \<open>FileOperationGuard\<close> returns its \<open>temp_backup_\<close>.\<close>

definition guard_enter :: "dir_os \<Rightarrow> string \<Rightarrow> string option dirM" where
  "guard_enter os dst =
     bindK (fs_exists dst) (\<lambda>b.
     if b then bindK (fs_rename os dst (dst @ ''.bak'')) (\<lambda>ok.
       if ok then returnE (Some (dst @ ''.bak'')) else throwE filesystem_error)
     else returnE None)"

text \<open>The destructor: an exception inside it is caught and ends it.\<close>

definition guard_leave :: "dir_os \<Rightarrow> string \<Rightarrow> string option \<Rightarrow> bool \<Rightarrow> (dir_world, unit) km" where
  "guard_leave os source temp_backup committed =
     (case temp_backup of
       None \<Rightarrow> retK ()
     | Some bak \<Rightarrow>
         if committed then retK ()
         else
           bindK (fs_exists source) (\<lambda>b.
           bindK (if b then fs_remove_all os source else retK True) (\<lambda>ok.
           if ok then bindK (fs_rename os bak source) (\<lambda>_. retK ()) else retK ())))"

text \<open>\<open>moveFile\<close> and \<open>moveDirectory\<close> differ only in the message for a missing source.\<close>

definition move_entry :: "string \<Rightarrow> dir_os \<Rightarrow> string \<Rightarrow> string \<Rightarrow> MoveOptions \<Rightarrow> string dirM" where
  "move_entry missing os source destination options =
     bindK (fs_exists source) (\<lambda>b.
     if \<not> b then throwE (Error missing)
     else
       bindE (guard_enter os destination) (\<lambda>backup.
       bindK (bindE (tryOperation (fs_rename os source destination) options) (\<lambda>ok.
                if \<not> ok then moveAcrossFs os source destination options else returnE ())) (\<lambda>r.
       case r of
         Inl e \<Rightarrow> seqK (guard_leave os source backup False) (throwE e)
       | Inr _ \<Rightarrow> seqK (guard_leave os source backup True) (returnE destination))))"

definition moveFile :: "dir_os \<Rightarrow> string \<Rightarrow> string \<Rightarrow> MoveOptions \<Rightarrow> string dirM" where
  "moveFile = move_entry ''Source file does not exist''"

definition moveDirectory :: "dir_os \<Rightarrow> string \<Rightarrow> string \<Rightarrow> MoveOptions \<Rightarrow> string dirM" where
  "moveDirectory = move_entry ''Source directory does not exist''"

section \<open>Sizes\<close>

definition cache_get :: "string \<Rightarrow> (dir_world, nat option) km" where
  "cache_get path = getK (\<lambda>s. size_cache s path)"

definition cache_set :: "string \<Rightarrow> nat \<Rightarrow> (dir_world, unit) km" where
  "cache_set path n = modK (\<lambda>s. s\<lparr>size_cache := (size_cache s)(path \<mapsto> n)\<rparr>)"

definition file_size :: "dir_os \<Rightarrow> string \<Rightarrow> (dir_world, nat option) km" where
  "file_size os path = bindK (fs_call (os_size os)) (\<lambda>ok. getK (\<lambda>s.
     if ok then (case entries s path of Some (FileEntry c) \<Rightarrow> Some (length c) | _ \<Rightarrow> None) else None))"

definition getFileSize :: "dir_os \<Rightarrow> string \<Rightarrow> bool \<Rightarrow> (dir_world, nat option) km" where
  "getFileSize os path use_cache =
     bindK (if use_cache then cache_get path else retK None) (\<lambda>cached.
     case cached of
       Some n \<Rightarrow> retK (Some n)
     | None \<Rightarrow>
         bindK (file_size os path) (\<lambda>sz.
         seqK (case sz of Some n \<Rightarrow> whenK use_cache (cache_set path n) | None \<Rightarrow> retK ())
              (retK sz)))"

section \<open>Behaviour\<close>

lemma fs_call_run [simp]: "fs_call f s = Some (Inr (f (fs_calls s), s\<lparr>fs_calls := Suc (fs_calls s)\<rparr>))"
  by (simp add: fs_call_def)

lemma fs_exists_run [simp]: "fs_exists p s = Some (Inr (entries s p \<noteq> None, s))"
  by (simp add: fs_exists_def)

lemma fs_rename_fails: "\<not> os_rename os (fs_calls s) \<Longrightarrow> fs_rename os p q s = Some (Inr (False, s\<lparr>fs_calls := Suc (fs_calls s)\<rparr>))"
  by (simp add: fs_rename_def)

lemma fs_rename_succeeds:
  "os_rename os (fs_calls s) \<Longrightarrow> entries s p \<noteq> None \<Longrightarrow>
   fs_rename os p q s = Some (Inr (True, s\<lparr>entries := (entries s)(p := None, q := entries s p), fs_calls := Suc (fs_calls s)\<rparr>))"
  by (cases s) (simp add: fs_rename_def)

text \<open>Renaming with retries: it succeeds with the first attempt the system grants, and throws when it grants none.\<close>

lemma try_rename:
  assumes "entries s p = Some e"
  shows "if \<exists>i < n. os_rename os (fs_calls s + i)
    then \<exists>c. try_rounds n ec (fs_rename os p q) s =
      Some (Inr (Inr True, s\<lparr>entries := (entries s)(p := None, q \<mapsto> e), fs_calls := c\<rparr>))
    else try_rounds n ec (fs_rename os p q) s =
      Some (Inr (if ec \<or> 0 < n then Inl (Error ''Operation failed after retries'') else Inr False, s\<lparr>fs_calls := fs_calls s + n\<rparr>))"
  using assms
proof (induction n arbitrary: s ec)
  case (Suc n)
  show ?case
  proof (cases "os_rename os (fs_calls s)")
    case True
    then have "\<exists>i < Suc n. os_rename os (fs_calls s + i)" by (intro exI [of _ 0]) simp
    then show ?thesis using fs_rename_succeeds [of os s p q, OF True] Suc.prems by auto
  next
    case False
    let ?t = "s\<lparr>fs_calls := Suc (fs_calls s)\<rparr>"
    have ex: "(\<exists>i < Suc n. os_rename os (fs_calls s + i)) \<longleftrightarrow> (\<exists>i < n. os_rename os (fs_calls ?t + i))"
      using False by (auto simp: less_Suc_eq_0_disj)
    have "try_rounds (Suc n) ec (fs_rename os p q) s = try_rounds n True (fs_rename os p q) ?t"
      using fs_rename_fails [of os s p q, OF False] by simp
    then show ?thesis using Suc.IH [of ?t True] Suc.prems unfolding ex
      by (cases "\<exists>i < n. os_rename os (fs_calls ?t + i)") simp_all
  qed
qed (cases s, simp)

text \<open>
  The state once the guard has moved an existing destination out of the way.
\<close>

definition backed_up :: "string \<Rightarrow> dir_world \<Rightarrow> dir_world" where
  "backed_up dst s = (if entries s dst = None then s
     else s\<lparr>entries := (entries s)(dst := None, dst @ ''.bak'' := entries s dst), fs_calls := Suc (fs_calls s)\<rparr>)"

lemma guard_enter_run:
  assumes "entries s dst = None \<or> os_rename os (fs_calls s)"
  shows "guard_enter os dst s = Some (Inr (Inr (if entries s dst = None then None else Some (dst @ ''.bak'')), backed_up dst s))"
  using assms fs_rename_succeeds [of os s dst "dst @ ''.bak''"] by (auto simp: guard_enter_def backed_up_def)

lemma backed_up_source:
  assumes "src \<noteq> dst" "dst @ ''.bak'' \<noteq> src"
  shows "entries (backed_up dst s) src = entries s src" "entries (backed_up dst s) dst = None"
  using assms by (auto simp: backed_up_def)

lemma guard_leave_restores:
  assumes "os_remove os (fs_calls t) = None" "os_rename os (Suc (fs_calls t))" "entries t src \<noteq> None" "entries t bak \<noteq> None" "bak \<noteq> src"
  shows "\<exists>c. guard_leave os src (Some bak) False t =
    Some (Inr ((), t\<lparr>entries := (entries t)(bak := None, src := entries t bak), fs_calls := c\<rparr>))"
proof -
  let ?u = "t\<lparr>entries := (entries t)(src := None), fs_calls := Suc (fs_calls t)\<rparr>"
  have r: "fs_remove_all os src t = Some (Inr (True, ?u))" using assms(1) by (cases t) (simp add: fs_remove_all_def)
  have "fs_rename os bak src ?u = Some (Inr (True, ?u\<lparr>entries := (entries ?u)(bak := None, src := entries ?u bak),
      fs_calls := Suc (fs_calls ?u)\<rparr>))"
    by (rule fs_rename_succeeds) (use assms in auto)
  moreover have "(entries ?u)(bak := None, src := entries ?u bak) = (entries t)(bak := None, src := entries t bak)"
    using assms(5) by (auto simp: fun_eq_iff)
  ultimately show ?thesis using r assms(3,5) by (cases t) (auto simp: guard_leave_def)
qed

lemma guard_leave_total: "\<exists>u. guard_leave os src backup committed t = Some (Inr ((), u))"
proof -
  have rn: "\<exists>b t'. fs_rename os p q t = Some (Inr (b, t'))" for p q t by (auto simp: fs_rename_def)
  have rm: "\<exists>b t'. fs_remove_all os p t = Some (Inr (b, t'))" for p t
    by (cases "os_remove os (fs_calls t)") (auto simp: fs_remove_all_def)
  obtain b u where b: "(if entries t src \<noteq> None then fs_remove_all os src else retK True) t = Some (Inr (b, u))" using rm [of src t] by (cases "entries t src = None") auto
  obtain b' u' where "fs_rename os (the backup) src u = Some (Inr (b', u'))" using rn by blast
  with b show ?thesis by (cases backup; cases b) (auto simp: guard_leave_def)
qed

text \<open>The destructor of a guard without a backup does nothing, and so does that of a committed one.\<close>

lemma guard_leave_idle:
  "guard_leave os src None committed t = Some (Inr ((), t))" "guard_leave os src backup True t = Some (Inr ((), t))"
  by (cases backup; simp add: guard_leave_def)+

text \<open>With no attempts allowed a move does nothing but rename the destination away, and still reports success.\<close>

lemma move_without_attempts:
  assumes "entries s src \<noteq> None" "entries s dst = None \<or> os_rename os (fs_calls s)" "retry_attempts options = 0"
  shows "move_entry missing os src dst options s = Some (Inr (Inr dst, backed_up dst s))"
  using assms guard_enter_run [OF assms(2)] by (simp add: move_entry_def tryOperation_def moveAcrossFs_def guard_leave_idle)

section \<open>Properties\<close>


definition demo_dir :: dir_world where
  "demo_dir = \<lparr>entries = [''a'' \<mapsto> FileEntry ''new'', ''b'' \<mapsto> FileEntry ''old''], size_cache = Map.empty, fs_calls = 0\<rparr>"

definition demo_dir_os :: dir_os where
  "demo_dir_os = \<lparr>os_rename = (\<lambda>n. n = 0 \<or> 3 < n), os_copy = (\<lambda>_. None), os_remove = (\<lambda>_. None), os_size = (\<lambda>_. True)\<rparr>"


end
