(* ===== verification/DataProc.thy ===== *)
theory DataProc
  imports CText
begin

text \<open>
  The data processor, \<^verbatim>\<open>src/kernel/Dataprocessor.cpp\<close>: its configuration, the parser of key
  and value lines, the processing of values and the three output formats. What the TOML library
  and the command-line library return are arguments, as is the order in which the parallel loop
  visits the elements. Values are C integers: a value outside the range of \<open>int\<close> is a fault.
  Files are a map from paths to contents; log lines are kept as a list.
\<close>

section \<open>Data\<close>

record Config =
  inputFile :: string
  outputFile :: string
  delimiter :: string
  commentStyle :: string
  outputFormat :: string
  chunkSize :: int
  useParallelProcessing :: bool

definition default_Config :: Config where
  "default_Config = \<lparr>inputFile = [], outputFile = [], delimiter = '' '', commentStyle = ''#'', outputFormat = ''keyvalue'',
     chunkSize = 1024, useParallelProcessing = False\<rparr>"

datatype dp_exc = ConfigError string | FileError string

text \<open>
  What the libraries deliver: \<open>toml\<close> is \<open>None\<close> when the file cannot be parsed; a look-up that
  throws (a value of the wrong type) is \<open>None\<close>. Options that are not given are \<open>None\<close>.
\<close>

record toml_data =
  toml_string :: "string \<Rightarrow> string \<Rightarrow> string option"
  toml_int :: "string \<Rightarrow> int \<Rightarrow> int option"
  toml_bool :: "string \<Rightarrow> bool \<Rightarrow> bool option"

record cli_args =
  cli_input :: "string option"
  cli_output :: "string option"
  cli_delimiter :: "string option"
  cli_comment :: "string option"
  cli_format :: "string option"
  cli_chunk :: "int option"
  cli_parallel :: "bool option"

record dp_world =
  dp_files :: "string \<rightharpoonup> string"
  dp_log :: "string list"

type_synonym 'a dpM = "(dp_world, dp_exc + 'a) km"

section \<open>Configuration\<close>

definition set_from :: "'v option \<Rightarrow> ('v \<Rightarrow> Config \<Rightarrow> Config) \<Rightarrow> Config \<Rightarrow> Config" where
  "set_from v upd c = (case v of None \<Rightarrow> c | Some x \<Rightarrow> upd x c)"

text \<open>The assignments from the file stop at the first look-up that throws; the result says whether one did.\<close>

primrec assign_all :: "(Config \<Rightarrow> Config) option list \<Rightarrow> Config \<Rightarrow> Config \<times> bool" where
  "assign_all [] c = (c, False)"
| "assign_all (u # us) c = (case u of None \<Rightarrow> (c, True) | Some f \<Rightarrow> assign_all us (f c))"

definition toml_assignments :: "toml_data \<Rightarrow> (Config \<Rightarrow> Config) option list" where
  "toml_assignments d =
     [map_option (\<lambda>v c. c\<lparr>inputFile := v\<rparr>) (toml_string d ''input_file'' []),
      map_option (\<lambda>v c. c\<lparr>outputFile := v\<rparr>) (toml_string d ''output_file'' []),
      map_option (\<lambda>v c. c\<lparr>delimiter := v\<rparr>) (toml_string d ''delimiter'' '' ''),
      map_option (\<lambda>v c. c\<lparr>commentStyle := v\<rparr>) (toml_string d ''comment_style'' ''#''),
      map_option (\<lambda>v c. c\<lparr>outputFormat := v\<rparr>) (toml_string d ''output_format'' ''keyvalue''),
      map_option (\<lambda>v c. c\<lparr>chunkSize := v\<rparr>) (toml_int d ''chunk_size'' 1024),
      map_option (\<lambda>v c. c\<lparr>useParallelProcessing := v\<rparr>) (toml_bool d ''use_parallel_processing'' False)]"

definition load :: "toml_data option \<Rightarrow> string \<Rightarrow> cli_args \<Rightarrow> Config \<Rightarrow> (dp_world, Config) km" where
  "load toml configFile cliArgs config =
     bindK (if configFile \<noteq> [] then
              (let (c, failed) = (case toml of None \<Rightarrow> (config, True) | Some d \<Rightarrow> assign_all (toml_assignments d) config) in
               seqK (whenK failed (modK (\<lambda>s. s\<lparr>dp_log := dp_log s @ [''Failed to load TOML config: {}'']\<rparr>))) (retK c))
            else retK config) (\<lambda>c.
     retK (set_from (cli_parallel cliArgs) (\<lambda>v c. c\<lparr>useParallelProcessing := v\<rparr>)
          (set_from (cli_chunk cliArgs) (\<lambda>v c. c\<lparr>chunkSize := v\<rparr>)
          (set_from (cli_format cliArgs) (\<lambda>v c. c\<lparr>outputFormat := v\<rparr>)
          (set_from (cli_comment cliArgs) (\<lambda>v c. c\<lparr>commentStyle := v\<rparr>)
          (set_from (cli_delimiter cliArgs) (\<lambda>v c. c\<lparr>delimiter := v\<rparr>)
          (set_from (cli_output cliArgs) (\<lambda>v c. c\<lparr>outputFile := v\<rparr>)
          (set_from (cli_input cliArgs) (\<lambda>v c. c\<lparr>inputFile := v\<rparr>) c))))))))"

definition validate :: "Config \<Rightarrow> unit dpM" where
  "validate c =
     (if inputFile c = [] then throwE (ConfigError ''Input file path cannot be empty'')
      else if outputFile c = [] then throwE (ConfigError ''Output file path cannot be empty'')
      else if chunkSize c \<le> 0 then throwE (ConfigError ''Chunk size must be positive'')
      else returnE ())"

definition loadConfig :: "toml_data option \<Rightarrow> string \<Rightarrow> cli_args \<Rightarrow> Config dpM" where
  "loadConfig toml configFile cliArgs =
     bindK (load toml configFile cliArgs default_Config) (\<lambda>c. bindE (validate c) (\<lambda>_. returnE c))"

section \<open>Parsing\<close>

text \<open>The first character of a string, the terminating NUL of an empty one.\<close>

definition char0 :: "string \<Rightarrow> char" where
  "char0 t = (if t = [] then CHR 0x00 else hd t)"

datatype stoi_result = Invalid | Range | Value int

definition stoi :: "string \<Rightarrow> stoi_result" where
  "stoi str =
     (let s = dropWhile isspace str;
          neg = (s \<noteq> [] \<and> hd s = CHR ''-'');
          s' = (if s \<noteq> [] \<and> (hd s = CHR ''-'' \<or> hd s = CHR ''+'') then tl s else s);
          ds = takeWhile digit s';
          v = (if neg then - digits_value ds else digits_value ds) in
      if ds = [] then Invalid else if v < - 2147483648 \<or> 2147483647 < v then Range else Value v)"

text \<open>
  The second \<open>getline\<close> fails when the delimiter is missing or nothing follows it; the value then
  is the empty pair, as it is when the number cannot be read.
\<close>

definition parseLine :: "Config \<Rightarrow> string \<Rightarrow> (dp_world, string \<times> int) km" where
  "parseLine c line =
     (let d = char0 (delimiter c); key = takeWhile (\<lambda>x. x \<noteq> d) line; valueStr = tl (dropWhile (\<lambda>x. x \<noteq> d) line) in
      if d \<in> set line \<and> valueStr \<noteq> [] then
        (case stoi valueStr of
           Value v \<Rightarrow> retK (key, v)
         | Invalid \<Rightarrow> seqK (modK (\<lambda>s. s\<lparr>dp_log := dp_log s @ [''Invalid value in line: '' @ line]\<rparr>)) (retK ([], 0))
         | Range \<Rightarrow> seqK (modK (\<lambda>s. s\<lparr>dp_log := dp_log s @ [''Value out of range in line: '' @ line]\<rparr>)) (retK ([], 0)))
      else retK ([], 0))"

primrec parse_lines :: "Config \<Rightarrow> string list \<Rightarrow> (dp_world, (string \<times> int) list) km" where
  "parse_lines c [] = retK []"
| "parse_lines c (line # lines) =
     (if line = [] \<or> char0 line = char0 (commentStyle c) then parse_lines c lines
      else
        bindK (parseLine c line) (\<lambda>parsed. bindK (parse_lines c lines) (\<lambda>data.
        retK (if fst parsed \<noteq> [] then parsed # data else data))))"

definition parse :: "Config \<Rightarrow> ((string \<times> int) list) dpM" where
  "parse c = bindK (getK (\<lambda>s. dp_files s (inputFile c))) (\<lambda>f. case f of
     None \<Rightarrow> throwE (FileError (''Could not open input file: '' @ inputFile c))
   | Some content \<Rightarrow> bindK (parse_lines c (lines_of content)) returnE)"

section \<open>Processing\<close>

text \<open>Division truncates; doubling that leaves the range of \<open>int\<close> is undefined.\<close>

definition processDataPoint :: "int \<Rightarrow> int" where
  "processDataPoint v = (if 10 < v then v * 2 else if v < 0 then - (- v div 2) else v div 2)"

definition process_at :: "nat \<Rightarrow> ((string \<times> int) list, unit) km" where
  "process_at i = bindK (nthK id i) (\<lambda>p.
     if 2147483647 < processDataPoint (snd p) then stopK (Fault ''overflow'')
     else modK (\<lambda>data. data[i := (fst p, processDataPoint (snd p))]))"

primrec process_each :: "nat list \<Rightarrow> ((string \<times> int) list, unit) km" where
  "process_each [] = retK ()"
| "process_each (i # is) = seqK (process_at i) (process_each is)"

text \<open>\<open>order\<close> is the order in which \<open>parallel_for_each\<close> visits the elements.\<close>

definition process :: "nat list \<Rightarrow> Config \<Rightarrow> ((string \<times> int) list, unit) km" where
  "process order c = bindK (getK length) (\<lambda>n. if useParallelProcessing c then process_each order else process_each [0..<n])"

section \<open>Output\<close>

definition json_line :: "(string \<times> int) list \<Rightarrow> nat \<Rightarrow> string" where
  "json_line data i = ''  '' @ [CHR 0x22] @ fst (data ! i) @ [CHR 0x22] @ '': '' @ dec_int (snd (data ! i)) @
     (if i < length data - 1 then '','' else []) @ [newline]"

definition generateJSON :: "(string \<times> int) list \<Rightarrow> string" where
  "generateJSON data = ''{'' @ [newline] @ concat (map (json_line data) [0..<length data]) @ ''}'' @ [newline]"

definition generateCSV :: "(string \<times> int) list \<Rightarrow> string" where
  "generateCSV data = concat (map (\<lambda>p. fst p @ '','' @ dec_int (snd p) @ [newline]) data)"

definition generateKeyValue :: "(string \<times> int) list \<Rightarrow> string" where
  "generateKeyValue data = concat (map (\<lambda>p. fst p @ '': '' @ dec_int (snd p) @ [newline]) data)"

text \<open>\<open>out_ok\<close> says whether the output file can be opened.\<close>

definition generate :: "bool \<Rightarrow> Config \<Rightarrow> (string \<times> int) list \<Rightarrow> unit dpM" where
  "generate out_ok c data =
     (if \<not> out_ok then throwE (FileError (''Could not open output file: '' @ outputFile c))
      else
        (let text = (if outputFormat c = ''json'' then generateJSON data
                     else if outputFormat c = ''csv'' then generateCSV data else generateKeyValue data) in
         seqK (modK (\<lambda>s. s\<lparr>dp_files := (dp_files s)(outputFile c \<mapsto> text)\<rparr>)) (returnE ())))"

definition processData :: "bool \<Rightarrow> nat list \<Rightarrow> Config \<Rightarrow> unit dpM" where
  "processData out_ok order c =
     bindE (parse c) (\<lambda>data.
     case process order c data of
       None \<Rightarrow> (\<lambda>s. None)
     | Some (Inl e) \<Rightarrow> stopK e
     | Some (Inr (_, data')) \<Rightarrow> generate out_ok c data')"

text \<open>\<open>run\<close> without the help text: the exit status, 1 when anything throws.\<close>

definition run :: "bool \<Rightarrow> nat list \<Rightarrow> toml_data option \<Rightarrow> string option \<Rightarrow> cli_args \<Rightarrow> (dp_world, int) km" where
  "run out_ok order toml config cliArgs =
     (let configFile = (case config of Some f \<Rightarrow> f | None \<Rightarrow> ''config.toml'') in
      bindK (bindE (loadConfig toml configFile cliArgs) (processData out_ok order)) (\<lambda>r.
      case r of
        Inr _ \<Rightarrow> seqK (modK (\<lambda>s. s\<lparr>dp_log := dp_log s @ [''Processing completed successfully.'']\<rparr>)) (retK 0)
      | Inl _ \<Rightarrow> seqK (modK (\<lambda>s. s\<lparr>dp_log := dp_log s @ [''Error: {}'']\<rparr>)) (retK 1)))"

section \<open>Behaviour\<close>

definition int_range :: "int \<Rightarrow> bool" where
  "int_range v \<longleftrightarrow> - 2147483648 \<le> v \<and> v \<le> 2147483647"

lemma dropWhile_space: "\<forall>c \<in> set pad. isspace c \<Longrightarrow> \<not> isspace (hd t) \<Longrightarrow> dropWhile isspace (pad @ t) = t"
  by (cases t) (auto simp: dropWhile_append)

lemma stoi_dec_int:
  assumes "int_range v" "\<forall>c \<in> set pad. isspace c"
  shows "stoi (pad @ dec_int v) = Value v"
proof -
  have minus: "\<not> isspace CHR ''-''" by (simp add: isspace_def char_code_def)
  have d: "takeWhile digit (dec_nat n) = dec_nat n" "dec_nat n \<noteq> []" "digit (hd (dec_nat n))" for n
    using takeWhile_dec_nat [of "[]" n] dec_nat_digits [of n] hd_dec_nat [of n "[]"] by auto
  have f: "\<not> isspace (hd (dec_nat n))" "hd (dec_nat n) \<noteq> CHR ''-''" "hd (dec_nat n) \<noteq> CHR ''+''" for n
    using digit_facts [OF d(3) [of n]] by auto
  show ?thesis
  proof (cases "v < 0")
    case True
    have "dropWhile isspace (pad @ CHR ''-'' # dec_nat (nat (- v))) = CHR ''-'' # dec_nat (nat (- v))"
      using dropWhile_space [OF assms(2), of "CHR ''-'' # dec_nat (nat (- v))"] minus by simp
    then show ?thesis using True assms(1) by (simp add: d(1,2) stoi_def dec_int_def Let_def dec_nat_value int_range_def)
  next
    case False
    have "dropWhile isspace (pad @ dec_nat (nat v)) = dec_nat (nat v)" by (rule dropWhile_space [OF assms(2) f(1)])
    then show ?thesis using False assms(1) by (simp add: d(1,2) f stoi_def dec_int_def Let_def dec_nat_value int_range_def)
  qed
qed

text \<open>Data that a printed line can carry: a key that is not empty, does not start a comment and has no delimiter or newline.\<close>

definition printable :: "Config \<Rightarrow> string \<times> int \<Rightarrow> bool" where
  "printable c p \<longleftrightarrow> fst p \<noteq> [] \<and> char0 (fst p) \<noteq> char0 (commentStyle c) \<and> char0 (delimiter c) \<notin> set (fst p) \<and>
     newline \<notin> set (fst p) \<and> int_range (snd p)"

definition printed :: "Config \<Rightarrow> string \<Rightarrow> string \<times> int \<Rightarrow> string" where
  "printed c pad p = fst p @ char0 (delimiter c) # pad @ dec_int (snd p)"

lemma parseLine_printed:
  assumes "printable c p" "\<forall>x \<in> set pad. isspace x"
  shows "parseLine c (printed c pad p) s = Some (Inr (p, s))"
proof -
  let ?d = "char0 (delimiter c)"
  have n: "?d \<notin> set (fst p)" using assms(1) by (simp add: printable_def)
  then have "takeWhile (\<lambda>x. x \<noteq> ?d) (printed c pad p) = fst p"
    "dropWhile (\<lambda>x. x \<noteq> ?d) (printed c pad p) = ?d # pad @ dec_int (snd p)"
    by (auto simp: printed_def takeWhile_append dropWhile_append)
  moreover have "stoi (pad @ dec_int (snd p)) = Value (snd p)"
    by (rule stoi_dec_int) (use assms in \<open>simp_all add: printable_def\<close>)
  moreover have "pad @ dec_int (snd p) \<noteq> []" using dec_nat_digits by (simp add: dec_int_def)
  moreover have "?d \<in> set (printed c pad p)" by (simp add: printed_def)
  ultimately show ?thesis by (simp add: parseLine_def)
qed

lemma parse_lines_printed:
  assumes "\<forall>p \<in> set data. printable c p" "\<forall>x \<in> set pad. isspace x"
  shows "parse_lines c (map (printed c pad) data) s = Some (Inr (data, s))"
  using assms(1)
proof (induction data)
  case (Cons p data)
  then have "char0 (printed c pad p) = char0 (fst p)" "fst p \<noteq> []" "char0 (fst p) \<noteq> char0 (commentStyle c)"
    by (auto simp: printable_def printed_def char0_def)
  moreover have "printed c pad p \<noteq> []" by (simp add: printed_def)
  ultimately show ?case using Cons parseLine_printed [of c p pad s] assms(2) by simp
qed simp

lemma printed_line:
  assumes "printable c p" "newline \<notin> set pad" "char0 (delimiter c) \<noteq> newline"
  shows "newline \<notin> set (printed c pad p)"
  using assms dec_int_chars [of "snd p"] digit_facts by (auto simp: printed_def printable_def)

lemma lines_of_printed:
  assumes "\<forall>p \<in> set data. printable c p" "newline \<notin> set pad" "char0 (delimiter c) \<noteq> newline"
  shows "lines_of (concat (map (\<lambda>p. printed c pad p @ [newline]) data)) = map (printed c pad) data"
  using lines_of_concat [of "map (printed c pad) data"] printed_line [OF _ assms(2,3)] assms(1) by (auto simp: comp_def)

text \<open>Processing every element once, in any order, is processing each value.\<close>

definition processed :: "(string \<times> int) list \<Rightarrow> (string \<times> int) list" where
  "processed data = map (\<lambda>(k, v). (k, processDataPoint v)) data"

lemma process_each_run:
  assumes "distinct is" "set is \<subseteq> {..<length data}" "\<forall>p \<in> set data. processDataPoint (snd p) \<le> 2147483647"
    and "length cur = length data" "\<forall>i < length data. cur ! i = (if i \<in> D then processed data ! i else data ! i)"
    and "D \<inter> set is = {}"
  shows "\<exists>cur'. process_each is cur = Some (Inr ((), cur')) \<and> length cur' = length data \<and>
    (\<forall>i < length data. cur' ! i = (if i \<in> D \<union> set is then processed data ! i else data ! i))"
  using assms
proof (induction "is" arbitrary: cur D)
  case (Cons i js)
  let ?cur = "cur[i := processed data ! i]"
  have i: "i < length data" "cur ! i = data ! i" using Cons.prems by auto
  have small: "processDataPoint (snd (data ! i)) \<le> 2147483647" using Cons.prems(3) i(1) by simp
  have p: "processed data ! i = (fst (data ! i), processDataPoint (snd (data ! i)))"
    using i(1) by (simp add: processed_def split: prod.splits)
  have "process_at i cur = Some (Inr ((), ?cur))"
    using i Cons.prems(4) small p by (simp add: process_at_def)
  moreover have "\<exists>cur'. process_each js ?cur = Some (Inr ((), cur')) \<and> length cur' = length data \<and>
      (\<forall>k < length data. cur' ! k = (if k \<in> insert i D \<union> set js then processed data ! k else data ! k))"
    by (rule Cons.IH) (use Cons.prems i in \<open>auto simp: nth_list_update\<close>)
  ultimately show ?case by auto
qed simp

section \<open>Properties\<close>


definition demo_config :: Config where
  "demo_config = default_Config\<lparr>inputFile := ''d'', outputFile := ''d'', delimiter := '':''\<rparr>"


text \<open>
  Parallel processing gives what sequential processing gives: whatever the order in which
  the parallel loop visits the elements, as long as it visits each one once, every value is
  replaced by its processed value, provided that no doubled value leaves the range of \<open>int\<close>.
\<close>

theorem process_order_irrelevant:
  assumes "distinct order" "set order = {..<length data}" "\<forall>p \<in> set data. processDataPoint (snd p) \<le> 2147483647"
  shows "process order c data = Some (Inr ((), processed data))"
proof -
  have "process_each is data = Some (Inr ((), processed data))" if D: "distinct is" "set is = {..<length data}" for "is"
  proof -
    obtain cur' where "process_each is data = Some (Inr ((), cur'))" "length cur' = length data"
      "\<forall>i < length data. cur' ! i = processed data ! i"
      using process_each_run [of "is" data data "{}"] D assms(3) by auto
    then show ?thesis by (simp add: list_eq_iff_nth_eq processed_def)
  qed
  from this [OF assms(1,2)] this [of "[0..<length data]"] show ?thesis by (auto simp: process_def lessThan_atLeast0)
qed

theorem process_order_irrelevant_witness:
  "process [1, 0] (demo_config\<lparr>useParallelProcessing := True\<rparr>) [(''a'', 12), (''b'', -3)] = Some (Inr ((), [(''a'', 24), (''b'', -1)]))"
proof -
  have "set [1, 0] = {..<length [(''a'', 12 :: int), (''b'', -3)]}" by auto
  from process_order_irrelevant [OF _ this, of "demo_config\<lparr>useParallelProcessing := True\<rparr>"] show ?thesis
    by (simp add: processDataPoint_def processed_def)
qed

end
