(* ===== verification/DevTree.thy ===== *)
theory DevTree
  imports KPrelude "HOL-Library.Multiset"
begin

text \<open>
  The device tree and the file system manager of \<^verbatim>\<open>src/fs/devfs.h\<close>. Nodes live at addresses, as
  the shared pointers of the code name them; a directory maps names to addresses and every node
  points back to its parent. Nodes stay alive, so a weak pointer to a parent is \<open>None\<close> only when
  it was never set or was reset. The mutexes are recursive and taken by one thread at a time, so
  they have no state here. The virtual operations on files have no implementation in the source.
\<close>

section \<open>Data\<close>

datatype ErrorCode = SUCCESS | EXISTS | NOT_FOUND | INVALID_ARG | ACCESS_DENIED | IO_ERROR | NOT_DIRECTORY
  | NOT_FILE | UNSUPPORTED_OP | BUSY

record Node =
  m_name :: string
  m_major :: u8
  m_minor :: u8
  m_parent :: "nat option"
  is_directory :: bool
  m_children :: "string \<rightharpoonup> nat"

text \<open>The priorities of event handlers, in the order of the enumeration.\<close>

datatype Priority = HIGH | NORMAL | LOW

primrec prio_number :: "Priority \<Rightarrow> nat" where
  "prio_number HIGH = 0"
| "prio_number NORMAL = 1"
| "prio_number LOW = 2"

instantiation Priority :: linorder
begin

definition less_eq_Priority :: "Priority \<Rightarrow> Priority \<Rightarrow> bool" where
  "less_eq_Priority a b \<longleftrightarrow> prio_number a \<le> prio_number b"

definition less_Priority :: "Priority \<Rightarrow> Priority \<Rightarrow> bool" where
  "less_Priority a b \<longleftrightarrow> prio_number a < prio_number b"

instance
proof
  fix a b :: Priority assume "a \<le> b" "b \<le> a"
  then show "a = b" by (cases a; cases b) (simp_all add: less_eq_Priority_def)
qed (auto simp: less_eq_Priority_def less_Priority_def)

end

record EventHandler =
  m_priority :: Priority
  handler_id :: nat

record dev_tree =
  tree_nodes :: "nat \<rightharpoonup> Node"
  m_mounts :: "string \<rightharpoonup> nat"
  m_devices :: "nat list"
  m_handlers :: "EventHandler list"

section \<open>Nodes and directories\<close>

text \<open>A constructor throws for the major number 0; an 8-bit number is never above 255.\<close>

definition validate_major :: "u8 \<Rightarrow> (dev_tree, ErrorCode + u8) km" where
  "validate_major major = (if major = 0 then throwE INVALID_ARG else returnE major)"

definition new_node :: "bool \<Rightarrow> string \<Rightarrow> u8 \<Rightarrow> u8 \<Rightarrow> (dev_tree, ErrorCode + Node) km" where
  "new_node dir name major minor =
     bindE (validate_major major) (\<lambda>major.
     returnE \<lparr>m_name = name, m_major = major, m_minor = minor, m_parent = None, is_directory = dir, m_children = Map.empty\<rparr>)"

definition at_node :: "nat \<Rightarrow> (dev_tree, Node) km" where
  "at_node a = bindK (getK (\<lambda>w. tree_nodes w a)) (\<lambda>n. case n of None \<Rightarrow> stopK (Fault ''node'') | Some x \<Rightarrow> retK x)"

definition put_node :: "nat \<Rightarrow> Node \<Rightarrow> (dev_tree, unit) km" where
  "put_node a x = modK (\<lambda>w. w\<lparr>tree_nodes := (tree_nodes w)(a \<mapsto> x)\<rparr>)"

definition set_parent :: "nat \<Rightarrow> nat option \<Rightarrow> (dev_tree, unit) km" where
  "set_parent a p = bindK (at_node a) (\<lambda>x. put_node a (x\<lparr>m_parent := p\<rparr>))"

text \<open>\<open>path\<close> follows the parents; on a cycle of parents it does not return.\<close>

partial_function (option) path :: "dev_tree \<Rightarrow> nat \<Rightarrow> string option" where
  "path w a =
     Option.bind (tree_nodes w a) (\<lambda>x.
     case m_parent x of
       Some p \<Rightarrow> Option.bind (path w p) (\<lambda>pp. Some (pp @ ''/'' @ m_name x))
     | None \<Rightarrow> Some (''/'' @ m_name x))"

definition add_child :: "nat \<Rightarrow> nat option \<Rightarrow> (dev_tree, ErrorCode) km" where
  "add_child dir child =
     (case child of
        None \<Rightarrow> retK INVALID_ARG
      | Some c \<Rightarrow>
          bindK (at_node dir) (\<lambda>d. bindK (at_node c) (\<lambda>x.
          if m_children d (m_name x) \<noteq> None then retK EXISTS
          else
            seqK (set_parent c (Some dir))
           (seqK (bindK (at_node dir) (\<lambda>d. put_node dir (d\<lparr>m_children := (m_children d)(m_name x \<mapsto> c)\<rparr>)))
                 (retK SUCCESS)))))"

definition remove_child :: "nat \<Rightarrow> string \<Rightarrow> (dev_tree, ErrorCode) km" where
  "remove_child dir name =
     bindK (at_node dir) (\<lambda>d.
     case m_children d name of
       None \<Rightarrow> retK NOT_FOUND
     | Some c \<Rightarrow>
         seqK (set_parent c None)
        (seqK (bindK (at_node dir) (\<lambda>d. put_node dir (d\<lparr>m_children := (m_children d)(name := None)\<rparr>)))
              (retK SUCCESS)))"

definition find_child :: "nat \<Rightarrow> string \<Rightarrow> (dev_tree, nat option) km" where
  "find_child dir name = bindK (at_node dir) (\<lambda>d. retK (m_children d name))"

section \<open>The manager\<close>

definition mount :: "string \<Rightarrow> nat \<Rightarrow> (dev_tree, ErrorCode) km" where
  "mount p root = bindK (getK m_mounts) (\<lambda>m.
     if m p \<noteq> None then retK EXISTS else seqK (modK (\<lambda>w. w\<lparr>m_mounts := m(p \<mapsto> root)\<rparr>)) (retK SUCCESS))"

definition unmount :: "string \<Rightarrow> (dev_tree, ErrorCode) km" where
  "unmount p = bindK (getK m_mounts) (\<lambda>m.
     seqK (modK (\<lambda>w. w\<lparr>m_mounts := m(p := None)\<rparr>)) (retK (if m p \<noteq> None then SUCCESS else NOT_FOUND)))"

definition register_device :: "nat option \<Rightarrow> nat option \<Rightarrow> (dev_tree, ErrorCode) km" where
  "register_device parent device =
     (case parent of
        None \<Rightarrow> retK INVALID_ARG
      | Some p \<Rightarrow> if device = None then retK INVALID_ARG else add_child p device)"

text \<open>\<open>create_device\<close>: the address of the new node is an argument.\<close>

definition create_device :: "nat \<Rightarrow> bool \<Rightarrow> string \<Rightarrow> u8 \<Rightarrow> u8 \<Rightarrow> (dev_tree, ErrorCode + nat) km" where
  "create_device a dir name major minor =
     bindE (new_node dir name major minor) (\<lambda>x.
     seqK (put_node a x) (seqK (modK (\<lambda>w. w\<lparr>m_devices := m_devices w @ [a]\<rparr>)) (returnE a)))"

text \<open>\<open>upper_bound\<close>: the first position whose element is greater than the new one.\<close>

definition upper_bound :: "EventHandler list \<Rightarrow> EventHandler \<Rightarrow> nat" where
  "upper_bound hs h = length (takeWhile (\<lambda>x. \<not> m_priority h < m_priority x) hs)"

definition add_event_handler :: "EventHandler \<Rightarrow> (dev_tree, unit) km" where
  "add_event_handler h = modK (\<lambda>w.
     let i = upper_bound (m_handlers w) h in w\<lparr>m_handlers := take i (m_handlers w) @ h # drop i (m_handlers w)\<rparr>)"

section \<open>Behaviour\<close>

lemma at_node_run [simp]: "tree_nodes w a = Some x \<Longrightarrow> at_node a w = Some (Inr (x, w))"
  by (simp add: at_node_def)

lemma put_node_run [simp]: "put_node a x w = Some (Inr ((), w\<lparr>tree_nodes := (tree_nodes w)(a \<mapsto> x)\<rparr>))"
  by (simp add: put_node_def)

lemma set_parent_run [simp]:
  "tree_nodes w a = Some x \<Longrightarrow> set_parent a p w = Some (Inr ((), w\<lparr>tree_nodes := (tree_nodes w)(a \<mapsto> x\<lparr>m_parent := p\<rparr>)\<rparr>))"
  by (simp add: set_parent_def)

text \<open>A node from which the parents lead to a node without a parent, and the nodes above a node, itself included.\<close>

inductive rooted :: "dev_tree \<Rightarrow> nat \<Rightarrow> bool" for w where
  rooted_top: "tree_nodes w a = Some x \<Longrightarrow> m_parent x = None \<Longrightarrow> rooted w a"
| rooted_up: "tree_nodes w a = Some x \<Longrightarrow> m_parent x = Some p \<Longrightarrow> rooted w p \<Longrightarrow> rooted w a"

inductive above :: "dev_tree \<Rightarrow> nat \<Rightarrow> nat \<Rightarrow> bool" for w b where
  above_self: "above w b b"
| above_up: "tree_nodes w a = Some x \<Longrightarrow> m_parent x = Some p \<Longrightarrow> above w b p \<Longrightarrow> above w b a"

text \<open>
  The tree is well formed: an entry of a directory and the parent of a node are each other's
  inverse, and there are no cycles.
\<close>

definition links_down :: "dev_tree \<Rightarrow> bool" where
  "links_down w \<longleftrightarrow> (\<forall>d D n c. tree_nodes w d = Some D \<and> m_children D n = Some c \<longrightarrow>
     (\<exists>C. tree_nodes w c = Some C \<and> m_name C = n \<and> m_parent C = Some d))"

definition links_up :: "dev_tree \<Rightarrow> bool" where
  "links_up w \<longleftrightarrow> (\<forall>c C d. tree_nodes w c = Some C \<and> m_parent C = Some d \<longrightarrow>
     (\<exists>D. tree_nodes w d = Some D \<and> m_children D (m_name C) = Some c))"

definition tree_inv :: "dev_tree \<Rightarrow> bool" where
  "tree_inv w \<longleftrightarrow> links_down w \<and> links_up w \<and> (\<forall>a \<in> dom (tree_nodes w). rooted w a)"

text \<open>Resolving a list of names from a directory.\<close>

primrec resolve :: "dev_tree \<Rightarrow> nat \<Rightarrow> string list \<Rightarrow> nat option" where
  "resolve w a [] = Some a"
| "resolve w a (n # ns) = (case tree_nodes w a of None \<Rightarrow> None
     | Some x \<Rightarrow> (case m_children x n of None \<Rightarrow> None | Some c \<Rightarrow> resolve w c ns))"

lemma resolve_append: "resolve w a ns = Some b \<Longrightarrow> resolve w a (ns @ ms) = resolve w b ms"
  by (induction ns arbitrary: a) (auto split: option.splits)

abbreviation joined_path :: "string list \<Rightarrow> string" where
  "joined_path ns \<equiv> concat (map (\<lambda>n. ''/'' @ n) ns)"

text \<open>The path of a node names the way from its root to it.\<close>

lemma path_resolves:
  assumes "rooted w a" "links_up w"
  shows "\<exists>r R ns. tree_nodes w r = Some R \<and> m_parent R = None \<and> path w a = Some (joined_path (m_name R # ns)) \<and> resolve w r ns = Some a"
  using assms(1)
proof induction
  case (rooted_top a x)
  then show ?case by (intro exI [of _ a] exI [of _ x] exI [of _ "[]"]) (simp add: path.simps [of w a])
next
  case (rooted_up a x p)
  then obtain r R ns where r: "tree_nodes w r = Some R" "m_parent R = None" "path w p = Some (joined_path (m_name R # ns))"
    "resolve w r ns = Some p" by blast
  obtain D where "tree_nodes w p = Some D" "m_children D (m_name x) = Some a"
    using assms(2) rooted_up.hyps unfolding links_up_def by blast
  then have "resolve w r (ns @ [m_name x]) = Some a" using resolve_append [OF r(4)] by simp
  moreover have "path w a = Some (joined_path (m_name R # ns @ [m_name x]))"
    using rooted_up.hyps r(3) by (simp add: path.simps [of w a])
  ultimately show ?case using r(1,2) by blast
qed

section \<open>Adding and removing a child\<close>

definition linked :: "nat \<Rightarrow> Node \<Rightarrow> nat \<Rightarrow> Node \<Rightarrow> dev_tree \<Rightarrow> dev_tree" where
  "linked d D c C w = w\<lparr>tree_nodes := (tree_nodes w)(c \<mapsto> C\<lparr>m_parent := Some d\<rparr>, d \<mapsto> D\<lparr>m_children := (m_children D)(m_name C \<mapsto> c)\<rparr>)\<rparr>"

lemma add_child_run:
  assumes "tree_nodes w d = Some D" "tree_nodes w c = Some C" "c \<noteq> d" "m_children D (m_name C) = None"
  shows "add_child d (Some c) w = Some (Inr (SUCCESS, linked d D c C w))"
  using assms by (cases w) (simp add: add_child_def linked_def fun_upd_twist)

lemma linked_node:
  assumes "tree_nodes w a = Some x" "a \<noteq> c" "c \<noteq> d" "tree_nodes w d = Some D"
  shows "\<exists>x'. tree_nodes (linked d D c C w) a = Some x' \<and> m_parent x' = m_parent x"
  using assms by (cases "a = d") (simp_all add: linked_def)

lemma rooted_unlinked:
  assumes "rooted w a" "\<not> above w c a" "c \<noteq> d" "tree_nodes w d = Some D"
  shows "rooted (linked d D c C w) a"
  using assms(1,2)
proof induction
  case (rooted_top a x)
  then have "a \<noteq> c" using above_self by blast
  then obtain x' where "tree_nodes (linked d D c C w) a = Some x'" "m_parent x' = m_parent x"
    using linked_node [OF rooted_top(1) _ assms(3,4)] by blast
  then show ?case using rooted_top by (simp add: rooted.rooted_top)
next
  case (rooted_up a x p)
  then have ac: "a \<noteq> c" and p: "\<not> above w c p" using above_self above_up by blast+
  then obtain x' where "tree_nodes (linked d D c C w) a = Some x'" "m_parent x' = m_parent x"
    using linked_node [OF rooted_up(1) _ assms(3,4)] by blast
  then show ?case using rooted.rooted_up [of _ a x' p] rooted_up p by simp
qed

lemma rooted_linked:
  assumes "rooted w a" "rooted (linked d D c C w) d" "c \<noteq> d" "tree_nodes w d = Some D" "tree_nodes w c = Some C" "m_parent C = None"
  shows "rooted (linked d D c C w) a"
  using assms(1)
proof induction
  case (rooted_top a x)
  show ?case
  proof (cases "a = c")
    case True
    have "tree_nodes (linked d D c C w) c = Some (C\<lparr>m_parent := Some d\<rparr>)" using assms(3) by (simp add: linked_def)
    from rooted.rooted_up [OF this _ assms(2)] show ?thesis using True by simp
  next
    case False
    then obtain x' where "tree_nodes (linked d D c C w) a = Some x'" "m_parent x' = m_parent x"
      using linked_node [OF rooted_top(1) _ assms(3,4)] by blast
    then show ?thesis using rooted_top by (simp add: rooted.rooted_top)
  qed
next
  case (rooted_up a x p)
  then have "a \<noteq> c" using assms(5,6) by auto
  then obtain x' where "tree_nodes (linked d D c C w) a = Some x'" "m_parent x' = m_parent x"
    using linked_node [OF rooted_up(1) _ assms(3,4)] by blast
  then show ?case using rooted.rooted_up [of _ a x' p] rooted_up by simp
qed

lemma linked_inv:
  assumes "tree_inv w" "tree_nodes w d = Some D" "tree_nodes w c = Some C" "\<not> above w c d" "m_children D (m_name C) = None" "m_parent C = None"
  shows "tree_inv (linked d D c C w)"
proof -
  have cd: "c \<noteq> d" using assms(4) above_self by blast
  have r: "rooted w a" if "a \<in> dom (tree_nodes w)" for a using assms(1) that by (auto simp: tree_inv_def)
  have "d \<in> dom (tree_nodes w)" using assms(2) by auto
  from rooted_unlinked [OF r [OF this] assms(4) cd assms(2)] have "rooted (linked d D c C w) d" .
  note root = rooted_linked [OF r this cd assms(2,3,6)]
  have "dom (tree_nodes (linked d D c C w)) = dom (tree_nodes w)" using assms(2,3) by (auto simp: linked_def)
  then have "\<forall>a \<in> dom (tree_nodes (linked d D c C w)). rooted (linked d D c C w) a" using root by simp
  moreover have "links_down (linked d D c C w)"
    unfolding links_down_def
  proof (intro allI impI, elim conjE)
    fix e E n k assume e: "tree_nodes (linked d D c C w) e = Some E" "m_children E n = Some k"
    then consider "e = d" "n = m_name C" "k = c" | "\<exists>E'. tree_nodes w e = Some E' \<and> m_children E' n = Some k"
    proof (cases "e = d \<and> n = m_name C")
      case False
      then have "\<exists>E'. tree_nodes w e = Some E' \<and> m_children E' n = Some k"
        using e assms(2,3) cd by (cases "e = d"; cases "e = c") (auto simp: linked_def)
      then show ?thesis using that by blast
    qed (use e cd that in \<open>auto simp: linked_def\<close>)
    then show "\<exists>K. tree_nodes (linked d D c C w) k = Some K \<and> m_name K = n \<and> m_parent K = Some e"
    proof cases
      case 1
      then show ?thesis using cd by (simp add: linked_def)
    next
      case 2
      then obtain K where "tree_nodes w k = Some K" "m_name K = n" "m_parent K = Some e"
        using assms(1) unfolding tree_inv_def links_down_def by blast
      then show ?thesis using assms(2,3,6) cd by (auto simp: linked_def)
    qed
  qed
  moreover have "links_up (linked d D c C w)"
    unfolding links_up_def
  proof (intro allI impI, elim conjE)
    fix k K e assume k: "tree_nodes (linked d D c C w) k = Some K" "m_parent K = Some e"
    show "\<exists>E. tree_nodes (linked d D c C w) e = Some E \<and> m_children E (m_name K) = Some k"
    proof (cases "k = c")
      case True
      then show ?thesis using k cd by (auto simp: linked_def)
    next
      case False
      then obtain K' where K': "tree_nodes w k = Some K'" "m_name K' = m_name K" "m_parent K' = Some e"
        using k assms(2) by (cases "k = d") (auto simp: linked_def)
      then obtain E where E: "tree_nodes w e = Some E" "m_children E (m_name K) = Some k"
        using assms(1) unfolding tree_inv_def links_up_def by metis
      show ?thesis using E assms(2,3,5) cd by (cases "e = d"; cases "e = c") (auto simp: linked_def)
    qed
  qed
  ultimately show ?thesis by (simp add: tree_inv_def)
qed

lemma remove_linked:
  assumes "tree_nodes w d = Some D" "tree_nodes w c = Some C" "c \<noteq> d" "m_children D (m_name C) = None" "m_parent C = None"
  shows "remove_child d (m_name C) (linked d D c C w) = Some (Inr (SUCCESS, w))"
proof -
  have "(m_children D)(m_name C := None) = m_children D" "C\<lparr>m_parent := None\<rparr> = C"
    using assms(4,5) by (auto simp: fun_eq_iff)
  moreover have "(tree_nodes w)(c \<mapsto> C, d \<mapsto> D) = tree_nodes w" using assms(1,2) by (auto simp: fun_eq_iff)
  ultimately show ?thesis using assms(1,3)
    by (cases w) (auto simp: remove_child_def linked_def fun_upd_twist)
qed

section \<open>The order of the handlers\<close>

definition inserted :: "EventHandler \<Rightarrow> EventHandler list \<Rightarrow> EventHandler list" where
  "inserted h hs = takeWhile (\<lambda>x. \<not> m_priority h < m_priority x) hs @ h # dropWhile (\<lambda>x. \<not> m_priority h < m_priority x) hs"

lemma add_event_handler_run: "add_event_handler h w = Some (Inr ((), w\<lparr>m_handlers := inserted h (m_handlers w)\<rparr>))"
  by (simp add: add_event_handler_def inserted_def upper_bound_def Let_def takeWhile_eq_take [symmetric] dropWhile_eq_drop [symmetric])

lemma inserted_simps [simp]:
  "inserted h [] = [h]"
  "inserted h (x # hs) = (if m_priority h < m_priority x then h # x # hs else x # inserted h hs)"
  by (simp_all add: inserted_def)

lemma mset_inserted: "mset (inserted h hs) = add_mset h (mset hs)"
  by (induction hs) simp_all

lemma set_inserted: "set (inserted h hs) = insert h (set hs)"
  by (induction hs) auto

lemma sorted_inserted: "sorted (map m_priority hs) \<Longrightarrow> sorted (map m_priority (inserted h hs))"
  by (induction hs) (auto simp: set_inserted not_less intro: less_imp_le order_trans)

text \<open>The new handler comes after all the others of its priority.\<close>

lemma filter_inserted:
  assumes "sorted (map m_priority hs)"
  shows "filter (\<lambda>x. m_priority x = k) (inserted h hs) = filter (\<lambda>x. m_priority x = k) (hs @ [h])"
  using assms
proof (induction hs)
  case (Cons x hs)
  have "filter (\<lambda>y. m_priority y = m_priority h) (x # hs) = []" if "m_priority h < m_priority x"
    using that Cons.prems by (auto simp: filter_empty_conv)
  then show ?case using Cons by auto
qed simp

lemma inserted_sort: "inserted h (sort_key m_priority hs) = sort_key m_priority (hs @ [h])"
proof (rule sym, rule properties_for_sort_key)
  show "mset (inserted h (sort_key m_priority hs)) = mset (hs @ [h])" by (simp add: mset_inserted)
  show "sorted (map m_priority (inserted h (sort_key m_priority hs)))" by (simp add: sorted_inserted)
  show "filter (\<lambda>x. m_priority k = m_priority x) (inserted h (sort_key m_priority hs)) =
      filter (\<lambda>x. m_priority k = m_priority x) (hs @ [h])" for k
    using sort_key_stable [of m_priority "m_priority k" hs] by (simp add: filter_inserted eq_commute [of "m_priority k"])
qed

primrec add_handlers :: "EventHandler list \<Rightarrow> (dev_tree, unit) km" where
  "add_handlers [] = retK ()"
| "add_handlers (h # hs) = seqK (add_event_handler h) (add_handlers hs)"

section \<open>Properties\<close>

text \<open>
  C39: Adding a node that has no parent and is not above the directory, under a name that is free,
  succeeds and keeps the tree well formed; the node is then found under its name, its path is the
  path of the directory followed by its name, and removing it restores the tree exactly.
\<close>

theorem add_child_correct:
  assumes "tree_inv w" "tree_nodes w d = Some D" "tree_nodes w c = Some C" "\<not> above w c d" "m_children D (m_name C) = None" "m_parent C = None"
  shows "\<exists>w' p. add_child d (Some c) w = Some (Inr (SUCCESS, w')) \<and> tree_inv w' \<and>
    find_child d (m_name C) w' = Some (Inr (Some c, w')) \<and>
    path w' d = Some p \<and> path w' c = Some (p @ ''/'' @ m_name C) \<and>
    remove_child d (m_name C) w' = Some (Inr (SUCCESS, w))"
proof -
  let ?w = "linked d D c C w"
  have cd: "c \<noteq> d" using assms(4) above_self by blast
  have inv: "tree_inv ?w" by (rule linked_inv [OF assms])
  have d: "d \<in> dom (tree_nodes ?w)" by (simp add: linked_def)
  then obtain p where p: "path ?w d = Some p" using path_resolves [of ?w d] inv by (auto simp: tree_inv_def)
  moreover have "path ?w c = Some (p @ ''/'' @ m_name C)"
    using p cd by (simp add: path.simps [of ?w c]) (simp add: linked_def)
  moreover have "find_child d (m_name C) ?w = Some (Inr (Some c, ?w))" by (simp add: find_child_def linked_def)
  ultimately show ?thesis using inv add_child_run [OF assms(2,3) cd assms(5)] remove_linked [OF assms(2,3) cd assms(5,6)] by blast
qed

definition demo_node :: "string \<Rightarrow> bool \<Rightarrow> Node" where
  "demo_node n dir = \<lparr>m_name = n, m_major = 1, m_minor = 0, m_parent = None, is_directory = dir, m_children = Map.empty\<rparr>"

definition demo_tree :: dev_tree where
  "demo_tree = \<lparr>tree_nodes = [0 \<mapsto> demo_node ''dev'' True, 1 \<mapsto> demo_node ''tty'' False], m_mounts = Map.empty, m_devices = [0, 1], m_handlers = []\<rparr>"

theorem add_child_correct_witness:
  "\<exists>w' p. add_child 0 (Some 1) demo_tree = Some (Inr (SUCCESS, w')) \<and> tree_inv w' \<and> path w' 0 = Some p \<and> path w' 1 = Some (p @ ''/tty'')"
proof -
  have top: "rooted demo_tree a" if "a \<in> {0, 1}" for a
    using that by (intro rooted_top [of _ _ "if a = 0 then demo_node ''dev'' True else demo_node ''tty'' False"]) (auto simp: demo_tree_def demo_node_def)
  have inv: "tree_inv demo_tree"
    using top by (auto simp: tree_inv_def links_down_def links_up_def) (auto simp: demo_tree_def demo_node_def split: if_splits)
  have na: "\<not> above demo_tree 1 0"
  proof
    assume "above demo_tree 1 0"
    then show False by cases (auto simp: demo_tree_def demo_node_def)
  qed
  show ?thesis
    using add_child_correct [OF inv _ _ na, of "demo_node ''dev'' True" "demo_node ''tty'' False"]
    by (auto simp: demo_tree_def demo_node_def)
qed

text \<open>
  C40: Registering handlers one after the other leaves them sorted by priority, and handlers of
  the same priority in the order in which they were registered: the result is the stable sort.
\<close>

theorem handlers_sorted:
  assumes "m_handlers w = []"
  shows "add_handlers hs w = Some (Inr ((), w\<lparr>m_handlers := sort_key m_priority hs\<rparr>))"
proof -
  have "add_handlers hs (w\<lparr>m_handlers := sort_key m_priority ks\<rparr>) = Some (Inr ((), w\<lparr>m_handlers := sort_key m_priority (ks @ hs)\<rparr>))" for ks
    by (induction hs arbitrary: ks) (simp_all add: add_event_handler_run inserted_sort)
  from this [of "[]"] assms show ?thesis by (cases w) simp
qed

theorem handlers_sorted_witness:
  "add_handlers [\<lparr>m_priority = LOW, handler_id = 1\<rparr>, \<lparr>m_priority = HIGH, handler_id = 2\<rparr>] demo_tree =
    Some (Inr ((), demo_tree\<lparr>m_handlers := [\<lparr>m_priority = HIGH, handler_id = 2\<rparr>, \<lparr>m_priority = LOW, handler_id = 1\<rparr>]\<rparr>))"
  using handlers_sorted [of demo_tree "[\<lparr>m_priority = LOW, handler_id = 1\<rparr>, \<lparr>m_priority = HIGH, handler_id = 2\<rparr>]"]
  by (simp add: demo_tree_def less_eq_Priority_def)

end
