(* ===== verification/Spec2Isabelle.thy ===== *)
theory Spec2Isabelle
  imports MemInit SchedRun NetServer KTree Elf MyDevice BlockPmm Interrupts Multiboot ProcTable Reaper DevFs FileTask StealQueue FileObj
    Apic DirMove DataProc DevTree
begin

text \<open>
  A verification development for FarouKernel: a kernel's memory manager, loaders, interrupt
  code and scheduler, and the user-space services around it (a network server, process
  management, file systems, devices and tools), in C, C++ and assembly. The parts of the
  repository are mostly separate programs. Where one part calls another, the theory of the
  caller imports the theory of the called part and uses its lemmas; this theory imports all.
\<close>

section \<open>Method\<close>

text \<open>
  A C function is a definition of type \<^typ>\<open>('s, 'a) km\<close>: it takes a state and
  either never returns (the value \<open>None\<close>), stops the program (\<open>Some (Inl stop)\<close>, where a stop is a
  panic, an exit or a fault such as an access outside an array), or returns a value and a
  new state. Structures are records and enumerations datatypes. Machine integers are
  words of their width, so wrap-around is that of the hardware; where a C
  \<open>int\<close> is read from text, leaving its range is a branch of its own. Memory that code
  reaches by address (physical memory, heap, ELF image, Multiboot information) is a function
  from addresses, so that aliasing is part of the model. C++ exceptions are left values.

  Loops are the combinators \<open>forK\<close>, \<open>whileK\<close> and \<open>loopK\<close> of \<^verbatim>\<open>KPrelude\<close>. The last two are partial
  functions into \<open>option\<close>: there is no fuel in the model, a loop without an end has the value
  \<open>None\<close>. The properties state that an operation has a result \<open>Some \<dots>\<close>, and
  their proofs give a measure for every loop. Where the end of a loop depends on the system (calls that may
  be interrupted again and again), the hypothesis is that from some call on it no longer
  happens; its bound is arbitrary.

  What a system call, the C library, the clock, another processor or a device answers is an
  argument of the operations, mostly a function of the number of calls made so far; statements
  quantify over it. Threads interleave operation by operation where every operation holds a lock
  (\<open>sched_step\<close> of \<^verbatim>\<open>SchedRun\<close>), and while a thread waits the others are an argument.
\<close>

section \<open>Shared theories\<close>

text \<open>
  \<^item> \<^verbatim>\<open>KPrelude\<close>: integer types, results, sequencing and loops with their rules, spin locks,
    work on a part of a state, exceptions, facts on words, lists and finite sets.
  \<^item> \<^verbatim>\<open>Contracts\<close>: the interfaces. \<open>frame_source\<close> and \<open>total_frame_source\<close> say what an allocator
    promises (implemented by the frame allocator in \<^verbatim>\<open>Pmm\<close>, the block allocator in
    \<^verbatim>\<open>BlockPmm\<close> and the node pool in \<^verbatim>\<open>KTree\<close>), \<open>page_map\<close> what mapping and unmapping promise
    (\<^verbatim>\<open>Vmm\<close>), \<open>fifo_queue\<close> what a queue promises (the work queue in \<^verbatim>\<open>NetPool\<close>, the ring buffer
    in \<^verbatim>\<open>KTree\<close>). \<^verbatim>\<open>ProcTable\<close> has a further one, \<open>keyed_field\<close>, for its nine fields
    with a getter and a setter.
  \<^item> \<^verbatim>\<open>BitWords\<close>: bitmaps as lists of words. \<^verbatim>\<open>PageTree\<close>: the walk of the hardware over page
    tables. \<^verbatim>\<open>CText\<close>: characters and numbers as the C library reads and prints them.
\<close>

section \<open>The kernel\<close>

text \<open>
  \<^item> \<^verbatim>\<open>src/kernel/memory.c\<close>. \<^verbatim>\<open>Console\<close> models the serial port, \<open>kprintf\<close> and \<open>kpanic\<close>;
    \<^verbatim>\<open>Pmm\<close> the frame bitmap, which lies in the memory it manages; \<^verbatim>\<open>Vmm\<close> the page tables, which
    are frames of \<^verbatim>\<open>Pmm\<close>; \<^verbatim>\<open>KHeap\<close>, \<^verbatim>\<open>KHeapTiling\<close>, \<^verbatim>\<open>KHeapOps\<close> and \<^verbatim>\<open>KHeapAlloc\<close> the heap,
    which grows by mapping pages with \<^verbatim>\<open>Vmm\<close>; \<^verbatim>\<open>MemInit\<close> the initialisation. Each part extends the state
    record of the one before it. Shown: allocation hands out free frames, marks exactly those
    and never writes into the bitmap; freeing gives back exactly the frame; mapping and
    unmapping change exactly one translation of the hardware walk; \<open>kmalloc\<close> returns a
    mapped, aligned block that overlaps no other, or null exactly when the heap cannot grow;
    \<open>kfree\<close> releases exactly its block and merges neighbours; boot establishes the
    frame allocator. The heap is a tiling by blocks whose free ones are the free list.
  \<^item> \<^verbatim>\<open>src/kernel/scheduler.c\<close>: \<^verbatim>\<open>Sched\<close>, \<^verbatim>\<open>SchedInv\<close> and \<^verbatim>\<open>SchedRun\<close>. Shown: the outcomes of task
    creation, the compaction loop computes \<open>filter\<close>, a manager round removes every finished
    task, and all interleavings keep table and threads in agreement.
  \<^item> \<^verbatim>\<open>src/arch/x86_64/idt.c\<close>, \<^verbatim>\<open>pic.c\<close>, \<^verbatim>\<open>isr.S\<close>: \<^verbatim>\<open>Interrupts\<close>. Shown: the 256 gates, masking
    touches one line, the stubs restore every register. \<^verbatim>\<open>src/kernel/interrupts.c\<close>: \<^verbatim>\<open>Apic\<close>, on the same register
    file and stack. Shown: what each entry leaves to the interrupted program, which for
    these stubs is not what it had.
  \<^item> \<^verbatim>\<open>src/kernel/arch/x86_64/mm/pmm.c\<close>: \<^verbatim>\<open>BlockPmm\<close>. Shown: an allocated run was free, and
    when the search from the hint fails.
  \<^item> \<^verbatim>\<open>src/mm/kernel_tree.h\<close>: \<^verbatim>\<open>KTree\<close>. Shown: nodes of the pool are handed out once, the ring
    buffer is a queue, the bitmap operations are those of sets.
  \<^item> \<^verbatim>\<open>src/kernel/startup.c\<close>: \<^verbatim>\<open>Elf\<close>. Shown: no header is read outside the file, and memory
    holds what the program headers ask for. \<^verbatim>\<open>multiboot2_parser.c\<close> of the boot loader:
    \<^verbatim>\<open>Multiboot\<close>. Shown: the search ends on a list with an end tag and finds the first tag.
\<close>

section \<open>Services\<close>

text \<open>
  \<^item> \<^verbatim>\<open>src/net/network.c\<close>: \<^verbatim>\<open>NetBase\<close> (data and system calls), \<^verbatim>\<open>NetIO\<close> (\<open>send_full\<close>,
    \<open>recv_full\<close>), \<^verbatim>\<open>NetText\<close> (command lines), \<^verbatim>\<open>NetRate\<close> (the rate limiter against a map of
    counters), \<^verbatim>\<open>NetPool\<close> (workers and their queue), \<^verbatim>\<open>NetConfig\<close> (the command line) and
    \<^verbatim>\<open>NetServer\<close> (serving a client, the listening socket, \<open>main\<close>). Shown: transfers are complete
    or report a proper prefix, input is stripped and cut as documented, clients leave the queue in
    order, and serving a client returns and closes its socket once on every path.
  \<^item> \<^verbatim>\<open>src/kernel/processes.h\<close>: \<^verbatim>\<open>ProcTable\<close>; \<^verbatim>\<open>src/kernel/processes.cpp\<close>: \<^verbatim>\<open>Reaper\<close>. Shown: identifiers
    are not used twice and operations touch only the process they name; the reaper removes exactly the
    children reported as ended, and ends when it is told to.
  \<^item> \<^verbatim>\<open>src/kernel/main.c\<close>: \<^verbatim>\<open>StealQueue\<close>. Shown: no task is lost or duplicated, and the number of
    workers stays within its limits.
  \<^item> \<^verbatim>\<open>src/kernel/mydevice.c\<close>: \<^verbatim>\<open>MyDevice\<close>; \<^verbatim>\<open>src/fs/devfs.c\<close>: \<^verbatim>\<open>DevFs\<close>. Shown: every access stays inside the
    buffer, and, for \<open>devfs_fill_super\<close>, all outcomes with the two that go wrong.
  \<^item> \<^verbatim>\<open>src/fs/devfs.h\<close>: \<^verbatim>\<open>DevTree\<close>; \<^verbatim>\<open>src/fs/dir_functions.cpp\<close>: \<^verbatim>\<open>DirMove\<close>; \<^verbatim>\<open>src/fs/file.cpp\<close>: \<^verbatim>\<open>FileObj\<close>;
    \<^verbatim>\<open>src/fs/read_write.c\<close>: \<^verbatim>\<open>FileTask\<close>. Shown: adding to the tree and its paths, handlers in
    stable order of priority, all outcomes of a move, lines written are lines read, where a seek leads, and a
    task that reports no error has stored and printed its data.
  \<^item> \<^verbatim>\<open>src/kernel/Dataprocessor.cpp\<close>: \<^verbatim>\<open>DataProc\<close>. Shown: the parser reads back what two of the output
    formats print.
\<close>

section \<open>Not modelled\<close>

text \<open>
  Left out of modelled files: \<open>ktree_insert\<close>, \<open>start_kernel\<close>, \<open>smp_init\<close> and \<open>addProcess\<close> of \<^verbatim>\<open>processes.cpp\<close>, in the middle of
  which their files end; the time functions and \<open>getDirectorySize\<close> of \<^verbatim>\<open>dir_functions.cpp\<close>, \<open>getLastModifiedTime\<close> of
  \<^verbatim>\<open>file.cpp\<close> (the model has no times of files); \<open>main\<close> of \<^verbatim>\<open>read_write.c\<close>; futures and
  the barrier of \<^verbatim>\<open>src/kernel/main.c\<close>; set-up and signal handler of \<^verbatim>\<open>processes.cpp\<close>; mounting
  and module entry of \<^verbatim>\<open>devfs.c\<close>; text on the terminal where a theory says so. The effect of weak memory
  ordering is not modelled: atomic operations are steps of one sequence.

  Left out as a whole: \<^verbatim>\<open>src/kernel/arch/x86_64/mm/paging.c\<close> and \<^verbatim>\<open>vmm.c\<close>, which use
  physical and virtual addresses of tables alike, and \<^verbatim>\<open>src/arch/x86_64/paging.c\<close>, which places tables
  over unknown data; the other versions of interrupt set-up (\<^verbatim>\<open>isr.c\<close>,
  \<^verbatim>\<open>irq.c\<close>, \<^verbatim>\<open>exceptions.c\<close>, \<^verbatim>\<open>pgtable.c\<close>, \<^verbatim>\<open>gdt.c\<close>, \<^verbatim>\<open>tss.c\<close>) and the boot code in assembly, which need the
  system registers of the processor; \<^verbatim>\<open>syscall.c\<close>, \<^verbatim>\<open>kernel.c\<close> and \<^verbatim>\<open>fs.cpp\<close>, which pass every call on;
  \<^verbatim>\<open>platform.c\<close>, \<^verbatim>\<open>fs.h\<close> and the console, which do not compile or have no bodies;
  \<^verbatim>\<open>thread_pool.h\<close>, which only declares; the stand-alone kernel \<^verbatim>\<open>src/kernel/boot/Main.c\<close>; and the separate example programs under
  \<^verbatim>\<open>src/mm\<close>, \<^verbatim>\<open>src/net\<close> and \<^verbatim>\<open>src/kernel\<close> (\<^verbatim>\<open>timer.c\<close>, \<^verbatim>\<open>util.c\<close>, \<^verbatim>\<open>setup.c\<close>, \<^verbatim>\<open>system.c\<close>).
\<close>

end
